(* ===== verification/Prelude.thy ===== *)
theory Prelude
  imports Main "HOL-Library.Sublist" "HOL-Library.Multiset"
begin

text \<open>
  Shared vocabulary of the development: Go's \<^verbatim>\<open>time.Time\<close> and
  \<^verbatim>\<open>time.Duration\<close> as integers, the JSON state files of the agent with the
  interface (a locale) under which the file stores use them, linear search as the
  code writes it (a loop that returns an index or -1), stable sorting
  (\<^verbatim>\<open>sort.SliceStable\<close>), and the list lemmas the components share.
\<close>

named_theorems store_defs \<open>unfolding rules of the store operations\<close>
named_theorems go_eval \<open>equations that evaluate the text functions on closed strings\<close>

section \<open>Time\<close>

text \<open>
  A \<open>time\<close> is the number of nanoseconds since Go's zero time (1 January of year 1, UTC), so
  that \<^verbatim>\<open>t.IsZero()\<close> is \<open>t = 0\<close>, \<^verbatim>\<open>a.After(b)\<close> is \<open>b < a\<close> and
  \<^verbatim>\<open>t.Add(d)\<close> is \<open>t + d\<close>. The difference of two times saturates at the ends of the
  64-bit duration, as \<^verbatim>\<open>Time.Sub\<close> does.
\<close>

type_synonym time = int
type_synonym duration = int

definition nanosecond :: duration where "nanosecond = 1"
definition millisecond :: duration where "millisecond = 1000000"
definition second :: duration where "second = 1000000000"
definition minute :: duration where "minute = 60 * second"
definition hour :: duration where "hour = 60 * minute"

definition maxDuration :: duration where "maxDuration = 2 ^ 63 - 1"
definition minDuration :: duration where "minDuration = - (2 ^ 63)"

definition time_sub :: "time \<Rightarrow> time \<Rightarrow> duration" where
  "time_sub t u = max minDuration (min maxDuration (t - u))"

text \<open>Go's \<^verbatim>\<open>int\<close> and \<^verbatim>\<open>int64\<close> have 64 bits: what an operation leaves of its result.\<close>

definition wrap64 :: "int \<Rightarrow> int" where
  "wrap64 n = (n + 2 ^ 63) mod 2 ^ 64 - 2 ^ 63"

lemma wrap64_id: "- (2 ^ 63) \<le> n \<Longrightarrow> n < 2 ^ 63 \<Longrightarrow> wrap64 n = n"
  by (simp add: wrap64_def)

lemmas time_units = nanosecond_def millisecond_def second_def minute_def hour_def

section \<open>JSON state files\<close>

text \<open>
  What is on disk at a store's path: nothing, a file that cannot be read, an empty file, bytes that
  do not parse, or a parsed list of records.
\<close>

datatype 'a disk = Missing | Unreadable | Blank | Garbled | Content "'a list"

text \<open>
  The contract a store's client relies on. \<open>load\<close> reads the records or fails; \<open>save ok xs f\<close>
  writes the records, where \<open>ok\<close> says whether the file system accepts the write. A store that writes
  to a temporary file and renames it keeps the old content when the write fails.
\<close>

locale json_file =
  fixes load :: "'a disk \<Rightarrow> 'e + 'a list"
    and save :: "bool \<Rightarrow> 'a list \<Rightarrow> 'a disk \<Rightarrow> 'a disk"
  assumes load_missing: "load Missing = Inr []"
    and load_content: "load (Content xs) = Inr xs"
    and save_ok: "save True xs f = Content xs"
begin

lemma load_save: "load (save True xs f) = Inr xs"
  by (simp add: save_ok load_content)

end

locale atomic_json_file = json_file +
  assumes save_failed: "save False xs f = f"
begin

lemma load_save_cases: "load (save ok xs f) = (if ok then Inr xs else load f)"
  by (cases ok) (simp_all add: save_failed load_save)

lemma save_same: "load f = Inr xs \<Longrightarrow> load (save ok xs f) = Inr xs"
  by (simp add: load_save_cases)

end

section \<open>Linear search\<close>

fun find_index :: "('a \<Rightarrow> bool) \<Rightarrow> 'a list \<Rightarrow> nat option" where
  "find_index P [] = None"
| "find_index P (x # xs) = (if P x then Some 0 else map_option Suc (find_index P xs))"

lemma find_index_None [simp]: "find_index P xs = None \<longleftrightarrow> (\<forall>x \<in> set xs. \<not> P x)"
  by (induction xs) auto

lemma find_index_SomeD:
  "find_index P xs = Some i \<Longrightarrow> i < length xs \<and> P (xs ! i) \<and> (\<forall>j < i. \<not> P (xs ! j))"
proof (induction xs arbitrary: i)
  case Nil
  then show ?case by simp
next
  case (Cons x xs)
  show ?case
  proof (cases "P x")
    case True
    with Cons.prems show ?thesis by simp
  next
    case False
    with Cons.prems obtain k where k: "find_index P xs = Some k" "i = Suc k" by auto
    from Cons.IH [OF k(1)] False k(2) show ?thesis
      by (auto simp: less_Suc_eq_0_disj)
  qed
qed

lemma find_index_bound: "find_index P xs = Some i \<Longrightarrow> i < length xs"
  and find_index_holds: "find_index P xs = Some i \<Longrightarrow> P (xs ! i)"
  using find_index_SomeD by fast+

lemma find_index_unique:
  assumes "i < length xs" "P (xs ! i)" "\<And>j. j < length xs \<Longrightarrow> P (xs ! j) \<Longrightarrow> j = i"
  shows "find_index P xs = Some i"
proof (cases "find_index P xs")
  case None
  with assms(1,2) show ?thesis by (metis find_index_None nth_mem)
next
  case (Some j)
  with assms(3) show ?thesis using find_index_SomeD [OF Some] by auto
qed

section \<open>Updating one element\<close>

text \<open>\<open>update_at xs i f\<close> is the code's in-place change of \<^verbatim>\<open>xs[i]\<close> through its fields.\<close>

definition update_at :: "'a list \<Rightarrow> nat \<Rightarrow> ('a \<Rightarrow> 'a) \<Rightarrow> 'a list" where
  "update_at xs i f = xs[i := f (xs ! i)]"

lemma length_update_at [simp]: "length (update_at xs i f) = length xs"
  by (simp add: update_at_def)

lemma update_at_same [simp]: "i < length xs \<Longrightarrow> update_at xs i f ! i = f (xs ! i)"
  by (simp add: update_at_def)

lemma update_at_other [simp]: "i \<noteq> j \<Longrightarrow> update_at xs i f ! j = xs ! j"
  by (simp add: update_at_def)

lemma nth_update_at:
  "j < length xs \<Longrightarrow> update_at xs i f ! j = (if i = j then f (xs ! i) else xs ! j)"
  by (auto simp: update_at_def nth_list_update)

lemma map_update_at:
  "(\<And>x. g (f x) = g x) \<Longrightarrow> map g (update_at xs i f) = map g xs"
  by (rule nth_equalityI) (auto simp: nth_update_at)

lemma set_update_at_subset: "set (update_at xs i f) \<subseteq> insert (f (xs ! i)) (set xs)"
  by (auto simp: update_at_def dest: set_update_subset_insert [THEN subsetD])

section \<open>Stable sorting and keeping a tail\<close>

text \<open>
  \<^verbatim>\<open>sort.SliceStable\<close> by an ascending key is the library's \<open>sort_key\<close>, which is stable; by a
  descending key it is \<open>sort_key\<close> of the negated key.
\<close>

definition stable_sort_desc :: "('a \<Rightarrow> int) \<Rightarrow> 'a list \<Rightarrow> 'a list" where
  "stable_sort_desc k xs = sort_key (\<lambda>x. - k x) xs"

lemma set_stable_sort_desc [simp]: "set (stable_sort_desc k xs) = set xs"
  by (simp add: stable_sort_desc_def)

lemma mset_stable_sort_desc [simp]: "mset (stable_sort_desc k xs) = mset xs"
  by (simp add: stable_sort_desc_def)

lemma length_stable_sort_desc [simp]: "length (stable_sort_desc k xs) = length xs"
  by (simp add: stable_sort_desc_def)

lemma sorted_stable_sort_desc: "sorted_wrt (\<lambda>x y. k y \<le> k x) (stable_sort_desc k xs)"
proof -
  have "sorted (map (\<lambda>x. - k x) (stable_sort_desc k xs))"
    by (simp add: stable_sort_desc_def)
  then show ?thesis by (simp add: sorted_map)
qed

text \<open>\<^verbatim>\<open>out[:limit]\<close> when \<open>limit\<close> is positive and smaller than the length.\<close>

definition go_limit :: "int \<Rightarrow> 'a list \<Rightarrow> 'a list" where
  "go_limit n xs = (if n > 0 \<and> int (length xs) > n then take (nat n) xs else xs)"

lemma set_go_limit: "set (go_limit n xs) \<subseteq> set xs"
  by (auto simp: go_limit_def dest: in_set_takeD)

lemma length_go_limit: "n > 0 \<Longrightarrow> int (length (go_limit n xs)) \<le> n"
  by (auto simp: go_limit_def)

lemma sorted_wrt_go_limit: "sorted_wrt R xs \<Longrightarrow> sorted_wrt R (go_limit n xs)"
  by (auto simp: go_limit_def sorted_wrt_take)

text \<open>\<^verbatim>\<open>xs[len(xs)-n:]\<close> when the list is longer than \<open>n\<close>.\<close>

definition keep_last :: "nat \<Rightarrow> 'a list \<Rightarrow> 'a list" where
  "keep_last n xs = (if length xs > n then drop (length xs - n) xs else xs)"

lemma length_keep_last [simp]: "length (keep_last n xs) = min n (length xs)"
  by (simp add: keep_last_def)

lemma set_keep_last: "set (keep_last n xs) \<subseteq> set xs"
  by (auto simp: keep_last_def dest: in_set_dropD)

lemma keep_last_append: "\<exists>ys. xs = ys @ keep_last n xs"
  by (metis append_Nil append_take_drop_id keep_last_def)

lemma keep_last_recent:
  assumes "sorted_wrt R xs" "x \<in> set xs" "x \<notin> set (keep_last n xs)" "y \<in> set (keep_last n xs)"
  shows "R x y"
proof -
  obtain ys where ys: "xs = ys @ keep_last n xs" using keep_last_append by blast
  with assms(2,3) have "x \<in> set ys" by (metis Un_iff set_append)
  with assms(1,4) ys show ?thesis by (metis sorted_wrt_append)
qed

lemma filter_partition_mset:
  "mset (filter P xs) + mset (filter (\<lambda>x. \<not> P x) xs) = mset xs"
  by (induction xs) auto

section \<open>Distinctness and pointwise relations\<close>

lemma distinct_submset:
  assumes "distinct xs" "mset ys \<subseteq># mset xs"
  shows "distinct ys"
proof -
  have "count (mset ys) a = (if a \<in> set ys then 1 else 0)" for a
  proof -
    have "count (mset ys) a \<le> count (mset xs) a"
      using assms(2) by (rule mset_subset_eq_count)
    also have "\<dots> \<le> 1" using assms(1) by (simp add: distinct_count_atmost_1)
    finally show ?thesis
      by (cases "a \<in> set ys") (simp_all add: le_Suc_eq count_mset_0_iff)
  qed
  then show ?thesis by (simp add: distinct_count_atmost_1)
qed

lemma distinct_map_submset:
  "distinct (map f xs) \<Longrightarrow> mset ys \<subseteq># mset xs \<Longrightarrow> distinct (map f ys)"
  by (rule distinct_submset [of "map f xs"]) (simp_all add: image_mset_subseteq_mono)

lemma list_all2_update_at:
  assumes "\<And>x. R x x" "i < length xs \<Longrightarrow> R (xs ! i) (f (xs ! i))"
  shows "list_all2 R xs (update_at xs i f)"
  by (rule list_all2_all_nthI) (auto simp: nth_update_at assms)

lemma list_all2_refl_all: "(\<And>x. R x x) \<Longrightarrow> list_all2 R xs xs"
  by (simp add: list_all2_same)

lemma list_all2_in_set: "list_all2 R xs ys \<Longrightarrow> y \<in> set ys \<Longrightarrow> \<exists>x \<in> set xs. R x y"
  by (metis in_set_conv_nth list_all2_conv_all_nth)

lemma list_all2_map_eq: "list_all2 R xs ys \<Longrightarrow> (\<And>x y. R x y \<Longrightarrow> f y = f x) \<Longrightarrow> map f ys = map f xs"
  by (induction rule: list_all2_induct) auto

end
