(* ===== verification/GoText.thy ===== *)
theory GoText
  imports Prelude "HOL-Library.Word"
begin

text \<open>
  The parts of Go's \<^verbatim>\<open>strings\<close>, \<^verbatim>\<open>strconv\<close>, \<^verbatim>\<open>unicode/utf8\<close> and
  \<^verbatim>\<open>encoding/hex\<close> packages that the agent's code calls. A Go string is a sequence of bytes, and
  so is an Isabelle \<open>string\<close> (a \<open>char\<close> is a byte); text beyond ASCII appears as its UTF-8 bytes.
\<close>

section \<open>Trimming white space\<close>

text \<open>
  The runes \<^verbatim>\<open>unicode.IsSpace\<close> accepts, in their UTF-8 encodings. A valid encoding at the end
  of a string is exactly what \<^verbatim>\<open>utf8.DecodeLastRune\<close> finds there, so trimming on the right strips
  encoded runes too.
\<close>

definition white_runes :: "string list" where
  "white_runes =
     [[CHR 0x09], [CHR 0x0A], [CHR 0x0B], [CHR 0x0C], [CHR 0x0D], [CHR 0x20],
      [CHR 0xC2, CHR 0x85], [CHR 0xC2, CHR 0xA0],
      [CHR 0xE1, CHR 0x9A, CHR 0x80],
      [CHR 0xE2, CHR 0x80, CHR 0x80], [CHR 0xE2, CHR 0x80, CHR 0x81],
      [CHR 0xE2, CHR 0x80, CHR 0x82], [CHR 0xE2, CHR 0x80, CHR 0x83],
      [CHR 0xE2, CHR 0x80, CHR 0x84], [CHR 0xE2, CHR 0x80, CHR 0x85],
      [CHR 0xE2, CHR 0x80, CHR 0x86], [CHR 0xE2, CHR 0x80, CHR 0x87],
      [CHR 0xE2, CHR 0x80, CHR 0x88], [CHR 0xE2, CHR 0x80, CHR 0x89],
      [CHR 0xE2, CHR 0x80, CHR 0x8A], [CHR 0xE2, CHR 0x80, CHR 0xA8],
      [CHR 0xE2, CHR 0x80, CHR 0xA9], [CHR 0xE2, CHR 0x80, CHR 0xAF],
      [CHR 0xE2, CHR 0x81, CHR 0x9F], [CHR 0xE3, CHR 0x80, CHR 0x80]]"

function strip :: "string list \<Rightarrow> string \<Rightarrow> string" where
  "strip ws s =
     (case find (\<lambda>w. w \<noteq> [] \<and> prefix w s) ws of
        None \<Rightarrow> s
      | Some w \<Rightarrow> strip ws (drop (length w) s))"
  by pat_completeness auto
termination
proof (relation "measure (\<lambda>(ws, s). length s)")
  fix ws :: "string list" and s w
  assume "find (\<lambda>w. w \<noteq> [] \<and> prefix w s) ws = Some w"
  then have "w \<noteq> []" "prefix w s" by (auto simp: find_Some_iff)
  then have "0 < length w" "length w \<le> length s" by (auto dest: prefix_length_le)
  then show "((ws, drop (length w) s), (ws, s)) \<in> measure (\<lambda>(ws, s). length s)"
    by (simp del: length_greater_0_conv)
qed simp

declare strip.simps [simp del, go_eval]

definition TrimSpace :: "string \<Rightarrow> string" where
  "TrimSpace s = rev (strip (map rev white_runes) (rev (strip white_runes s)))"

lemma strip_clean: "w \<in> set ws \<Longrightarrow> w \<noteq> [] \<Longrightarrow> \<not> prefix w (strip ws s)"
proof (induction ws s rule: strip.induct)
  case (1 ws s)
  show ?case
  proof (cases "find (\<lambda>w. w \<noteq> [] \<and> prefix w s) ws")
    case None
    with "1.prems" have "\<not> prefix w s" by (auto simp: find_None_iff)
    with None show ?thesis by (simp add: strip.simps [of ws s])
  next
    case (Some v)
    with "1.IH" "1.prems" show ?thesis by (simp add: strip.simps [of ws s])
  qed
qed

lemma strip_idem_when: "(\<And>w. w \<in> set ws \<Longrightarrow> w \<noteq> [] \<Longrightarrow> \<not> prefix w s) \<Longrightarrow> strip ws s = s"
proof -
  assume "\<And>w. w \<in> set ws \<Longrightarrow> w \<noteq> [] \<Longrightarrow> \<not> prefix w s"
  then have "find (\<lambda>w. w \<noteq> [] \<and> prefix w s) ws = None" by (auto simp: find_None_iff)
  then show ?thesis by (simp add: strip.simps [of ws s])
qed

lemma strip_suffix: "suffix (strip ws s) s"
proof (induction ws s rule: strip.induct)
  case (1 ws s)
  show ?case
  proof (cases "find (\<lambda>w. w \<noteq> [] \<and> prefix w s) ws")
    case None
    then show ?thesis by (simp add: strip.simps [of ws s])
  next
    case (Some v)
    with "1.IH" have "suffix (strip ws (drop (length v) s)) (drop (length v) s)" by simp
    then show ?thesis using Some
      by (simp add: strip.simps [of ws s]) (meson suffix_drop suffix_order.order_trans)
  qed
qed

lemma strip_Nil [simp]: "strip ws [] = []"
  using strip_suffix [of ws "[]"] by simp

lemma TrimSpace_Nil [simp]: "TrimSpace [] = []"
  by (simp add: TrimSpace_def)

lemma TrimSpace_prefix_stripped: "prefix (TrimSpace s) (strip white_runes s)"
proof -
  have "suffix (strip (map rev white_runes) (rev (strip white_runes s))) (rev (strip white_runes s))"
    by (rule strip_suffix)
  then show ?thesis by (simp add: TrimSpace_def suffix_to_prefix)
qed

lemma white_runes_nonempty: "w \<in> set white_runes \<Longrightarrow> w \<noteq> []"
  by (auto simp: white_runes_def)

lemma TrimSpace_no_leading: "w \<in> set white_runes \<Longrightarrow> \<not> prefix w (TrimSpace s)"
  using strip_clean [of w white_runes s] TrimSpace_prefix_stripped [of s] white_runes_nonempty
  by (meson prefix_order.order_trans)

lemma TrimSpace_no_trailing: "w \<in> set white_runes \<Longrightarrow> \<not> suffix w (TrimSpace s)"
proof -
  assume w: "w \<in> set white_runes"
  let ?t = "strip (map rev white_runes) (rev (strip white_runes s))"
  from w have "\<not> prefix (rev w) ?t"
    by (intro strip_clean) (auto dest: white_runes_nonempty)
  then show ?thesis by (simp add: TrimSpace_def suffix_to_prefix)
qed

text \<open>Trimming twice is trimming once: stored and compared values are in normal form.\<close>

lemma TrimSpace_idem [simp]: "TrimSpace (TrimSpace s) = TrimSpace s"
proof -
  have l: "strip white_runes (TrimSpace s) = TrimSpace s"
    by (rule strip_idem_when) (use TrimSpace_no_leading in blast)
  have r: "strip (map rev white_runes) (rev (TrimSpace s)) = rev (TrimSpace s)"
    by (rule strip_idem_when)
      (use TrimSpace_no_trailing in \<open>auto simp: suffix_to_prefix\<close>)
  show ?thesis by (subst TrimSpace_def) (simp add: l r)
qed

lemma TrimSpace_fixed:
  assumes "\<And>w. w \<in> set white_runes \<Longrightarrow> \<not> prefix w s \<and> \<not> suffix w s"
  shows "TrimSpace s = s"
proof -
  have l: "strip white_runes s = s"
    by (rule strip_idem_when) (use assms in blast)
  have r: "strip (map rev white_runes) (rev s) = rev s"
    by (rule strip_idem_when) (use assms in \<open>auto simp: suffix_to_prefix\<close>)
  show ?thesis by (simp add: TrimSpace_def l r)
qed

text \<open>A string of printable ASCII without blanks at its ends is its own trimming.\<close>

definition no_blank_ends :: "string \<Rightarrow> bool" where
  "no_blank_ends s \<longleftrightarrow> s = [] \<or>
     (0x20 < (of_char (hd s) :: nat) \<and> (of_char (hd s) :: nat) < 0x80 \<and>
      0x20 < (of_char (last s) :: nat) \<and> (of_char (last s) :: nat) < 0x80)"

lemma white_rune_ends:
  "w \<in> set white_runes \<Longrightarrow>
     ((of_char (hd w) :: nat) \<le> 0x20 \<or> 0x80 \<le> (of_char (hd w) :: nat)) \<and>
     ((of_char (last w) :: nat) \<le> 0x20 \<or> 0x80 \<le> (of_char (last w) :: nat))"
  by (auto simp: white_runes_def)

lemma TrimSpace_ascii: "no_blank_ends s \<Longrightarrow> TrimSpace s = s"
proof (cases "s = []")
  case True
  then show ?thesis by simp
next
  case False
  assume ends: "no_blank_ends s"
  show ?thesis
  proof (rule TrimSpace_fixed)
    fix w assume w: "w \<in> set white_runes"
    note ww = white_rune_ends [OF w] and ne = white_runes_nonempty [OF w]
    have "prefix w s \<Longrightarrow> hd w = hd s" using ne by (auto simp: prefix_def)
    moreover have "suffix w s \<Longrightarrow> last w = last s" using ne by (auto simp: suffix_def)
    ultimately show "\<not> prefix w s \<and> \<not> suffix w s"
      using ww ends False by (auto simp: no_blank_ends_def)
  qed
qed

section \<open>Searching\<close>

text \<open>\<^verbatim>\<open>strings.Index\<close>: the least position at which the pattern occurs.\<close>

fun index_from :: "nat \<Rightarrow> string \<Rightarrow> string \<Rightarrow> nat option" where
  "index_from n p [] = (if p = [] then Some n else None)"
| "index_from n p (c # s) = (if prefix p (c # s) then Some n else index_from (Suc n) p s)"

definition Index :: "string \<Rightarrow> string \<Rightarrow> nat option" where
  "Index s p = index_from 0 p s"

lemma index_from_Some:
  "index_from n p s = Some k \<Longrightarrow>
     n \<le> k \<and> k - n \<le> length s \<and> prefix p (drop (k - n) s) \<and> (\<forall>j < k - n. \<not> prefix p (drop j s))"
proof (induction n p s arbitrary: k rule: index_from.induct)
  case (1 n p)
  then show ?case by (auto split: if_splits)
next
  case (2 n p c s)
  show ?case
  proof (cases "prefix p (c # s)")
    case True
    with 2 show ?thesis by simp
  next
    case False
    with "2.prems" have "index_from (Suc n) p s = Some k" by simp
    from "2.IH" [OF False this] have
      ih: "Suc n \<le> k" "k - Suc n \<le> length s" "prefix p (drop (k - Suc n) s)"
        "\<forall>j < k - Suc n. \<not> prefix p (drop j s)" by auto
    from ih(1) have k: "k - n = Suc (k - Suc n)" by simp
    have "\<not> prefix p (drop j (c # s))" if "j < k - n" for j
      using that ih(4) False k by (cases j) auto
    with ih k show ?thesis by simp
  qed
qed

lemma index_from_None:
  "index_from n p s = None \<Longrightarrow> \<not> prefix p (drop j s)"
proof (induction n p s arbitrary: j rule: index_from.induct)
  case (1 n p)
  then show ?case by (auto split: if_splits)
next
  case (2 n p c s)
  then show ?case by (cases j) (auto split: if_splits)
qed

lemma Index_Some:
  "Index s p = Some k \<Longrightarrow> s = take k s @ p @ drop (k + length p) s \<and> k + length p \<le> length s"
proof -
  assume "Index s p = Some k"
  then have k: "k \<le> length s" "prefix p (drop k s)"
    using index_from_Some [of 0 p s k] by (simp_all add: Index_def)
  then obtain r where r: "drop k s = p @ r" by (auto simp: prefix_def)
  then have "drop (k + length p) s = r"
    by (metis add.commute append_eq_conv_conj drop_drop)
  moreover from r k(1) have "length s = k + length p + length r"
    by (metis add.assoc length_append append_take_drop_id length_take min_absorb2)
  ultimately show ?thesis using r by (metis append_take_drop_id le_add1)
qed

lemma Index_least: "Index s p = Some k \<Longrightarrow> j < k \<Longrightarrow> \<not> prefix p (drop j s)"
  using index_from_Some [of 0 p s k] by (auto simp: Index_def)

lemma Index_None: "Index s p = None \<Longrightarrow> \<not> prefix p (drop j s)"
  by (auto simp: Index_def dest: index_from_None)

text \<open>
  \<^verbatim>\<open>strings.ToLower\<close> on the ASCII letters. The code compares its result with words of ASCII
  letters other than \<open>k\<close> and \<open>i\<close>, the only two that other runes lower to.
\<close>

definition ascii_lower :: "char \<Rightarrow> char" where
  "ascii_lower c =
     (let n = (of_char c :: nat) in if 65 \<le> n \<and> n \<le> 90 then char_of (n + 32) else c)"

definition ToLower :: "string \<Rightarrow> string" where
  "ToLower s = map ascii_lower s"

text \<open>
  \<^verbatim>\<open>strings.ToUpper\<close> as far as words of ASCII letters can be found in its result: beside the
  ASCII letters only U+017F (bytes C5 BF, to S) and U+0131 (bytes C4 B1, to I) become one.
\<close>

fun ToUpper :: "string \<Rightarrow> string" where
  "ToUpper [] = []"
| "ToUpper (c # s) =
     (let n = (of_char c :: nat) in
      if n = 197 \<and> s \<noteq> [] \<and> hd s = CHR 0xBF then CHR ''S'' # ToUpper (tl s)
      else if n = 196 \<and> s \<noteq> [] \<and> hd s = CHR 0xB1 then CHR ''I'' # ToUpper (tl s)
      else (if 97 \<le> n \<and> n \<le> 122 then char_of (n - 32) else c) # ToUpper s)"

text \<open>The UTF-8 bytes of the Chinese literals of the source.\<close>

definition utf8 :: "nat list \<Rightarrow> string" where
  "utf8 bs = map char_of bs"

section \<open>Numbers\<close>

definition digit_char :: "nat \<Rightarrow> char" where
  "digit_char d = char_of (48 + d)"

fun nat_text :: "nat \<Rightarrow> string" where
  "nat_text n = (if n < 10 then [digit_char n] else nat_text (n div 10) @ [digit_char (n mod 10)])"

declare nat_text.simps [simp del, go_eval]

text \<open>\<^verbatim>\<open>fmt.Sprintf("%d", n)\<close>.\<close>

definition int_text :: "int \<Rightarrow> string" where
  "int_text n = (if n < 0 then ''-'' @ nat_text (nat (- n)) else nat_text (nat n))"

definition is_digit :: "char \<Rightarrow> bool" where
  "is_digit c \<longleftrightarrow> 48 \<le> (of_char c :: nat) \<and> (of_char c :: nat) \<le> 57"

definition digit_value :: "char \<Rightarrow> nat" where
  "digit_value c = of_char c - 48"

definition digits_value :: "string \<Rightarrow> nat" where
  "digits_value s = foldl (\<lambda>n c. 10 * n + digit_value c) 0 s"

text \<open>
  \<^verbatim>\<open>strconv.Atoi\<close>: an optional sign, at least one decimal digit and nothing else, in the range of
  a 64-bit integer; every other text is an error.
\<close>

definition Atoi :: "string \<Rightarrow> int option" where
  "Atoi s =
     (let neg = (s \<noteq> [] \<and> hd s = CHR ''-'');
          ds = (if s \<noteq> [] \<and> (hd s = CHR ''-'' \<or> hd s = CHR ''+'') then tl s else s);
          n = (if neg then - int (digits_value ds) else int (digits_value ds))
      in if ds \<noteq> [] \<and> list_all is_digit ds \<and> - (2 ^ 63) \<le> n \<and> n < 2 ^ 63 then Some n else None)"

lemma digit_char_value: "d < 10 \<Longrightarrow> is_digit (digit_char d) \<and> digit_value (digit_char d) = d"
  by (simp add: is_digit_def digit_value_def digit_char_def)

lemma digits_value_snoc: "digits_value (s @ [c]) = 10 * digits_value s + digit_value c"
  by (simp add: digits_value_def)

lemma nat_text_digits: "nat_text n \<noteq> [] \<and> list_all is_digit (nat_text n) \<and> digits_value (nat_text n) = n"
proof (induction n rule: nat_text.induct)
  case (1 n)
  show ?case
  proof (cases "n < 10")
    case True
    then show ?thesis
      by (simp add: nat_text.simps [of n] digit_char_value digits_value_def)
  next
    case False
    with "1.IH" show ?thesis
      by (simp add: nat_text.simps [of n] digit_char_value digits_value_snoc)
  qed
qed

lemma nat_text_hd: "hd (nat_text n) \<noteq> CHR ''-'' \<and> hd (nat_text n) \<noteq> CHR ''+''"
proof -
  from nat_text_digits [of n] have "is_digit (hd (nat_text n))"
    by (metis list.set_sel(1) list_all_iff)
  then show ?thesis by (auto simp: is_digit_def)
qed

text \<open>Printing and reading a 64-bit number back gives the number.\<close>

lemma Atoi_int_text: "- (2 ^ 63) \<le> n \<Longrightarrow> n < 2 ^ 63 \<Longrightarrow> Atoi (int_text n) = Some n"
  using nat_text_digits [of "nat n"] nat_text_digits [of "nat (- n)"]
    nat_text_hd [of "nat n"] nat_text_hd [of "nat (- n)"]
  by (auto simp: Atoi_def int_text_def Let_def)

lemma nat_text_inj: "nat_text m = nat_text n \<Longrightarrow> m = n"
  by (metis nat_text_digits)

lemma int_text_inj: "int_text m = int_text n \<Longrightarrow> m = n"
proof (cases "m < 0"; cases "n < 0")
  assume "int_text m = int_text n" "m < 0" "n < 0"
  then show ?thesis by (auto simp: int_text_def dest: nat_text_inj)
next
  assume "int_text m = int_text n" "m < 0" "\<not> n < 0"
  then show ?thesis using nat_text_hd [of "nat n"] by (auto simp: int_text_def)
      (metis list.sel(1))
next
  assume "int_text m = int_text n" "\<not> m < 0" "n < 0"
  then show ?thesis using nat_text_hd [of "nat m"] by (auto simp: int_text_def)
next
  assume "int_text m = int_text n" "\<not> m < 0" "\<not> n < 0"
  then show ?thesis by (auto simp: int_text_def dest: nat_text_inj)
qed

section \<open>Hexadecimal\<close>

type_synonym byte = "8 word"

definition nibble :: "nat \<Rightarrow> char" where
  "nibble d = (if d < 10 then char_of (48 + d) else char_of (87 + d))"

text \<open>\<^verbatim>\<open>hex.EncodeToString\<close>.\<close>

definition hex :: "byte list \<Rightarrow> string" where
  "hex bs = concat (map (\<lambda>b. [nibble (unat b div 16), nibble (unat b mod 16)]) bs)"

lemma nibble_inj: "d < 16 \<Longrightarrow> e < 16 \<Longrightarrow> nibble d = nibble e \<Longrightarrow> d = e"
  by (auto simp: nibble_def split: if_splits)

lemma length_hex [simp]: "length (hex bs) = 2 * length bs"
  by (induction bs) (simp_all add: hex_def)

lemma unat_byte: "unat (b :: byte) < 256"
  using unsigned_less [of b, where ?'a = nat] by simp

lemma hex_inj: "hex as = hex bs \<Longrightarrow> as = bs"
proof (induction as arbitrary: bs)
  case Nil
  then have "length (hex bs) = 0" by (metis list.size(3) length_hex mult_0_right)
  then show ?case by simp
next
  case (Cons a as)
  then obtain b bs' where bs: "bs = b # bs'"
    by (cases bs) (auto simp: hex_def)
  with Cons.prems have
    hi: "nibble (unat a div 16) = nibble (unat b div 16)" and
    lo: "nibble (unat a mod 16) = nibble (unat b mod 16)" and
    rest: "hex as = hex bs'"
    by (auto simp: hex_def)
  from hi have "unat a div 16 = unat b div 16"
    by (rule nibble_inj [rotated 2]) (use unat_byte [of a] unat_byte [of b] in auto)
  moreover from lo have "unat a mod 16 = unat b mod 16"
    by (rule nibble_inj [rotated 2]) auto
  ultimately have "unat a = unat b" by (metis div_mult_mod_eq)
  then have "a = b" by (rule unsigned_word_eqI)
  with Cons.IH [OF rest] bs show ?case by simp
qed

lemma hex_nonempty: "bs \<noteq> [] \<Longrightarrow> hex bs \<noteq> []"
  by (metis length_0_conv length_hex mult_eq_0_iff zero_neq_numeral)

end
