(* ===== verification/Sha256.thy ===== *)
theory Sha256
  imports GoText
begin

text \<open>
  \<^verbatim>\<open>crypto/sha256.Sum256\<close>, which the agent uses for token hashes and plan fingerprints: the
  FIPS 180-4 function on byte strings. Nothing in the development uses more of it than the length of its result; the properties
  that need it to be free of collisions on the messages at hand say so in a hypothesis.
\<close>

unbundle bit_operations_syntax

type_synonym u32 = "32 word"

text \<open>
  The constants are the first 32 bits of the fractional parts of the cube roots of the first 64 primes,
  and of the square roots of the first 8.
\<close>

fun root_bits :: "nat \<Rightarrow> nat \<Rightarrow> nat \<Rightarrow> nat \<Rightarrow> nat" where
  "root_bits k n 0 r = r"
| "root_bits k n (Suc i) r = root_bits k n i (if (r + 2 ^ i) ^ k \<le> n then r + 2 ^ i else r)"

definition frac_root :: "nat \<Rightarrow> nat \<Rightarrow> u32" where
  "frac_root k p = of_nat (root_bits k (p * 2 ^ (32 * k)) 40 0 mod 2 ^ 32)"

definition sha_primes :: "nat list" where
  "sha_primes = filter (\<lambda>n. \<not> list_ex (\<lambda>d. n mod d = 0) [2..<n]) [2..<312]"

definition sha_k :: "u32 list" where "sha_k = map (frac_root 3) sha_primes"
definition sha_h0 :: "u32 list" where "sha_h0 = map (frac_root 2) (take 8 sha_primes)"

definition rotr :: "nat \<Rightarrow> u32 \<Rightarrow> u32" where
  "rotr n x = drop_bit n x OR push_bit (32 - n) x"

definition sha_pad :: "byte list \<Rightarrow> byte list" where
  "sha_pad m =
     (let n = length m;
          zeros = (if n mod 64 < 56 then 55 - n mod 64 else 119 - n mod 64);
          bits = 8 * n
      in m @ [0x80] @ replicate zeros 0
           @ map (\<lambda>i. of_nat (bits div 256 ^ (7 - i) mod 256)) [0..<8])"

fun be_words :: "byte list \<Rightarrow> u32 list" where
  "be_words (a # b # c # d # r) =
     (push_bit 24 (ucast a) OR push_bit 16 (ucast b) OR push_bit 8 (ucast c) OR ucast d) # be_words r"
| "be_words _ = []"

text \<open>The message schedule, kept newest word first.\<close>

fun sha_schedule :: "nat \<Rightarrow> u32 list \<Rightarrow> u32 list" where
  "sha_schedule 0 w = rev w"
| "sha_schedule (Suc n) w =
     (let s0 = (let x = w ! 14 in rotr 7 x XOR rotr 18 x XOR drop_bit 3 x);
          s1 = (let x = w ! 1 in rotr 17 x XOR rotr 19 x XOR drop_bit 10 x)
      in sha_schedule n ((w ! 15 + s0 + w ! 6 + s1) # w))"

fun sha_round :: "u32 list \<Rightarrow> u32 \<times> u32 \<Rightarrow> u32 list" where
  "sha_round [a, b, c, d, e, f, g, h] (k, w) =
     (let s1 = rotr 6 e XOR rotr 11 e XOR rotr 25 e;
          ch = (e AND f) XOR (NOT e AND g);
          t1 = h + s1 + ch + k + w;
          s0 = rotr 2 a XOR rotr 13 a XOR rotr 22 a;
          mj = (a AND b) XOR (a AND c) XOR (b AND c);
          t2 = s0 + mj
      in [t1 + t2, a, b, c, d + t1, e, f, g])"
| "sha_round st _ = st"

definition sha_block :: "u32 list \<Rightarrow> u32 list \<Rightarrow> u32 list" where
  "sha_block h ws = map2 (+) h (foldl sha_round h (zip sha_k (sha_schedule 48 (rev ws))))"

fun sha_blocks :: "nat \<Rightarrow> u32 list \<Rightarrow> u32 list \<Rightarrow> u32 list" where
  "sha_blocks 0 h ws = h"
| "sha_blocks (Suc n) h ws = sha_blocks n (sha_block h (take 16 ws)) (drop 16 ws)"

definition word_bytes :: "u32 \<Rightarrow> byte list" where
  "word_bytes x = map (\<lambda>i. ucast (drop_bit (24 - 8 * i) x)) [0..<4]"

definition Sum256 :: "byte list \<Rightarrow> byte list" where
  "Sum256 m = (let p = be_words (sha_pad m) in
     concat (map word_bytes (sha_blocks (length p div 16) sha_h0 p)))"

definition bytes_of :: "string \<Rightarrow> byte list" where
  "bytes_of s = map (\<lambda>c. of_nat (of_char c)) s"

definition sha256_text :: "string \<Rightarrow> string" where
  "sha256_text s = ''sha256:'' @ hex (Sum256 (bytes_of s))"

lemma sha256_text_nonempty [simp]: "sha256_text s \<noteq> []" "[] \<noteq> sha256_text s"
  by (simp_all add: sha256_text_def)

lemma sha256_text_eq: "sha256_text s = sha256_text t \<longleftrightarrow> Sum256 (bytes_of s) = Sum256 (bytes_of t)"
  by (auto simp: sha256_text_def dest: hex_inj)

lemma bytes_of_inj: "bytes_of s = bytes_of t \<Longrightarrow> s = t"
proof -
  have "inj (\<lambda>c :: char. (of_nat (of_char c) :: byte))"
  proof (rule injI)
    fix c d :: char
    assume "(of_nat (of_char c) :: byte) = of_nat (of_char d)"
    then have "unat (of_nat (of_char c) :: byte) = unat (of_nat (of_char d) :: byte)" by simp
    then have "(of_char c :: nat) mod 256 = of_char d mod 256" by (simp add: unat_of_nat)
    then have "(of_char c :: nat) = of_char d" by simp
    then show "c = d" by simp
  qed
  then show "bytes_of s = bytes_of t \<Longrightarrow> s = t"
    by (simp add: bytes_of_def inj_map_eq_map)
qed

end
