(* ===== verification/GoJson.thy ===== *)
theory GoJson
  imports Sha256 "HOL-Library.List_Lexorder" "HOL-Library.Char_ord"
begin

text \<open>
  \<^verbatim>\<open>encoding/json.Marshal\<close> for the values the agent fingerprints (maps with string keys, structs
  with \<^verbatim>\<open>omitempty\<close> fields, string lists, booleans and integers), with Go's escaping of strings,
  and \<^verbatim>\<open>sort.Strings\<close>. The main fact is that the encoding is injective on valid UTF-8, so that a
  fingerprint determines what was fingerprinted up to a SHA-256 collision.
\<close>

section \<open>Runes\<close>

abbreviation code :: "char \<Rightarrow> nat" where "code c \<equiv> of_char c"

definition cont :: "nat \<Rightarrow> nat \<Rightarrow> char \<Rightarrow> bool" where
  "cont lo hi c \<longleftrightarrow> lo \<le> code c \<and> code c \<le> hi"

text \<open>
  The length of the valid UTF-8 sequence at the head of a string, 0 when there is none: the acceptance
  table of \<^verbatim>\<open>utf8.DecodeRune\<close>.
\<close>

definition rune_need :: "nat \<Rightarrow> nat" where
  "rune_need n =
     (if n < 0x80 then 1
      else if 0xC2 \<le> n \<and> n \<le> 0xDF then 2
      else if 0xE0 \<le> n \<and> n \<le> 0xEF then 3
      else if 0xF0 \<le> n \<and> n \<le> 0xF4 then 4 else 0)"

definition rune_second :: "nat \<Rightarrow> char \<Rightarrow> bool" where
  "rune_second n = cont (if n = 0xE0 then 0xA0 else if n = 0xF0 then 0x90 else 0x80)
                        (if n = 0xED then 0x9F else if n = 0xF4 then 0x8F else 0xBF)"

fun rune_len :: "string \<Rightarrow> nat" where
  "rune_len [] = 0"
| "rune_len (c # r) =
     (let need = rune_need (code c)
      in if need \<le> 1 \<or> (need - 1 \<le> length r \<and> rune_second (code c) (hd r) \<and>
                            list_all (cont 0x80 0xBF) (take (need - 2) (tl r)))
         then need else 0)"

definition valid_rune :: "string \<Rightarrow> bool" where
  "valid_rune u \<longleftrightarrow> u \<noteq> [] \<and> rune_len u = length u"

text \<open>The decoding loop: valid runes one by one, an invalid byte on its own.\<close>

function runes :: "string \<Rightarrow> string list" where
  "runes [] = []"
| "runes (c # s) =
     (let n = max 1 (rune_len (c # s)) in take n (c # s) # runes (drop n (c # s)))"
  by pat_completeness auto
termination
proof (relation "measure length")
  fix c :: char and s :: string and n :: nat
  assume "n = max 1 (rune_len (c # s))"
  then have "1 \<le> n" by simp
  then show "(drop n (c # s), c # s) \<in> measure length" by simp
qed simp

declare runes.simps(2) [simp del, go_eval]

definition valid_utf8 :: "string \<Rightarrow> bool" where
  "valid_utf8 s \<longleftrightarrow> list_all valid_rune (runes s)"

lemma concat_runes: "concat (runes s) = s"
  by (induction s rule: runes.induct) (simp_all add: runes.simps(2) Let_def)

lemma runes_inj: "runes s = runes t \<Longrightarrow> s = t"
  by (metis concat_runes)

lemma rune_len_hd: "rune_len (c # r) \<noteq> 0 \<Longrightarrow> rune_len (c # r) = rune_need (code c)"
  by (auto simp: Let_def split: if_splits)

lemma valid_rune_same_head:
  assumes "valid_rune u" "valid_rune v" "u @ x = v @ y"
  shows "u = v \<and> x = y"
proof -
  from assms(1,2) obtain c u' d v' where u: "u = c # u'" and v: "v = d # v'"
    by (auto simp: valid_rune_def neq_Nil_conv)
  with assms(3) have "d = c" by simp
  with assms(1,2) u v have "length u = length v"
    using rune_len_hd [of c u'] rune_len_hd [of c v'] by (simp add: valid_rune_def del: rune_len.simps)
  with assms(3) show ?thesis by simp
qed

section \<open>Escaping\<close>

definition u_escape :: "nat \<Rightarrow> string" where
  "u_escape n = [CHR 0x5C, CHR ''u'', nibble (n div 4096 mod 16), nibble (n div 256 mod 16),
                 nibble (n div 16 mod 16), nibble (n mod 16)]"

definition line_sep :: string where "line_sep = [CHR 0xE2, CHR 0x80, CHR 0xA8]"
definition par_sep :: string where "par_sep = [CHR 0xE2, CHR 0x80, CHR 0xA9]"

definition special_ascii :: "nat \<Rightarrow> bool" where
  "special_ascii n \<longleftrightarrow> n < 0x20 \<or> n \<in> {0x22, 0x5C, 0x3C, 0x3E, 0x26}"

definition short_escapes :: "(nat \<times> char) list" where
  "short_escapes =
     [(0x22, CHR 0x22), (0x5C, CHR 0x5C), (0x08, CHR ''b''), (0x0C, CHR ''f''), (0x0A, CHR ''n''),
      (0x0D, CHR ''r''), (0x09, CHR ''t'')]"

definition escape_ascii :: "nat \<Rightarrow> string" where
  "escape_ascii n =
     (case map_of short_escapes n of Some c \<Rightarrow> [CHR 0x5C, c] | None \<Rightarrow> u_escape n)"

definition special_rune :: "string \<Rightarrow> bool" where
  "special_rune u \<longleftrightarrow> u = line_sep \<or> u = par_sep \<or> (length u = 1 \<and> special_ascii (code (hd u)))"

definition escape_rune :: "string \<Rightarrow> string" where
  "escape_rune u =
     (if \<not> valid_rune u then u_escape 0xFFFD
      else if u = line_sep then u_escape 0x2028
      else if u = par_sep then u_escape 0x2029
      else if special_rune u then escape_ascii (code (hd u))
      else u)"

definition quote_text :: "string \<Rightarrow> string" where
  "quote_text s = [CHR 0x22] @ concat (map escape_rune (runes s)) @ [CHR 0x22]"

text \<open>
  Escapes are uniquely decodable: the second character tells a four-digit escape from a short one,
  and each determines the code point.
\<close>

lemma u_escape_inj:
  assumes "n < 65536" "m < 65536" "u_escape n = u_escape m"
  shows "n = m"
proof -
  have nib: "nibble (a mod 16) = nibble (b mod 16) \<Longrightarrow> a mod 16 = b mod 16" for a b
    by (rule nibble_inj) auto
  from assms(3) have "n div 4096 mod 16 = m div 4096 mod 16" "n div 256 mod 16 = m div 256 mod 16"
    "n div 16 mod 16 = m div 16 mod 16" "n mod 16 = m mod 16"
    by (auto simp: u_escape_def dest: nib)
  moreover have digits: "k = 16 * (16 * (16 * (k div 4096 mod 16) + k div 256 mod 16) + k div 16 mod 16) + k mod 16"
    if "k < 65536" for k :: nat
  proof -
    have "k div 4096 mod 16 = k div 4096" using that by simp
    moreover have "k div 256 = 16 * (k div 4096) + k div 256 mod 16"
      using div_mult_mod_eq [of "k div 256" 16] by (simp add: div_mult2_eq [symmetric])
    moreover have "k div 16 = 16 * (k div 256) + k div 16 mod 16"
      using div_mult_mod_eq [of "k div 16" 16] by (simp add: div_mult2_eq [symmetric])
    moreover have "k = 16 * (k div 16) + k mod 16" by simp
    ultimately show ?thesis by metis
  qed
  ultimately show ?thesis using digits [OF assms(1)] digits [OF assms(2)] by metis
qed

lemma code_less: "code c < 256" "code c < 65536"
proof -
  show "code c < 256" by simp
  then show "code c < 65536" by (rule less_trans) simp
qed

lemma short_escapes_distinct: "distinct (map snd short_escapes)" "CHR ''u'' \<notin> snd ` set short_escapes"
  by (simp_all add: short_escapes_def)

lemma short_escapes_inj: "(n, c) \<in> set short_escapes \<Longrightarrow> (m, c) \<in> set short_escapes \<Longrightarrow> n = m"
  using short_escapes_distinct(1) by (metis Pair_inject distinct_map inj_on_def snd_conv)

lemma escape_ascii_inj:
  assumes "n < 65536" "m < 65536" "escape_ascii n @ x = escape_ascii m @ y"
  shows "n = m \<and> x = y"
proof (cases "map_of short_escapes n"; cases "map_of short_escapes m")
  assume "map_of short_escapes n = None" "map_of short_escapes m = None"
  with assms(3) have "u_escape n @ x = u_escape m @ y" by (simp add: escape_ascii_def)
  moreover have "length (u_escape n) = length (u_escape m)" by (simp add: u_escape_def)
  ultimately show ?thesis using u_escape_inj assms(1,2) by simp
next
  fix c assume "map_of short_escapes n = None" "map_of short_escapes m = Some c"
  with assms(3) short_escapes_distinct(2) show ?thesis
    by (force simp: escape_ascii_def u_escape_def dest: map_of_SomeD)
next
  fix c assume "map_of short_escapes n = Some c" "map_of short_escapes m = None"
  with assms(3) short_escapes_distinct(2) show ?thesis
    by (force simp: escape_ascii_def u_escape_def dest: map_of_SomeD)
next
  fix c d assume "map_of short_escapes n = Some c" "map_of short_escapes m = Some d"
  with assms(3) show ?thesis
    by (auto simp: escape_ascii_def dest!: map_of_SomeD intro: short_escapes_inj)
qed

lemma escape_ascii_hd [simp]: "escape_ascii n \<noteq> []" "hd (escape_ascii n) = CHR 0x5C"
  by (simp_all add: escape_ascii_def u_escape_def split: option.split)

definition rune_code :: "string \<Rightarrow> nat" where
  "rune_code u = (if u = line_sep then 0x2028 else if u = par_sep then 0x2029 else code (hd u))"

lemma escape_special:
  assumes "valid_rune u" "special_rune u"
  shows "escape_rune u = escape_ascii (rune_code u) \<and> rune_code u < 65536"
proof (cases "u = line_sep \<or> u = par_sep")
  case True
  then show ?thesis using assms
    by (auto simp: escape_rune_def rune_code_def escape_ascii_def short_escapes_def line_sep_def par_sep_def)
next
  case False
  then show ?thesis using assms code_less(2) by (simp add: escape_rune_def rune_code_def)
qed

lemma rune_code_inj:
  assumes "special_rune u" "special_rune v" "rune_code u = rune_code v"
  shows "u = v"
proof -
  from assms code_less(1) [of "hd u"] code_less(1) [of "hd v"] show ?thesis
    by (auto simp: special_rune_def special_ascii_def rune_code_def line_sep_def par_sep_def length_Suc_conv split: if_splits)
qed

lemma escape_plain: "valid_rune u \<Longrightarrow> \<not> special_rune u \<Longrightarrow> escape_rune u = u"
  by (simp add: escape_rune_def) (auto simp: special_rune_def)

lemma escape_hd:
  "valid_rune u \<Longrightarrow> escape_rune u \<noteq> [] \<and> hd (escape_rune u) \<noteq> CHR 0x22 \<and>
     (hd (escape_rune u) = CHR 0x5C \<longleftrightarrow> special_rune u)"
proof -
  assume v: "valid_rune u"
  show ?thesis
  proof (cases "special_rune u")
    case True
    with escape_special [OF v] show ?thesis by auto
  next
    case False
    then have "escape_rune u = u" using v by (simp add: escape_plain)
    moreover from v obtain c r where u: "u = c # r" by (cases u) (auto simp: valid_rune_def)
    moreover have "c \<noteq> CHR 0x22 \<and> c \<noteq> CHR 0x5C"
      using v False u
      by (auto simp: special_rune_def special_ascii_def valid_rune_def rune_need_def)
    ultimately show ?thesis using False by simp
  qed
qed

lemma escape_rune_decodable:
  assumes "valid_rune u" "valid_rune v" "escape_rune u @ x = escape_rune v @ y"
  shows "u = v \<and> x = y"
proof -
  from assms have "hd (escape_rune u) = hd (escape_rune v)"
    by (metis escape_hd hd_append2)
  with assms(1,2) have same: "special_rune u = special_rune v" by (metis escape_hd)
  show ?thesis
  proof (cases "special_rune u")
    case True
    with same have sp: "special_rune u" "special_rune v" by simp_all
    note eu = escape_special [OF assms(1) sp(1)] and ev = escape_special [OF assms(2) sp(2)]
    from assms(3) eu ev have "escape_ascii (rune_code u) @ x = escape_ascii (rune_code v) @ y"
      by simp
    with eu ev have "rune_code u = rune_code v \<and> x = y"
      using escape_ascii_inj [of "rune_code u" "rune_code v" x y] by simp
    with True same show ?thesis by (auto dest: rune_code_inj)
  next
    case False
    with same assms have "u @ x = v @ y"
      by (simp add: escape_plain)
    with assms(1,2) show ?thesis by (rule valid_rune_same_head)
  qed
qed

lemma escape_runes_decodable:
  assumes "list_all valid_rune us" "list_all valid_rune vs"
    "concat (map escape_rune us) @ CHR 0x22 # x = concat (map escape_rune vs) @ CHR 0x22 # y"
  shows "us = vs \<and> x = y"
  using assms
proof (induction us arbitrary: vs)
  case Nil
  then show ?case
    by (cases vs) (auto dest!: escape_hd simp: neq_Nil_conv)
next
  case (Cons u us)
  then obtain v vs' where vs: "vs = v # vs'"
    by (cases vs) (auto dest!: escape_hd simp: neq_Nil_conv)
  with Cons.prems have uv: "valid_rune u" "valid_rune v" by auto
  from Cons.prems(3) vs have
    "escape_rune u @ concat (map escape_rune us) @ CHR 0x22 # x =
     escape_rune v @ concat (map escape_rune vs') @ CHR 0x22 # y" by simp
  from escape_rune_decodable [OF uv this] Cons.IH [of vs'] Cons.prems vs show ?case by auto
qed

lemma quote_text_decodable:
  assumes "valid_utf8 s" "valid_utf8 t" "quote_text s @ x = quote_text t @ y"
  shows "s = t \<and> x = y"
proof -
  have "runes s = runes t \<and> x = y"
    by (rule escape_runes_decodable) (use assms in \<open>auto simp: quote_text_def valid_utf8_def\<close>)
  then show ?thesis by (auto dest: runes_inj)
qed

section \<open>Values\<close>

datatype json = JString string | JBool bool | JInt int | JArr "json list" | JObj "(string \<times> json) list"

fun encode :: "json \<Rightarrow> string"
  and encode_items :: "json list \<Rightarrow> string"
  and encode_fields :: "(string \<times> json) list \<Rightarrow> string" where
  "encode (JString s) = quote_text s"
| "encode (JBool b) = (if b then ''true'' else ''false'')"
| "encode (JInt n) = int_text n"
| "encode (JArr js) = ''['' @ encode_items js"
| "encode (JObj fs) = ''{'' @ encode_fields fs"
| "encode_items [] = '']''"
| "encode_items (j # js) = encode j @ (if js = [] then '']'' else '','' @ encode_items js)"
| "encode_fields [] = ''}''"
| "encode_fields ((k, j) # fs) =
     quote_text k @ '':'' @ encode j @ (if fs = [] then ''}'' else '','' @ encode_fields fs)"

text \<open>
  A map with string keys is encoded with its keys sorted bytewise; a struct field with
  \<^verbatim>\<open>omitempty\<close> is left out when its string is empty.
\<close>

definition json_map :: "(string \<times> json) list \<Rightarrow> json" where
  "json_map kvs = JObj (sort_key fst kvs)"

definition json_omitempty :: "(string \<times> string) list \<Rightarrow> json" where
  "json_omitempty fs = JObj (map (\<lambda>(k, v). (k, JString v)) (filter (\<lambda>(k, v). v \<noteq> []) fs))"

definition json_strings :: "string list \<Rightarrow> json" where
  "json_strings ss = JArr (map JString ss)"

definition sort_strings :: "string list \<Rightarrow> string list" where
  "sort_strings ss = sort ss"

fun json_utf8 :: "json \<Rightarrow> bool" where
  "json_utf8 (JString s) = valid_utf8 s"
| "json_utf8 (JBool b) = True"
| "json_utf8 (JInt n) = True"
| "json_utf8 (JArr js) = list_all json_utf8 js"
| "json_utf8 (JObj fs) = list_all (\<lambda>(k, j). valid_utf8 k \<and> json_utf8 j) fs"

definition stop :: "string \<Rightarrow> bool" where
  "stop x \<longleftrightarrow> x = [] \<or> \<not> is_digit (hd x)"

lemma takeWhile_digits: "list_all is_digit ds \<Longrightarrow> stop x \<Longrightarrow> takeWhile is_digit (ds @ x) = ds"
  by (cases x) (auto simp: stop_def list_all_iff takeWhile_append)

lemma int_text_shape:
  "\<exists>ds. ds \<noteq> [] \<and> list_all is_digit ds \<and> int_text n = (if n < 0 then CHR ''-'' # ds else ds)"
  using nat_text_digits by (auto simp: int_text_def intro: exI [of _ "nat_text (nat (- n))"])

lemma int_text_decodable:
  assumes "int_text m @ x = int_text n @ y" "stop x" "stop y"
  shows "m = n \<and> x = y"
proof -
  obtain ds es where
    d: "ds \<noteq> []" "list_all is_digit ds" "int_text m = (if m < 0 then CHR ''-'' # ds else ds)" and
    e: "es \<noteq> []" "list_all is_digit es" "int_text n = (if n < 0 then CHR ''-'' # es else es)"
    using int_text_shape by meson
  have minus: "\<not> is_digit CHR ''-''" by (simp add: is_digit_def)
  have sign: "m < 0 \<longleftrightarrow> n < 0"
    using assms(1) d e minus by (cases ds; cases es) (auto split: if_splits)
  with assms(1) d e have "ds @ x = es @ y" by (auto split: if_splits)
  moreover from this takeWhile_digits [OF d(2) assms(2)] takeWhile_digits [OF e(2) assms(3)]
  have "ds = es" by metis
  ultimately have "int_text m = int_text n \<and> x = y" using sign d(3) e(3) by auto
  then show ?thesis by (auto dest: int_text_inj)
qed

lemma quote_text_Cons: "\<exists>r. quote_text s = CHR 0x22 # r"
  by (simp add: quote_text_def)

lemma int_text_hd: "int_text n \<noteq> [] \<and> (is_digit (hd (int_text n)) \<or> hd (int_text n) = CHR ''-'')"
  using int_text_shape [of n] by (auto simp: neq_Nil_conv)

text \<open>The first character of an encoding tells which kind of value follows.\<close>

fun json_kind :: "json \<Rightarrow> nat" where
  "json_kind (JString s) = 0"
| "json_kind (JBool b) = 1"
| "json_kind (JInt n) = 2"
| "json_kind (JArr js) = 3"
| "json_kind (JObj fs) = 4"

definition kind_of_char :: "char \<Rightarrow> nat" where
  "kind_of_char c =
     (if c = CHR 0x22 then 0 else if c = CHR ''t'' \<or> c = CHR ''f'' then 1
      else if is_digit c \<or> c = CHR ''-'' then 2 else if c = CHR ''['' then 3
      else if c = CHR ''{'' then 4 else 5)"

lemma is_digit_punct [simp]:
  "\<not> is_digit CHR 0x22" "\<not> is_digit CHR ''t''" "\<not> is_digit CHR ''f''" "\<not> is_digit CHR ''-''"
  "\<not> is_digit CHR ''[''" "\<not> is_digit CHR ''{''" "\<not> is_digit CHR '']''" "\<not> is_digit CHR ''}''"
  "\<not> is_digit CHR '',''" "\<not> is_digit CHR '':''"
  by (simp_all add: is_digit_def)

lemma encode_kind: "encode j \<noteq> [] \<and> kind_of_char (hd (encode j)) = json_kind j"
proof (cases j)
  case (JString s)
  then show ?thesis using quote_text_Cons [of s] by (auto simp: kind_of_char_def)
next
  case (JInt n)
  with int_text_hd [of n] have "hd (encode j) \<noteq> CHR 0x22" "hd (encode j) \<noteq> CHR ''t''"
    "hd (encode j) \<noteq> CHR ''f''" by auto
  with JInt int_text_hd [of n] show ?thesis by (simp add: kind_of_char_def)
qed (auto simp: kind_of_char_def)

lemma encode_same_kind: "encode j @ x = encode k @ y \<Longrightarrow> json_kind j = json_kind k"
  by (metis encode_kind hd_append2)

lemma encode_not_close: "hd (encode j) \<noteq> CHR '']''"
  using encode_kind [of j] by (cases j) (auto simp: kind_of_char_def)

lemma stop_punct [simp]:
  "stop (CHR '']'' # x)" "stop (CHR ''}'' # x)" "stop (CHR '','' # x)" "stop []"
  by (simp_all add: stop_def)

lemma encode_items_Cons_neq: "encode_items (j # js) @ x \<noteq> CHR '']'' # y"
  using encode_kind [of j] encode_not_close [of j] by (auto simp: neq_Nil_conv)

lemma encode_fields_Cons_neq: "encode_fields ((k, j) # fs) @ x \<noteq> CHR ''}'' # y"
  using quote_text_Cons [of k] by auto

lemma encode_items_close: "encode_items js @ x = CHR '']'' # y \<Longrightarrow> js = []"
  using encode_items_Cons_neq by (cases js) blast+

lemma encode_fields_close: "encode_fields fs @ x = CHR ''}'' # y \<Longrightarrow> fs = []"
  using encode_fields_Cons_neq by (cases fs) (simp, metis surj_pair)

lemma encode_decodable:
  "json_utf8 j \<Longrightarrow> json_utf8 k \<Longrightarrow> stop x \<Longrightarrow> stop y \<Longrightarrow> encode j @ x = encode k @ y \<Longrightarrow>
     j = k \<and> x = y"
  "list_all json_utf8 js \<Longrightarrow> list_all json_utf8 ks \<Longrightarrow> encode_items js @ x = encode_items ks @ y \<Longrightarrow>
     js = ks \<and> x = y"
  "json_utf8 (JObj fs) \<Longrightarrow> json_utf8 (JObj gs) \<Longrightarrow> encode_fields fs @ x = encode_fields gs @ y \<Longrightarrow>
     fs = gs \<and> x = y"
proof (induction j and js and fs arbitrary: k x y and ks x y and gs x y
    rule: encode_encode_items_encode_fields.induct)
  case (1 s)
  have "json_kind k = 0" using encode_same_kind [OF "1.prems"(5)] by simp
  then obtain t where k: "k = JString t" by (cases k) simp_all
  with "1.prems" quote_text_decodable [of s t x y] show ?case by simp
next
  case (2 b)
  have "json_kind k = 1" using encode_same_kind [OF "2.prems"(5)] by simp
  then obtain c where k: "k = JBool c" by (cases k) simp_all
  with "2.prems" show ?case by (simp split: if_splits)
next
  case (3 n)
  have "json_kind k = 2" using encode_same_kind [OF "3.prems"(5)] by simp
  then obtain m where k: "k = JInt m" by (cases k) simp_all
  with "3.prems" int_text_decodable [of n x m y] show ?case by simp
next
  case (4 js)
  have "json_kind k = 3" using encode_same_kind [OF "4.prems"(5)] by simp
  then obtain ks where k: "k = JArr ks" by (cases k) simp_all
  with "4.prems" have "encode_items js @ x = encode_items ks @ y" by simp
  with "4.IH" [of ks x y] "4.prems" k show ?case by simp
next
  case (5 fs)
  have "json_kind k = 4" using encode_same_kind [OF "5.prems"(5)] by simp
  then obtain gs where k: "k = JObj gs" by (cases k) simp_all
  with "5.prems" have "encode_fields fs @ x = encode_fields gs @ y" by simp
  with "5.IH" [of gs x y] "5.prems" k show ?case by simp
next
  case 6
  then have "encode_items ks @ y = CHR '']'' # x" by simp
  with encode_items_close "6.prems" show ?case by fastforce
next
  case (7 j js)
  then obtain k ks' where ks: "ks = k # ks'"
    using encode_items_close [of "j # js" x y] by (cases ks) auto
  let ?r = "\<lambda>js. if js = [] then '']'' else '','' @ encode_items js"
  have "encode j @ ?r js @ x = encode k @ ?r ks' @ y" using "7.prems" ks by simp
  then have "j = k \<and> ?r js @ x = ?r ks' @ y"
    using "7.prems" ks by (intro "7.IH"(1)) (auto simp: stop_def)
  then show ?case using "7.IH"(2) [of ks' x y] "7.prems" ks by (auto split: if_splits)
next
  case 8
  then have "encode_fields gs @ y = CHR ''}'' # x" by simp
  with encode_fields_close "8.prems" show ?case by fastforce
next
  case (9 q j fs)
  then obtain p k gs' where gs: "gs = (p, k) # gs'"
    using encode_fields_close [of "(q, j) # fs" x y] by (cases gs) auto
  let ?r = "\<lambda>fs. if fs = [] then ''}'' else '','' @ encode_fields fs"
  have "quote_text q @ '':'' @ encode j @ ?r fs @ x = quote_text p @ '':'' @ encode k @ ?r gs' @ y"
    using "9.prems" gs by simp
  then have q: "q = p \<and> encode j @ ?r fs @ x = encode k @ ?r gs' @ y"
    using "9.prems" gs quote_text_decodable
      [of q p "'':'' @ encode j @ ?r fs @ x" "'':'' @ encode k @ ?r gs' @ y"] by simp
  then have "j = k \<and> ?r fs @ x = ?r gs' @ y"
    using "9.prems" gs by (intro "9.IH"(1)) (auto simp: stop_def)
  then show ?case using q "9.IH"(2) [of gs' x y] "9.prems" gs by (auto split: if_splits)
qed

lemma encode_inj: "json_utf8 j \<Longrightarrow> json_utf8 k \<Longrightarrow> encode j = encode k \<Longrightarrow> j = k"
  using encode_decodable(1) [of j k "[]" "[]"] by simp

text \<open>
  \<^verbatim>\<open>stableFingerprint\<close>: the hash of the encoding. Equal fingerprints of valid values mean equal
  values, unless the two encodings collide under SHA-256.
\<close>

definition stableFingerprint :: "json \<Rightarrow> string" where
  "stableFingerprint parts = sha256_text (encode parts)"

definition sha_collision :: "string \<Rightarrow> string \<Rightarrow> bool" where
  "sha_collision s t \<longleftrightarrow> s \<noteq> t \<and> Sum256 (bytes_of s) = Sum256 (bytes_of t)"

lemma stableFingerprint_binds:
  assumes "json_utf8 j" "json_utf8 k" "\<not> sha_collision (encode j) (encode k)"
    "stableFingerprint j = stableFingerprint k"
  shows "j = k"
  using assms by (auto simp: stableFingerprint_def sha256_text_eq sha_collision_def intro: encode_inj)

lemma stableFingerprint_nonempty [simp]: "stableFingerprint j \<noteq> []"
  by (simp add: stableFingerprint_def)

end
