(* ===== verification/OperationTypes.thy ===== *)
theory OperationTypes
  imports GoJson
begin

text \<open>
  The data of \<^verbatim>\<open>agent/operation/types.go\<close>: operation kinds, risk levels, approval states, audit
  actions, time-to-live constants, errors, and the records of a plan, an approval, an audit event and
  a grace grant, with the helpers that make identifiers, tokens and hashes.
\<close>

section \<open>Constants\<close>

definition OperationRuntimeStart :: string where "OperationRuntimeStart = ''runtime.start''"
definition OperationRuntimeStop :: string where "OperationRuntimeStop = ''runtime.stop''"
definition OperationRuntimeRestart :: string where "OperationRuntimeRestart = ''runtime.restart''"
definition OperationRuntimeStartSelected :: string where
  "OperationRuntimeStartSelected = ''runtime.start_selected''"
definition OperationBrowserDebugOpen :: string where "OperationBrowserDebugOpen = ''browser_debug.open''"
definition OperationCodeDebugOpen :: string where "OperationCodeDebugOpen = ''code_debug.open''"
definition OperationCodeDebugEvaluate :: string where
  "OperationCodeDebugEvaluate = ''code_debug.evaluate''"
definition OperationTestDatabaseTerminate :: string where
  "OperationTestDatabaseTerminate = ''test_database.terminate_connections''"
definition OperationTemplateImport :: string where "OperationTemplateImport = ''template.import''"
definition OperationPipelineRun :: string where "OperationPipelineRun = ''pipeline.run''"
definition OperationTunnelInvalidate :: string where "OperationTunnelInvalidate = ''tunnel.invalidate''"
definition KindAgentAdopt :: string where "KindAgentAdopt = ''agent.adopt''"

definition RiskLow :: string where "RiskLow = ''low''"
definition RiskMedium :: string where "RiskMedium = ''medium''"
definition RiskHigh :: string where "RiskHigh = ''high''"
definition RiskCritical :: string where "RiskCritical = ''critical''"

definition ApprovalPending :: string where "ApprovalPending = ''pending''"
definition ApprovalApproved :: string where "ApprovalApproved = ''approved''"
definition ApprovalRejected :: string where "ApprovalRejected = ''rejected''"
definition ApprovalExpired :: string where "ApprovalExpired = ''expired''"
definition ApprovalUsed :: string where "ApprovalUsed = ''used''"

definition AuditPrepared :: string where "AuditPrepared = ''prepared''"
definition AuditExecuted :: string where "AuditExecuted = ''executed''"
definition AuditFailed :: string where "AuditFailed = ''failed''"

definition DefaultPlanTTL :: duration where "DefaultPlanTTL = 10 * minute"
definition DefaultApprovalTTL :: duration where "DefaultApprovalTTL = 10 * minute"
definition DefaultTokenTTL :: duration where "DefaultTokenTTL = 5 * minute"

lemmas kind_defs = OperationRuntimeStart_def OperationRuntimeStop_def OperationRuntimeRestart_def
  OperationRuntimeStartSelected_def OperationBrowserDebugOpen_def OperationCodeDebugOpen_def
  OperationCodeDebugEvaluate_def OperationTestDatabaseTerminate_def OperationTemplateImport_def
  OperationPipelineRun_def OperationTunnelInvalidate_def KindAgentAdopt_def

lemmas risk_defs = RiskLow_def RiskMedium_def RiskHigh_def RiskCritical_def

lemmas status_defs = ApprovalPending_def ApprovalApproved_def ApprovalRejected_def
  ApprovalExpired_def ApprovalUsed_def

lemmas ttl_defs = DefaultPlanTTL_def DefaultApprovalTTL_def DefaultTokenTTL_def time_units

lemma status_distinct [simp]:
  "ApprovalPending \<noteq> ApprovalApproved" "ApprovalApproved \<noteq> ApprovalPending"
  "ApprovalPending \<noteq> ApprovalRejected" "ApprovalRejected \<noteq> ApprovalPending"
  "ApprovalPending \<noteq> ApprovalExpired" "ApprovalExpired \<noteq> ApprovalPending"
  "ApprovalPending \<noteq> ApprovalUsed" "ApprovalUsed \<noteq> ApprovalPending"
  "ApprovalApproved \<noteq> ApprovalRejected" "ApprovalRejected \<noteq> ApprovalApproved"
  "ApprovalApproved \<noteq> ApprovalExpired" "ApprovalExpired \<noteq> ApprovalApproved"
  "ApprovalApproved \<noteq> ApprovalUsed" "ApprovalUsed \<noteq> ApprovalApproved"
  "ApprovalRejected \<noteq> ApprovalExpired" "ApprovalExpired \<noteq> ApprovalRejected"
  "ApprovalRejected \<noteq> ApprovalUsed" "ApprovalUsed \<noteq> ApprovalRejected"
  "ApprovalExpired \<noteq> ApprovalUsed" "ApprovalUsed \<noteq> ApprovalExpired"
  by (simp_all add: status_defs)

lemma risk_distinct [simp]:
  "RiskLow \<noteq> RiskMedium" "RiskMedium \<noteq> RiskLow" "RiskLow \<noteq> RiskHigh" "RiskHigh \<noteq> RiskLow"
  "RiskLow \<noteq> RiskCritical" "RiskCritical \<noteq> RiskLow" "RiskMedium \<noteq> RiskHigh" "RiskHigh \<noteq> RiskMedium"
  "RiskMedium \<noteq> RiskCritical" "RiskCritical \<noteq> RiskMedium" "RiskHigh \<noteq> RiskCritical"
  "RiskCritical \<noteq> RiskHigh"
  by (simp_all add: risk_defs)

lemma audit_action_distinct [simp]:
  "AuditPrepared \<noteq> AuditExecuted" "AuditPrepared \<noteq> AuditFailed" "AuditExecuted \<noteq> AuditFailed"
  "AuditExecuted \<noteq> AuditPrepared" "AuditFailed \<noteq> AuditPrepared" "AuditFailed \<noteq> AuditExecuted"
  by (simp_all add: AuditPrepared_def AuditExecuted_def AuditFailed_def)

section \<open>Errors\<close>

text \<open>
  The sentinel errors of the package, and the wrapped input/output errors of its stores.
\<close>

datatype op_error =
    ErrInvalidOperation
  | ErrApprovalNotFound
  | ErrApprovalRejected
  | ErrApprovalExpired
  | ErrApprovalTokenInvalid
  | ErrApprovalTokenConsumed
  | ErrApprovalAlreadyDecided
  | ErrLoadStore
  | ErrSaveStore
  | ErrGraceProjectRequired

section \<open>Records\<close>

record Target =
  tg_ProjectID :: string
  tg_ProjectName :: string
  tg_EnvName :: string
  tg_ServiceID :: string
  tg_ServiceName :: string
  tg_DeploymentID :: string
  tg_HostID :: string
  tg_TemplatePath :: string
  tg_TemplateDigest :: string
  tg_PipelineID :: string
  tg_ArtifactVersion :: string
  tg_DebugSessionID :: string
  tg_RequestOrigin :: string
  tg_PairingCode :: string

record Check =
  ck_Name :: string
  ck_Status :: string
  ck_Message :: string

record Plan =
  pl_ID :: string
  pl_Kind :: string
  pl_Target :: Target
  pl_TargetSummary :: string
  pl_RiskLevel :: string
  pl_RequiresApproval :: bool
  pl_Denied :: bool
  pl_Reasons :: "string list"
  pl_ExpectedEffects :: "string list"
  pl_Checks :: "Check list"
  pl_Fingerprint :: string
  pl_CreatedAt :: time
  pl_ExpiresAt :: time

record TemplateSummary =
  ts_Source :: string
  ts_ID :: string
  ts_Name :: string
  ts_Version :: string
  ts_Digest :: string

record TemplateImportRequest =
  ti_Path :: string
  ti_Digest :: string
  ti_Summary :: TemplateSummary

record CodeDebugEvaluateRequest =
  ce_ProjectID :: string
  ce_ProjectName :: string
  ce_DeploymentID :: string
  ce_DebugSessionID :: string
  ce_ExpressionHash :: string

record TunnelInvalidationRequest =
  tr_HostID :: string
  tr_Trigger :: string
  tr_ChangedFields :: "string list"

record Approval =
  ap_ID :: string
  ap_Plan :: Plan
  ap_Status :: string
  ap_RequestedBy :: string
  ap_RequesterLabel :: string
  ap_CreatedAt :: time
  ap_UpdatedAt :: time
  ap_ExpiresAt :: time
  ap_DecidedAt :: "time option"
  ap_DecidedBy :: string
  ap_DecisionNote :: string
  ap_TokenHash :: string
  ap_TokenIssuedAt :: "time option"
  ap_TokenExpiresAt :: "time option"
  ap_OriginHostID :: string

record AuditEvent =
  ev_ID :: string
  ev_Kind :: string
  ev_Action :: string
  ev_ApprovalID :: string
  ev_Plan :: Plan
  ev_Summary :: string
  ev_Data :: "(string \<times> json) list"
  ev_CreatedAt :: time

record GraceGrant =
  gr_ProjectID :: string
  gr_GrantedBy :: string
  gr_GrantedFrom :: string
  gr_CreatedAt :: time
  gr_ExpiresAt :: time

record ApprovalFilter =
  af_Status :: string
  af_ProjectID :: string
  af_Limit :: int

record AuditFilter =
  uf_ProjectID :: string
  uf_Kind :: string
  uf_ApprovalID :: string
  uf_Since :: time
  uf_Limit :: int

definition empty_target :: Target where
  "empty_target = \<lparr>tg_ProjectID = [], tg_ProjectName = [], tg_EnvName = [], tg_ServiceID = [],
     tg_ServiceName = [], tg_DeploymentID = [], tg_HostID = [], tg_TemplatePath = [],
     tg_TemplateDigest = [], tg_PipelineID = [], tg_ArtifactVersion = [], tg_DebugSessionID = [],
     tg_RequestOrigin = [], tg_PairingCode = []\<rparr>"

section \<open>Identifiers, tokens and hashes\<close>

text \<open>
  The random bytes come from \<^verbatim>\<open>crypto/rand\<close>; they are an argument of every operation that
  draws them (12 bytes for an identifier, 32 for a token).
\<close>

definition newID :: "byte list \<Rightarrow> string \<Rightarrow> string" where
  "newID rand pre = pre @ ''_'' @ hex rand"

definition newToken :: "byte list \<Rightarrow> string" where
  "newToken rand = hex rand"

definition tokenHash :: "string \<Rightarrow> string" where
  "tokenHash token = sha256_text token"

lemma newID_inj: "newID a p = newID b p \<Longrightarrow> a = b"
  by (auto simp: newID_def dest: hex_inj)

lemma tokenHash_nonempty [simp]: "tokenHash t \<noteq> []" "[] \<noteq> tokenHash t"
  by (simp_all add: tokenHash_def)

text \<open>The JSON value of a target: its fields in order, the empty ones omitted.\<close>

definition target_fields :: "Target \<Rightarrow> (string \<times> string) list" where
  "target_fields t =
     [(''project_id'', tg_ProjectID t), (''project_name'', tg_ProjectName t),
      (''env_name'', tg_EnvName t), (''service_id'', tg_ServiceID t),
      (''service_name'', tg_ServiceName t), (''deployment_id'', tg_DeploymentID t),
      (''host_id'', tg_HostID t), (''template_path'', tg_TemplatePath t),
      (''template_digest'', tg_TemplateDigest t), (''pipeline_id'', tg_PipelineID t),
      (''artifact_version'', tg_ArtifactVersion t), (''debug_session_id'', tg_DebugSessionID t),
      (''request_origin'', tg_RequestOrigin t), (''pairing_code'', tg_PairingCode t)]"

definition target_json :: "Target \<Rightarrow> json" where
  "target_json t = json_omitempty (target_fields t)"

end
