(* ===== verification/ApprovalStore.thy ===== *)
theory ApprovalStore
  imports OperationTypes
begin

text \<open>
  The approval part of \<^verbatim>\<open>agent/operation/store.go\<close>: approvals persisted in a JSON file, their
  decisions, one-time tokens and retention. Every operation of \<^verbatim>\<open>ApprovalFileStore\<close> holds the
  store's mutex for its whole body, so it is one atomic function of the store. What it reads from the
  world is an argument: the instant \<^verbatim>\<open>time.Now()\<close> returns, random bytes, and whether the file
  system accepts the write (\<open>ok\<close>).
\<close>

section \<open>State and persistence\<close>

record ApprovalFileStore =
  as_limit :: int
  as_file :: "Approval disk"

definition defaultApprovalRetention :: int where "defaultApprovalRetention = 1000"
definition approvalTerminalRetentionFloor :: int where "approvalTerminalRetentionFloor = 200"

definition NewApprovalFileStore :: "Approval disk \<Rightarrow> ApprovalFileStore" where
  "NewApprovalFileStore f = \<lparr>as_limit = defaultApprovalRetention, as_file = f\<rparr>"

fun approvals_load :: "Approval disk \<Rightarrow> op_error + Approval list" where
  "approvals_load Missing = Inr []"
| "approvals_load Unreadable = Inl ErrLoadStore"
| "approvals_load Blank = Inr []"
| "approvals_load Garbled = Inl ErrLoadStore"
| "approvals_load (Content xs) = Inr xs"

text \<open>The write goes to a temporary file that is renamed: a failure leaves the old file.\<close>

definition approvals_save :: "bool \<Rightarrow> Approval list \<Rightarrow> Approval disk \<Rightarrow> Approval disk" where
  "approvals_save ok xs f = (if ok then Content xs else f)"

interpretation approvals: atomic_json_file approvals_load approvals_save
  by unfold_locales (simp_all add: approvals_save_def)

definition saved :: "bool \<Rightarrow> Approval list \<Rightarrow> ApprovalFileStore \<Rightarrow> ApprovalFileStore" where
  "saved ok xs s = s\<lparr>as_file := approvals_save ok xs (as_file s)\<rparr>"

text \<open>\<^verbatim>\<open>if err := s.save(st); err != nil { return err }; return r\<close>.\<close>

definition commit :: "bool \<Rightarrow> Approval list \<Rightarrow> 'r \<Rightarrow> ApprovalFileStore \<Rightarrow> (op_error + 'r) \<times> ApprovalFileStore" where
  "commit ok xs r s = (if ok then Inr r else Inl ErrSaveStore, saved ok xs s)"

section \<open>Guards and helpers\<close>

definition tokenExpired :: "Approval \<Rightarrow> time \<Rightarrow> bool" where
  "tokenExpired a now = (case ap_TokenExpiresAt a of None \<Rightarrow> False | Some t \<Rightarrow> t < now)"

definition ensureApprovalDecisionAllowed :: "Approval \<Rightarrow> time \<Rightarrow> op_error option" where
  "ensureApprovalDecisionAllowed a now =
     (if ap_Status a = ApprovalPending then
        (if ap_ExpiresAt a < now then Some ErrApprovalExpired else None)
      else if ap_Status a = ApprovalApproved then Some ErrApprovalAlreadyDecided
      else if ap_Status a = ApprovalRejected then Some ErrApprovalAlreadyDecided
      else if ap_Status a = ApprovalUsed then Some ErrApprovalTokenConsumed
      else if ap_Status a = ApprovalExpired then Some ErrApprovalExpired
      else Some ErrApprovalTokenInvalid)"

definition ensureTokenIssueAllowed :: "Approval \<Rightarrow> time \<Rightarrow> op_error option" where
  "ensureTokenIssueAllowed a now =
     (if ap_Status a = ApprovalApproved then
        (if ap_ExpiresAt a < now then Some ErrApprovalExpired
         else if tokenExpired a now then Some ErrApprovalExpired
         else None)
      else if ap_Status a = ApprovalRejected then Some ErrApprovalRejected
      else if ap_Status a = ApprovalUsed then Some ErrApprovalTokenConsumed
      else if ap_Status a = ApprovalExpired then Some ErrApprovalExpired
      else Some ErrApprovalTokenInvalid)"

definition lapsed :: "Approval \<Rightarrow> time \<Rightarrow> bool" where
  "lapsed a now \<longleftrightarrow>
     (ap_Status a = ApprovalPending \<or> ap_Status a = ApprovalApproved) \<and>
     ap_ExpiresAt a \<noteq> 0 \<and> ap_ExpiresAt a < now"

definition expireApprovals :: "Approval list \<Rightarrow> time \<Rightarrow> Approval list \<times> bool" where
  "expireApprovals xs now =
     (map (\<lambda>a. if lapsed a now then a\<lparr>ap_Status := ApprovalExpired, ap_UpdatedAt := now\<rparr> else a) xs,
      list_ex (\<lambda>a. lapsed a now) xs)"

definition withEffectiveExpiry :: "Approval \<Rightarrow> time \<Rightarrow> Approval" where
  "withEffectiveExpiry a now = (if lapsed a now then a\<lparr>ap_Status := ApprovalExpired\<rparr> else a)"

definition findApprovalIndex :: "Approval list \<Rightarrow> string \<Rightarrow> nat option" where
  "findApprovalIndex xs aid = find_index (\<lambda>a. ap_ID a = aid) xs"

definition findApprovalByTokenHash :: "Approval list \<Rightarrow> string \<Rightarrow> nat option" where
  "findApprovalByTokenHash xs h = find_index (\<lambda>a. ap_TokenHash a = h) xs"

definition approvalIsLoadBearing :: "Approval \<Rightarrow> time \<Rightarrow> bool" where
  "approvalIsLoadBearing a now =
     (if ap_Status a \<noteq> ApprovalPending \<and> ap_Status a \<noteq> ApprovalApproved then False
      else ap_ExpiresAt a = 0 \<or> \<not> ap_ExpiresAt a < now)"

definition trimApprovals :: "Approval list \<Rightarrow> int \<Rightarrow> time \<Rightarrow> Approval list" where
  "trimApprovals xs limit now =
     (if limit \<le> 0 \<or> int (length xs) \<le> limit then xs
      else
        let srt = sort_key ap_UpdatedAt xs;
            loadBearing = filter (\<lambda>a. approvalIsLoadBearing a now) srt;
            trimmable = filter (\<lambda>a. \<not> approvalIsLoadBearing a now) srt;
            flr = (if approvalTerminalRetentionFloor > limit then limit
                     else approvalTerminalRetentionFloor);
            remaining = (let r = limit - int (length loadBearing) in if r < flr then flr else r);
            kept = loadBearing @ keep_last (nat remaining) trimmable
        in sort_key ap_CreatedAt kept)"

section \<open>Operations\<close>

definition reusablePending :: "Plan \<Rightarrow> string \<Rightarrow> string \<Rightarrow> time \<Rightarrow> Approval \<Rightarrow> bool" where
  "reusablePending plan requestedBy requesterLabel now a \<longleftrightarrow>
     ap_Status a = ApprovalPending \<and>
     pl_Fingerprint (ap_Plan a) = pl_Fingerprint plan \<and>
     ap_RequestedBy a = requestedBy \<and>
     ap_RequesterLabel a = requesterLabel \<and>
     now < ap_ExpiresAt a"

definition newPending :: "time \<Rightarrow> byte list \<Rightarrow> Plan \<Rightarrow> string \<Rightarrow> string \<Rightarrow> Approval" where
  "newPending now rand plan requestedBy requesterLabel =
     (let plan1 = (if pl_CreatedAt plan = 0 then plan\<lparr>pl_CreatedAt := now\<rparr> else plan);
          plan2 = (if pl_ExpiresAt plan1 = 0
                   then plan1\<lparr>pl_ExpiresAt := now + DefaultPlanTTL\<rparr> else plan1)
      in \<lparr>ap_ID = newID rand ''opa'', ap_Plan = plan2, ap_Status = ApprovalPending,
          ap_RequestedBy = requestedBy, ap_RequesterLabel = requesterLabel,
          ap_CreatedAt = now, ap_UpdatedAt = now,
          ap_ExpiresAt = now + DefaultApprovalTTL, ap_DecidedAt = None,
          ap_DecidedBy = [], ap_DecisionNote = [], ap_TokenHash = [],
          ap_TokenIssuedAt = None, ap_TokenExpiresAt = None, ap_OriginHostID = []\<rparr>)"

definition FindOrCreatePending ::
  "bool \<Rightarrow> time \<Rightarrow> byte list \<Rightarrow> Plan \<Rightarrow> string \<Rightarrow> string \<Rightarrow> ApprovalFileStore
     \<Rightarrow> (op_error + Approval) \<times> ApprovalFileStore" where
  "FindOrCreatePending ok now rand plan requestedBy requesterLabel s =
     (let requestedBy = TrimSpace requestedBy;
          requesterLabel = TrimSpace requesterLabel
      in case approvals_load (as_file s) of
           Inl e \<Rightarrow> (Inl e, s)
         | Inr xs0 \<Rightarrow>
             let (xs, changed) = expireApprovals xs0 now
             in case find (reusablePending plan requestedBy requesterLabel now) xs of
                  Some a \<Rightarrow> (if changed then commit ok xs a s else (Inr a, s))
                | None \<Rightarrow>
                    let a = newPending now rand plan requestedBy requesterLabel
                    in commit ok (trimApprovals (xs @ [a]) (as_limit s) now) a s)"

text \<open>\<^verbatim>\<open>List\<close> calls \<^verbatim>\<open>time.Now()\<close> once per record: \<open>clock i\<close> is the answer of call \<open>i\<close>.\<close>

definition ListApprovals :: "(nat \<Rightarrow> time) \<Rightarrow> ApprovalFilter \<Rightarrow> ApprovalFileStore \<Rightarrow> op_error + Approval list" where
  "ListApprovals clock flt s =
     (case approvals_load (as_file s) of
        Inl e \<Rightarrow> Inl e
      | Inr xs \<Rightarrow>
          let status = TrimSpace (af_Status flt);
              projectID = TrimSpace (af_ProjectID flt);
              eff = map (\<lambda>(i, a). withEffectiveExpiry a (clock i)) (List.enumerate 0 xs);
              out = filter (\<lambda>a. (status = [] \<or> ap_Status a = status) \<and>
                                (projectID = [] \<or> tg_ProjectID (pl_Target (ap_Plan a)) = projectID)) eff
          in Inr (go_limit (af_Limit flt) (stable_sort_desc ap_UpdatedAt out)))"

definition ListDecided :: "time \<Rightarrow> time \<Rightarrow> int \<Rightarrow> ApprovalFileStore \<Rightarrow> op_error + Approval list" where
  "ListDecided now since limit s =
     (case approvals_load (as_file s) of
        Inl e \<Rightarrow> Inl e
      | Inr xs \<Rightarrow>
          let eff = map (\<lambda>a. withEffectiveExpiry a now) xs;
              out = filter (\<lambda>a. ap_Status a \<noteq> ApprovalPending \<and>
                                (since = 0 \<or> \<not> ap_UpdatedAt a < since)) eff
          in Inr (go_limit limit (stable_sort_desc ap_UpdatedAt out)))"

definition GetApproval :: "time \<Rightarrow> string \<Rightarrow> ApprovalFileStore \<Rightarrow> op_error + Approval" where
  "GetApproval now aid s =
     (case approvals_load (as_file s) of
        Inl e \<Rightarrow> Inl e
      | Inr xs \<Rightarrow>
          (case findApprovalIndex xs (TrimSpace aid) of
             None \<Rightarrow> Inl ErrApprovalNotFound
           | Some i \<Rightarrow> Inr (withEffectiveExpiry (xs ! i) now)))"

definition Approve ::
  "bool \<Rightarrow> time \<Rightarrow> string \<Rightarrow> string \<Rightarrow> string \<Rightarrow> ApprovalFileStore
     \<Rightarrow> (op_error + Approval) \<times> ApprovalFileStore" where
  "Approve ok now aid decidedBy note s =
     (case approvals_load (as_file s) of
        Inl e \<Rightarrow> (Inl e, s)
      | Inr xs \<Rightarrow>
          (case findApprovalIndex xs (TrimSpace aid) of
             None \<Rightarrow> (Inl ErrApprovalNotFound, s)
           | Some i \<Rightarrow>
               (case ensureApprovalDecisionAllowed (xs ! i) now of
                  Some e \<Rightarrow> (Inl e, s)
                | None \<Rightarrow>
                    let ys = update_at xs i (\<lambda>a. a\<lparr>ap_Status := ApprovalApproved, ap_UpdatedAt := now,
                               ap_DecidedAt := Some now, ap_DecidedBy := TrimSpace decidedBy,
                               ap_DecisionNote := TrimSpace note\<rparr>)
                    in commit ok ys (ys ! i) s)))"

definition Reject ::
  "bool \<Rightarrow> time \<Rightarrow> string \<Rightarrow> string \<Rightarrow> string \<Rightarrow> ApprovalFileStore
     \<Rightarrow> (op_error + Approval) \<times> ApprovalFileStore" where
  "Reject ok now aid decidedBy note s =
     (case approvals_load (as_file s) of
        Inl e \<Rightarrow> (Inl e, s)
      | Inr xs \<Rightarrow>
          (case findApprovalIndex xs (TrimSpace aid) of
             None \<Rightarrow> (Inl ErrApprovalNotFound, s)
           | Some i \<Rightarrow>
               (case ensureApprovalDecisionAllowed (xs ! i) now of
                  Some e \<Rightarrow> (Inl e, s)
                | None \<Rightarrow>
                    let ys = update_at xs i (\<lambda>a. a\<lparr>ap_Status := ApprovalRejected, ap_UpdatedAt := now,
                               ap_DecidedAt := Some now, ap_DecidedBy := TrimSpace decidedBy,
                               ap_DecisionNote := TrimSpace note, ap_TokenHash := [],
                               ap_TokenIssuedAt := None, ap_TokenExpiresAt := None\<rparr>)
                    in commit ok ys (ys ! i) s)))"

definition IssueToken ::
  "bool \<Rightarrow> time \<Rightarrow> byte list \<Rightarrow> string \<Rightarrow> ApprovalFileStore
     \<Rightarrow> (op_error + string \<times> Approval) \<times> ApprovalFileStore" where
  "IssueToken ok now rand aid s =
     (case approvals_load (as_file s) of
        Inl e \<Rightarrow> (Inl e, s)
      | Inr xs \<Rightarrow>
          (case findApprovalIndex xs (TrimSpace aid) of
             None \<Rightarrow> (Inl ErrApprovalNotFound, s)
           | Some i \<Rightarrow>
               (case ensureTokenIssueAllowed (xs ! i) now of
                  Some e \<Rightarrow> (Inl e, s)
                | None \<Rightarrow>
                    let token = newToken rand;
                        ys = update_at xs i (\<lambda>a. a\<lparr>ap_TokenHash := tokenHash token,
                               ap_TokenIssuedAt := Some now,
                               ap_TokenExpiresAt := Some (now + DefaultTokenTTL), ap_UpdatedAt := now\<rparr>)
                    in commit ok ys (token, ys ! i) s)))"

definition ConsumeToken ::
  "bool \<Rightarrow> time \<Rightarrow> string \<Rightarrow> string \<Rightarrow> ApprovalFileStore
     \<Rightarrow> (op_error + Approval) \<times> ApprovalFileStore" where
  "ConsumeToken ok now token fingerprint s =
     (let token = TrimSpace token; fingerprint = TrimSpace fingerprint
      in if token = [] \<or> fingerprint = [] then (Inl ErrApprovalTokenInvalid, s)
         else case approvals_load (as_file s) of
           Inl e \<Rightarrow> (Inl e, s)
         | Inr xs \<Rightarrow>
             (case findApprovalByTokenHash xs (tokenHash token) of
                None \<Rightarrow> (Inl ErrApprovalTokenInvalid, s)
              | Some i \<Rightarrow>
                  let a = xs ! i
                  in if ap_Status a = ApprovalUsed then (Inl ErrApprovalTokenConsumed, s)
                     else if ap_Status a = ApprovalRejected then (Inl ErrApprovalRejected, s)
                     else if ap_Status a = ApprovalExpired \<or> ap_ExpiresAt a < now \<or> tokenExpired a now
                     then (Inl ErrApprovalExpired,
                           saved ok (update_at xs i (\<lambda>a. a\<lparr>ap_Status := ApprovalExpired,
                                                             ap_UpdatedAt := now\<rparr>)) s)
                     else if ap_Status a \<noteq> ApprovalApproved then (Inl ErrApprovalTokenInvalid, s)
                     else if pl_Fingerprint (ap_Plan a) \<noteq> fingerprint then (Inl ErrApprovalTokenInvalid, s)
                     else let ys = update_at xs i (\<lambda>a. a\<lparr>ap_Status := ApprovalUsed, ap_UpdatedAt := now\<rparr>)
                          in commit ok ys (ys ! i) s))"

lemmas approval_op_defs [store_defs] =
  FindOrCreatePending_def Approve_def Reject_def IssueToken_def ConsumeToken_def commit_def saved_def

text \<open>What the store holds: the records a load returns, none where it fails.\<close>

definition records :: "ApprovalFileStore \<Rightarrow> Approval list" where
  "records s = (case approvals_load (as_file s) of Inl e \<Rightarrow> [] | Inr xs \<Rightarrow> xs)"

lemma records_load: "approvals_load (as_file s) = Inr xs \<Longrightarrow> records s = xs"
  by (simp add: records_def)

lemma records_saved:
  "approvals_load (as_file s) = Inr xs \<Longrightarrow> records (saved ok ys s) = (if ok then ys else xs)"
  by (simp add: records_def saved_def approvals.load_save_cases)

lemma load_saved:
  "approvals_load (as_file s) = Inr xs \<Longrightarrow>
     approvals_load (as_file (saved ok ys s)) = Inr (if ok then ys else xs)"
  by (simp add: saved_def approvals.load_save_cases)

lemma limit_saved [simp]: "as_limit (saved ok ys s) = as_limit s"
  by (simp add: saved_def)

lemma newPending_fields [simp]:
  "ap_ID (newPending now rand plan who label) = newID rand ''opa''"
  "ap_Status (newPending now rand plan who label) = ApprovalPending"
  "ap_RequestedBy (newPending now rand plan who label) = who"
  "ap_RequesterLabel (newPending now rand plan who label) = label"
  "ap_CreatedAt (newPending now rand plan who label) = now"
  "ap_UpdatedAt (newPending now rand plan who label) = now"
  "ap_ExpiresAt (newPending now rand plan who label) = now + DefaultApprovalTTL"
  "ap_DecidedAt (newPending now rand plan who label) = None"
  "ap_DecidedBy (newPending now rand plan who label) = []"
  "ap_TokenHash (newPending now rand plan who label) = []"
  "ap_TokenIssuedAt (newPending now rand plan who label) = None"
  "ap_TokenExpiresAt (newPending now rand plan who label) = None"
  "pl_Fingerprint (ap_Plan (newPending now rand plan who label)) = pl_Fingerprint plan"
  by (simp_all add: newPending_def Let_def)

text \<open>The three ways a search for a pending approval can go once the file is loaded.\<close>

lemma FindOrCreatePending_cases:
  assumes "approvals_load (as_file s) = Inr xs0"
  obtains
    (hit) a where "find (reusablePending plan (TrimSpace who) (TrimSpace label) now)
        (fst (expireApprovals xs0 now)) = Some a" "snd (expireApprovals xs0 now)"
      "FindOrCreatePending ok now rand plan who label s = commit ok (fst (expireApprovals xs0 now)) a s"
  | (hit_clean) a where "find (reusablePending plan (TrimSpace who) (TrimSpace label) now)
        (fst (expireApprovals xs0 now)) = Some a" "\<not> snd (expireApprovals xs0 now)"
      "FindOrCreatePending ok now rand plan who label s = (Inr a, s)"
  | (create) "find (reusablePending plan (TrimSpace who) (TrimSpace label) now)
        (fst (expireApprovals xs0 now)) = None"
      "FindOrCreatePending ok now rand plan who label s =
         commit ok (trimApprovals (fst (expireApprovals xs0 now) @
           [newPending now rand plan (TrimSpace who) (TrimSpace label)]) (as_limit s) now)
           (newPending now rand plan (TrimSpace who) (TrimSpace label)) s"
  using assms
  by (cases "find (reusablePending plan (TrimSpace who) (TrimSpace label) now)
        (fst (expireApprovals xs0 now))"; cases "snd (expireApprovals xs0 now)")
    (auto simp: FindOrCreatePending_def Let_def split_beta)

end
