(* ===== verification/ApprovalLifecycle.thy ===== *)
theory ApprovalLifecycle
  imports ApprovalStore
begin

text \<open>
  What the approval store promises: how a single approval may change (\<open>evolves\<close>), that every operation
  changes every record only in that way, the invariant of the reachable stores, and what follows for
  whole runs: decisions are final, tokens are spent once, retention never drops an open approval.
\<close>

section \<open>The life of one approval\<close>

text \<open>
  \<open>evolves H a b\<close>: one operation may turn approval \<open>a\<close> into \<open>b\<close>; \<open>H\<close> holds the hashes of the
  tokens the operation issues.
\<close>

inductive evolves :: "string set \<Rightarrow> Approval \<Rightarrow> Approval \<Rightarrow> bool" for H where
  stay: "evolves H a a"
| approve: "ensureApprovalDecisionAllowed a now = None \<Longrightarrow>
     evolves H a (a\<lparr>ap_Status := ApprovalApproved, ap_UpdatedAt := now, ap_DecidedAt := Some now,
                    ap_DecidedBy := who, ap_DecisionNote := why\<rparr>)"
| reject: "ensureApprovalDecisionAllowed a now = None \<Longrightarrow>
     evolves H a (a\<lparr>ap_Status := ApprovalRejected, ap_UpdatedAt := now, ap_DecidedAt := Some now,
                    ap_DecidedBy := who, ap_DecisionNote := why, ap_TokenHash := [],
                    ap_TokenIssuedAt := None, ap_TokenExpiresAt := None\<rparr>)"
| lapse: "ap_Status a \<noteq> ApprovalUsed \<Longrightarrow> ap_Status a \<noteq> ApprovalRejected \<Longrightarrow>
     ap_Status a = ApprovalExpired \<or> ap_ExpiresAt a < now \<or> tokenExpired a now \<Longrightarrow>
     evolves H a (a\<lparr>ap_Status := ApprovalExpired, ap_UpdatedAt := now\<rparr>)"
| issue: "ensureTokenIssueAllowed a now = None \<Longrightarrow> h \<in> H \<Longrightarrow> h \<noteq> [] \<Longrightarrow>
     evolves H a (a\<lparr>ap_TokenHash := h, ap_TokenIssuedAt := Some now,
                    ap_TokenExpiresAt := Some (now + DefaultTokenTTL), ap_UpdatedAt := now\<rparr>)"
| consume: "ap_Status a = ApprovalApproved \<Longrightarrow> \<not> ap_ExpiresAt a < now \<Longrightarrow> \<not> tokenExpired a now \<Longrightarrow>
     ap_TokenHash a \<noteq> [] \<Longrightarrow>
     evolves H a (a\<lparr>ap_Status := ApprovalUsed, ap_UpdatedAt := now\<rparr>)"

inductive_cases evolvesE: "evolves H a b"

lemma decision_allowed_iff:
  "ensureApprovalDecisionAllowed a now = None \<longleftrightarrow>
     ap_Status a = ApprovalPending \<and> \<not> ap_ExpiresAt a < now"
  by (simp add: ensureApprovalDecisionAllowed_def)

lemma issue_allowed_iff:
  "ensureTokenIssueAllowed a now = None \<longleftrightarrow>
     ap_Status a = ApprovalApproved \<and> \<not> ap_ExpiresAt a < now \<and> \<not> tokenExpired a now"
  by (simp add: ensureTokenIssueAllowed_def)

lemmas guard_iffs = decision_allowed_iff issue_allowed_iff

text \<open>What never changes, and where each state may go.\<close>

lemma evolves_identity:
  "evolves H a b \<Longrightarrow> ap_ID b = ap_ID a \<and> ap_Plan b = ap_Plan a \<and> ap_RequestedBy b = ap_RequestedBy a \<and>
     ap_RequesterLabel b = ap_RequesterLabel a \<and> ap_CreatedAt b = ap_CreatedAt a \<and>
     ap_ExpiresAt b = ap_ExpiresAt a"
  by (cases rule: evolves.cases) auto

lemma evolves_used: "evolves H a b \<Longrightarrow> ap_Status a = ApprovalUsed \<Longrightarrow> b = a"
  by (cases rule: evolves.cases) (auto simp: guard_iffs)

lemma evolves_rejected: "evolves H a b \<Longrightarrow> ap_Status a = ApprovalRejected \<Longrightarrow> b = a"
  by (cases rule: evolves.cases) (auto simp: guard_iffs)

lemma evolves_expired: "evolves H a b \<Longrightarrow> ap_Status a = ApprovalExpired \<Longrightarrow> ap_Status b = ApprovalExpired"
  by (cases rule: evolves.cases) (auto simp: guard_iffs)

lemma evolves_approved:
  "evolves H a b \<Longrightarrow> ap_Status a = ApprovalApproved \<Longrightarrow>
     ap_Status b \<in> {ApprovalApproved, ApprovalExpired, ApprovalUsed}"
  by (cases rule: evolves.cases) (auto simp: guard_iffs)

text \<open>A decision, once recorded, is never rewritten.\<close>

definition decided :: "Approval \<Rightarrow> bool" where
  "decided a \<longleftrightarrow> ap_Status a \<in> {ApprovalApproved, ApprovalRejected, ApprovalUsed, ApprovalExpired}"

lemma evolves_decided:
  "evolves H a b \<Longrightarrow> decided a \<Longrightarrow>
     decided b \<and> ap_DecidedAt b = ap_DecidedAt a \<and> ap_DecidedBy b = ap_DecidedBy a \<and>
     ap_DecisionNote b = ap_DecisionNote a"
  by (cases rule: evolves.cases) (auto simp: guard_iffs decided_def)

text \<open>The fields of a record agree with its state.\<close>

definition approval_wf :: "Approval \<Rightarrow> bool" where
  "approval_wf a \<longleftrightarrow>
     ap_Status a \<in> {ApprovalPending, ApprovalApproved, ApprovalRejected, ApprovalExpired, ApprovalUsed} \<and>
     (ap_Status a = ApprovalPending \<longrightarrow> ap_DecidedAt a = None \<and> ap_TokenHash a = []) \<and>
     (ap_Status a \<in> {ApprovalApproved, ApprovalRejected, ApprovalUsed} \<longrightarrow> ap_DecidedAt a \<noteq> None) \<and>
     (ap_Status a = ApprovalRejected \<longrightarrow> ap_TokenHash a = []) \<and>
     (ap_Status a = ApprovalUsed \<longrightarrow> ap_TokenHash a \<noteq> []) \<and>
     (ap_TokenHash a = [] \<longleftrightarrow> ap_TokenExpiresAt a = None) \<and>
     (ap_TokenHash a \<noteq> [] \<longrightarrow> ap_DecidedAt a \<noteq> None)"

lemma evolves_wf:
  assumes "evolves H a b" "approval_wf a"
  shows "approval_wf b"
  using assms(1)
proof cases
  case stay
  with assms(2) show ?thesis by simp
next
  case (approve now who why)
  then have "ap_Status a = ApprovalPending" by (simp add: guard_iffs)
  with assms(2) have "ap_TokenHash a = []" "ap_TokenExpiresAt a = None"
    by (auto simp: approval_wf_def)
  with approve show ?thesis by (simp add: approval_wf_def)
qed (use assms(2) in \<open>simp_all add: guard_iffs approval_wf_def\<close>)

section \<open>Retention\<close>

text \<open>How many of the closed records stay: the rest of the budget, at least the floor.\<close>

definition closed_room :: "Approval list \<Rightarrow> int \<Rightarrow> time \<Rightarrow> nat" where
  "closed_room xs limit now =
     nat (max (min limit approvalTerminalRetentionFloor)
              (limit - int (length (filter (\<lambda>a. approvalIsLoadBearing a now) xs))))"

lemma length_filter_sort_key: "length (filter P (sort_key f xs)) = length (filter P xs)"
  by (metis filter_sort length_sort)

lemma trim_unchanged: "limit \<le> 0 \<or> int (length xs) \<le> limit \<Longrightarrow> trimApprovals xs limit now = xs"
  by (simp add: trimApprovals_def)

lemma trim_shape:
  assumes "\<not> (limit \<le> 0 \<or> int (length xs) \<le> limit)"
  shows "trimApprovals xs limit now = sort_key ap_CreatedAt
     (filter (\<lambda>a. approvalIsLoadBearing a now) (sort_key ap_UpdatedAt xs) @
      keep_last (closed_room xs limit now)
        (filter (\<lambda>a. \<not> approvalIsLoadBearing a now) (sort_key ap_UpdatedAt xs)))"
proof -
  have "(let flr = (if approvalTerminalRetentionFloor > limit then limit
                     else approvalTerminalRetentionFloor)
         in let r = limit - k in if r < flr then flr else r) =
        max (min limit approvalTerminalRetentionFloor) (limit - k)" for k
    by (simp add: Let_def max_def min_def)
  with assms show ?thesis
    by (simp add: trimApprovals_def closed_room_def length_filter_sort_key Let_def)
qed

lemma trim_submset: "mset (trimApprovals xs limit now) \<subseteq># mset xs"
proof -
  have part: "mset (filter P ys) + mset (keep_last n (filter (\<lambda>a. \<not> P a) ys)) \<subseteq># mset ys"
    for P n and ys :: "Approval list"
  proof -
    have "mset (keep_last n (filter (\<lambda>a. \<not> P a) ys)) \<subseteq># mset (filter (\<lambda>a. \<not> P a) ys)"
      by (metis keep_last_append mset_append mset_subset_eq_add_right)
    then show ?thesis by (metis filter_partition_mset subset_mset.add_left_mono)
  qed
  show ?thesis
  proof (cases "limit \<le> 0 \<or> int (length xs) \<le> limit")
    case False
    show ?thesis
      using part [of "\<lambda>a. approvalIsLoadBearing a now" "sort_key ap_UpdatedAt xs"]
      by (simp add: trim_shape [OF False])
  qed (simp add: trim_unchanged)
qed

lemma set_trim: "set (trimApprovals xs limit now) \<subseteq> set xs"
  using trim_submset by (metis mset_subset_eqD set_mset_mset subsetI)

lemma trim_keeps_load_bearing:
  assumes "a \<in> set xs" "approvalIsLoadBearing a now"
  shows "a \<in> set (trimApprovals xs limit now)"
proof (cases "limit \<le> 0 \<or> int (length xs) \<le> limit")
  case False
  with assms show ?thesis by (simp add: trim_shape [OF False])
qed (simp add: trim_unchanged assms)

lemma trim_bound:
  assumes "0 < limit"
  shows "int (length (trimApprovals xs limit now)) \<le>
     max limit (int (length (filter (\<lambda>a. approvalIsLoadBearing a now) xs))
                + min limit approvalTerminalRetentionFloor)"
proof (cases "int (length xs) \<le> limit")
  case True
  then show ?thesis by (simp add: trim_unchanged)
next
  case False
  let ?k = "length (filter (\<lambda>a. approvalIsLoadBearing a now) xs)"
  from False assms have "length (trimApprovals xs limit now) \<le> ?k + closed_room xs limit now"
    by (simp add: trim_shape length_filter_sort_key)
  moreover have "int (closed_room xs limit now) = max (min limit approvalTerminalRetentionFloor) (limit - int ?k)"
    using assms by (simp add: closed_room_def approvalTerminalRetentionFloor_def)
  ultimately show ?thesis by linarith
qed

text \<open>Among the records that may go, the most recently updated ones stay.\<close>

lemma trim_drops_oldest:
  assumes "x \<in> set xs" "x \<notin> set (trimApprovals xs limit now)"
    "y \<in> set (trimApprovals xs limit now)" "\<not> approvalIsLoadBearing y now"
  shows "ap_UpdatedAt x \<le> ap_UpdatedAt y"
proof -
  define ts where "ts = filter (\<lambda>a. \<not> approvalIsLoadBearing a now) (sort_key ap_UpdatedAt xs)"
  from assms(1,2) have nx: "\<not> approvalIsLoadBearing x now" by (auto dest: trim_keeps_load_bearing)
  with assms(1) have "x \<in> set ts" by (simp add: ts_def)
  from assms(1,2) have cut: "\<not> (limit \<le> 0 \<or> int (length xs) \<le> limit)"
    by (metis trim_unchanged)
  define n where "n = closed_room xs limit now"
  have n: "set (trimApprovals xs limit now) =
      {a \<in> set xs. approvalIsLoadBearing a now} \<union> set (keep_last n ts)"
    by (simp add: trim_shape [OF cut] ts_def n_def)
  have "sorted (map ap_UpdatedAt ts)" by (simp add: ts_def sorted_filter)
  then have "sorted_wrt (\<lambda>a b. ap_UpdatedAt a \<le> ap_UpdatedAt b) ts" by (simp add: sorted_map)
  then show ?thesis
    by (rule keep_last_recent) (use \<open>x \<in> set ts\<close> assms n nx in auto)
qed

lemma expire_evolves: "list_all2 (evolves H) xs (fst (expireApprovals xs now))"
  by (auto simp: expireApprovals_def list_all2_conv_all_nth lapsed_def
      intro: evolves.stay evolves.lapse)

section \<open>Every operation moves every approval along its life\<close>

text \<open>
  \<open>moves H s s'\<close>: the records of \<open>s'\<close> are those of \<open>s\<close>, in the same places, each having
  evolved. It is the contract of all operations but the one that adds a record.
\<close>

definition moves :: "string set \<Rightarrow> ApprovalFileStore \<Rightarrow> ApprovalFileStore \<Rightarrow> bool" where
  "moves H s s' \<longleftrightarrow> list_all2 (evolves H) (records s) (records s') \<and> as_limit s' = as_limit s"

lemma moves_refl [simp]: "moves H s s"
  by (simp add: moves_def list_all2_refl_all evolves.stay)

lemma moves_saved:
  assumes "approvals_load (as_file s) = Inr xs" "list_all2 (evolves H) xs ys"
  shows "moves H s (saved ok ys s)"
  using assms by (simp add: moves_def records_saved records_load list_all2_refl_all evolves.stay)

lemma moves_update:
  assumes "approvals_load (as_file s) = Inr xs" "evolves H (xs ! i) (f (xs ! i))"
  shows "moves H s (saved ok (update_at xs i f) s)"
  using assms(1)
  by (rule moves_saved) (rule list_all2_update_at, simp_all add: evolves.stay assms(2))

lemma snd_commit [simp]: "snd (commit ok xs r s) = saved ok xs s"
  by (simp add: commit_def)

lemma Approve_moves: "moves H s (snd (Approve ok now aid who why s))"
  by (auto simp: Approve_def Let_def split: sum.split option.split
      intro!: moves_update evolves.approve)

lemma Reject_moves: "moves H s (snd (Reject ok now aid who why s))"
  by (auto simp: Reject_def Let_def split: sum.split option.split
      intro!: moves_update evolves.reject)

lemma IssueToken_moves: "moves {tokenHash (newToken rand)} s (snd (IssueToken ok now rand aid s))"
  by (auto simp: IssueToken_def Let_def split: sum.split option.split
      intro!: moves_update evolves.issue)

lemma ConsumeToken_moves: "moves H s (snd (ConsumeToken ok now token fp s))"
proof -
  have hash: "ap_TokenHash (xs ! i) \<noteq> []" if "findApprovalByTokenHash xs (tokenHash t) = Some i" for xs i t
    using find_index_holds [of "\<lambda>a. ap_TokenHash a = tokenHash t" xs i] that
    by (simp add: findApprovalByTokenHash_def)
  show ?thesis
    by (auto simp: ConsumeToken_def Let_def split: sum.split option.split if_split
        intro!: moves_update evolves.lapse evolves.consume dest: hash)
qed

text \<open>Looking for or creating a pending approval keeps, evolves or evicts records and may add one.\<close>

definition fresh_pending :: "Approval \<Rightarrow> bool" where
  "fresh_pending a \<longleftrightarrow> ap_Status a = ApprovalPending \<and> ap_DecidedAt a = None \<and> ap_DecidedBy a = [] \<and>
     ap_TokenHash a = [] \<and> ap_TokenIssuedAt a = None \<and> ap_TokenExpiresAt a = None"

lemma FindOrCreatePending_records:
  "\<exists>ys new. list_all2 (evolves H) (records s) ys \<and>
     mset (records (snd (FindOrCreatePending ok now rand plan who label s))) \<subseteq># mset (ys @ new) \<and>
     (new = [] \<or> (\<exists>a. new = [a] \<and> fresh_pending a \<and> ap_ID a = newID rand ''opa''))"
proof (cases "approvals_load (as_file s)")
  case (Inl e)
  then show ?thesis
    by (intro exI [of _ "records s"] exI [of _ "[]"])
      (simp add: FindOrCreatePending_def list_all2_refl_all evolves.stay)
next
  case (Inr xs)
  define ys where "ys = fst (expireApprovals xs now)"
  have r: "records s = xs" using Inr by (rule records_load)
  have ev: "list_all2 (evolves H) xs ys" unfolding ys_def by (rule expire_evolves)
  have stays: "list_all2 (evolves H) xs xs" by (simp add: list_all2_refl_all evolves.stay)
  let ?a = "newPending now rand plan (TrimSpace who) (TrimSpace label)"
  let ?s' = "snd (FindOrCreatePending ok now rand plan who label s)"
  consider "?s' = s" | "?s' = saved ok ys s"
    | "?s' = saved ok (trimApprovals (ys @ [?a]) (as_limit s) now) s"
    by (cases rule: FindOrCreatePending_cases [OF Inr, of plan who label now ok rand])
      (simp_all add: ys_def)
  then show ?thesis
  proof cases
    case 1
    with r stays show ?thesis by (metis append.right_neutral subset_mset.order_refl)
  next
    case 2
    with r ev stays Inr show ?thesis
      by (intro exI [of _ "if ok then ys else xs"] exI [of _ "[]"]) (simp add: records_saved)
  next
    case 3
    then show ?thesis
    proof (cases ok)
      case True
      with 3 Inr r ev show ?thesis
        by (intro exI [of _ ys] exI [of _ "[?a]"])
          (simp add: records_saved trim_submset fresh_pending_def del: mset_append)
    next
      case False
      with 3 Inr r stays show ?thesis
        by (intro exI [of _ xs] exI [of _ "[]"]) (simp add: records_saved)
    qed
  qed
qed

end
