(* ===== verification/ApprovalRuns.thy ===== *)
theory ApprovalRuns
  imports ApprovalLifecycle
begin

text \<open>
  Runs of the approval store: any sequence of operations, by any number of control planes, each at its
  own time and with its own success of the write. The locale \<open>record_invariant\<close> lifts a property
  of a single approval to all approvals of all runs; the properties of the store are its
  interpretations and the invariant of the runs that start from an empty store.
\<close>

section \<open>Operations as steps\<close>

datatype approval_op =
    DoFind Plan string string "byte list"
  | DoApprove string string string
  | DoReject string string string
  | DoIssue string "byte list"
  | DoConsume string string

type_synonym step = "bool \<times> time \<times> approval_op"

fun run_op :: "bool \<Rightarrow> time \<Rightarrow> approval_op \<Rightarrow> ApprovalFileStore \<Rightarrow> ApprovalFileStore" where
  "run_op ok now (DoFind plan who label rand) s = snd (FindOrCreatePending ok now rand plan who label s)"
| "run_op ok now (DoApprove aid who why) s = snd (Approve ok now aid who why s)"
| "run_op ok now (DoReject aid who why) s = snd (Reject ok now aid who why s)"
| "run_op ok now (DoIssue aid rand) s = snd (IssueToken ok now rand aid s)"
| "run_op ok now (DoConsume token fp) s = snd (ConsumeToken ok now token fp s)"

fun run :: "step list \<Rightarrow> ApprovalFileStore \<Rightarrow> ApprovalFileStore" where
  "run [] s = s"
| "run ((ok, now, x) # xs) s = run xs (run_op ok now x s)"

lemma run_append [simp]: "run (xs @ ys) s = run ys (run xs s)"
  by (induction xs s rule: run.induct) auto

text \<open>The token hashes an operation may write and the identifiers it may draw.\<close>

fun op_hashes :: "approval_op \<Rightarrow> string list" where
  "op_hashes (DoIssue aid rand) = [tokenHash (newToken rand)]"
| "op_hashes _ = []"

fun op_ids :: "approval_op \<Rightarrow> string list" where
  "op_ids (DoFind plan who label rand) = [newID rand ''opa'']"
| "op_ids _ = []"

definition issued :: "step list \<Rightarrow> string list" where
  "issued xs = concat (map (\<lambda>(ok, now, x). op_hashes x) xs)"

definition drawn :: "step list \<Rightarrow> string list" where
  "drawn xs = concat (map (\<lambda>(ok, now, x). op_ids x) xs)"

lemma issued_simps [simp]: "issued [] = []" "issued ((ok, now, x) # xs) = op_hashes x @ issued xs"
  "issued (xs @ ys) = issued xs @ issued ys"
  by (simp_all add: issued_def)

lemma drawn_simps [simp]: "drawn [] = []" "drawn ((ok, now, x) # xs) = op_ids x @ drawn xs"
  "drawn (xs @ ys) = drawn xs @ drawn ys"
  by (simp_all add: drawn_def)

lemma run_op_moves:
  "(\<forall>plan who label rand. x \<noteq> DoFind plan who label rand) \<Longrightarrow> moves (set (op_hashes x)) s (run_op ok now x s)"
  by (cases x) (simp_all add: Approve_moves Reject_moves IssueToken_moves ConsumeToken_moves)

lemma run_op_origin:
  assumes "b \<in> set (records (run_op ok now x s))"
  shows "(\<exists>a \<in> set (records s). evolves (set (op_hashes x)) a b) \<or>
         (fresh_pending b \<and> ap_ID b \<in> set (op_ids x))"
proof (cases x)
  case (DoFind plan who label rand)
  obtain ys new where
    ys: "list_all2 (evolves {}) (records s) ys" and
    sub: "mset (records (run_op ok now x s)) \<subseteq># mset (ys @ new)" and
    new: "new = [] \<or> (\<exists>a. new = [a] \<and> fresh_pending a \<and> ap_ID a = newID rand ''opa'')"
    using FindOrCreatePending_records [of "{}" s ok now rand plan who label] DoFind by auto
  from assms sub have "b \<in> set (ys @ new)" by (metis mset_subset_eqD set_mset_mset)
  with ys new DoFind show ?thesis by (auto dest: list_all2_in_set)
next
  case (DoApprove aid who why)
  with assms run_op_moves [of x s ok now] show ?thesis
    by (auto simp: moves_def dest: list_all2_in_set)
next
  case (DoReject aid who why)
  with assms run_op_moves [of x s ok now] show ?thesis
    by (auto simp: moves_def dest: list_all2_in_set)
next
  case (DoIssue aid rand)
  with assms run_op_moves [of x s ok now] show ?thesis
    by (auto simp: moves_def dest: list_all2_in_set)
next
  case (DoConsume token fp)
  with assms run_op_moves [of x s ok now] show ?thesis
    by (auto simp: moves_def dest: list_all2_in_set)
qed

section \<open>Properties of single records, for all runs\<close>

lemma evolves_mono: "evolves H a b \<Longrightarrow> H \<subseteq> K \<Longrightarrow> evolves K a b"
  by (cases rule: evolves.cases) (auto intro: evolves.intros)

text \<open>
  A predicate on approvals that new pending approvals with identifiers in \<open>N\<close> satisfy and that the
  life of an approval keeps while the tokens issued hash into \<open>H\<close>.
\<close>

locale record_invariant =
  fixes P :: "Approval \<Rightarrow> bool" and H :: "string set" and N :: "string set"
  assumes fresh: "fresh_pending a \<Longrightarrow> ap_ID a \<in> N \<Longrightarrow> P a"
    and keep: "evolves H a b \<Longrightarrow> P a \<Longrightarrow> P b"
begin

lemma step_keeps:
  assumes "\<forall>a \<in> set (records s). P a" "set (op_hashes x) \<subseteq> H" "set (op_ids x) \<subseteq> N"
  shows "\<forall>b \<in> set (records (run_op ok now x s)). P b"
proof
  fix b assume "b \<in> set (records (run_op ok now x s))"
  then consider a where "a \<in> set (records s)" "evolves (set (op_hashes x)) a b"
    | "fresh_pending b" "ap_ID b \<in> set (op_ids x)"
    using run_op_origin by blast
  then show "P b"
  proof cases
    case 1
    with assms show ?thesis by (blast intro: keep evolves_mono)
  next
    case 2
    with assms show ?thesis by (blast intro: fresh)
  qed
qed

lemma run_keeps:
  "\<forall>a \<in> set (records s). P a \<Longrightarrow> set (issued xs) \<subseteq> H \<Longrightarrow> set (drawn xs) \<subseteq> N \<Longrightarrow>
     \<forall>b \<in> set (records (run xs s)). P b"
proof (induction xs s rule: run.induct)
  case (1 s)
  then show ?case by simp
next
  case (2 ok now x xs s)
  then show ?case using step_keeps [of s x ok now] by simp
qed

end

interpretation wf_records: record_invariant approval_wf UNIV UNIV
proof
  fix a assume "fresh_pending a"
  then show "approval_wf a" by (simp add: fresh_pending_def approval_wf_def)
qed (rule evolves_wf)

text \<open>A hash that only spent approvals carry.\<close>

definition spent_hash :: "string \<Rightarrow> Approval \<Rightarrow> bool" where
  "spent_hash h a \<longleftrightarrow> (h \<noteq> [] \<and> ap_TokenHash a = h \<longrightarrow> ap_Status a = ApprovalUsed)"

interpretation spent: record_invariant "spent_hash h" "- {h}" UNIV for h
proof
  fix a assume "fresh_pending a"
  then show "spent_hash h a" by (auto simp: fresh_pending_def spent_hash_def)
next
  fix a b assume "evolves (- {h}) a b" "spent_hash h a"
  then show "spent_hash h b"
    by (cases rule: evolves.cases) (auto simp: spent_hash_def guard_iffs)
qed

text \<open>The approval with identifier \<open>i\<close> carries this decision.\<close>

definition decision_is :: "string \<Rightarrow> time option \<Rightarrow> string \<Rightarrow> string \<Rightarrow> Approval \<Rightarrow> bool" where
  "decision_is i at who why a \<longleftrightarrow>
     (ap_ID a = i \<longrightarrow> decided a \<and> ap_DecidedAt a = at \<and> ap_DecidedBy a = who \<and> ap_DecisionNote a = why)"

interpretation decision: record_invariant "decision_is i at who why" UNIV "- {i}" for i at who why
proof
  fix a b assume "evolves UNIV a b" "decision_is i at who why a"
  then show "decision_is i at who why b"
    using evolves_decided [of UNIV a b] evolves_identity [of UNIV a b]
    by (simp add: decision_is_def)
qed (simp add: decision_is_def)

text \<open>The approval with identifier \<open>i\<close> is in this closed state.\<close>

definition closed_as :: "string \<Rightarrow> string \<Rightarrow> Approval \<Rightarrow> bool" where
  "closed_as i st a \<longleftrightarrow>
     (ap_ID a = i \<longrightarrow> ap_Status a = st \<and> st \<in> {ApprovalRejected, ApprovalExpired, ApprovalUsed})"

interpretation closed: record_invariant "closed_as i st" UNIV "- {i}" for i st
proof
  fix a b assume e: "evolves UNIV a b" and c: "closed_as i st a"
  note same = evolves_used [OF e] evolves_rejected [OF e] evolves_expired [OF e]
    evolves_identity [OF e]
  from c same show "closed_as i st b" by (auto simp: closed_as_def)
qed (simp add: closed_as_def)

end
