(* ===== verification/ApprovalSafety.thy ===== *)
theory ApprovalSafety
  imports ApprovalRuns
begin

text \<open>
  The invariant of the stores that runs reach from an empty file, and the store's promises: tokens are
  spent once, the first decision wins, closed approvals stay closed, open ones survive retention.
\<close>

section \<open>Identifiers and token hashes are unique\<close>

definition hash_count :: "string \<Rightarrow> Approval list \<Rightarrow> nat" where
  "hash_count h xs = length (filter (\<lambda>a. ap_TokenHash a = h) xs)"

definition unique_tokens :: "ApprovalFileStore \<Rightarrow> bool" where
  "unique_tokens s \<longleftrightarrow> (\<forall>h. h \<noteq> [] \<longrightarrow> hash_count h (records s) \<le> 1)"

definition unique_ids :: "ApprovalFileStore \<Rightarrow> bool" where
  "unique_ids s \<longleftrightarrow> distinct (map ap_ID (records s))"

definition hashes :: "ApprovalFileStore \<Rightarrow> string set" where
  "hashes s = ap_TokenHash ` set (records s) - {[]}"

definition ids :: "ApprovalFileStore \<Rightarrow> string set" where
  "ids s = ap_ID ` set (records s)"

lemma hash_count_submset: "mset ys \<subseteq># mset xs \<Longrightarrow> hash_count h ys \<le> hash_count h xs"
  unfolding hash_count_def
  by (metis mset_filter multiset_filter_mono size_mset size_mset_mono)

lemma hash_count_append [simp]: "hash_count h (xs @ ys) = hash_count h xs + hash_count h ys"
  by (simp add: hash_count_def)

lemma hash_count_zero: "hash_count h xs = 0 \<longleftrightarrow> (\<forall>a \<in> set xs. ap_TokenHash a \<noteq> h)"
  by (auto simp: hash_count_def filter_empty_conv)

lemma hash_count_evolves:
  "list_all2 (evolves H) xs ys \<Longrightarrow> h \<notin> H \<Longrightarrow> h \<noteq> [] \<Longrightarrow> hash_count h ys \<le> hash_count h xs"
proof (induction rule: list_all2_induct)
  case (Cons x xs y ys)
  have "ap_TokenHash y = h \<Longrightarrow> ap_TokenHash x = h"
    using Cons.hyps(1) Cons.prems by (cases rule: evolves.cases) auto
  with Cons show ?case by (auto simp: hash_count_def)
qed simp

lemma hash_count_issue:
  assumes "\<forall>a \<in> set xs. ap_TokenHash a \<noteq> h" "i < length xs" "ap_TokenHash (f (xs ! i)) = h"
  shows "hash_count h (update_at xs i f) = 1"
proof -
  have "{k. k < length (update_at xs i f) \<and> ap_TokenHash (update_at xs i f ! k) = h} = {i}"
    using assms by (auto simp: nth_update_at split: if_splits)
  then show ?thesis by (simp add: hash_count_def length_filter_conv_card)
qed

lemma hash_count_two:
  assumes "i < length xs" "j < length xs" "i \<noteq> j" "ap_TokenHash (xs ! i) = h" "ap_TokenHash (xs ! j) = h"
  shows "2 \<le> hash_count h xs"
proof -
  have "card {i, j} \<le> card {k. k < length xs \<and> ap_TokenHash (xs ! k) = h}"
    by (rule card_mono) (use assms in auto)
  with assms(3) show ?thesis by (simp add: hash_count_def length_filter_conv_card)
qed

lemma distinct_hashes:
  "(\<forall>h. h \<noteq> [] \<longrightarrow> hash_count h xs \<le> 1) \<Longrightarrow> distinct (filter (\<lambda>h. h \<noteq> []) (map ap_TokenHash xs))"
proof (induction xs)
  case (Cons a xs)
  have "hash_count h xs \<le> hash_count h (a # xs)" for h by (simp add: hash_count_def)
  with Cons have "distinct (filter (\<lambda>h. h \<noteq> []) (map ap_TokenHash xs))"
    by (meson le_trans)
  moreover have "ap_TokenHash a \<notin> ap_TokenHash ` set xs" if "ap_TokenHash a \<noteq> []"
  proof -
    have "hash_count (ap_TokenHash a) (a # xs) \<le> 1" using Cons.prems that by blast
    then have "hash_count (ap_TokenHash a) xs = 0" by (simp add: hash_count_def)
    then show ?thesis by (auto simp: hash_count_zero)
  qed
  ultimately show ?case by auto
qed simp

lemma unique_tokens_distinct:
  "unique_tokens s \<Longrightarrow> distinct (filter (\<lambda>h. h \<noteq> []) (map ap_TokenHash (records s)))"
  unfolding unique_tokens_def by (rule distinct_hashes)

text \<open>One operation keeps both, when what it draws is new to the store.\<close>

lemma step_ids:
  assumes "unique_ids s" "set (op_ids x) \<inter> ids s = {}"
  shows "unique_ids (run_op ok now x s) \<and> ids (run_op ok now x s) \<subseteq> ids s \<union> set (op_ids x)"
proof (cases "\<exists>plan who label rand. x = DoFind plan who label rand")
  case True
  then obtain plan who label rand where x: "x = DoFind plan who label rand" by blast
  obtain ys new where
    ys: "list_all2 (evolves {}) (records s) ys" and
    sub: "mset (records (run_op ok now x s)) \<subseteq># mset (ys @ new)" and
    new: "new = [] \<or> (\<exists>a. new = [a] \<and> fresh_pending a \<and> ap_ID a = newID rand ''opa'')"
    using FindOrCreatePending_records [of "{}" s ok now rand plan who label] x by auto
  from ys have same: "map ap_ID ys = map ap_ID (records s)"
    by (rule list_all2_map_eq) (simp add: evolves_identity)
  then have set_same: "ap_ID ` set ys = ids s" by (metis ids_def set_map)
  with same assms new x have "distinct (map ap_ID (ys @ new))"
    by (auto simp: unique_ids_def ids_def simp del: set_map) (simp add: set_map)
  with sub have "unique_ids (run_op ok now x s)"
    unfolding unique_ids_def by (rule distinct_map_submset [rotated])
  moreover have "ids (run_op ok now x s) \<subseteq> ap_ID ` set (ys @ new)"
    using sub unfolding ids_def by (metis image_mono set_mset_mono set_mset_mset)
  moreover have "ap_ID ` set (ys @ new) \<subseteq> ids s \<union> set (op_ids x)"
    using set_same new x by auto
  ultimately show ?thesis by blast
next
  case False
  then have "moves (set (op_hashes x)) s (run_op ok now x s)" by (intro run_op_moves) auto
  then have "map ap_ID (records (run_op ok now x s)) = map ap_ID (records s)"
    unfolding moves_def by (blast intro: list_all2_map_eq dest: evolves_identity)
  with assms(1) show ?thesis by (auto simp: unique_ids_def ids_def) (metis image_eqI set_map)
qed

lemma IssueToken_result:
  "snd (IssueToken ok now rand aid s) = s \<or>
   (\<exists>i. i < length (records s) \<and> approvals_load (as_file s) = Inr (records s) \<and>
     snd (IssueToken ok now rand aid s) = saved ok (update_at (records s) i
       (\<lambda>a. a\<lparr>ap_TokenHash := tokenHash (newToken rand), ap_TokenIssuedAt := Some now,
              ap_TokenExpiresAt := Some (now + DefaultTokenTTL), ap_UpdatedAt := now\<rparr>)) s)"
proof (cases "approvals_load (as_file s)")
  case (Inr xs)
  show ?thesis
  proof (cases "findApprovalIndex xs (TrimSpace aid)")
    case (Some i)
    then have "i < length xs" by (simp add: findApprovalIndex_def find_index_bound)
    with Inr Some show ?thesis
      by (auto simp: IssueToken_def Let_def records_load split: option.split intro!: exI [of _ i])
  qed (simp add: IssueToken_def Inr)
qed (simp add: IssueToken_def)

lemma step_tokens:
  assumes "unique_tokens s" "set (op_hashes x) \<inter> hashes s = {}"
  shows "unique_tokens (run_op ok now x s) \<and> hashes (run_op ok now x s) \<subseteq> hashes s \<union> set (op_hashes x)"
proof -
  have "hashes (run_op ok now x s) \<subseteq> hashes s \<union> set (op_hashes x)"
  proof
    fix h assume "h \<in> hashes (run_op ok now x s)"
    then obtain b where b: "b \<in> set (records (run_op ok now x s))" "ap_TokenHash b = h" "h \<noteq> []"
      by (auto simp: hashes_def)
    from run_op_origin [OF b(1)] show "h \<in> hashes s \<union> set (op_hashes x)"
    proof
      assume "\<exists>a \<in> set (records s). evolves (set (op_hashes x)) a b"
      then obtain a where a: "a \<in> set (records s)" "evolves (set (op_hashes x)) a b" by blast
      from a(2) b(2,3) have "ap_TokenHash a = h \<or> h \<in> set (op_hashes x)"
        by (cases rule: evolves.cases) auto
      with a(1) b(3) show ?thesis by (auto simp: hashes_def)
    qed (use b in \<open>simp add: fresh_pending_def\<close>)
  qed
  moreover have "hash_count h (records (run_op ok now x s)) \<le> 1" if h: "h \<noteq> []" for h
  proof (cases "h \<in> set (op_hashes x)")
    case True
    then obtain aid rand where x: "x = DoIssue aid rand" "h = tokenHash (newToken rand)"
      by (cases x) auto
    from assms(2) True h have "\<forall>a \<in> set (records s). ap_TokenHash a \<noteq> h" by (auto simp: hashes_def)
    with IssueToken_result [of ok now rand aid s] assms(1) h x show ?thesis
      by (auto simp: unique_tokens_def records_saved hash_count_issue)
  next
    case False
    show ?thesis
    proof (cases "\<exists>plan who label rand. x = DoFind plan who label rand")
      case True
      then obtain plan who label rand where x: "x = DoFind plan who label rand" by blast
      obtain ys new where
        ys: "list_all2 (evolves {}) (records s) ys" and
        sub: "mset (records (run_op ok now x s)) \<subseteq># mset (ys @ new)" and
        new: "new = [] \<or> (\<exists>a. new = [a] \<and> fresh_pending a \<and> ap_ID a = newID rand ''opa'')"
        using FindOrCreatePending_records [of "{}" s ok now rand plan who label] x by auto
      from new h have "hash_count h new = 0" by (auto simp: hash_count_zero fresh_pending_def)
      with hash_count_submset [OF sub, of h] hash_count_evolves [OF ys _ h] assms(1) h show ?thesis
        by (force simp: unique_tokens_def)
    next
      case False
      then have "list_all2 (evolves (set (op_hashes x))) (records s) (records (run_op ok now x s))"
        using run_op_moves [of x s ok now] by (auto simp: moves_def)
      with \<open>h \<notin> set (op_hashes x)\<close> h assms(1) show ?thesis
        by (metis hash_count_evolves le_trans unique_tokens_def)
    qed
  qed
  ultimately show ?thesis by (simp add: unique_tokens_def)
qed

text \<open>The invariant of runs whose random draws do not repeat.\<close>

definition empty_store :: ApprovalFileStore where
  "empty_store = NewApprovalFileStore Missing"

lemma records_empty [simp]: "records empty_store = []"
  by (simp add: empty_store_def records_def NewApprovalFileStore_def)

lemma empty_unique [simp]: "unique_ids empty_store" "unique_tokens empty_store" "ids empty_store = {}"
  "hashes empty_store = {}"
  by (simp_all add: unique_ids_def unique_tokens_def hash_count_def ids_def hashes_def)

lemma run_tokens:
  "unique_tokens s \<Longrightarrow> hashes s \<inter> set (issued xs) = {} \<Longrightarrow> distinct (issued xs) \<Longrightarrow>
   unique_tokens (run xs s) \<and> hashes (run xs s) \<subseteq> hashes s \<union> set (issued xs)"
proof (induction xs s rule: run.induct)
  case (1 s)
  then show ?case by simp
next
  case (2 ok now x xs s)
  have t: "unique_tokens (run_op ok now x s)" "hashes (run_op ok now x s) \<subseteq> hashes s \<union> set (op_hashes x)"
    using step_tokens [of s x ok now] "2.prems" by auto
  then have "hashes (run_op ok now x s) \<inter> set (issued xs) = {}" using "2.prems" by auto
  from "2.IH" [OF t(1) this] "2.prems" t(2) show ?case by auto
qed

lemma run_ids:
  "unique_ids s \<Longrightarrow> ids s \<inter> set (drawn xs) = {} \<Longrightarrow> distinct (drawn xs) \<Longrightarrow>
   unique_ids (run xs s) \<and> ids (run xs s) \<subseteq> ids s \<union> set (drawn xs)"
proof (induction xs s rule: run.induct)
  case (1 s)
  then show ?case by simp
next
  case (2 ok now x xs s)
  have i: "unique_ids (run_op ok now x s)" "ids (run_op ok now x s) \<subseteq> ids s \<union> set (op_ids x)"
    using step_ids [of s x ok now] "2.prems" by auto
  then have "ids (run_op ok now x s) \<inter> set (drawn xs) = {}" using "2.prems" by auto
  from "2.IH" [OF i(1) this] "2.prems" i(2) show ?case by auto
qed

lemmas run_tokens_empty = run_tokens [of empty_store, simplified]
lemmas run_ids_empty = run_ids [of empty_store, simplified]

end
