(* ===== verification/ApprovalClaims.thy ===== *)
theory ApprovalClaims
  imports ApprovalSafety
begin

text \<open>
  The properties of the approval store, each with a witness at a concrete store where it has
  hypotheses.
\<close>

section \<open>Spending a token\<close>

lemma ConsumeToken_success:
  assumes "ConsumeToken ok now token fp s = (Inr b, s')"
  obtains i where "i < length (records s)" "approvals_load (as_file s) = Inr (records s)" "ok"
    "ap_TokenHash (records s ! i) = tokenHash (TrimSpace token)"
    "ap_Status (records s ! i) = ApprovalApproved" "\<not> ap_ExpiresAt (records s ! i) < now"
    "\<not> tokenExpired (records s ! i) now"
    "pl_Fingerprint (ap_Plan (records s ! i)) = TrimSpace fp"
    "b = (records s ! i)\<lparr>ap_Status := ApprovalUsed, ap_UpdatedAt := now\<rparr>"
    "s' = saved True ((records s)[i := b]) s"
proof -
  obtain xs where xs: "approvals_load (as_file s) = Inr xs"
    using assms by (auto simp: ConsumeToken_def Let_def split: if_splits sum.splits)
  obtain i where i: "findApprovalByTokenHash xs (tokenHash (TrimSpace token)) = Some i"
    using assms xs by (auto simp: ConsumeToken_def Let_def split: if_splits option.splits)
  then have len: "i < length xs" and hash: "ap_TokenHash (xs ! i) = tokenHash (TrimSpace token)"
    using find_index_SomeD [of "\<lambda>a. ap_TokenHash a = tokenHash (TrimSpace token)" xs i]
    by (simp_all add: findApprovalByTokenHash_def)
  have "records s = xs" using xs by (rule records_load)
  with that [of i] assms xs i len hash show ?thesis
    by (auto simp: ConsumeToken_def Let_def commit_def update_at_def split: if_splits)
qed

lemma ConsumeToken_spends:
  assumes "ConsumeToken ok now token fp s = (Inr b, s')" "unique_tokens s"
  shows "\<forall>a \<in> set (records s'). spent_hash (tokenHash (TrimSpace token)) a"
proof -
  let ?h = "tokenHash (TrimSpace token)"
  from ConsumeToken_success [OF assms(1)] obtain i where
    i: "i < length (records s)" "approvals_load (as_file s) = Inr (records s)"
      "ap_TokenHash (records s ! i) = ?h"
      "b = (records s ! i)\<lparr>ap_Status := ApprovalUsed, ap_UpdatedAt := now\<rparr>"
      "s' = saved True ((records s)[i := b]) s" by metis
  have r: "records s' = (records s)[i := b]" using i(2,5) by (simp add: records_saved)
  show ?thesis
  proof
    fix a assume "a \<in> set (records s')"
    then obtain j where j: "j < length (records s)" "a = (records s)[i := b] ! j"
      by (auto simp: r in_set_conv_nth)
    show "spent_hash ?h a"
    proof (cases "i = j")
      case True
      with j i show ?thesis by (simp add: spent_hash_def)
    next
      case False
      have "ap_TokenHash (records s ! j) \<noteq> ?h"
      proof
        assume "ap_TokenHash (records s ! j) = ?h"
        with i(1,3) j(1) False have "2 \<le> hash_count ?h (records s)" by (intro hash_count_two)
        moreover have "hash_count ?h (records s) \<le> 1" using assms(2) by (simp add: unique_tokens_def)
        ultimately show False by simp
      qed
      with False j show ?thesis by (simp add: spent_hash_def)
    qed
  qed
qed

lemma ConsumeToken_spent_fails:
  assumes "\<forall>a \<in> set (records s). spent_hash (tokenHash (TrimSpace token)) a"
  shows "\<exists>e. fst (ConsumeToken ok now token fp s) = Inl e"
proof (cases "fst (ConsumeToken ok now token fp s)")
  case (Inr b)
  then obtain s' where "ConsumeToken ok now token fp s = (Inr b, s')" by (metis prod.collapse)
  from ConsumeToken_success [OF this] obtain i where i:
    "i < length (records s)" "ap_TokenHash (records s ! i) = tokenHash (TrimSpace token)"
    "ap_Status (records s ! i) = ApprovalApproved" by metis
  from i(1) have "records s ! i \<in> set (records s)" by simp
  with assms have "spent_hash (tokenHash (TrimSpace token)) (records s ! i)" by blast
  with i have False by (simp add: spent_hash_def)
  then show ?thesis ..
qed simp

section \<open>Deciding an approval\<close>

lemma find_by_id:
  "findApprovalIndex xs aid = Some i \<Longrightarrow> i < length xs \<and> ap_ID (xs ! i) = aid"
  using find_index_SomeD [of "\<lambda>a. ap_ID a = aid" xs i] by (simp add: findApprovalIndex_def)

lemma Approve_success:
  assumes "Approve ok now aid who why s = (Inr b, s')"
  obtains i where "i < length (records s)" "approvals_load (as_file s) = Inr (records s)" "ok"
    "ap_ID (records s ! i) = TrimSpace aid" "ap_Status (records s ! i) = ApprovalPending"
    "\<not> ap_ExpiresAt (records s ! i) < now"
    "b = (records s ! i)\<lparr>ap_Status := ApprovalApproved, ap_UpdatedAt := now, ap_DecidedAt := Some now,
           ap_DecidedBy := TrimSpace who, ap_DecisionNote := TrimSpace why\<rparr>"
    "s' = saved True ((records s)[i := b]) s"
proof -
  obtain xs where xs: "approvals_load (as_file s) = Inr xs"
    using assms by (auto simp: Approve_def split: sum.splits)
  obtain i where i: "findApprovalIndex xs (TrimSpace aid) = Some i"
    using assms xs by (auto simp: Approve_def split: option.splits)
  have "records s = xs" using xs by (rule records_load)
  with that [of i] assms xs i find_by_id [OF i] show ?thesis
    by (auto simp: Approve_def Let_def commit_def update_at_def decision_allowed_iff
        split: if_splits option.splits)
qed

lemma Reject_success:
  assumes "Reject ok now aid who why s = (Inr b, s')"
  obtains i where "i < length (records s)" "approvals_load (as_file s) = Inr (records s)" "ok"
    "ap_ID (records s ! i) = TrimSpace aid" "ap_Status (records s ! i) = ApprovalPending"
    "\<not> ap_ExpiresAt (records s ! i) < now"
    "b = (records s ! i)\<lparr>ap_Status := ApprovalRejected, ap_UpdatedAt := now, ap_DecidedAt := Some now,
           ap_DecidedBy := TrimSpace who, ap_DecisionNote := TrimSpace why, ap_TokenHash := [],
           ap_TokenIssuedAt := None, ap_TokenExpiresAt := None\<rparr>"
    "s' = saved True ((records s)[i := b]) s"
proof -
  obtain xs where xs: "approvals_load (as_file s) = Inr xs"
    using assms by (auto simp: Reject_def split: sum.splits)
  obtain i where i: "findApprovalIndex xs (TrimSpace aid) = Some i"
    using assms xs by (auto simp: Reject_def split: option.splits)
  have "records s = xs" using xs by (rule records_load)
  with that [of i] assms xs i find_by_id [OF i] show ?thesis
    by (auto simp: Reject_def Let_def commit_def update_at_def decision_allowed_iff
        split: if_splits option.splits)
qed

lemma unique_after_update:
  assumes "unique_ids s" "i < length (records s)" "approvals_load (as_file s) = Inr (records s)"
    "ap_ID b = ap_ID (records s ! i)" "c \<in> set (records (saved True ((records s)[i := b]) s))"
    "ap_ID c = ap_ID b"
  shows "c = b"
proof -
  from assms(3,5) obtain j where j: "j < length (records s)" "c = (records s)[i := b] ! j"
    by (auto simp: records_saved in_set_conv_nth)
  show ?thesis
  proof (cases "i = j")
    case False
    with j assms(4,6) have "map ap_ID (records s) ! i = map ap_ID (records s) ! j"
      using assms(2) by simp
    with assms(1,2) j(1) have "i = j"
      unfolding unique_ids_def by (metis length_map nth_eq_iff_index_eq)
    with False have False by simp
    then show ?thesis ..
  qed (use j in simp)
qed

lemma decided_is_final:
  assumes "\<forall>b \<in> set (records s). ap_ID b = TrimSpace aid \<longrightarrow> decided b"
  shows "(\<exists>e. fst (Approve ok now aid who why s) = Inl e) \<and> (\<exists>e. fst (Reject ok now aid who why s) = Inl e)"
proof (cases "approvals_load (as_file s)")
  case (Inr xs)
  then have r: "records s = xs" by (rule records_load)
  show ?thesis
  proof (cases "findApprovalIndex xs (TrimSpace aid)")
    case (Some i)
    then have "decided (xs ! i)" using assms find_by_id [OF Some] r by auto
    then have "ensureApprovalDecisionAllowed (xs ! i) now \<noteq> None"
      by (auto simp: decision_allowed_iff decided_def)
    with Inr Some show ?thesis by (auto simp: Approve_def Reject_def)
  qed (simp add: Approve_def Reject_def Inr)
qed (simp add: Approve_def Reject_def)

section \<open>Searching for and creating a pending approval\<close>

lemma load_bearing_not_lapsed: "approvalIsLoadBearing a now \<Longrightarrow> \<not> lapsed a now"
  by (auto simp: approvalIsLoadBearing_def lapsed_def)

lemma expire_keeps_load_bearing:
  "a \<in> set xs \<Longrightarrow> approvalIsLoadBearing a now \<Longrightarrow> a \<in> set (fst (expireApprovals xs now))"
  using load_bearing_not_lapsed by (force simp: expireApprovals_def)

lemma length_expire [simp]: "length (fst (expireApprovals xs now)) = length xs"
  by (simp add: expireApprovals_def)

lemma trim_filter_open:
  "length (filter (\<lambda>a. approvalIsLoadBearing a now) (trimApprovals xs limit now)) =
   length (filter (\<lambda>a. approvalIsLoadBearing a now) xs)"
proof (cases "limit \<le> 0 \<or> int (length xs) \<le> limit")
  case False
  have "filter (\<lambda>a. approvalIsLoadBearing a now) (keep_last n (filter (\<lambda>a. \<not> approvalIsLoadBearing a now) ys)) = []"
    for n ys using set_keep_last by (fastforce simp: filter_empty_conv)
  then show ?thesis by (simp add: trim_shape [OF False] length_filter_sort_key)
qed (simp add: trim_unchanged)

lemma saved_False [simp]: "saved False xs s = s"
  by (simp add: saved_def approvals_save_def)

lemma reusable_later:
  "now \<le> now' \<Longrightarrow> reusablePending plan who label now' (if lapsed a now' then a\<lparr>ap_Status := ApprovalExpired, ap_UpdatedAt := now'\<rparr> else a) \<Longrightarrow>
   reusablePending plan who label now a"
  by (auto simp: reusablePending_def split: if_splits)

lemma find_single:
  assumes "x \<in> set xs" "P x" "\<And>y. y \<in> set xs \<Longrightarrow> P y \<Longrightarrow> y = x"
  shows "find P xs = Some x"
proof (cases "find P xs")
  case None
  with assms(1,2) show ?thesis by (simp add: find_None_iff)
next
  case (Some y)
  then have "y \<in> set xs" "P y" by (auto simp: find_Some_iff)
  with assms(3) Some show ?thesis by simp
qed

section \<open>Sample stores for the witnesses\<close>

definition sample_plan :: Plan where
  "sample_plan = \<lparr>pl_ID = ''op_1'', pl_Kind = OperationRuntimeStart, pl_Target = empty_target,
     pl_TargetSummary = [], pl_RiskLevel = RiskHigh, pl_RequiresApproval = True, pl_Denied = False,
     pl_Reasons = [], pl_ExpectedEffects = [], pl_Checks = [], pl_Fingerprint = ''fp'',
     pl_CreatedAt = 1, pl_ExpiresAt = 100\<rparr>"

definition sample_approval :: Approval where
  "sample_approval = \<lparr>ap_ID = ''opa_1'', ap_Plan = sample_plan, ap_Status = ApprovalPending,
     ap_RequestedBy = ''mcp'', ap_RequesterLabel = ''AI'', ap_CreatedAt = 1, ap_UpdatedAt = 1,
     ap_ExpiresAt = 100, ap_DecidedAt = None, ap_DecidedBy = [], ap_DecisionNote = [],
     ap_TokenHash = [], ap_TokenIssuedAt = None, ap_TokenExpiresAt = None, ap_OriginHostID = []\<rparr>"

definition sample_granted :: Approval where
  "sample_granted = sample_approval\<lparr>ap_Status := ApprovalApproved, ap_DecidedAt := Some 2,
     ap_DecidedBy := ''desk'', ap_TokenHash := tokenHash ''tok'', ap_TokenIssuedAt := Some 3,
     ap_TokenExpiresAt := Some 50\<rparr>"

definition sample_store :: "Approval list \<Rightarrow> ApprovalFileStore" where
  "sample_store xs = NewApprovalFileStore (Content xs)"

lemma sample_load [simp]: "approvals_load (as_file (sample_store xs)) = Inr xs"
  "records (sample_store xs) = xs" "as_limit (sample_store xs) = 1000"
  by (simp_all add: sample_store_def NewApprovalFileStore_def records_def defaultApprovalRetention_def)

lemma sample_trims [simp]:
  "TrimSpace ''opa_1'' = ''opa_1''" "TrimSpace ''tok'' = ''tok''" "TrimSpace ''fp'' = ''fp''"
  "TrimSpace ''desk'' = ''desk''" "TrimSpace ''peer'' = ''peer''" "TrimSpace ''mcp'' = ''mcp''"
  "TrimSpace ''AI'' = ''AI''"
  by (simp_all add: TrimSpace_ascii no_blank_ends_def)

lemma sample_fields [simp]:
  "ap_ID sample_approval = ''opa_1''" "ap_Status sample_approval = ApprovalPending"
  "ap_ExpiresAt sample_approval = 100" "ap_TokenHash sample_approval = []"
  "ap_ID sample_granted = ''opa_1''" "ap_Status sample_granted = ApprovalApproved"
  "ap_ExpiresAt sample_granted = 100" "ap_TokenHash sample_granted = tokenHash ''tok''"
  "ap_TokenExpiresAt sample_granted = Some 50" "ap_Plan sample_granted = sample_plan"
  "ap_Plan sample_approval = sample_plan" "pl_Fingerprint sample_plan = ''fp''"
  "ap_DecidedBy sample_granted = ''desk''" "ap_RequestedBy sample_approval = ''mcp''"
  "ap_RequesterLabel sample_approval = ''AI''" "ap_UpdatedAt sample_approval = 1"
  by (simp_all add: sample_approval_def sample_granted_def sample_plan_def)

lemma sample_consume:
  "ConsumeToken True 5 ''tok'' ''fp'' (sample_store [sample_granted]) =
     (Inr (sample_granted\<lparr>ap_Status := ApprovalUsed, ap_UpdatedAt := 5\<rparr>),
      saved True [sample_granted\<lparr>ap_Status := ApprovalUsed, ap_UpdatedAt := 5\<rparr>]
        (sample_store [sample_granted]))"
  by (simp add: ConsumeToken_def findApprovalByTokenHash_def tokenExpired_def update_at_def commit_def)

section \<open>Properties\<close>

text \<open>
  C1: Redeeming an approval token succeeds only for an approval that is in state approved, carries
  exactly the hash of the presented token, is bound to exactly the presented operation fingerprint, and
  whose own and whose token's deadline have not passed; the write is on disk before success is
  reported, and the one effect is that this approval becomes used.
\<close>

theorem consume_token_exact:
  assumes "ConsumeToken ok now token fp s = (Inr b, s')"
  shows "\<exists>i < length (records s).
     (let a = records s ! i in
        ap_TokenHash a = tokenHash (TrimSpace token) \<and> ap_Status a = ApprovalApproved \<and>
        pl_Fingerprint (ap_Plan a) = TrimSpace fp \<and> now \<le> ap_ExpiresAt a \<and>
        (\<forall>t. ap_TokenExpiresAt a = Some t \<longrightarrow> now \<le> t) \<and>
        b = a\<lparr>ap_Status := ApprovalUsed, ap_UpdatedAt := now\<rparr> \<and>
        as_file s' = Content ((records s)[i := b]))"
  using assms
proof (rule ConsumeToken_success)
  fix i
  assume "i < length (records s)" "ap_TokenHash (records s ! i) = tokenHash (TrimSpace token)"
    "ap_Status (records s ! i) = ApprovalApproved" "\<not> ap_ExpiresAt (records s ! i) < now"
    "\<not> tokenExpired (records s ! i) now" "pl_Fingerprint (ap_Plan (records s ! i)) = TrimSpace fp"
    "b = (records s ! i)\<lparr>ap_Status := ApprovalUsed, ap_UpdatedAt := now\<rparr>"
    "s' = saved True ((records s)[i := b]) s"
  then show ?thesis
    by (intro exI [of _ i])
      (auto simp: Let_def tokenExpired_def saved_def approvals_save_def split: option.splits)
qed

theorem consume_token_exact_witness:
  "\<exists>i < length [sample_granted]. ap_Status ([sample_granted] ! i) = ApprovalApproved"
  using consume_token_exact [OF sample_consume] by (auto simp: Let_def)

text \<open>
  C2: A token is good for one execution: in any run of the approval store that starts from an empty
  file, however the operations of several control planes interleave, fail to write or are retried,
  once a token has been redeemed every later attempt to redeem it fails, whatever fingerprint
  it presents (the tokens issued in the run having different hashes).
\<close>

theorem token_single_use:
  assumes "distinct (issued (before @ after))"
    and "ConsumeToken ok now token fp (run before empty_store) = (Inr b, s')"
  shows "\<exists>e. fst (ConsumeToken ok' now' token fp' (run after s')) = Inl e"
proof -
  let ?s = "run before empty_store" and ?h = "tokenHash (TrimSpace token)"
  have ids: "unique_tokens ?s" "hashes ?s \<subseteq> set (issued before)"
    using assms(1) run_tokens_empty [of before] by auto
  from assms(2) obtain i where "i < length (records ?s)" "ap_TokenHash (records ?s ! i) = ?h"
    by (rule ConsumeToken_success)
  then have "?h \<in> hashes ?s" unfolding hashes_def by (metis DiffI empty_iff imageI insertE nth_mem tokenHash_nonempty(1))
  with ids(2) assms(1) have fresh: "set (issued after) \<subseteq> - {?h}" by auto
  have "\<forall>a \<in> set (records (run after s')). spent_hash ?h a"
    by (rule spent.run_keeps [OF ConsumeToken_spends [OF assms(2) ids(1)] fresh]) simp
  then show ?thesis by (rule ConsumeToken_spent_fails)
qed

lemma saved_sample [simp]: "saved True xs (sample_store ys) = sample_store xs"
  by (simp add: saved_def approvals_save_def sample_store_def NewApprovalFileStore_def)

definition sample_used :: Approval where
  "sample_used = (newPending 1 [1] sample_plan ''mcp'' ''AI'')\<lparr>
     ap_DecidedAt := Some 2, ap_DecidedBy := ''desk'', ap_DecisionNote := ''ok'',
     ap_TokenHash := tokenHash ''02'', ap_TokenIssuedAt := Some 3,
     ap_TokenExpiresAt := Some (3 + DefaultTokenTTL), ap_Status := ApprovalUsed, ap_UpdatedAt := 4\<rparr>"

definition sample_steps :: "step list" where
  "sample_steps = [(True, 1, DoFind sample_plan ''mcp'' ''AI'' [1]),
     (True, 2, DoApprove ''opa_01'' ''desk'' ''ok''), (True, 3, DoIssue ''opa_01'' [2])]"

lemma sample_newPending [simp]:
  "ap_ID (newPending 1 [1] sample_plan ''mcp'' ''AI'') = ''opa_01''"
  "ap_Status (newPending 1 [1] sample_plan ''mcp'' ''AI'') = ApprovalPending"
  "ap_ExpiresAt (newPending 1 [1] sample_plan ''mcp'' ''AI'') = 1 + DefaultApprovalTTL"
  "ap_Plan (newPending 1 [1] sample_plan ''mcp'' ''AI'') = sample_plan"
  by (simp_all add: newPending_def newID_def hex_def nibble_def char_of_def bit_0 Let_def sample_plan_def)

lemma sample_create:
  "snd (FindOrCreatePending True 1 [1] sample_plan ''mcp'' ''AI'' empty_store) =
     sample_store [newPending 1 [1] sample_plan ''mcp'' ''AI'']"
  by (simp add: FindOrCreatePending_def empty_store_def NewApprovalFileStore_def sample_store_def
      expireApprovals_def commit_def trim_unchanged saved_def approvals_save_def Let_def
      defaultApprovalRetention_def)

lemma sample_redeemed:
  "ConsumeToken True 4 ''02'' ''fp'' (run sample_steps empty_store) = (Inr sample_used, sample_store [sample_used])"
proof -
  have trims: "TrimSpace ''opa_01'' = ''opa_01''" "TrimSpace ''02'' = ''02''" "TrimSpace ''ok'' = ''ok''"
    by (simp_all add: TrimSpace_ascii no_blank_ends_def)
  have tok: "newToken [2] = ''02''" "newID [1] ''opa'' = ''opa_01''"
    by (simp_all add: newToken_def newID_def hex_def nibble_def char_of_def bit_0)
  show ?thesis
    by (simp add: sample_steps_def sample_create Approve_def IssueToken_def ConsumeToken_def trims tok
        findApprovalIndex_def findApprovalByTokenHash_def ensureApprovalDecisionAllowed_def
        ensureTokenIssueAllowed_def tokenExpired_def update_at_def commit_def sample_used_def Let_def
        DefaultApprovalTTL_def DefaultTokenTTL_def time_units)
qed

theorem token_single_use_witness:
  "\<exists>e. fst (ConsumeToken True 6 ''02'' ''other''
     (run [(True, 5, DoApprove ''opa_01'' ''peer'' ''again'')] (sample_store [sample_used]))) = Inl e"
  by (rule token_single_use [OF _ sample_redeemed]) (simp add: sample_steps_def)

text \<open>
  C23: The first decision wins. Once an approval has been approved or rejected, every record with its
  identifier keeps that decision (who, when, why) through any later run of operations, and every later
  attempt to approve or reject it fails: no second control plane can overwrite the winner or revoke
  what was granted.
\<close>

theorem first_decision_wins:
  assumes "Approve ok now aid who why s = (Inr a, s') \<or> Reject ok now aid who why s = (Inr a, s')"
    and "unique_ids s" "ap_ID a \<notin> set (drawn xs)"
  shows "(\<forall>b \<in> set (records (run xs s')). ap_ID b = ap_ID a \<longrightarrow>
            ap_DecidedBy b = TrimSpace who \<and> ap_DecidedAt b = Some now \<and> ap_DecisionNote b = TrimSpace why) \<and>
         (\<exists>e. fst (Approve ok' now' aid who' why' (run xs s')) = Inl e) \<and>
         (\<exists>e. fst (Reject ok' now' aid who' why' (run xs s')) = Inl e)"
proof -
  from assms(1) obtain i where
    i: "i < length (records s)" "approvals_load (as_file s) = Inr (records s)"
      "s' = saved True ((records s)[i := a]) s" and
    a: "ap_ID a = ap_ID (records s ! i)" "ap_ID a = TrimSpace aid" "decided a"
      "ap_DecidedBy a = TrimSpace who" "ap_DecidedAt a = Some now" "ap_DecisionNote a = TrimSpace why"
    by (elim disjE Approve_success Reject_success) (auto simp: decided_def)
  let ?P = "decision_is (ap_ID a) (Some now) (TrimSpace who) (TrimSpace why)"
  have "\<forall>b \<in> set (records s'). ?P b"
    using unique_after_update [OF assms(2) i(1,2) a(1)] i(3) a by (auto simp: decision_is_def)
  then have all: "\<forall>b \<in> set (records (run xs s')). ?P b"
    by (rule decision.run_keeps) (use assms(3) in auto)
  then have "\<forall>b \<in> set (records (run xs s')). ap_ID b = TrimSpace aid \<longrightarrow> decided b"
    using a(2) by (simp add: decision_is_def)
  with all decided_is_final show ?thesis by (simp add: decision_is_def)
qed

theorem first_decision_wins_witness:
  "\<exists>e. fst (Reject True 4 ''opa_1'' ''peer'' ''no''
     (run [(True, 3, DoReject ''opa_1'' ''peer'' ''no'')]
       (snd (Approve True 2 ''opa_1'' ''desk'' ''ok'' (sample_store [sample_approval]))))) = Inl e"
proof -
  let ?s = "sample_store [sample_approval]"
  obtain a where a: "Approve True 2 ''opa_1'' ''desk'' ''ok'' ?s =
      (Inr a, snd (Approve True 2 ''opa_1'' ''desk'' ''ok'' ?s))"
    by (simp add: Approve_def findApprovalIndex_def update_at_def commit_def
        ensureApprovalDecisionAllowed_def Let_def)
  show ?thesis
    using first_decision_wins [OF disjI1 [OF a], of "[(True, 3, DoReject ''opa_1'' ''peer'' ''no'')]"]
    by (simp add: unique_ids_def)
qed

text \<open>
  A rejected operation is never executed: whatever operations follow a rejection, no token redeems
  the rejected approval and none is issued for it.
\<close>

theorem rejected_never_redeemed:
  assumes "Reject ok now aid who why s = (Inr a, s')"
    and "unique_ids s" "ap_ID a \<notin> set (drawn xs)"
  shows "(\<forall>b. fst (ConsumeToken ok1 now1 token fp (run xs s')) = Inr b \<longrightarrow> ap_ID b \<noteq> ap_ID a) \<and>
         (\<exists>e. fst (IssueToken ok2 now2 rand aid (run xs s')) = Inl e)"
proof -
  from assms(1) obtain i where
    i: "i < length (records s)" "approvals_load (as_file s) = Inr (records s)"
      "s' = saved True ((records s)[i := a]) s" and
    a: "ap_ID a = ap_ID (records s ! i)" "ap_ID a = TrimSpace aid" "ap_Status a = ApprovalRejected"
    by (rule Reject_success) auto
  let ?P = "closed_as (ap_ID a) ApprovalRejected"
  have "\<forall>b \<in> set (records s'). ?P b"
    using unique_after_update [OF assms(2) i(1,2) a(1)] i(3) a by (auto simp: closed_as_def)
  then have all: "\<forall>b \<in> set (records (run xs s')). ?P b"
    by (rule closed.run_keeps) (use assms(3) in auto)
  have "ap_ID b \<noteq> ap_ID a" if "fst (ConsumeToken ok1 now1 token fp (run xs s')) = Inr b" for b
  proof
    assume same: "ap_ID b = ap_ID a"
    have "ConsumeToken ok1 now1 token fp (run xs s') =
        (Inr b, snd (ConsumeToken ok1 now1 token fp (run xs s')))"
      using that by (metis prod.collapse)
    then obtain j where j: "j < length (records (run xs s'))"
      "ap_Status (records (run xs s') ! j) = ApprovalApproved" "ap_ID b = ap_ID (records (run xs s') ! j)"
      by (rule ConsumeToken_success) auto
    with all have "?P (records (run xs s') ! j)" by simp
    with j same show False by (simp add: closed_as_def)
  qed
  moreover have "\<exists>e. fst (IssueToken ok2 now2 rand aid (run xs s')) = Inl e"
  proof (cases "approvals_load (as_file (run xs s'))")
    case (Inr ys)
    then have r: "records (run xs s') = ys" by (rule records_load)
    show ?thesis
    proof (cases "findApprovalIndex ys (TrimSpace aid)")
      case (Some j)
      then have "?P (ys ! j)" "ap_ID (ys ! j) = ap_ID a" using all find_by_id [OF Some] r a(2) by auto
      then have "ensureTokenIssueAllowed (ys ! j) now2 \<noteq> None"
        by (auto simp: issue_allowed_iff closed_as_def)
      with Inr Some show ?thesis by (auto simp: IssueToken_def)
    qed (simp add: IssueToken_def Inr)
  qed (simp add: IssueToken_def)
  ultimately show ?thesis by blast
qed

theorem rejected_never_redeemed_witness:
  "\<exists>e. fst (IssueToken True 5 [1] ''opa_1''
     (run [(True, 3, DoApprove ''opa_1'' ''desk'' ''ok'')]
       (snd (Reject True 2 ''opa_1'' ''peer'' ''no'' (sample_store [sample_approval]))))) = Inl e"
proof -
  let ?s = "sample_store [sample_approval]"
  obtain a where a: "Reject True 2 ''opa_1'' ''peer'' ''no'' ?s =
      (Inr a, snd (Reject True 2 ''opa_1'' ''peer'' ''no'' ?s))"
    by (simp add: Reject_def findApprovalIndex_def update_at_def commit_def
        ensureApprovalDecisionAllowed_def Let_def)
  show ?thesis
    using rejected_never_redeemed [OF a, of "[(True, 3, DoApprove ''opa_1'' ''desk'' ''ok'')]"]
    by (simp add: unique_ids_def)
qed

text \<open>
  Retention never costs an open request its place: an approval that can still be decided or
  redeemed (pending or approved, deadline not passed) is still in the store, unchanged, after any
  request creates another one, however full the store is.
\<close>

theorem open_approvals_survive:
  assumes "a \<in> set (records s)" "approvalIsLoadBearing a now"
  shows "a \<in> set (records (snd (FindOrCreatePending ok now rand plan who label s)))"
proof (cases "approvals_load (as_file s)")
  case (Inl e)
  with assms(1) show ?thesis by (simp add: records_def)
next
  case (Inr xs)
  with assms(1) have a: "a \<in> set xs" by (simp add: records_load)
  note e = expire_keeps_load_bearing [OF a assms(2)]
  show ?thesis
    by (cases rule: FindOrCreatePending_cases [OF Inr, of plan who label now ok rand])
      (use a e Inr assms(2) in \<open>auto simp: records_saved records_load intro!: trim_keeps_load_bearing\<close>)
qed

theorem open_approvals_survive_witness:
  "sample_approval \<in> set (records (snd (FindOrCreatePending True 5 [] sample_plan ''x'' ''y'' (sample_store [sample_approval]))))"
  by (rule open_approvals_survive) (simp_all add: approvalIsLoadBearing_def)

text \<open>
  The approval file cannot grow without bound: creating a request leaves at most the larger of the
  retention budget and the open requests plus the floor of closed ones kept for display (unless the file
  already held more and nothing was added).
\<close>

theorem retention_bound:
  assumes "0 < as_limit s"
  shows "(let s' = snd (FindOrCreatePending ok now rand plan who label s) in
     int (length (records s')) \<le> max (int (length (records s)))
       (max (as_limit s) (int (length (filter (\<lambda>a. approvalIsLoadBearing a now) (records s')))
                          + min (as_limit s) approvalTerminalRetentionFloor)))"
proof (cases "approvals_load (as_file s)")
  case (Inl e)
  then show ?thesis by (simp add: Let_def FindOrCreatePending_def)
next
  case (Inr xs)
  then have r: "records s = xs" by (rule records_load)
  show ?thesis
  proof (rule FindOrCreatePending_cases [OF Inr, of plan who label now ok rand], goal_cases)
    case 3
    with Inr r trim_bound [OF assms(1), of "fst (expireApprovals xs now) @
        [newPending now rand plan (TrimSpace who) (TrimSpace label)]" now]
    show ?thesis by (cases ok) (simp_all add: Let_def records_saved trim_filter_open)
  qed (use Inr r in \<open>simp_all add: Let_def records_saved\<close>)
qed

lemma empty_create:
  "records (snd (FindOrCreatePending True now rand plan who label (sample_store []))) =
     [newPending now rand plan (TrimSpace who) (TrimSpace label)]"
  by (simp add: FindOrCreatePending_def expireApprovals_def commit_def trim_unchanged Let_def
      records_saved [of _ "[]"])

theorem retention_bound_witness:
  "int (length (records (snd (FindOrCreatePending True 5 [] sample_plan ''x'' ''y'' (sample_store []))))) \<le> 1000"
  using retention_bound [of "sample_store []" True 5 "[]" sample_plan "''x''" "''y''"]
  by (simp add: Let_def empty_create approvalTerminalRetentionFloor_def split: if_splits)

text \<open>
  Eviction takes the stalest closed records: whatever closed record a trim drops was last updated no
  later than every closed record it keeps, and no open record is dropped.
\<close>

theorem eviction_is_stalest:
  assumes "x \<in> set xs" "x \<notin> set (trimApprovals xs limit now)"
  shows "\<not> approvalIsLoadBearing x now \<and>
     (\<forall>y \<in> set (trimApprovals xs limit now). \<not> approvalIsLoadBearing y now \<longrightarrow> ap_UpdatedAt x \<le> ap_UpdatedAt y)"
  using assms trim_keeps_load_bearing trim_drops_oldest by blast

theorem eviction_is_stalest_witness:
  "let a = sample_approval\<lparr>ap_Status := ApprovalUsed\<rparr>; b = a\<lparr>ap_ID := ''opa_2'', ap_UpdatedAt := 2\<rparr>
   in a \<notin> set (trimApprovals [a, b] 1 9) \<and> \<not> approvalIsLoadBearing a 9"
proof -
  let ?a = "sample_approval\<lparr>ap_Status := ApprovalUsed\<rparr>"
  let ?b = "?a\<lparr>ap_ID := ''opa_2'', ap_UpdatedAt := 2\<rparr>"
  have cut: "?a \<notin> set (trimApprovals [?a, ?b] 1 9)"
    by (simp add: trim_shape closed_room_def approvalTerminalRetentionFloor_def
        approvalIsLoadBearing_def keep_last_def sample_approval_def)
  with eviction_is_stalest [OF _ cut] show ?thesis by (simp add: Let_def)
qed

text \<open>
  A failed operation has no effect: whenever creating, deciding or issuing returns an error, the
  store is exactly what it was; a failed redemption leaves it too, or does no more than mark the
  approval the token belongs to as expired.
\<close>

theorem failed_operations_have_no_effect:
  "(fst (FindOrCreatePending ok now rand plan who label s) = Inl e \<longrightarrow>
      snd (FindOrCreatePending ok now rand plan who label s) = s) \<and>
   (fst (Approve ok now aid who why s) = Inl e \<longrightarrow> snd (Approve ok now aid who why s) = s) \<and>
   (fst (Reject ok now aid who why s) = Inl e \<longrightarrow> snd (Reject ok now aid who why s) = s) \<and>
   (fst (IssueToken ok now rand aid s) = Inl e \<longrightarrow> snd (IssueToken ok now rand aid s) = s) \<and>
   (fst (ConsumeToken ok now token fp s) = Inl e \<longrightarrow>
      snd (ConsumeToken ok now token fp s) = s \<or>
      (e = ErrApprovalExpired \<and>
       (\<exists>i < length (records s). as_file (snd (ConsumeToken ok now token fp s)) =
          Content (update_at (records s) i (\<lambda>a. a\<lparr>ap_Status := ApprovalExpired, ap_UpdatedAt := now\<rparr>)))))"
proof -
  have commit: "fst (commit ok xs r s) = Inl e \<Longrightarrow> snd (commit ok xs r s) = s" for xs and r :: 'r and e
    by (cases ok) (simp_all add: commit_def)
  have find: "snd (FindOrCreatePending ok now rand plan who label s) = s"
    if "fst (FindOrCreatePending ok now rand plan who label s) = Inl e"
  proof (cases "approvals_load (as_file s)")
    case (Inr xs)
    with that show ?thesis
      by (cases rule: FindOrCreatePending_cases [OF Inr, of plan who label now ok rand])
        (auto simp: commit_def split: if_splits)
  qed (simp add: FindOrCreatePending_def)
  have consume: "snd (ConsumeToken ok now token fp s) = s \<or>
      (e = ErrApprovalExpired \<and> (\<exists>i < length (records s). as_file (snd (ConsumeToken ok now token fp s)) =
          Content (update_at (records s) i (\<lambda>a. a\<lparr>ap_Status := ApprovalExpired, ap_UpdatedAt := now\<rparr>))))"
    if fail: "fst (ConsumeToken ok now token fp s) = Inl e"
  proof (cases "approvals_load (as_file s)")
    case (Inr xs)
    then have r: "records s = xs" by (rule records_load)
    show ?thesis
    proof (cases "findApprovalByTokenHash xs (tokenHash (TrimSpace token))")
      case (Some i)
      then have "i < length xs" by (simp add: findApprovalByTokenHash_def find_index_bound)
      with fail Inr Some r show ?thesis
        by (cases ok) (auto simp: ConsumeToken_def Let_def commit_def saved_def approvals_save_def
            split: if_splits)
    qed (simp add: ConsumeToken_def Let_def Inr)
  qed (simp add: ConsumeToken_def Let_def)
  show ?thesis
    using find consume
    by (auto simp: Approve_def Reject_def IssueToken_def Let_def commit_def
        split: sum.splits option.splits if_splits)
qed

theorem failed_operations_have_no_effect_witness:
  "snd (Approve True 5 ''opa_1'' ''desk'' ''ok'' (sample_store [])) = sample_store []"
  using failed_operations_have_no_effect
    [where s = "sample_store []" and e = ErrApprovalNotFound and ok = True and now = 5 and aid = "''opa_1''"
       and who = "''desk''" and why = "''ok''"]
  by (simp add: Approve_def findApprovalIndex_def)

section \<open>Asking again\<close>

lemma find_refine: "find P xs = Some a \<Longrightarrow> (\<And>x. Q x \<Longrightarrow> P x) \<Longrightarrow> Q a \<Longrightarrow> find Q xs = Some a"
  by (induction xs) (auto split: if_splits)

lemma find_map_fixed: "find (\<lambda>x. P (f x)) xs = Some a \<Longrightarrow> f a = a \<Longrightarrow> find P (map f xs) = Some a"
  by (induction xs) (auto split: if_splits)

lemma find_after_expiry:
  assumes "find (reusablePending plan who label now) ys = Some a" "now \<le> now'" "now' < ap_ExpiresAt a"
  shows "find (reusablePending plan who label now') (fst (expireApprovals ys now')) = Some a"
proof -
  let ?f = "\<lambda>a. if lapsed a now' then a\<lparr>ap_Status := ApprovalExpired, ap_UpdatedAt := now'\<rparr> else a"
  have a: "?f a = a" using assms(3) by (simp add: lapsed_def)
  moreover have "reusablePending plan who label now' a"
    using assms by (auto simp: find_Some_iff reusablePending_def)
  ultimately have "find (\<lambda>x. reusablePending plan who label now' (?f x)) ys = Some a"
    using assms(1) by (elim find_refine) (auto intro: reusable_later [OF assms(2)])
  with a show ?thesis by (simp add: expireApprovals_def find_map_fixed)
qed

lemma expire_clean: "\<not> snd (expireApprovals xs now) \<Longrightarrow> fst (expireApprovals xs now) = xs"
  by (auto simp: expireApprovals_def list_ex_iff intro: map_idI)

lemma FindOrCreatePending_found:
  assumes "FindOrCreatePending ok now rand plan who label s = (Inr a, s')"
  shows "\<exists>ys. approvals_load (as_file s') = Inr ys \<and>
     find (reusablePending plan (TrimSpace who) (TrimSpace label) now) ys = Some a"
proof -
  obtain xs where xs: "approvals_load (as_file s) = Inr xs"
    using assms by (auto simp: FindOrCreatePending_def Let_def split: sum.splits)
  show ?thesis
  proof (rule FindOrCreatePending_cases [OF xs, of plan who label now ok rand], goal_cases)
    case (1 b)
    with assms show ?thesis by (auto simp: commit_def load_saved [OF xs] split: if_splits)
  next
    case (2 b)
    with assms xs show ?thesis by (auto simp: expire_clean)
  next
    case 3
    let ?new = "newPending now rand plan (TrimSpace who) (TrimSpace label)"
    let ?all = "fst (expireApprovals xs now) @ [?new]"
    have live: "approvalIsLoadBearing ?new now" "reusablePending plan (TrimSpace who) (TrimSpace label) now ?new"
      by (simp_all add: approvalIsLoadBearing_def reusablePending_def newPending_def Let_def ttl_defs)
    have only: "y = ?new" if "y \<in> set (trimApprovals ?all (as_limit s) now)"
      "reusablePending plan (TrimSpace who) (TrimSpace label) now y" for y
    proof -
      from that(1) have "y \<in> set ?all" using set_trim by blast
      with 3 that(2) show ?thesis by (auto simp: find_None_iff)
    qed
    have "find (reusablePending plan (TrimSpace who) (TrimSpace label) now)
        (trimApprovals ?all (as_limit s) now) = Some ?new"
      using live only by (intro find_single trim_keeps_load_bearing) auto
    with 3 assms show ?thesis by (auto simp: commit_def load_saved [OF xs] split: if_splits)
  qed
qed

text \<open>
  Asking again does not pile up requests: while a pending approval has not lapsed, the same requester
  asking for the same operation gets that approval back, and the store holds the same approvals as
  before.
\<close>

theorem pending_request_reused:
  assumes "FindOrCreatePending ok now rand plan who label s = (Inr a, s')"
    and "now \<le> now'" "now' < ap_ExpiresAt a"
  shows "fst (FindOrCreatePending True now' rand' plan who label s') = Inr a \<and>
     map ap_ID (records (snd (FindOrCreatePending True now' rand' plan who label s'))) = map ap_ID (records s')"
proof -
  from FindOrCreatePending_found [OF assms(1)] obtain ys where
    ys: "approvals_load (as_file s') = Inr ys" and
    f: "find (reusablePending plan (TrimSpace who) (TrimSpace label) now) ys = Some a" by blast
  have "map ap_ID (fst (expireApprovals ys now')) = map ap_ID ys" by (simp add: expireApprovals_def)
  with ys find_after_expiry [OF f assms(2,3)] show ?thesis
    by (simp add: FindOrCreatePending_def Let_def case_prod_beta commit_def records_load records_saved)
qed

theorem pending_request_reused_witness:
  "fst (FindOrCreatePending True 5 [9] sample_plan ''mcp'' ''AI''
     (sample_store [newPending 1 [1] sample_plan ''mcp'' ''AI''])) =
   Inr (newPending 1 [1] sample_plan ''mcp'' ''AI'')"
proof -
  have "FindOrCreatePending True 1 [1] sample_plan ''mcp'' ''AI'' empty_store =
      (Inr (newPending 1 [1] sample_plan ''mcp'' ''AI''),
       sample_store [newPending 1 [1] sample_plan ''mcp'' ''AI''])"
    by (rule prod_eqI) (use sample_create in \<open>simp_all add: FindOrCreatePending_def empty_store_def
      NewApprovalFileStore_def expireApprovals_def commit_def Let_def\<close>)
  from pending_request_reused [OF this, of 5 "[9]"] show ?thesis by (simp add: ttl_defs)
qed

end
