(* ===== verification/ApprovalRefinement.thy ===== *)
theory ApprovalRefinement
  imports ApprovalClaims
begin

text \<open>
  The abstract life cycle of an approval, five phases and the five moves between them, and the
  refinement: every record of every run of the store descends through these moves from a record that was
  there before or from a request created in the run.
\<close>

section \<open>The abstract life cycle\<close>

datatype phase = Open | Granted | Refused | Lapsed | Spent

inductive phase_step :: "phase \<Rightarrow> phase \<Rightarrow> bool" where
  grant: "phase_step Open Granted"
| refuse: "phase_step Open Refused"
| lapse_open: "phase_step Open Lapsed"
| lapse_granted: "phase_step Granted Lapsed"
| spend: "phase_step Granted Spent"

inductive_simps phase_step_from [simp]:
  "phase_step Open q" "phase_step Granted q" "phase_step Refused q" "phase_step Lapsed q" "phase_step Spent q"

definition phase_of :: "Approval \<Rightarrow> phase" where
  "phase_of a =
     (if ap_Status a = ApprovalPending then Open
      else if ap_Status a = ApprovalApproved then Granted
      else if ap_Status a = ApprovalRejected then Refused
      else if ap_Status a = ApprovalUsed then Spent
      else Lapsed)"

lemma evolves_phase:
  assumes "evolves H a b" "approval_wf a"
  shows "phase_step\<^sup>=\<^sup>= (phase_of a) (phase_of b)"
  using assms(1)
proof cases
  case (lapse now)
  have "ap_Status a = ApprovalPending \<or> ap_Status a = ApprovalApproved \<or> ap_Status a = ApprovalExpired"
    using assms(2) lapse(2,3) unfolding approval_wf_def by blast
  with lapse(1) show ?thesis by (elim disjE) (simp_all add: phase_of_def)
qed (simp_all add: phase_of_def guard_iffs)

lemma final_phases:
  "phase_step\<^sup>*\<^sup>* p q \<Longrightarrow> p \<in> {Refused, Lapsed, Spent} \<Longrightarrow> q = p"
  by (induction rule: rtranclp_induct) auto

section \<open>Descent of records\<close>

definition descends :: "Approval set \<Rightarrow> string set \<Rightarrow> Approval \<Rightarrow> bool" where
  "descends S N b \<longleftrightarrow> approval_wf b \<and>
     ((\<exists>a \<in> S. ap_ID b = ap_ID a \<and> ap_Plan b = ap_Plan a \<and> ap_ExpiresAt b = ap_ExpiresAt a \<and>
               phase_step\<^sup>*\<^sup>* (phase_of a) (phase_of b)) \<or>
      (ap_ID b \<in> N \<and> phase_step\<^sup>*\<^sup>* Open (phase_of b)))"

interpretation descent: record_invariant "descends S N" UNIV N for S N
proof
  fix a assume "fresh_pending a" "ap_ID a \<in> N"
  then show "descends S N a"
    by (simp add: descends_def fresh_pending_def approval_wf_def phase_of_def)
next
  fix a b assume e: "evolves UNIV a b" and d: "descends S N a"
  have wf: "approval_wf a" using d by (simp add: descends_def)
  then have step: "phase_step\<^sup>*\<^sup>* (phase_of a) (phase_of b)"
    using evolves_phase [OF e] by auto
  then have trans: "phase_step\<^sup>*\<^sup>* p (phase_of a) \<Longrightarrow> phase_step\<^sup>*\<^sup>* p (phase_of b)" for p
    using step by (metis rtranclp_trans)
  from d evolves_wf [OF e wf] evolves_identity [OF e] show "descends S N b"
    unfolding descends_def by (auto intro: trans)
qed

section \<open>Properties\<close>

text \<open>
  C13: The store refines the abstract life cycle: in every run from a store of well-formed records,
  whatever the interleaving, the clocks and the failed writes, each record found afterwards is a record of
  before under the same identifier, for the same plan and with the same deadline, moved along the life
  cycle (open, then granted, refused or lapsed; granted, then spent or lapsed), or a request created in
  the run.
\<close>

theorem store_refines_life_cycle:
  assumes "\<forall>a \<in> set (records s). approval_wf a" "b \<in> set (records (run xs s))"
  shows "approval_wf b \<and>
    ((\<exists>a \<in> set (records s). ap_ID b = ap_ID a \<and> ap_Plan b = ap_Plan a \<and> ap_ExpiresAt b = ap_ExpiresAt a \<and>
               phase_step\<^sup>*\<^sup>* (phase_of a) (phase_of b)) \<or>
     (ap_ID b \<in> set (drawn xs) \<and> phase_step\<^sup>*\<^sup>* Open (phase_of b)))"
proof -
  have "\<forall>a \<in> set (records s). descends (set (records s)) (set (drawn xs)) a"
    using assms(1) by (auto simp: descends_def)
  then have "descends (set (records s)) (set (drawn xs)) b"
    using descent.run_keeps [of s "set (records s)" "set (drawn xs)" xs] assms(2) by simp
  then show ?thesis by (simp add: descends_def)
qed

theorem store_refines_life_cycle_witness:
  "phase_step\<^sup>*\<^sup>* (phase_of sample_granted) (phase_of sample_granted)"
  using store_refines_life_cycle [of "sample_store [sample_granted]" sample_granted "[]"]
  by (simp add: approval_wf_def sample_granted_def)

text \<open>
  C37: The stores that runs from an empty file reach are well formed when no random draw repeats: no two
  records share an identifier or a token, every record's fields agree with its state (a pending request
  has no decision and no token, a used one has both, a rejected one has no token), and every identifier
  and every token hash was drawn in the run.
\<close>

theorem reachable_stores_well_formed:
  assumes "distinct (drawn xs)" "distinct (issued xs)"
  shows "distinct (map ap_ID (records (run xs empty_store))) \<and>
    distinct (filter (\<lambda>h. h \<noteq> []) (map ap_TokenHash (records (run xs empty_store)))) \<and>
    (\<forall>a \<in> set (records (run xs empty_store)). approval_wf a \<and> ap_ID a \<in> set (drawn xs) \<and>
       (ap_TokenHash a \<noteq> [] \<longrightarrow> ap_TokenHash a \<in> set (issued xs)))"
proof -
  let ?s = "run xs empty_store"
  have ids: "unique_ids ?s" "ids ?s \<subseteq> set (drawn xs)" using run_ids_empty assms(1) by auto
  have toks: "unique_tokens ?s" "hashes ?s \<subseteq> set (issued xs)" using run_tokens_empty assms(2) by auto
  have "\<forall>a \<in> set (records ?s). approval_wf a" by (rule wf_records.run_keeps) simp_all
  moreover have "distinct (filter (\<lambda>h. h \<noteq> []) (map ap_TokenHash (records ?s)))"
    using toks(1) by (rule unique_tokens_distinct)
  ultimately show ?thesis using ids toks(2) by (fastforce simp: unique_ids_def ids_def hashes_def)
qed

theorem reachable_stores_well_formed_witness:
  "distinct (map ap_ID (records (run sample_steps empty_store)))"
  by (rule conjunct1, rule reachable_stores_well_formed) (simp_all add: sample_steps_def)

end
