(* ===== verification/AuditStore.thy ===== *)
theory AuditStore
  imports ApprovalStore
begin

text \<open>
  The audit part of \<^verbatim>\<open>agent/operation/store.go\<close>: the append-only audit file, its retention and its
  queries. A \<^verbatim>\<open>prepared\<close> event without a terminal event of the same plan is the durable outbox of
  tunnel compensation: the lemmas show that retention neither loses nor resurrects an outbox entry.
\<close>

section \<open>State and persistence\<close>

record AuditFileStore =
  us_limit :: int
  us_file :: "AuditEvent disk"

definition NewAuditFileStore :: "AuditEvent disk \<Rightarrow> int \<Rightarrow> AuditFileStore" where
  "NewAuditFileStore f limit = \<lparr>us_limit = (if limit \<le> 0 then 5000 else limit), us_file = f\<rparr>"

fun audit_load :: "AuditEvent disk \<Rightarrow> op_error + AuditEvent list" where
  "audit_load Missing = Inr []"
| "audit_load Unreadable = Inl ErrLoadStore"
| "audit_load Blank = Inr []"
| "audit_load Garbled = Inl ErrLoadStore"
| "audit_load (Content xs) = Inr xs"

definition audit_save :: "bool \<Rightarrow> AuditEvent list \<Rightarrow> AuditEvent disk \<Rightarrow> AuditEvent disk" where
  "audit_save ok xs f = (if ok then Content xs else f)"

interpretation audit: atomic_json_file audit_load audit_save
  by unfold_locales (simp_all add: audit_save_def)

section \<open>Retention\<close>

definition terminalPlanIDs :: "AuditEvent list \<Rightarrow> string list" where
  "terminalPlanIDs xs = map (\<lambda>e. pl_ID (ev_Plan e))
     (filter (\<lambda>e. pl_ID (ev_Plan e) \<noteq> [] \<and> (ev_Action e = AuditExecuted \<or> ev_Action e = AuditFailed)) xs)"

definition outbox :: "AuditEvent list \<Rightarrow> AuditEvent \<Rightarrow> bool" where
  "outbox xs e \<longleftrightarrow> ev_Action e = AuditPrepared \<and> pl_ID (ev_Plan e) \<noteq> [] \<and>
     pl_ID (ev_Plan e) \<notin> set (terminalPlanIDs xs)"

definition trimAuditEvents :: "AuditEvent list \<Rightarrow> int \<Rightarrow> AuditEvent list" where
  "trimAuditEvents xs limit =
     (if limit \<le> 0 \<or> int (length xs) \<le> limit then xs
      else
        let srt = sort_key ev_CreatedAt xs;
            pending = filter (outbox xs) srt;
            trimmable = filter (\<lambda>e. \<not> outbox xs e) srt;
            remaining = (let r = limit - int (length pending) in if r < 0 then 0 else r)
        in sort_key ev_CreatedAt (pending @ keep_last (nat remaining) trimmable))"

section \<open>Operations\<close>

definition AuditAppend ::
  "bool \<Rightarrow> time \<Rightarrow> byte list \<Rightarrow> AuditEvent \<Rightarrow> AuditFileStore \<Rightarrow> (op_error + AuditEvent) \<times> AuditFileStore" where
  "AuditAppend ok now rand event s =
     (case audit_load (us_file s) of
        Inl e \<Rightarrow> (Inl e, s)
      | Inr xs \<Rightarrow>
          let e1 = (if ev_ID event = [] then event\<lparr>ev_ID := newID rand ''opaud''\<rparr> else event);
              e2 = (if ev_CreatedAt e1 = 0 then e1\<lparr>ev_CreatedAt := now\<rparr> else e1);
              e3 = (if ev_Kind e2 = [] then e2\<lparr>ev_Kind := pl_Kind (ev_Plan e2)\<rparr> else e2);
              ys = trimAuditEvents (xs @ [e3]) (us_limit s)
          in (if ok then Inr e3 else Inl ErrSaveStore,
              s\<lparr>us_file := audit_save ok ys (us_file s)\<rparr>))"

definition AuditList :: "AuditFilter \<Rightarrow> AuditFileStore \<Rightarrow> op_error + AuditEvent list" where
  "AuditList flt s =
     (case audit_load (us_file s) of
        Inl e \<Rightarrow> Inl e
      | Inr xs \<Rightarrow>
          let projectID = TrimSpace (uf_ProjectID flt);
              kind = TrimSpace (uf_Kind flt);
              approvalID = TrimSpace (uf_ApprovalID flt);
              out = filter (\<lambda>e. (projectID = [] \<or> tg_ProjectID (pl_Target (ev_Plan e)) = projectID) \<and>
                                (kind = [] \<or> ev_Kind e = kind) \<and>
                                (approvalID = [] \<or> ev_ApprovalID e = approvalID) \<and>
                                (uf_Since flt = 0 \<or> \<not> ev_CreatedAt e < uf_Since flt)) xs
          in Inr (go_limit (uf_Limit flt) (stable_sort_desc ev_CreatedAt out)))"

section \<open>Retention keeps the outbox exactly\<close>

lemma terminal_iff: "i \<in> set (terminalPlanIDs xs) \<longleftrightarrow>
   i \<noteq> [] \<and> (\<exists>t \<in> set xs. pl_ID (ev_Plan t) = i \<and> ev_Action t \<in> {AuditExecuted, AuditFailed})"
  by (auto simp: terminalPlanIDs_def)

lemma set_trimAudit:
  assumes "\<not> (limit \<le> 0 \<or> int (length xs) \<le> limit)"
  shows "\<exists>n. set (trimAuditEvents xs limit) = {e \<in> set xs. outbox xs e} \<union>
     set (keep_last n (filter (\<lambda>e. \<not> outbox xs e) (sort_key ev_CreatedAt xs)))"
  using assms by (auto simp: trimAuditEvents_def Let_def)

lemma trimAudit_subset: "set (trimAuditEvents xs limit) \<subseteq> set xs"
proof (cases "limit \<le> 0 \<or> int (length xs) \<le> limit")
  case False
  then obtain n where "set (trimAuditEvents xs limit) = {e \<in> set xs. outbox xs e} \<union>
     set (keep_last n (filter (\<lambda>e. \<not> outbox xs e) (sort_key ev_CreatedAt xs)))"
    using set_trimAudit by blast
  then show ?thesis using set_keep_last [of n] by fastforce
qed (simp add: trimAuditEvents_def)

lemma trimAudit_keeps_outbox:
  "e \<in> set xs \<Longrightarrow> outbox xs e \<Longrightarrow> e \<in> set (trimAuditEvents xs limit)"
  using set_trimAudit [of limit xs] by (cases "limit \<le> 0 \<or> int (length xs) \<le> limit")
    (auto simp: trimAuditEvents_def)

lemma trimAudit_recent:
  assumes "x \<in> set xs" "x \<notin> set (trimAuditEvents xs limit)" "y \<in> set (trimAuditEvents xs limit)"
    "\<not> outbox xs y"
  shows "ev_CreatedAt x \<le> ev_CreatedAt y"
proof -
  have big: "\<not> (limit \<le> 0 \<or> int (length xs) \<le> limit)"
    using assms(1,2) by (auto simp: trimAuditEvents_def)
  let ?ts = "filter (\<lambda>e. \<not> outbox xs e) (sort_key ev_CreatedAt xs)"
  obtain n where n: "set (trimAuditEvents xs limit) = {e \<in> set xs. outbox xs e} \<union> set (keep_last n ?ts)"
    using set_trimAudit [OF big] by blast
  have "sorted_wrt (\<lambda>a b. ev_CreatedAt a \<le> ev_CreatedAt b) ?ts"
    by (intro sorted_wrt_filter) (metis sorted_map sorted_sort_key)
  then show ?thesis
    by (rule keep_last_recent [of _ _ x n]) (use assms n in auto)
qed

text \<open>The clock orders a plan's \<^verbatim>\<open>prepared\<close> event before its terminal one.\<close>

definition prepared_first :: "AuditEvent list \<Rightarrow> bool" where
  "prepared_first xs \<longleftrightarrow> (\<forall>p \<in> set xs. \<forall>t \<in> set xs.
     ev_Action p = AuditPrepared \<and> ev_Action t \<in> {AuditExecuted, AuditFailed} \<and>
     pl_ID (ev_Plan t) = pl_ID (ev_Plan p) \<longrightarrow> ev_CreatedAt p < ev_CreatedAt t)"

lemma trimAudit_outbox_exact:
  assumes "prepared_first xs"
  shows "{e \<in> set (trimAuditEvents xs limit). outbox (trimAuditEvents xs limit) e} =
     {e \<in> set xs. outbox xs e}"
proof (intro equalityI subsetI CollectI conjI; elim CollectE conjE)
  let ?ys = "trimAuditEvents xs limit"
  fix e assume e: "e \<in> set ?ys" "outbox ?ys e"
  show "e \<in> set xs" using e(1) trimAudit_subset by blast
  show "outbox xs e"
  proof (rule ccontr)
    assume closed: "\<not> outbox xs e"
    with e(2) obtain t where t: "t \<in> set xs" "pl_ID (ev_Plan t) = pl_ID (ev_Plan e)"
      "ev_Action t \<in> {AuditExecuted, AuditFailed}" by (auto simp: outbox_def terminal_iff)
    with e(2) have "t \<notin> set ?ys" by (auto simp: outbox_def terminal_iff)
    with t(1) e(1) closed have "ev_CreatedAt t \<le> ev_CreatedAt e" by (blast intro: trimAudit_recent)
    moreover have "ev_CreatedAt e < ev_CreatedAt t"
      using assms t \<open>e \<in> set xs\<close> e(2) unfolding prepared_first_def outbox_def by blast
    ultimately show False by simp
  qed
next
  fix e assume e: "e \<in> set xs" "outbox xs e"
  show "e \<in> set (trimAuditEvents xs limit)" using e by (rule trimAudit_keeps_outbox)
  show "outbox (trimAuditEvents xs limit) e"
    using e(2) trimAudit_subset [of xs limit] by (auto simp: outbox_def terminal_iff)
qed

section \<open>Properties\<close>

definition events :: "AuditFileStore \<Rightarrow> AuditEvent list" where
  "events s = (case audit_load (us_file s) of Inl e \<Rightarrow> [] | Inr xs \<Rightarrow> xs)"

definition sample_event :: AuditEvent where
  "sample_event = \<lparr>ev_ID = ''e1'', ev_Kind = OperationRuntimeStart, ev_Action = AuditPrepared,
     ev_ApprovalID = [], ev_Plan = \<lparr>pl_ID = ''op_1'', pl_Kind = OperationRuntimeStart, pl_Target = empty_target,
     pl_TargetSummary = [], pl_RiskLevel = RiskHigh, pl_RequiresApproval = True, pl_Denied = False,
     pl_Reasons = [], pl_ExpectedEffects = [], pl_Checks = [], pl_Fingerprint = ''fp'',
     pl_CreatedAt = 1, pl_ExpiresAt = 100\<rparr>, ev_Summary = [], ev_Data = [], ev_CreatedAt = 1\<rparr>"



text \<open>
  A query of the audit trail returns only events that match every filter that is set, newest first, at
  most as many as asked for, and every matching event when no limit is set.
\<close>

theorem audit_query_correct:
  assumes "AuditList flt s = Inr out"
  shows "sorted_wrt (\<lambda>x y. ev_CreatedAt y \<le> ev_CreatedAt x) out \<and>
    (0 < uf_Limit flt \<longrightarrow> int (length out) \<le> uf_Limit flt) \<and>
    (let hits = {e \<in> set (events s).
        (TrimSpace (uf_ProjectID flt) = [] \<or> tg_ProjectID (pl_Target (ev_Plan e)) = TrimSpace (uf_ProjectID flt)) \<and>
        (TrimSpace (uf_Kind flt) = [] \<or> ev_Kind e = TrimSpace (uf_Kind flt)) \<and>
        (TrimSpace (uf_ApprovalID flt) = [] \<or> ev_ApprovalID e = TrimSpace (uf_ApprovalID flt)) \<and>
        (uf_Since flt = 0 \<or> uf_Since flt \<le> ev_CreatedAt e)}
     in set out \<subseteq> hits \<and> (uf_Limit flt \<le> 0 \<longrightarrow> set out = hits))"
proof -
  obtain xs where xs: "audit_load (us_file s) = Inr xs"
    using assms by (auto simp: AuditList_def split: sum.splits)
  let ?P = "\<lambda>e. (TrimSpace (uf_ProjectID flt) = [] \<or> tg_ProjectID (pl_Target (ev_Plan e)) = TrimSpace (uf_ProjectID flt)) \<and>
        (TrimSpace (uf_Kind flt) = [] \<or> ev_Kind e = TrimSpace (uf_Kind flt)) \<and>
        (TrimSpace (uf_ApprovalID flt) = [] \<or> ev_ApprovalID e = TrimSpace (uf_ApprovalID flt)) \<and>
        (uf_Since flt = 0 \<or> \<not> ev_CreatedAt e < uf_Since flt)"
  have out: "out = go_limit (uf_Limit flt) (stable_sort_desc ev_CreatedAt (filter ?P xs))"
    using assms xs by (simp add: AuditList_def Let_def)
  have "set out \<subseteq> set (filter ?P xs)"
    unfolding out using set_go_limit [of "uf_Limit flt" "stable_sort_desc ev_CreatedAt (filter ?P xs)"] by simp
  moreover have "uf_Limit flt \<le> 0 \<Longrightarrow> set out = set (filter ?P xs)"
    unfolding out by (simp add: go_limit_def)
  moreover have "events s = xs" using xs by (simp add: events_def)
  moreover have "sorted_wrt (\<lambda>x y. ev_CreatedAt y \<le> ev_CreatedAt x) out"
    unfolding out by (intro sorted_wrt_go_limit sorted_stable_sort_desc)
  moreover have "0 < uf_Limit flt \<Longrightarrow> int (length out) \<le> uf_Limit flt"
    unfolding out by (rule length_go_limit)
  ultimately show ?thesis by (auto simp: Let_def not_less)
qed

theorem audit_query_correct_witness:
  "sorted_wrt (\<lambda>x y. ev_CreatedAt y \<le> ev_CreatedAt x) [sample_event]"
proof -
  have "AuditList \<lparr>uf_ProjectID = [], uf_Kind = [], uf_ApprovalID = [], uf_Since = 0, uf_Limit = 0\<rparr>
      (NewAuditFileStore (Content [sample_event]) 3) = Inr [sample_event]"
    by (simp add: AuditList_def NewAuditFileStore_def TrimSpace_ascii go_limit_def stable_sort_desc_def)
  from audit_query_correct [OF this] show ?thesis by blast
qed

end
