(* ===== verification/GraceStore.thy ===== *)
theory GraceStore
  imports OperationTypes
begin

text \<open>
  \<^verbatim>\<open>agent/operation/grace.go\<close>: the per-project windows in which an approved project needs no further
  approval. The file is written in place, not renamed, so a failed write may leave anything behind
  (\<open>left\<close>), and an empty file is a parse error here.
\<close>

section \<open>State and persistence\<close>

type_synonym GraceFileStore = "GraceGrant disk"

definition NewGraceFileStore :: "GraceGrant disk \<Rightarrow> GraceFileStore" where
  "NewGraceFileStore f = f"

fun grace_load :: "GraceFileStore \<Rightarrow> op_error + GraceGrant list" where
  "grace_load Missing = Inr []"
| "grace_load Unreadable = Inl ErrLoadStore"
| "grace_load Blank = Inl ErrLoadStore"
| "grace_load Garbled = Inl ErrLoadStore"
| "grace_load (Content xs) = Inr xs"

definition grace_save :: "bool \<Rightarrow> GraceGrant list \<Rightarrow> GraceFileStore \<Rightarrow> GraceFileStore" where
  "grace_save ok xs left = (if ok then Content xs else left)"

interpretation grace: json_file grace_load grace_save
  by unfold_locales (simp_all add: grace_save_def)

section \<open>Operations\<close>

definition GrantGrace ::
  "bool \<Rightarrow> GraceFileStore \<Rightarrow> time \<Rightarrow> string \<Rightarrow> string \<Rightarrow> string \<Rightarrow> duration \<Rightarrow> GraceFileStore
     \<Rightarrow> (op_error + GraceGrant) \<times> GraceFileStore" where
  "GrantGrace ok left now projectID grantedBy fromApprovalID ttl s =
     (let projectID = TrimSpace projectID
      in if projectID = [] then (Inl ErrGraceProjectRequired, s)
         else case grace_load s of
           Inl e \<Rightarrow> (Inl e, s)
         | Inr gs \<Rightarrow>
             let grant = \<lparr>gr_ProjectID = projectID, gr_GrantedBy = grantedBy,
                          gr_GrantedFrom = fromApprovalID, gr_CreatedAt = now, gr_ExpiresAt = now + ttl\<rparr>;
                 kept = filter (\<lambda>g. gr_ProjectID g \<noteq> projectID \<and> now < gr_ExpiresAt g) gs @ [grant]
             in (if ok then Inr grant else Inl ErrSaveStore, grace_save ok kept left))"

definition ActiveGrace ::
  "bool \<Rightarrow> GraceFileStore \<Rightarrow> time \<Rightarrow> string \<Rightarrow> GraceFileStore
     \<Rightarrow> (op_error + GraceGrant option) \<times> GraceFileStore" where
  "ActiveGrace ok left now projectID s =
     (let projectID = TrimSpace projectID
      in if projectID = [] then (Inr None, s)
         else case grace_load s of
           Inl e \<Rightarrow> (Inl e, s)
         | Inr gs \<Rightarrow>
             let kept = filter (\<lambda>g. now < gr_ExpiresAt g) gs;
                 hits = filter (\<lambda>g. gr_ProjectID g = projectID) kept;
                 hit = (if hits = [] then None else Some (last hits))
             in if length kept \<noteq> length gs
                then (if ok then Inr hit else Inl ErrSaveStore, grace_save ok kept left)
                else (Inr hit, s))"

section \<open>Windows\<close>

definition grants :: "GraceFileStore \<Rightarrow> GraceGrant list" where
  "grants s = (case grace_load s of Inl e \<Rightarrow> [] | Inr gs \<Rightarrow> gs)"

lemma ActiveGrace_result:
  assumes "grace_load s = Inr gs" "TrimSpace q \<noteq> []"
  shows "fst (ActiveGrace True left now q s) =
    (let hits = filter (\<lambda>g. gr_ProjectID g = TrimSpace q \<and> now < gr_ExpiresAt g) gs
     in Inr (if hits = [] then None else Some (last hits)))"
  using assms by (auto simp: ActiveGrace_def Let_def filter_filter conj_commute)

lemma GrantGrace_success:
  assumes "GrantGrace ok left now p who from_ap ttl s = (Inr g, s')"
  obtains gs where "grace_load s = Inr gs" "TrimSpace p \<noteq> []" "gr_ProjectID g = TrimSpace p"
    "gr_ExpiresAt g = now + ttl" "gr_CreatedAt g = now"
    "grace_load s' = Inr (filter (\<lambda>g. gr_ProjectID g \<noteq> TrimSpace p \<and> now < gr_ExpiresAt g) gs @ [g])"
  using assms by (cases "grace_load s")
    (auto simp: GrantGrace_def Let_def grace.load_save split: if_splits)

section \<open>Properties\<close>

text \<open>
  A grace window covers exactly its project and exactly its time: after a grant, asking about the same
  project answers that grant until its expiry and nothing from then on (an earlier, longer window of the
  project does not survive its replacement), and every other project's answer is what it was.
\<close>

theorem grace_window_exact:
  assumes "GrantGrace ok left now p who from_ap ttl s = (Inr g, s')" "now \<le> now'" "TrimSpace q \<noteq> []"
  shows "fst (ActiveGrace True left' now' q s') =
    (if TrimSpace q = TrimSpace p then Inr (if now' < now + ttl then Some g else None)
     else fst (ActiveGrace True left' now' q s))"
proof -
  obtain gs where gs: "grace_load s = Inr gs" "gr_ProjectID g = TrimSpace p" "gr_ExpiresAt g = now + ttl"
    "grace_load s' = Inr (filter (\<lambda>g. gr_ProjectID g \<noteq> TrimSpace p \<and> now < gr_ExpiresAt g) gs @ [g])"
    using GrantGrace_success [OF assms(1)] by metis
  let ?kept = "filter (\<lambda>g. gr_ProjectID g \<noteq> TrimSpace p \<and> now < gr_ExpiresAt g) gs @ [g]"
  let ?hit = "\<lambda>g. gr_ProjectID g = TrimSpace q \<and> now' < gr_ExpiresAt g"
  have "filter ?hit ?kept = (if TrimSpace q = TrimSpace p then (if now' < now + ttl then [g] else [])
      else filter ?hit gs)"
    using assms(2) gs(2,3) by (auto simp: filter_empty_conv intro!: filter_cong)
  then show ?thesis
    unfolding ActiveGrace_result [OF gs(4) assms(3)] ActiveGrace_result [OF gs(1) assms(3)]
    by (simp add: Let_def)
qed

theorem grace_window_exact_witness:
  "let s' = snd (GrantGrace True Missing 5 ''p'' ''desk'' ''opa_1'' 10 Missing)
   in fst (ActiveGrace True Missing 15 ''p'' s') = Inr None"
proof -
  let ?r = "GrantGrace True Missing 5 ''p'' ''desk'' ''opa_1'' 10 Missing"
  have t: "TrimSpace ''p'' = ''p''" by (simp add: TrimSpace_ascii no_blank_ends_def)
  obtain g where g: "?r = (Inr g, snd ?r)" by (simp add: GrantGrace_def t Let_def)
  from grace_window_exact [OF g, of 15 "''p''" Missing] show ?thesis by (simp add: t)
qed

text \<open>
  Windows are renewed, never stacked: if no project has two windows, granting or asking (with the file
  accepting the write) leaves it so, and a grant drops every expired window of the file.
\<close>

theorem grace_windows_do_not_stack:
  assumes "distinct (map gr_ProjectID (grants s))"
  shows "distinct (map gr_ProjectID (grants (snd (GrantGrace True left now p who from_ap ttl s)))) \<and>
    distinct (map gr_ProjectID (grants (snd (ActiveGrace True left now p s)))) \<and>
    (\<forall>g s'. GrantGrace True left now p who from_ap ttl s = (Inr g, s') \<longrightarrow>
       (\<forall>h \<in> set (grants s'). now < gr_ExpiresAt h \<or> h = g))"
proof (intro conjI allI impI ballI)
  show "distinct (map gr_ProjectID (grants (snd (GrantGrace True left now p who from_ap ttl s))))"
    using assms by (auto simp: GrantGrace_def Let_def grants_def grace.load_save distinct_map_filter
        split: sum.splits)
  show "distinct (map gr_ProjectID (grants (snd (ActiveGrace True left now p s))))"
    using assms by (auto simp: ActiveGrace_def Let_def grants_def grace.load_save distinct_map_filter
        split: sum.splits)
next
  fix g s' h assume "GrantGrace True left now p who from_ap ttl s = (Inr g, s')" "h \<in> set (grants s')"
  then show "now < gr_ExpiresAt h \<or> h = g"
    by (elim GrantGrace_success) (auto simp: grants_def)
qed

theorem grace_windows_do_not_stack_witness:
  "distinct (map gr_ProjectID (grants (snd (GrantGrace True Missing 5 ''p'' ''desk'' ''opa_1'' 10 Missing))))"
  using grace_windows_do_not_stack [of Missing Missing 5 "''p''" "''desk''" "''opa_1''" 10]
  by (simp add: grants_def)

end
