(* ===== verification/Policy.thy ===== *)
theory Policy
  imports OperationTypes
begin

text \<open>
  \<^verbatim>\<open>agent/operation/policy.go\<close>: the pre-flight plans of the operations an agent may be asked to do,
  with their risk, whether they need an approval, and the fingerprint an approval is bound to. The
  records hold the fields of \<^verbatim>\<open>agent/model/model.go\<close> that the policies read.
\<close>

section \<open>The project model, as far as the policies read it\<close>

definition LocationLocal :: string where "LocationLocal = ''local''"
definition LocationRemote :: string where "LocationRemote = ''remote''"
definition RuntimeTypeCommand :: string where "RuntimeTypeCommand = ''command''"
definition RuntimeTypeLanguage :: string where "RuntimeTypeLanguage = ''language''"
definition ControlModeMonitor :: string where "ControlModeMonitor = ''monitor''"
definition ControlModeManaged :: string where "ControlModeManaged = ''managed''"
definition CodeDebugPolicyAuto :: string where "CodeDebugPolicyAuto = ''auto''"
definition CodeDebugPolicyEnabled :: string where "CodeDebugPolicyEnabled = ''enabled''"
definition CodeDebugPolicyDisabled :: string where "CodeDebugPolicyDisabled = ''disabled''"

lemmas model_const_defs = LocationLocal_def LocationRemote_def RuntimeTypeCommand_def
  RuntimeTypeLanguage_def ControlModeMonitor_def ControlModeManaged_def CodeDebugPolicyAuto_def
  CodeDebugPolicyEnabled_def CodeDebugPolicyDisabled_def

lemma model_const_distinct [simp]:
  "LocationLocal \<noteq> LocationRemote" "LocationRemote \<noteq> LocationLocal"
  "ControlModeMonitor \<noteq> ControlModeManaged" "ControlModeManaged \<noteq> ControlModeMonitor"
  "ControlModeMonitor \<noteq> []" "CodeDebugPolicyAuto \<noteq> CodeDebugPolicyEnabled"
  "CodeDebugPolicyEnabled \<noteq> CodeDebugPolicyDisabled" "CodeDebugPolicyAuto \<noteq> CodeDebugPolicyDisabled"
  "LocationLocal \<noteq> []" "LocationRemote \<noteq> []" "ControlModeManaged \<noteq> []"
  "CodeDebugPolicyDisabled \<noteq> CodeDebugPolicyEnabled" "CodeDebugPolicyEnabled \<noteq> CodeDebugPolicyAuto"
  "CodeDebugPolicyDisabled \<noteq> CodeDebugPolicyAuto" "RuntimeTypeCommand \<noteq> RuntimeTypeLanguage"
  by (simp_all add: model_const_defs)

record Environment =
  env_Name :: string
  env_IsDev :: bool

record Project =
  pj_ID :: string
  pj_Name :: string
  pj_Environments :: "Environment list"

record Service =
  sv_ID :: string
  sv_Name :: string

record Deployment =
  dp_ID :: string
  dp_EnvName :: string
  dp_Location :: string
  dp_ControlMode :: string
  dp_Runtime :: "string option"
  dp_CodeDebug :: "string option"
  dp_ReadOnly :: bool

text \<open>\<^verbatim>\<open>dp_Runtime\<close> is \<^verbatim>\<open>Runtime.Type\<close> and \<^verbatim>\<open>dp_CodeDebug\<close> is \<^verbatim>\<open>CodeDebug.Policy\<close>, where the pointer is set.\<close>

definition EffectiveControlMode :: "Deployment \<Rightarrow> string" where
  "EffectiveControlMode d =
     (if dp_ControlMode d \<noteq> [] then dp_ControlMode d
      else if dp_ReadOnly d then ControlModeMonitor
      else ControlModeManaged)"

definition IsReadOnly :: "Deployment \<Rightarrow> bool" where
  "IsReadOnly d \<longleftrightarrow> EffectiveControlMode d = ControlModeMonitor"

definition KnownLanguage :: "string \<Rightarrow> bool" where
  "KnownLanguage l \<longleftrightarrow> l \<in> {''go'', ''node'', ''python'', ''java'', ''kotlin'', ''rust'', ''cpp''}"

definition EffectivePolicy :: "string \<Rightarrow> string" where
  "EffectivePolicy p = (if p = [] then CodeDebugPolicyAuto else p)"

section \<open>Helpers\<close>

fun findEnvironment :: "Environment list \<Rightarrow> string \<Rightarrow> Environment \<times> bool" where
  "findEnvironment [] n = (\<lparr>env_Name = [], env_IsDev = False\<rparr>, False)"
| "findEnvironment (e # es) n = (if env_Name e = n then (e, env_IsDev e) else findEnvironment es n)"

fun envIsDev :: "Environment list \<Rightarrow> string \<Rightarrow> bool" where
  "envIsDev [] n = False"
| "envIsDev (e # es) n = (if env_Name e = n then env_IsDev e else envIsDev es n)"

definition runtimeVerb :: "string \<Rightarrow> string" where
  "runtimeVerb kind =
     (if kind = OperationRuntimeStart then ''start''
      else if kind = OperationRuntimeStop then ''stop''
      else if kind = OperationRuntimeRestart then ''restart''
      else ''operate'')"

definition effectiveDeployLocation :: "Deployment \<Rightarrow> string" where
  "effectiveDeployLocation d = (if dp_Location d = [] then LocationLocal else dp_Location d)"

definition codeDebugRuntimeType :: "Deployment \<Rightarrow> string" where
  "codeDebugRuntimeType d =
     (case dp_Runtime d of
        Some t \<Rightarrow> (if t \<noteq> [] then t else RuntimeTypeCommand)
      | None \<Rightarrow> RuntimeTypeCommand)"

definition codeDebugRuntimeSupported :: "Deployment \<Rightarrow> bool" where
  "codeDebugRuntimeSupported d \<longleftrightarrow> codeDebugRuntimeType d = RuntimeTypeLanguage"

definition codeDebugDeniedReason :: "Project \<Rightarrow> Deployment \<Rightarrow> string \<Rightarrow> string" where
  "codeDebugDeniedReason project d lang =
     (if effectiveDeployLocation d \<noteq> LocationLocal \<or> EffectiveControlMode d \<noteq> ControlModeManaged \<or>
         \<not> codeDebugRuntimeSupported d
      then ''code debug supports local managed language runtime deployments only''
      else let policy = (case dp_CodeDebug d of Some p \<Rightarrow> EffectivePolicy p | None \<Rightarrow> CodeDebugPolicyAuto)
           in if policy = CodeDebugPolicyDisabled then ''code debug is disabled for this deployment''
              else if \<not> KnownLanguage lang then ''service language does not support code debug''
              else if policy = CodeDebugPolicyEnabled then []
              else if \<not> envIsDev (pj_Environments project) (dp_EnvName d)
                   then ''code debug is only available in dev environments by default''
              else [])"

definition deployment_target :: "Project \<Rightarrow> Service \<Rightarrow> Deployment \<Rightarrow> Target" where
  "deployment_target project service d = empty_target\<lparr>tg_ProjectID := pj_ID project,
     tg_ProjectName := pj_Name project, tg_EnvName := dp_EnvName d, tg_ServiceID := sv_ID service,
     tg_ServiceName := sv_Name service, tg_DeploymentID := dp_ID d\<rparr>"

definition target_summary :: "Project \<Rightarrow> string \<Rightarrow> Service \<Rightarrow> string" where
  "target_summary project env service = pj_Name project @ ''/'' @ env @ ''/'' @ sv_Name service"

text \<open>The literal every plan starts from: no reasons, not denied, ten minutes to live.\<close>

definition new_plan ::
  "time \<Rightarrow> byte list \<Rightarrow> string \<Rightarrow> Target \<Rightarrow> string \<Rightarrow> string \<Rightarrow> bool \<Rightarrow> string list \<Rightarrow> Check list \<Rightarrow> Plan" where
  "new_plan now rand kind target summary risk approval effects checks =
     \<lparr>pl_ID = newID rand ''op'', pl_Kind = kind, pl_Target = target, pl_TargetSummary = summary,
      pl_RiskLevel = risk, pl_RequiresApproval = approval, pl_Denied = False, pl_Reasons = [],
      pl_ExpectedEffects = effects, pl_Checks = checks, pl_Fingerprint = [],
      pl_CreatedAt = now, pl_ExpiresAt = now + DefaultPlanTTL\<rparr>"

definition check :: "string \<Rightarrow> string \<Rightarrow> string \<Rightarrow> Check" where
  "check n st msg = \<lparr>ck_Name = n, ck_Status = st, ck_Message = msg\<rparr>"

definition deny :: "string \<Rightarrow> Plan \<Rightarrow> Plan" where
  "deny why p = p\<lparr>pl_Denied := True, pl_RiskLevel := RiskCritical, pl_Reasons := pl_Reasons p @ [why]\<rparr>"

definition demand :: "string \<Rightarrow> Plan \<Rightarrow> Plan" where
  "demand why p = p\<lparr>pl_RiskLevel := RiskHigh, pl_RequiresApproval := True, pl_Reasons := pl_Reasons p @ [why]\<rparr>"

definition fingerprinted :: "(Plan \<Rightarrow> json) \<Rightarrow> Plan \<Rightarrow> Plan" where
  "fingerprinted parts p = p\<lparr>pl_Fingerprint := stableFingerprint (parts p)\<rparr>"

lemmas plan_step_defs = deny_def demand_def new_plan_def

section \<open>Runtime operations\<close>

definition runtime_parts :: "Plan \<Rightarrow> json" where
  "runtime_parts p = json_map [(''kind'', JString (pl_Kind p)), (''target'', target_json (pl_Target p)),
     (''expected_effects'', json_strings (pl_ExpectedEffects p)), (''denied'', JBool (pl_Denied p))]"

definition runtime_checks :: "Project \<Rightarrow> Deployment \<Rightarrow> Plan \<Rightarrow> Plan" where
  "runtime_checks project d p0 =
     (let (env, isDev) = findEnvironment (pj_Environments project) (dp_EnvName d);
          location = effectiveDeployLocation d;
          p1 = (if env_Name env = [] then demand ''environment definition not found'' p0 else p0);
          p2 = (if IsReadOnly d then deny ''deployment is read-only'' p1 else p1);
          p3 = (if location = LocationRemote \<and> \<not> pl_Denied p2
                then demand ''remote deployment control requires approval'' p2 else p2);
          p4 = (if location = LocationLocal \<and> \<not> isDev \<and> \<not> pl_Denied p3
                then demand ''environment is not marked as dev'' p3 else p3)
      in if location = LocationLocal \<and> isDev \<and> \<not> pl_Denied p4
         then p4\<lparr>pl_RiskLevel := RiskLow, pl_RequiresApproval := False\<rparr> else p4)"

definition PlanRuntime ::
  "time \<Rightarrow> byte list \<Rightarrow> string \<Rightarrow> Project \<Rightarrow> Service \<Rightarrow> Deployment \<Rightarrow> op_error + Plan" where
  "PlanRuntime now rand kind project service d =
     (if kind \<noteq> OperationRuntimeStart \<and> kind \<noteq> OperationRuntimeStop \<and> kind \<noteq> OperationRuntimeRestart
      then Inl ErrInvalidOperation
      else
        let effectLocation = (if effectiveDeployLocation d = LocationRemote then ''remote'' else ''local'');
            p0 = new_plan now rand kind (deployment_target project service d)
                   (target_summary project (dp_EnvName d) service) RiskLow False
                   [runtimeVerb kind @ '' '' @ effectLocation @ '' deployment '' @ dp_ID d]
                   [check ''target_resolved'' ''passed'' ''deployment target resolved by agent''];
            p = runtime_checks project d p0
        in Inr (fingerprinted runtime_parts p))"

definition PlanRuntimeOnHost ::
  "time \<Rightarrow> byte list \<Rightarrow> string \<Rightarrow> Project \<Rightarrow> Service \<Rightarrow> Deployment \<Rightarrow> string \<Rightarrow> op_error + Plan" where
  "PlanRuntimeOnHost now rand kind project service d hostID =
     (let hostID = TrimSpace hostID
      in if hostID = [] \<or> effectiveDeployLocation d \<noteq> LocationRemote then Inl ErrInvalidOperation
         else case PlanRuntime now rand kind project service d of
           Inl e \<Rightarrow> Inl e
         | Inr p0 \<Rightarrow>
             let p = p0\<lparr>pl_Target := (pl_Target p0)\<lparr>tg_HostID := hostID\<rparr>,
                        pl_TargetSummary := target_summary project (dp_EnvName d) service @ '' on '' @ hostID,
                        pl_ExpectedEffects :=
                          [runtimeVerb kind @ '' remote deployment '' @ dp_ID d @ '' on host '' @ hostID]\<rparr>
             in Inr (fingerprinted runtime_parts p))"

text \<open>Starting the selected services of an environment: the loop over the targets, then the checks.\<close>

record RuntimeDeploymentTarget =
  rd_Service :: Service
  rd_Deployment :: Deployment

definition selected_effect :: "Deployment \<Rightarrow> string" where
  "selected_effect d = ''start '' @ (if effectiveDeployLocation d = LocationRemote then ''remote'' else ''local'')
     @ '' deployment '' @ dp_ID d"

definition selected_target :: "string \<Rightarrow> Deployment \<Rightarrow> Plan \<Rightarrow> Plan" where
  "selected_target envName d p0 =
     (let p1 = (if dp_EnvName d \<noteq> envName
                then deny (''deployment '' @ dp_ID d @ '' is not in environment '' @ envName) p0 else p0)
      in if IsReadOnly d then deny (''deployment '' @ dp_ID d @ '' is read-only'') p1 else p1)"

fun selected_targets :: "string \<Rightarrow> Deployment list \<Rightarrow> Plan \<Rightarrow> Plan" where
  "selected_targets envName [] p = p"
| "selected_targets envName (d # ds) p = selected_targets envName ds (selected_target envName d p)"

definition selected_parts :: "string list \<Rightarrow> Plan \<Rightarrow> json" where
  "selected_parts deploymentIDs p = json_map [(''kind'', JString (pl_Kind p)),
     (''target'', target_json (pl_Target p)), (''deployment_ids'', json_strings deploymentIDs),
     (''expected_effects'', json_strings (pl_ExpectedEffects p)), (''denied'', JBool (pl_Denied p))]"

definition selected_checks :: "bool \<Rightarrow> bool \<Rightarrow> bool \<Rightarrow> Plan \<Rightarrow> Plan" where
  "selected_checks envMissing isDev hasRemoteTarget p1 =
     (let p2 = (if envMissing then demand ''environment definition not found'' p1 else p1);
          p3 = (if \<not> pl_Denied p2 \<and> hasRemoteTarget
                then demand ''remote deployment control requires approval'' p2 else p2);
          p4 = (if \<not> pl_Denied p3 \<and> \<not> isDev then demand ''environment is not marked as dev'' p3 else p3)
      in if \<not> pl_Denied p4 \<and> isDev \<and> \<not> hasRemoteTarget
         then p4\<lparr>pl_RiskLevel := RiskLow, pl_RequiresApproval := False\<rparr> else p4)"

definition selected_plan ::
  "time \<Rightarrow> byte list \<Rightarrow> Project \<Rightarrow> string \<Rightarrow> Deployment list \<Rightarrow> Plan" where
  "selected_plan now rand project envName ds =
     (selected_targets envName ds
        (new_plan now rand OperationRuntimeStartSelected
           (empty_target\<lparr>tg_ProjectID := pj_ID project, tg_ProjectName := pj_Name project,
                         tg_EnvName := envName\<rparr>)
           (pj_Name project @ ''/'' @ envName @ '' selected services'') RiskLow False []
           [check ''target_resolved'' ''passed''
              (int_text (int (length ds)) @ '' deployment target(s) resolved by agent'')]))
     \<lparr>pl_ExpectedEffects := sort_strings (map selected_effect ds)\<rparr>"

definition PlanRuntimeStartSelected ::
  "time \<Rightarrow> byte list \<Rightarrow> Project \<Rightarrow> string \<Rightarrow> RuntimeDeploymentTarget list \<Rightarrow> op_error + Plan" where
  "PlanRuntimeStartSelected now rand project envName targets =
     (let envName = TrimSpace envName
      in if envName = [] \<or> targets = [] then Inl ErrInvalidOperation
         else
           let (env, isDev) = findEnvironment (pj_Environments project) envName;
               ds = map rd_Deployment targets;
               hasRemoteTarget = list_ex (\<lambda>d. effectiveDeployLocation d = LocationRemote) ds;
               deploymentIDs = sort_strings (map dp_ID ds)
           in Inr (fingerprinted (selected_parts deploymentIDs)
                     (selected_checks (env_Name env = []) isDev hasRemoteTarget
                        (selected_plan now rand project envName ds))))"

section \<open>Debugging\<close>

definition browser_parts :: "string \<Rightarrow> Plan \<Rightarrow> json" where
  "browser_parts targetURL p = json_map [(''kind'', JString (pl_Kind p)), (''target'', target_json (pl_Target p)),
     (''target_url'', JString targetURL), (''expected_effects'', json_strings (pl_ExpectedEffects p)),
     (''denied'', JBool (pl_Denied p))]"

definition PlanBrowserDebugOpen ::
  "time \<Rightarrow> byte list \<Rightarrow> Project \<Rightarrow> Service \<Rightarrow> Deployment \<Rightarrow> string \<Rightarrow> op_error + Plan" where
  "PlanBrowserDebugOpen now rand project service d targetURL =
     (let targetURL = TrimSpace targetURL
      in if dp_ID d = [] \<or> targetURL = [] then Inl ErrInvalidOperation
         else
           let p0 = new_plan now rand OperationBrowserDebugOpen (deployment_target project service d)
                      (target_summary project (dp_EnvName d) service) RiskMedium True
                      [''open debug browser for '' @ targetURL]
                      [check ''target_resolved'' ''passed'' ''local frontend target resolved by agent''];
               p = (if effectiveDeployLocation d \<noteq> LocationLocal
                    then deny ''browser debug v1 supports local deployments only'' p0 else p0)
           in Inr (fingerprinted (browser_parts targetURL) p))"

definition code_parts :: "string \<Rightarrow> Plan \<Rightarrow> json" where
  "code_parts lang p = json_map [(''kind'', JString (pl_Kind p)), (''target'', target_json (pl_Target p)),
     (''language'', JString lang), (''expected_effects'', json_strings (pl_ExpectedEffects p)),
     (''denied'', JBool (pl_Denied p))]"

definition PlanCodeDebugOpen ::
  "time \<Rightarrow> byte list \<Rightarrow> Project \<Rightarrow> Service \<Rightarrow> Deployment \<Rightarrow> string \<Rightarrow> op_error + Plan" where
  "PlanCodeDebugOpen now rand project service d lang =
     (if dp_ID d = [] then Inl ErrInvalidOperation
      else
        let effectProvider = (if lang = [] then ''configured'' else lang);
            p0 = new_plan now rand OperationCodeDebugOpen (deployment_target project service d)
                   (target_summary project (dp_EnvName d) service) RiskMedium True
                   [''launch '' @ effectProvider @ '' code debug session for deployment '' @ dp_ID d]
                   [check ''target_resolved'' ''passed'' ''local code debug target resolved by agent''];
            reason = codeDebugDeniedReason project d lang;
            p = (if reason \<noteq> [] then deny reason p0 else p0)
        in Inr (fingerprinted (code_parts lang) p))"

definition evaluate_parts :: "string \<Rightarrow> Plan \<Rightarrow> json" where
  "evaluate_parts expressionHash p = json_map [(''kind'', JString (pl_Kind p)),
     (''target'', target_json (pl_Target p)), (''expression_hash'', JString expressionHash),
     (''expected_effects'', json_strings (pl_ExpectedEffects p))]"

definition PlanCodeDebugEvaluate ::
  "time \<Rightarrow> byte list \<Rightarrow> CodeDebugEvaluateRequest \<Rightarrow> op_error + Plan" where
  "PlanCodeDebugEvaluate now rand req =
     (let projectID = TrimSpace (ce_ProjectID req); projectName = TrimSpace (ce_ProjectName req);
          deploymentID = TrimSpace (ce_DeploymentID req); sessionID = TrimSpace (ce_DebugSessionID req);
          expressionHash = TrimSpace (ce_ExpressionHash req)
      in if sessionID = [] \<or> expressionHash = [] then Inl ErrInvalidOperation
         else
           let p = new_plan now rand OperationCodeDebugEvaluate
                     (empty_target\<lparr>tg_ProjectID := projectID, tg_ProjectName := projectName,
                                   tg_DeploymentID := deploymentID, tg_DebugSessionID := sessionID\<rparr>)
                     (''code debug session '' @ sessionID) RiskHigh True
                     [''evaluate expression in code debug session '' @ sessionID]
                     [check ''expression_hashed'' ''passed'' ''evaluate expression is represented by hash only'']
           in Inr (fingerprinted (evaluate_parts expressionHash) p))"

section \<open>Templates, pipelines, tunnels, adoption and test databases\<close>

definition template_parts :: "Plan \<Rightarrow> json" where
  "template_parts p = json_map [(''kind'', JString (pl_Kind p)), (''target'', target_json (pl_Target p)),
     (''expected_effects'', json_strings (pl_ExpectedEffects p))]"

definition PlanTemplateImport :: "time \<Rightarrow> byte list \<Rightarrow> TemplateImportRequest \<Rightarrow> op_error + Plan" where
  "PlanTemplateImport now rand req =
     (let path = TrimSpace (ti_Path req); digest = TrimSpace (ti_Digest req)
      in if path = [] \<or> digest = [] then Inl ErrInvalidOperation
         else
           let summary = (if ts_Digest (ti_Summary req) = [] then (ti_Summary req)\<lparr>ts_Digest := digest\<rparr>
                          else ti_Summary req);
               p = new_plan now rand OperationTemplateImport
                     (empty_target\<lparr>tg_TemplatePath := path, tg_TemplateDigest := digest\<rparr>)
                     (ts_ID summary @ ''@'' @ ts_Version summary @ '' from '' @ path) RiskMedium True
                     [''import user pipeline template '' @ ts_ID summary @ ''@'' @ ts_Version summary]
                     [check ''template_preview'' ''passed'' ''template preview succeeded before import'']
           in Inr (fingerprinted template_parts p))"

definition pipeline_parts :: "bool \<Rightarrow> string \<Rightarrow> Plan \<Rightarrow> json" where
  "pipeline_parts isRollback artifactVersion p = json_map [(''kind'', JString (pl_Kind p)),
     (''target'', target_json (pl_Target p)), (''expected_effects'', json_strings (pl_ExpectedEffects p)),
     (''is_rollback'', JBool isRollback), (''artifact_version'', JString artifactVersion)]"

definition PlanPipelineRun ::
  "time \<Rightarrow> byte list \<Rightarrow> Project \<Rightarrow> string \<Rightarrow> string \<Rightarrow> bool \<Rightarrow> string \<Rightarrow> op_error + Plan" where
  "PlanPipelineRun now rand project pipelineID envName isRollback artifactVersion =
     (let pipelineID = TrimSpace pipelineID
      in if pipelineID = [] then Inl ErrInvalidOperation
         else
           let verb = (if isRollback then ''rollback'' else ''deploy'');
               p = new_plan now rand OperationPipelineRun
                     (empty_target\<lparr>tg_ProjectID := pj_ID project, tg_ProjectName := pj_Name project,
                        tg_EnvName := TrimSpace envName, tg_PipelineID := pipelineID,
                        tg_ArtifactVersion := TrimSpace artifactVersion\<rparr>)
                     (pj_Name project @ ''/'' @ TrimSpace envName @ '' pipeline '' @ pipelineID @
                      '' ('' @ verb @ '')'') RiskHigh True
                     [verb @ '' pipeline '' @ pipelineID @ '' in '' @ TrimSpace envName]
                     [check ''target_resolved'' ''passed'' ''pipeline target resolved by agent'']
           in Inr (fingerprinted (pipeline_parts isRollback (TrimSpace artifactVersion)) p))"

text \<open>The loop keeps the first occurrence of each trimmed, non-empty field.\<close>

fun dedup :: "string list \<Rightarrow> string list \<Rightarrow> string list" where
  "dedup acc [] = acc"
| "dedup acc (f # fs) =
     (let f = TrimSpace f in if f = [] \<or> f \<in> set acc then dedup acc fs else dedup (acc @ [f]) fs)"

definition tunnel_parts :: "string \<Rightarrow> string list \<Rightarrow> Plan \<Rightarrow> json" where
  "tunnel_parts trigger changedFields p = json_map [(''kind'', JString (pl_Kind p)),
     (''target'', target_json (pl_Target p)), (''trigger'', JString trigger),
     (''changed_fields'', json_strings changedFields)]"

definition PlanTunnelInvalidation ::
  "time \<Rightarrow> byte list \<Rightarrow> TunnelInvalidationRequest \<Rightarrow> op_error + Plan" where
  "PlanTunnelInvalidation now rand req =
     (let hostID = TrimSpace (tr_HostID req); trigger = TrimSpace (tr_Trigger req);
          changedFields = dedup [] (tr_ChangedFields req)
      in if hostID = [] \<or> trigger = [] \<or> changedFields = [] then Inl ErrInvalidOperation
         else
           let changedFields = sort_strings changedFields;
               p = new_plan now rand OperationTunnelInvalidate (empty_target\<lparr>tg_HostID := hostID\<rparr>)
                     (''stale tunnel runtime on host '' @ hostID) RiskLow False
                     [''disconnect stale tunnel runtime and clear cached host-key evidence'']
                     [check ''prepared_audit_required'' ''passed''
                        ''connection target mutation is gated on durable prepared audit'']
           in Inr (fingerprinted (tunnel_parts trigger changedFields) p))"

definition control_plane_name :: string where
  "control_plane_name = utf8 [230, 142, 167, 229, 136, 182, 233, 157, 162]"

definition PlanAgentAdopt ::
  "time \<Rightarrow> byte list \<Rightarrow> string \<Rightarrow> string \<Rightarrow> string \<Rightarrow> string \<Rightarrow> op_error + Plan" where
  "PlanAgentAdopt now rand requestID name origin pairingCode =
     (let requestID = TrimSpace requestID
      in if requestID = [] then Inl ErrInvalidOperation
         else
           let name = (let n = TrimSpace name in if n = [] then control_plane_name else n);
               origin = (let r = TrimSpace origin in if r = [] then ''unknown'' else r);
               pairingCode = TrimSpace pairingCode;
               p = new_plan now rand KindAgentAdopt
                     (empty_target\<lparr>tg_RequestOrigin := origin, tg_PairingCode := pairingCode\<rparr>)
                     (''adopt request from '' @ origin @ '' (pairing code '' @ pairingCode @
                      '', self-reported name: '' @ name @ '')'') RiskHigh True
                     [''issue independent long-term credential to control plane at '' @ origin @
                      '' (self-reported name: '' @ name @ '')'']
                     [check ''adoption_request_pending'' ''passed'' ''adoption request awaiting approval'']
           in Inr (p\<lparr>pl_Fingerprint := requestID\<rparr>))"

definition disconnect_summary :: "string \<Rightarrow> int \<Rightarrow> string" where
  "disconnect_summary template conns =
     utf8 [230, 150, 173, 229, 188, 128, 229, 188, 128, 229, 143, 145, 229, 186, 147, 32] @ template @
     utf8 [32, 228, 184, 138, 231, 154, 132, 32] @ int_text conns @
     utf8 [32, 228, 184, 170, 230, 180, 187, 232, 183, 131, 232, 191, 158, 230, 142, 165, 228, 187, 165,
           229, 133, 139, 233, 154, 134, 228, 184, 180, 230, 151, 182, 229, 186, 147]"

definition test_database_parts :: "string \<Rightarrow> string \<Rightarrow> int \<Rightarrow> string \<Rightarrow> string \<Rightarrow> json" where
  "test_database_parts kind projectID conns template detail = json_map [(''kind'', JString kind),
     (''project'', JString projectID), (''template'', JString template), (''count'', JInt conns),
     (''detail'', JString detail)]"

definition PlanTestDatabaseTerminate ::
  "time \<Rightarrow> byte list \<Rightarrow> string \<Rightarrow> string \<Rightarrow> int \<Rightarrow> string \<Rightarrow> Plan" where
  "PlanTestDatabaseTerminate now rand projectID template conns detail =
     (let summary = disconnect_summary template conns;
          p = new_plan now rand OperationTestDatabaseTerminate (empty_target\<lparr>tg_ProjectID := projectID\<rparr>)
                summary RiskMedium True [summary]
                (if detail \<noteq> [] then [check ''active_connections'' ''warning'' detail] else [])
      in fingerprinted (\<lambda>p. test_database_parts (pl_Kind p) projectID conns template detail) p)"

end
