(* ===== verification/PolicyClaims.thy ===== *)
theory PolicyClaims
  imports Policy
begin

text \<open>
  What the operation policies promise: the decision table of every planner, and that a plan's fingerprint
  binds the approval to the operation, its target and its effects.
\<close>

section \<open>Decision tables\<close>

lemma find_env_missing: "n \<noteq> [] \<Longrightarrow> env_Name (fst (findEnvironment es n)) = [] \<longleftrightarrow> n \<notin> env_Name ` set es"
  by (induction es) auto

lemma find_env_dev: "snd (findEnvironment es n) = envIsDev es n"
  by (induction es) auto

lemma envIsDev_known: "envIsDev es n \<Longrightarrow> n \<in> env_Name ` set es"
  by (induction es) (auto split: if_splits)

lemma plan_step_simps [simp]:
  "pl_Denied (deny w p)" "pl_RiskLevel (deny w p) = RiskCritical"
  "pl_RequiresApproval (deny w p) = pl_RequiresApproval p"
  "pl_Denied (demand w p) = pl_Denied p" "pl_RiskLevel (demand w p) = RiskHigh"
  "pl_RequiresApproval (demand w p)" "pl_Kind (deny w p) = pl_Kind p" "pl_Kind (demand w p) = pl_Kind p"
  "pl_Target (deny w p) = pl_Target p" "pl_Target (demand w p) = pl_Target p"
  "pl_ExpectedEffects (deny w p) = pl_ExpectedEffects p"
  "pl_ExpectedEffects (demand w p) = pl_ExpectedEffects p"
  by (simp_all add: deny_def demand_def)

lemma new_plan_simps [simp]:
  "\<not> pl_Denied (new_plan now rand k t s r a e c)" "pl_RiskLevel (new_plan now rand k t s r a e c) = r"
  "pl_RequiresApproval (new_plan now rand k t s r a e c) = a" "pl_Kind (new_plan now rand k t s r a e c) = k"
  "pl_Target (new_plan now rand k t s r a e c) = t" "pl_ExpectedEffects (new_plan now rand k t s r a e c) = e"
  by (simp_all add: new_plan_def)

lemma runtime_checks_fields [simp]:
  "pl_Kind (runtime_checks pj d p) = pl_Kind p" "pl_Target (runtime_checks pj d p) = pl_Target p"
  "pl_ExpectedEffects (runtime_checks pj d p) = pl_ExpectedEffects p"
  by (simp_all add: runtime_checks_def Let_def case_prod_beta)

lemma runtime_checks_denied [simp]:
  "pl_Denied (runtime_checks pj d p) \<longleftrightarrow> pl_Denied p \<or> IsReadOnly d"
  by (simp add: runtime_checks_def Let_def case_prod_beta)

lemma runtime_checks_table:
  assumes "\<not> pl_Denied p" "effectiveDeployLocation d \<in> {LocationLocal, LocationRemote}"
  shows "(IsReadOnly d \<longrightarrow> pl_RiskLevel (runtime_checks pj d p) = RiskCritical) \<and>
    (\<not> IsReadOnly d \<longrightarrow>
      (let easy = (effectiveDeployLocation d = LocationLocal \<and> envIsDev (pj_Environments pj) (dp_EnvName d))
       in pl_RequiresApproval (runtime_checks pj d p) = (\<not> easy) \<and>
          pl_RiskLevel (runtime_checks pj d p) = (if easy then RiskLow else RiskHigh)))"
  using assms by (auto simp: runtime_checks_def Let_def case_prod_beta find_env_dev)

lemma fingerprinted_simps [simp]:
  "pl_Fingerprint (fingerprinted f p) = stableFingerprint (f p)"
  "pl_Denied (fingerprinted f p) = pl_Denied p" "pl_RiskLevel (fingerprinted f p) = pl_RiskLevel p"
  "pl_RequiresApproval (fingerprinted f p) = pl_RequiresApproval p"
  "pl_Kind (fingerprinted f p) = pl_Kind p" "pl_Target (fingerprinted f p) = pl_Target p"
  "pl_ExpectedEffects (fingerprinted f p) = pl_ExpectedEffects p"
  by (simp_all add: fingerprinted_def)

lemma selected_target_fields [simp]:
  "pl_Kind (selected_target n d p) = pl_Kind p" "pl_Target (selected_target n d p) = pl_Target p"
  "pl_RequiresApproval (selected_target n d p) = pl_RequiresApproval p"
  "pl_Denied (selected_target n d p) \<longleftrightarrow> pl_Denied p \<or> dp_EnvName d \<noteq> n \<or> IsReadOnly d"
  "pl_RiskLevel (selected_target n d p) =
     (if dp_EnvName d \<noteq> n \<or> IsReadOnly d then RiskCritical else pl_RiskLevel p)"
  by (simp_all add: selected_target_def Let_def)

lemma selected_targets_fields [simp]:
  "pl_Kind (selected_targets n ds p) = pl_Kind p" "pl_Target (selected_targets n ds p) = pl_Target p"
  "pl_RequiresApproval (selected_targets n ds p) = pl_RequiresApproval p"
  "pl_Denied (selected_targets n ds p) \<longleftrightarrow> pl_Denied p \<or> (\<exists>d \<in> set ds. dp_EnvName d \<noteq> n \<or> IsReadOnly d)"
  "pl_RiskLevel (selected_targets n ds p) =
     (if \<exists>d \<in> set ds. dp_EnvName d \<noteq> n \<or> IsReadOnly d then RiskCritical else pl_RiskLevel p)"
  by (induction n ds p rule: selected_targets.induct) auto

section \<open>Fingerprints\<close>

fun json_field :: "json \<Rightarrow> string \<Rightarrow> json option" where
  "json_field (JObj fs) k = map_of fs k"
| "json_field _ k = None"

lemma json_field_map: "distinct (map fst kvs) \<Longrightarrow> json_field (json_map kvs) k = map_of kvs k"
proof -
  assume d: "distinct (map fst kvs)"
  have "mset (map fst (sort_key fst kvs)) = mset (map fst kvs)" by simp
  with d have "distinct (map fst (sort_key fst kvs))" by (metis mset_eq_imp_distinct_iff)
  then have "map_of (sort_key fst kvs) = map_of kvs"
    using d by (simp add: map_of_inject_set)
  then show ?thesis by (simp add: json_map_def)
qed

lemma json_omitempty_inj:
  assumes "json_omitempty fs = json_omitempty gs" "map fst fs = map fst gs" "distinct (map fst fs)"
  shows "fs = gs"
proof -
  let ?enc = "\<lambda>hs :: (string \<times> string) list. map (\<lambda>(k, v). (k, JString v)) (filter (\<lambda>(k, v). v \<noteq> []) hs)"
  have "?enc fs = ?enc gs" using assms(1) by (simp add: json_omitempty_def)
  with assms(2,3) show ?thesis
  proof (induction fs arbitrary: gs)
    case (Cons f fs)
    then obtain k v w hs where f: "f = (k, v)" and g: "gs = (k, w) # hs" by (cases f; cases gs) auto
    with Cons.prems have rest: "map fst fs = map fst hs" "distinct (map fst fs)" "k \<notin> fst ` set fs" "k \<notin> fst ` set hs"
      by (auto simp flip: set_map)
    have out: "(k, j) \<notin> set (?enc fs)" "(k, j) \<notin> set (?enc hs)" for j using rest(3,4) by force+
    have "v = w \<and> ?enc fs = ?enc hs"
    proof (cases "v = [] \<or> w = []")
      case True
      with Cons.prems(3) f g show ?thesis
        by (cases "v = []"; cases "w = []") (use out in \<open>fastforce simp del: set_map set_filter\<close>)+
    next
      case False
      with Cons.prems(3) f g show ?thesis by simp
    qed
    with Cons.IH [OF rest(1,2)] f g show ?case by simp
  qed simp
qed

lemma target_json_inj: "target_json s = target_json t \<Longrightarrow> s = t"
proof -
  assume "target_json s = target_json t"
  then have "target_fields s = target_fields t"
    unfolding target_json_def by (rule json_omitempty_inj) (simp_all add: target_fields_def)
  then show "s = t" by (simp add: target_fields_def)
qed

lemma json_strings_inj: "json_strings xs = json_strings ys \<Longrightarrow> xs = ys"
  by (simp add: json_strings_def inj_map_eq_map inj_def)

lemmas parts_defs = runtime_parts_def selected_parts_def browser_parts_def code_parts_def
  evaluate_parts_def template_parts_def pipeline_parts_def tunnel_parts_def test_database_parts_def

text \<open>The requests an agent can make, and the value whose hash is the fingerprint of the answer.\<close>

datatype plan_request =
    RuntimeRq string Project Service Deployment
  | OnHostRq string Project Service Deployment string
  | SelectedRq Project string "RuntimeDeploymentTarget list"
  | BrowserRq Project Service Deployment string
  | CodeRq Project Service Deployment string
  | EvaluateRq CodeDebugEvaluateRequest
  | TemplateRq TemplateImportRequest
  | PipelineRq Project string string bool string
  | TunnelRq TunnelInvalidationRequest
  | DatabaseRq string string int string

fun make_plan :: "time \<Rightarrow> byte list \<Rightarrow> plan_request \<Rightarrow> op_error + Plan" where
  "make_plan now rand (RuntimeRq k pj sv d) = PlanRuntime now rand k pj sv d"
| "make_plan now rand (OnHostRq k pj sv d h) = PlanRuntimeOnHost now rand k pj sv d h"
| "make_plan now rand (SelectedRq pj n ts) = PlanRuntimeStartSelected now rand pj n ts"
| "make_plan now rand (BrowserRq pj sv d u) = PlanBrowserDebugOpen now rand pj sv d u"
| "make_plan now rand (CodeRq pj sv d l) = PlanCodeDebugOpen now rand pj sv d l"
| "make_plan now rand (EvaluateRq rq) = PlanCodeDebugEvaluate now rand rq"
| "make_plan now rand (TemplateRq rq) = PlanTemplateImport now rand rq"
| "make_plan now rand (PipelineRq pj i n rb av) = PlanPipelineRun now rand pj i n rb av"
| "make_plan now rand (TunnelRq rq) = PlanTunnelInvalidation now rand rq"
| "make_plan now rand (DatabaseRq i t c dt) = Inr (PlanTestDatabaseTerminate now rand i t c dt)"

fun request_parts :: "plan_request \<Rightarrow> Plan \<Rightarrow> json" where
  "request_parts (RuntimeRq k pj sv d) p = runtime_parts p"
| "request_parts (OnHostRq k pj sv d h) p = runtime_parts p"
| "request_parts (SelectedRq pj n ts) p = selected_parts (sort_strings (map (dp_ID \<circ> rd_Deployment) ts)) p"
| "request_parts (BrowserRq pj sv d u) p = browser_parts (TrimSpace u) p"
| "request_parts (CodeRq pj sv d l) p = code_parts l p"
| "request_parts (EvaluateRq rq) p = evaluate_parts (TrimSpace (ce_ExpressionHash rq)) p"
| "request_parts (TemplateRq rq) p = template_parts p"
| "request_parts (PipelineRq pj i n rb av) p = pipeline_parts rb (TrimSpace av) p"
| "request_parts (TunnelRq rq) p =
     tunnel_parts (TrimSpace (tr_Trigger rq)) (sort_strings (dedup [] (tr_ChangedFields rq))) p"
| "request_parts (DatabaseRq i t c dt) p = test_database_parts (pl_Kind p) i c t dt"

lemma parts_ignore_fingerprint [simp]:
  "request_parts r (fingerprinted f p) = request_parts r p"
  by (cases r) (simp_all add: parts_defs)

lemma request_parts_fun:
  "request_parts (RuntimeRq k pj sv d) = runtime_parts" "request_parts (OnHostRq k pj sv d h) = runtime_parts"
  "request_parts (SelectedRq pj n ts) = selected_parts (sort_strings (map (dp_ID \<circ> rd_Deployment) ts))"
  "request_parts (BrowserRq pj sv d u) = browser_parts (TrimSpace u)"
  "request_parts (CodeRq pj sv d l) = code_parts l"
  "request_parts (EvaluateRq rq) = evaluate_parts (TrimSpace (ce_ExpressionHash rq))"
  "request_parts (TemplateRq tq) = template_parts"
  "request_parts (PipelineRq pj i n rb av) = pipeline_parts rb (TrimSpace av)"
  "request_parts (TunnelRq uq) = tunnel_parts (TrimSpace (tr_Trigger uq)) (sort_strings (dedup [] (tr_ChangedFields uq)))"
  "request_parts (DatabaseRq i t c dt) = (\<lambda>p. test_database_parts (pl_Kind p) i c t dt)"
  by (auto intro!: ext)

text \<open>Every plan is fingerprinted last, over its final kind, target, effects and denial.\<close>

lemma planned:
  assumes "make_plan now rand r = Inr p"
  shows "\<exists>q. p = fingerprinted (request_parts r) q"
  using assms
  by (cases r) (auto simp only: make_plan.simps request_parts_fun PlanRuntime_def PlanRuntimeOnHost_def
    PlanRuntimeStartSelected_def PlanBrowserDebugOpen_def PlanCodeDebugOpen_def PlanCodeDebugEvaluate_def
    PlanTemplateImport_def PlanPipelineRun_def PlanTunnelInvalidation_def PlanTestDatabaseTerminate_def
    Let_def case_prod_beta map_map sum.inject sum.distinct split: if_splits sum.splits)

lemma plan_fingerprint:
  "make_plan now rand r = Inr p \<Longrightarrow> pl_Fingerprint p = stableFingerprint (request_parts r p)"
  using planned by fastforce

lemma PlanRuntime_checked:
  assumes "PlanRuntime now rand k pj sv d = Inr p"
  shows "\<exists>q. p = fingerprinted runtime_parts (runtime_checks pj d q) \<and> \<not> pl_Denied q \<and> pl_Kind q = k \<and>
     pl_Target q = deployment_target pj sv d \<and> k \<in> {OperationRuntimeStart, OperationRuntimeStop, OperationRuntimeRestart}"
  using assms by (auto simp only: PlanRuntime_def Let_def new_plan_simps sum.inject sum.distinct insert_iff
      split: if_splits)

lemma selected_plan_fields [simp]:
  "\<not> pl_RequiresApproval (selected_plan now rand pj n ds)"
  "pl_Denied (selected_plan now rand pj n ds) = (\<exists>d \<in> set ds. dp_EnvName d \<noteq> n \<or> IsReadOnly d)"
  "pl_Denied (selected_plan now rand pj n ds) \<Longrightarrow> pl_RiskLevel (selected_plan now rand pj n ds) = RiskCritical"
  by (auto simp: selected_plan_def)

lemma code_debug_allowed:
  "codeDebugDeniedReason pj d lang = [] \<longleftrightarrow>
     (let policy = (case dp_CodeDebug d of Some c \<Rightarrow> EffectivePolicy c | None \<Rightarrow> CodeDebugPolicyAuto)
      in effectiveDeployLocation d = LocationLocal \<and> EffectiveControlMode d = ControlModeManaged \<and>
         codeDebugRuntimeSupported d \<and> KnownLanguage lang \<and> policy \<noteq> CodeDebugPolicyDisabled \<and>
         (policy = CodeDebugPolicyEnabled \<or> envIsDev (pj_Environments pj) (dp_EnvName d)))"
  unfolding codeDebugDeniedReason_def Let_def by auto

section \<open>Properties\<close>

text \<open>
  The decision table of starting, stopping and restarting a deployment: a plan is denied, at critical
  risk, exactly for a read-only deployment; otherwise it needs no approval, at low risk, exactly for a local
  deployment of an environment that is marked as dev, and needs one, at high risk, in every other case.
\<close>

theorem runtime_policy_table:
  assumes "PlanRuntime now rand k pj sv d = Inr p" "effectiveDeployLocation d \<in> {LocationLocal, LocationRemote}"
  shows "pl_Denied p = IsReadOnly d \<and>
    (IsReadOnly d \<longrightarrow> pl_RiskLevel p = RiskCritical) \<and>
    (\<not> IsReadOnly d \<longrightarrow>
      (let easy = (effectiveDeployLocation d = LocationLocal \<and> envIsDev (pj_Environments pj) (dp_EnvName d))
       in pl_RequiresApproval p = (\<not> easy) \<and> pl_RiskLevel p = (if easy then RiskLow else RiskHigh)))"
proof -
  obtain q where q: "p = fingerprinted runtime_parts (runtime_checks pj d q)" "\<not> pl_Denied q"
    using PlanRuntime_checked [OF assms(1)] by blast
  with runtime_checks_table [OF q(2) assms(2), of pj] show ?thesis by simp
qed

definition sample_project :: Project where
  "sample_project = \<lparr>pj_ID = ''p1'', pj_Name = ''shop'', pj_Environments = [\<lparr>env_Name = ''prod'', env_IsDev = False\<rparr>]\<rparr>"

definition sample_service :: Service where
  "sample_service = \<lparr>sv_ID = ''s1'', sv_Name = ''api''\<rparr>"

definition sample_deployment :: Deployment where
  "sample_deployment = \<lparr>dp_ID = ''d1'', dp_EnvName = ''prod'', dp_Location = [], dp_ControlMode = [],
     dp_Runtime = Some ''language'', dp_CodeDebug = None, dp_ReadOnly = False\<rparr>"

lemma sample_deployment_simps [simp]:
  "effectiveDeployLocation sample_deployment = LocationLocal" "\<not> IsReadOnly sample_deployment"
  "dp_EnvName sample_deployment = ''prod''" "\<not> envIsDev (pj_Environments sample_project) ''prod''"
  "dp_ID sample_deployment = ''d1''" "dp_CodeDebug sample_deployment = None"
  "EffectiveControlMode sample_deployment = ControlModeManaged" "codeDebugRuntimeSupported sample_deployment"
  by (simp_all add: effectiveDeployLocation_def sample_deployment_def IsReadOnly_def EffectiveControlMode_def
      sample_project_def codeDebugRuntimeSupported_def codeDebugRuntimeType_def RuntimeTypeLanguage_def)

theorem runtime_policy_table_witness:
  "\<exists>p. PlanRuntime 5 [1] OperationRuntimeStop sample_project sample_service sample_deployment = Inr p \<and>
     pl_RequiresApproval p \<and> pl_RiskLevel p = RiskHigh"
proof -
  obtain p where p: "PlanRuntime 5 [1] OperationRuntimeStop sample_project sample_service sample_deployment = Inr p"
    by (simp add: PlanRuntime_def Let_def)
  from runtime_policy_table [OF p] show ?thesis using p by (simp add: Let_def)
qed

text \<open>
  The decision table of starting the selected services of an environment: the whole batch is denied
  exactly when some target lies in another environment or is read-only; otherwise it needs no approval
  exactly when every target is local and the environment is marked as dev. A denied batch has critical
  risk, except in an undefined environment, where the later check lowers it to high.
\<close>

theorem selected_policy_table:
  assumes "PlanRuntimeStartSelected now rand pj n ts = Inr p"
  shows "pl_Denied p = (\<exists>i \<in> set ts. dp_EnvName (rd_Deployment i) \<noteq> TrimSpace n \<or> IsReadOnly (rd_Deployment i)) \<and>
    (let easy = (envIsDev (pj_Environments pj) (TrimSpace n) \<and>
                 (\<forall>i \<in> set ts. effectiveDeployLocation (rd_Deployment i) \<noteq> LocationRemote));
         defined = (TrimSpace n \<in> env_Name ` set (pj_Environments pj))
     in (\<not> pl_Denied p \<longrightarrow> pl_RequiresApproval p = (\<not> easy) \<and> pl_RiskLevel p = (if easy then RiskLow else RiskHigh)) \<and>
        (pl_Denied p \<longrightarrow> pl_RiskLevel p = (if defined then RiskCritical else RiskHigh)))"
proof -
  let ?e = "findEnvironment (pj_Environments pj) (TrimSpace n)"
  let ?far = "\<exists>i \<in> set ts. effectiveDeployLocation (rd_Deployment i) = LocationRemote"
  let ?ds = "map rd_Deployment ts" and ?q = "selected_plan now rand pj (TrimSpace n) (map rd_Deployment ts)"
  have n: "TrimSpace n \<noteq> []" and
    p: "p = fingerprinted (selected_parts (sort_strings (map dp_ID ?ds)))
          (selected_checks (env_Name (fst ?e) = []) (snd ?e) ?far ?q)"
    using assms by (auto simp only: PlanRuntimeStartSelected_def Let_def case_prod_beta sum.inject sum.distinct
        list_ex_iff set_map bex_simps split: if_splits)
  have q: "pl_Denied ?q = (\<exists>i \<in> set ts. dp_EnvName (rd_Deployment i) \<noteq> TrimSpace n \<or> IsReadOnly (rd_Deployment i))"
    "pl_Denied ?q \<longrightarrow> pl_RiskLevel ?q = RiskCritical" by auto
  have "pl_Denied p = pl_Denied ?q" unfolding p by (simp add: selected_checks_def Let_def)
  then show ?thesis
    using q envIsDev_known [of "pj_Environments pj" "TrimSpace n"]
    unfolding p find_env_missing [OF n] find_env_dev
    by (cases "TrimSpace n \<in> env_Name ` set (pj_Environments pj)") (auto simp: selected_checks_def Let_def)
qed

theorem selected_policy_table_witness:
  "\<exists>p. PlanRuntimeStartSelected 5 [1] sample_project ''prod''
       [\<lparr>rd_Service = sample_service, rd_Deployment = sample_deployment\<rparr>] = Inr p \<and>
     \<not> pl_Denied p \<and> pl_RequiresApproval p"
proof -
  let ?ts = "[\<lparr>rd_Service = sample_service, rd_Deployment = sample_deployment\<rparr>]"
  have t: "TrimSpace ''prod'' = ''prod''" by (simp add: TrimSpace_ascii no_blank_ends_def)
  obtain p where p: "PlanRuntimeStartSelected 5 [1] sample_project ''prod'' ?ts = Inr p"
    by (simp add: PlanRuntimeStartSelected_def Let_def case_prod_beta t)
  from selected_policy_table [OF p] show ?thesis using p by (simp add: Let_def t)
qed

text \<open>
  A code debug session is offered, always behind an approval, exactly for a local, managed deployment
  that runs on the language runtime, in a supported language, whose own policy is enabled, or is not
  disabled while its environment is marked as dev. Every other request is denied at critical risk.
\<close>

theorem code_debug_policy:
  assumes "PlanCodeDebugOpen now rand pj sv d lang = Inr p"
  shows "pl_RequiresApproval p \<and>
    (let policy = (case dp_CodeDebug d of Some c \<Rightarrow> EffectivePolicy c | None \<Rightarrow> CodeDebugPolicyAuto)
     in (\<not> pl_Denied p) =
       (effectiveDeployLocation d = LocationLocal \<and> EffectiveControlMode d = ControlModeManaged \<and>
        codeDebugRuntimeSupported d \<and> KnownLanguage lang \<and> policy \<noteq> CodeDebugPolicyDisabled \<and>
        (policy = CodeDebugPolicyEnabled \<or> envIsDev (pj_Environments pj) (dp_EnvName d)))) \<and>
    (pl_Denied p \<longrightarrow> pl_RiskLevel p = RiskCritical)"
proof -
  have "pl_RequiresApproval p \<and> pl_Denied p = (codeDebugDeniedReason pj d lang \<noteq> []) \<and>
      (pl_Denied p \<longrightarrow> pl_RiskLevel p = RiskCritical)"
    using assms by (auto simp only: PlanCodeDebugOpen_def Let_def sum.inject sum.distinct new_plan_simps
        fingerprinted_simps plan_step_simps split: if_splits)
  then show ?thesis using code_debug_allowed [of pj d lang] by (metis (full_types))
qed

theorem code_debug_policy_witness:
  "\<exists>p. PlanCodeDebugOpen 5 [1] sample_project sample_service sample_deployment ''go'' = Inr p \<and> pl_Denied p"
proof -
  obtain p where p: "PlanCodeDebugOpen 5 [1] sample_project sample_service sample_deployment ''go'' = Inr p"
    by (simp add: PlanCodeDebugOpen_def Let_def)
  from code_debug_policy [OF p] show ?thesis using p by (simp add: Let_def)
qed

section \<open>An approval is bound to one operation\<close>

fun is_database :: "plan_request \<Rightarrow> bool" where
  "is_database (DatabaseRq i t c dt) = True"
| "is_database _ = False"

fun is_tunnel :: "plan_request \<Rightarrow> bool" where
  "is_tunnel (TunnelRq rq) = True"
| "is_tunnel _ = False"

lemma parts_fields:
  "json_field (request_parts r p) ''kind'' = Some (JString (pl_Kind p))"
  "json_field (request_parts r p) ''project'' = None \<longleftrightarrow> \<not> is_database r"
  "json_field (request_parts r p) ''trigger'' = None \<longleftrightarrow> \<not> is_tunnel r"
  "\<not> is_database r \<Longrightarrow> json_field (request_parts r p) ''target'' = Some (target_json (pl_Target p))"
  "\<not> is_database r \<Longrightarrow> \<not> is_tunnel r \<Longrightarrow>
     json_field (request_parts r p) ''expected_effects'' = Some (json_strings (pl_ExpectedEffects p))"
  by (cases r; simp add: parts_defs json_field_map)+

lemma tunnel_effects:
  "make_plan now rand r = Inr p \<Longrightarrow> is_tunnel r \<Longrightarrow> pl_ExpectedEffects p =
     [''disconnect stale tunnel runtime and clear cached host-key evidence'']"
  by (cases r) (auto simp: PlanTunnelInvalidation_def Let_def simp del: append.simps split: if_splits)

lemma database_binds:
  assumes "make_plan now rand r = Inr p" "make_plan now' rand' r' = Inr q" "is_database r" "is_database r'"
    "request_parts r p = request_parts r' q"
  shows "pl_Target p = pl_Target q \<and> pl_ExpectedEffects p = pl_ExpectedEffects q"
proof -
  obtain i t c dt i' t' c' dt' where rq: "r = DatabaseRq i t c dt" "r' = DatabaseRq i' t' c' dt'"
    using assms(3,4) by (cases r; cases r') auto
  have "json_field (request_parts r p) k = json_field (request_parts r' q) k" for k
    using assms(5) by simp
  from this [of "''project''"] this [of "''template''"] this [of "''count''"]
  have "i = i' \<and> t = t' \<and> c = c'" by (simp add: rq parts_defs json_field_map)
  with assms(1,2) rq show ?thesis by (auto simp: PlanTestDatabaseTerminate_def Let_def)
qed

lemma same_parts_same_operation:
  assumes "make_plan now rand r = Inr p" "make_plan now' rand' r' = Inr q"
    and same: "request_parts r p = request_parts r' q"
  shows "pl_Kind p = pl_Kind q \<and> pl_Target p = pl_Target q \<and> pl_ExpectedEffects p = pl_ExpectedEffects q"
proof -
  have kind: "pl_Kind p = pl_Kind q" and db: "is_database r = is_database r'" and tn: "is_tunnel r = is_tunnel r'"
    using parts_fields(1-3) [of r p] parts_fields(1-3) [of r' q] same by auto
  show ?thesis
  proof (cases "is_database r")
    case True
    with database_binds [OF assms(1,2) _ _ same] db kind show ?thesis by simp
  next
    case False
    then have target: "pl_Target p = pl_Target q"
      using parts_fields(4) [of r p] parts_fields(4) [of r' q] same db by (auto dest: target_json_inj)
    have "pl_ExpectedEffects p = pl_ExpectedEffects q"
    proof (cases "is_tunnel r")
      case True
      with tn tunnel_effects [OF assms(1)] tunnel_effects [OF assms(2)] show ?thesis by simp
    next
      case no: False
      with False parts_fields(5) [of r p] parts_fields(5) [of r' q] same db tn show ?thesis
        by (auto dest: json_strings_inj)
    qed
    with kind target show ?thesis by simp
  qed
qed


lemma utf8_ascii: "list_all (\<lambda>c. (of_char c :: nat) < 128) s \<Longrightarrow> valid_utf8 s"
  unfolding valid_utf8_def
proof (induction s rule: runes.induct)
  case (2 c s)
  from "2.prems" have c: "rune_need (of_char c) = 1" and s: "list_all (\<lambda>c. (of_char c :: nat) < 128) s"
    by (simp_all add: rune_need_def)
  from c have one: "rune_len (c # s) = 1" "valid_rune [c]" by (simp_all add: valid_rune_def)
  with s "2.IH" [OF refl] show ?case by (simp add: runes.simps(2) Let_def del: rune_len.simps)
qed simp

lemma json_utf8_map:
  "list_all (\<lambda>(k, j). valid_utf8 k \<and> json_utf8 j) kvs \<Longrightarrow> json_utf8 (json_map kvs)"
  by (simp add: json_map_def list_all_iff)

lemma json_utf8_omitempty:
  "list_all (\<lambda>(k, v). valid_utf8 k \<and> valid_utf8 v) fs \<Longrightarrow> json_utf8 (json_omitempty fs)"
  by (auto simp: json_omitempty_def list_all_iff)

definition sample_request :: plan_request where
  "sample_request = PipelineRq sample_project ''pl'' ''prod'' False []"

lemma sample_trim: "TrimSpace ''pl'' = ''pl''" "TrimSpace ''prod'' = ''prod''"
  by (simp_all add: TrimSpace_ascii no_blank_ends_def)

lemma sample_request_plan:
  assumes "make_plan now rand sample_request = Inr p"
  shows "pl_Kind p = OperationPipelineRun \<and> pl_ExpectedEffects p = [''deploy pipeline pl in prod''] \<and>
    pl_Target p = empty_target\<lparr>tg_ProjectID := ''p1'', tg_ProjectName := ''shop'', tg_EnvName := ''prod'',
       tg_PipelineID := ''pl'', tg_ArtifactVersion := []\<rparr>"
  using assms by (auto simp: sample_request_def PlanPipelineRun_def Let_def sample_trim sample_project_def)

lemma sample_request_parts:
  "make_plan now rand sample_request = Inr p \<Longrightarrow> make_plan now' rand' sample_request = Inr q \<Longrightarrow>
     request_parts sample_request p = request_parts sample_request q"
  using sample_request_plan [of now rand p] sample_request_plan [of now' rand' q]
  by (simp add: sample_request_def pipeline_parts_def)

lemma sample_request_utf8:
  assumes "make_plan now rand sample_request = Inr p"
  shows "json_utf8 (request_parts sample_request p)"
proof -
  note vals = sample_request_plan [OF assms]
  have target: "json_utf8 (target_json (pl_Target p))"
    unfolding target_json_def
    by (rule json_utf8_omitempty) (simp add: target_fields_def vals empty_target_def utf8_ascii)
  show ?thesis
    unfolding sample_request_def request_parts.simps pipeline_parts_def
    by (rule json_utf8_map)
      (simp add: target, simp add: vals utf8_ascii OperationPipelineRun_def json_strings_def)
qed

lemma sample_request_made: "\<exists>p. make_plan now rand sample_request = Inr p \<and> pl_CreatedAt p = now"
  by (simp add: sample_request_def PlanPipelineRun_def Let_def sample_trim fingerprinted_def new_plan_def)


section \<open>Tunnel invalidation\<close>

lemma dedup_set: "set (dedup acc fs) = set acc \<union> (TrimSpace ` set fs - {[]})"
  by (induction acc fs rule: dedup.induct) (auto simp: Let_def)

lemma dedup_distinct: "distinct acc \<Longrightarrow> distinct (dedup acc fs)"
  by (induction acc fs rule: dedup.induct) (auto simp: Let_def)

lemma sorted_dedup:
  "TrimSpace ` set fs - {[]} = TrimSpace ` set gs - {[]} \<Longrightarrow> sort_strings (dedup [] fs) = sort_strings (dedup [] gs)"
  unfolding sort_strings_def
  by (rule sorted_distinct_set_unique) (simp_all add: dedup_set dedup_distinct)

text \<open>
  The compensation of a changed connection target is named by what changed, not by how the change was
  reported: two requests for the same host and trigger with the same set of trimmed field names get the
  same plan up to its random identifier, whatever the order, the blanks and the repetitions.
\<close>

theorem tunnel_plan_canonical:
  assumes "TrimSpace (tr_HostID x) = TrimSpace (tr_HostID y)" "TrimSpace (tr_Trigger x) = TrimSpace (tr_Trigger y)"
    and "TrimSpace ` set (tr_ChangedFields x) - {[]} = TrimSpace ` set (tr_ChangedFields y) - {[]}"
  shows "PlanTunnelInvalidation now rand x = PlanTunnelInvalidation now rand y"
proof -
  have "dedup [] (tr_ChangedFields x) = [] \<longleftrightarrow> dedup [] (tr_ChangedFields y) = []"
    using assms(3) by (simp flip: set_empty add: dedup_set)
  then show ?thesis
    using sorted_dedup [OF assms(3)] assms(1,2) by (simp only: PlanTunnelInvalidation_def Let_def)
qed

theorem tunnel_plan_canonical_witness:
  "PlanTunnelInvalidation 1 [1] \<lparr>tr_HostID = ''h'', tr_Trigger = ''edit'', tr_ChangedFields = [''port'', ''user'', ''port'']\<rparr> =
   PlanTunnelInvalidation 1 [1] \<lparr>tr_HostID = ''h'', tr_Trigger = ''edit'', tr_ChangedFields = [''user'', [], ''port'']\<rparr>"
  by (rule tunnel_plan_canonical) auto

end
