(* ===== verification/OperationSafety.thy ===== *)
theory OperationSafety
  imports ApprovalClaims PolicyClaims
begin

text \<open>
  What the operation package promises as a whole: the planners and the approval store together. A token
  authorises the operation the user approved and no other.
\<close>

lemma nibble_code: "d < 16 \<Longrightarrow> 0x20 < (of_char (nibble d) :: nat) \<and> (of_char (nibble d) :: nat) < 0x80"
  by (simp add: nibble_def)

lemma hex_printable: "c \<in> set (hex bs) \<Longrightarrow> 0x20 < (of_char c :: nat) \<and> (of_char c :: nat) < 0x80"
proof -
  assume "c \<in> set (hex bs)"
  then obtain b :: byte where "c = nibble (unat b div 16) \<or> c = nibble (unat b mod 16)"
    by (auto simp: hex_def)
  moreover have "unat b div 16 < 16" using unat_byte [of b] by simp
  ultimately show ?thesis using nibble_code by force
qed

lemma fingerprint_trimmed: "TrimSpace (stableFingerprint j) = stableFingerprint j"
proof (rule TrimSpace_ascii)
  let ?h = "hex (Sum256 (bytes_of (encode j)))"
  have "last (''sha256:'' @ ?h) = (if ?h = [] then CHR '':'' else last ?h)" by simp
  then show "no_blank_ends (stableFingerprint j)"
    using hex_printable [of "last ?h" "Sum256 (bytes_of (encode j))"]
    by (simp add: stableFingerprint_def sha256_text_def no_blank_ends_def)
qed

section \<open>Properties\<close>

text \<open>
  C3: A token executes only what was approved: when redeeming a token for plan \<open>q\<close> succeeds, the approval it
  belongs to was approved, and if that approval was requested for plan \<open>p\<close> then both plans are the same
  kind of operation on the same target with the same announced effects (for UTF-8 text, and unless
  SHA-256 collides on the two encodings).
\<close>

theorem token_executes_what_was_approved:
  assumes "make_plan t1 r1 x = Inr p" "make_plan t2 r2 y = Inr q"
    and "ConsumeToken ok now token (pl_Fingerprint q) s = (Inr b, s')" "pl_Fingerprint (ap_Plan b) = pl_Fingerprint p"
    and "json_utf8 (request_parts x p)" "json_utf8 (request_parts y q)"
    and "\<not> sha_collision (encode (request_parts x p)) (encode (request_parts y q))"
  shows "(\<exists>a \<in> set (records s). ap_ID a = ap_ID b \<and> ap_Status a = ApprovalApproved) \<and>
    pl_Kind p = pl_Kind q \<and> pl_Target p = pl_Target q \<and> pl_ExpectedEffects p = pl_ExpectedEffects q"
proof -
  have fq: "TrimSpace (pl_Fingerprint q) = pl_Fingerprint q"
    using plan_fingerprint [OF assms(2)] by (simp add: fingerprint_trimmed)
  from assms(3) obtain i where i: "i < length (records s)" "ap_Status (records s ! i) = ApprovalApproved"
    "pl_Fingerprint (ap_Plan (records s ! i)) = TrimSpace (pl_Fingerprint q)"
    "b = (records s ! i)\<lparr>ap_Status := ApprovalUsed, ap_UpdatedAt := now\<rparr>" by (rule ConsumeToken_success)
  then have "pl_Fingerprint p = pl_Fingerprint q" using assms(4) fq by simp
  with plan_fingerprint [OF assms(1)] plan_fingerprint [OF assms(2)]
  have "stableFingerprint (request_parts x p) = stableFingerprint (request_parts y q)" by simp
  then have "request_parts x p = request_parts y q" by (rule stableFingerprint_binds [OF assms(5-7)])
  then have "pl_Kind p = pl_Kind q \<and> pl_Target p = pl_Target q \<and> pl_ExpectedEffects p = pl_ExpectedEffects q"
    by (rule same_parts_same_operation [OF assms(1,2)])
  moreover have "records s ! i \<in> set (records s)" "ap_ID (records s ! i) = ap_ID b" using i by simp_all
  ultimately show ?thesis using i(2) by blast
qed

theorem token_executes_what_was_approved_witness:
  "\<exists>p q b s'. make_plan 1 [1] sample_request = Inr p \<and> make_plan 2 [2] sample_request = Inr q \<and>
     ConsumeToken True 5 ''tok'' (pl_Fingerprint q) (sample_store [sample_granted\<lparr>ap_Plan := p\<rparr>]) = (Inr b, s') \<and>
     pl_Target p = pl_Target q"
proof -
  obtain p where p: "make_plan 1 [1] sample_request = Inr p" using sample_request_made by blast
  obtain q where q: "make_plan 2 [2] sample_request = Inr q" using sample_request_made by blast
  note parts = sample_request_parts [OF p q]
  have fp: "pl_Fingerprint q = pl_Fingerprint p" "pl_Fingerprint p \<noteq> []" "TrimSpace (pl_Fingerprint p) = pl_Fingerprint p"
    using plan_fingerprint [OF p] plan_fingerprint [OF q] parts by (simp_all add: fingerprint_trimmed)
  let ?s = "sample_store [sample_granted\<lparr>ap_Plan := p\<rparr>]"
  obtain b s' where c: "ConsumeToken True 5 ''tok'' (pl_Fingerprint q) ?s = (Inr b, s')" "ap_Plan b = p"
    by (simp add: ConsumeToken_def findApprovalByTokenHash_def tokenExpired_def update_at_def commit_def fp Let_def)
  have "\<not> sha_collision (encode (request_parts sample_request p)) (encode (request_parts sample_request q))"
    unfolding parts by (simp add: sha_collision_def)
  from token_executes_what_was_approved
    [OF p q c(1) _ sample_request_utf8 [OF p] sample_request_utf8 [OF q] this] c
  have "pl_Target p = pl_Target q" by simp
  with p q c show ?thesis by blast
qed

end
