(* ===== verification/PipelineModel.thy ===== *)
theory PipelineModel
  imports GoJson
begin

text \<open>
  The data of \<^verbatim>\<open>agent/model/pipeline.go\<close> and the errors of \<^verbatim>\<open>agent/pipeline\<close>: pipelines of
  three phases, their steps, and the run that records what happened to each step on each host.
\<close>

definition PhaseBuild :: string where "PhaseBuild = ''build''"
definition PhaseDeploy :: string where "PhaseDeploy = ''deploy''"
definition PhaseFinally :: string where "PhaseFinally = ''finally''"

definition StatusPending :: string where "StatusPending = ''pending''"
definition RunStatusRunning :: string where "RunStatusRunning = ''running''"
definition StatusSuccess :: string where "StatusSuccess = ''success''"
definition RunStatusFailed :: string where "RunStatusFailed = ''failed''"
definition StatusSkipped :: string where "StatusSkipped = ''skipped''"

lemmas phase_defs = PhaseBuild_def PhaseDeploy_def PhaseFinally_def
lemmas run_status_defs = StatusPending_def RunStatusRunning_def StatusSuccess_def RunStatusFailed_def
  StatusSkipped_def

lemma phase_distinct [simp]:
  "PhaseBuild \<noteq> PhaseDeploy" "PhaseDeploy \<noteq> PhaseBuild" "PhaseBuild \<noteq> PhaseFinally"
  "PhaseFinally \<noteq> PhaseBuild" "PhaseDeploy \<noteq> PhaseFinally" "PhaseFinally \<noteq> PhaseDeploy"
  by (simp_all add: phase_defs)

lemma run_status_distinct [simp]:
  "StatusSuccess \<noteq> RunStatusFailed" "RunStatusFailed \<noteq> StatusSuccess" "StatusSuccess \<noteq> StatusSkipped"
  "StatusSkipped \<noteq> StatusSuccess" "RunStatusFailed \<noteq> StatusSkipped" "StatusSkipped \<noteq> RunStatusFailed"
  "RunStatusRunning \<noteq> StatusSuccess" "StatusSuccess \<noteq> RunStatusRunning" "RunStatusRunning \<noteq> RunStatusFailed"
  "RunStatusFailed \<noteq> RunStatusRunning" "StatusPending \<noteq> StatusSuccess" "StatusSuccess \<noteq> StatusPending"
  "StatusPending \<noteq> RunStatusFailed" "StatusPending \<noteq> StatusSkipped" "StatusPending \<noteq> RunStatusRunning"
  "RunStatusRunning \<noteq> StatusPending" "RunStatusFailed \<noteq> StatusPending" "StatusSkipped \<noteq> StatusPending"
  "RunStatusRunning \<noteq> StatusSkipped" "StatusSkipped \<noteq> RunStatusRunning" "StatusSuccess \<noteq> []"
  by (simp_all add: run_status_defs)

record Step =
  st_Name :: string
  st_Type :: string
  st_Needs :: "string list"
  st_Roles :: "string list"
  st_RunIf :: string
  st_Concurrency :: string
  st_Retries :: int
  st_RetryDelay :: string
  st_With :: "(string \<times> json) list"

record Pipeline =
  pp_Variables :: "string \<rightharpoonup> string"
  pp_Roles :: "string \<rightharpoonup> string list"
  pp_Build :: "Step list"
  pp_Deploy :: "Step list"
  pp_Finally :: "Step list"

record Task =
  tk_HostID :: string
  tk_HostName :: string
  tk_HostAddress :: string
  tk_Status :: string
  tk_ExitCode :: int
  tk_StartedAt :: int
  tk_FinishedAt :: int

record StepRun =
  sr_StepName :: string
  sr_Type :: string
  sr_Phase :: string
  sr_Needs :: "string list"
  sr_Status :: string
  sr_Tasks :: "Task list"

record Run =
  rn_DeploymentID :: string
  rn_Status :: string
  rn_StepRuns :: "StepRun list"
  rn_StartedAt :: int
  rn_FinishedAt :: int

record HostRef =
  hr_ID :: string
  hr_Name :: string
  hr_Address :: string

datatype pipe_error =
    StepNameRequired
  | DuplicateStep string
  | UnknownDependency string string
  | CycleDetected
  | InvalidRunIf string
  | InvalidConcurrency string
  | RoleNotFound string
  | HostNotFound string string
  | PhaseError string pipe_error
  | PluginNotRegistered string
  | MissingRunSkeleton string string
  | PluginInvalid string
  | ExecError "int option"
  | StepFailed string pipe_error
  | ContextDone
  | HookError string
  | SetupError string

end
