(* ===== verification/PipelineDag.thy ===== *)
theory PipelineDag
  imports PipelineModel
begin

text \<open>
  \<^verbatim>\<open>agent/pipeline/dag.go\<close>: the order of the steps of a phase. The worklist loop runs on fuel,
  one unit for each step and one to see the empty queue; the lemmas show that it is never used up, that an
  order returned respects every dependency and that failing to order means there is a cycle.
\<close>

section \<open>The code\<close>

fun check_names :: "string list \<Rightarrow> Step list \<Rightarrow> pipe_error option" where
  "check_names seen [] = None"
| "check_names seen (s # ss) =
     (if st_Name s = [] then Some StepNameRequired
      else if st_Name s \<in> set seen then Some (DuplicateStep (st_Name s))
      else check_names (st_Name s # seen) ss)"

definition check_step_needs :: "string list \<Rightarrow> Step \<Rightarrow> pipe_error option" where
  "check_step_needs names s =
     map_option (UnknownDependency (st_Name s)) (find (\<lambda>d. d \<notin> set names) (st_Needs s))"

fun check_needs :: "string list \<Rightarrow> Step list \<Rightarrow> pipe_error option" where
  "check_needs names [] = None"
| "check_needs names (s # ss) =
     (case check_step_needs names s of Some e \<Rightarrow> Some e | None \<Rightarrow> check_needs names ss)"

definition adj_list :: "Step list \<Rightarrow> string \<Rightarrow> string list" where
  "adj_list steps d = concat (map (\<lambda>s. map (\<lambda>_. st_Name s) (filter (\<lambda>x. x = d) (st_Needs s))) steps)"

definition step_named :: "Step list \<Rightarrow> string \<Rightarrow> Step option" where
  "step_named steps n = find (\<lambda>s. st_Name s = n) steps"

definition in_degree :: "Step list \<Rightarrow> string \<Rightarrow> int" where
  "in_degree steps n = (case step_named steps n of None \<Rightarrow> 0 | Some s \<Rightarrow> int (length (st_Needs s)))"

text \<open>\<^verbatim>\<open>for _, next := range adj[name] { inDegree[next]--; if inDegree[next] == 0 { queue = append(queue, next) } }\<close>\<close>

fun relax :: "string list \<Rightarrow> (string \<Rightarrow> int) \<Rightarrow> string list \<Rightarrow> (string \<Rightarrow> int) \<times> string list" where
  "relax [] deg q = (deg, q)"
| "relax (m # ms) deg q =
     (let deg = deg(m := deg m - 1) in relax ms deg (if deg m = 0 then q @ [m] else q))"

fun kahn :: "Step list \<Rightarrow> nat \<Rightarrow> string list \<Rightarrow> (string \<Rightarrow> int) \<Rightarrow> string list \<Rightarrow> string list option" where
  "kahn steps 0 q deg out = None"
| "kahn steps (Suc n) [] deg out = Some out"
| "kahn steps (Suc n) (x # q) deg out =
     (let (deg, q) = relax (adj_list steps x) deg q in kahn steps n q deg (out @ [x]))"

definition ValidateDAG :: "Step list \<Rightarrow> pipe_error + Step list" where
  "ValidateDAG steps =
     (case check_names [] steps of
        Some e \<Rightarrow> Inl e
      | None \<Rightarrow>
          (case check_needs (map st_Name steps) steps of
             Some e \<Rightarrow> Inl e
           | None \<Rightarrow>
               let queue = map st_Name (filter (\<lambda>s. in_degree steps (st_Name s) = 0) steps);
                   out = List.map_filter (step_named steps)
                     (case kahn steps (Suc (length steps)) queue (in_degree steps) [] of Some ns \<Rightarrow> ns | None \<Rightarrow> [])
               in if length out \<noteq> length steps then Inl CycleDetected else Inr out))"

section \<open>The guards\<close>

lemma check_names_ok:
  "check_names seen ss = None \<longleftrightarrow>
     [] \<notin> st_Name ` set ss \<and> distinct (map st_Name ss) \<and> set seen \<inter> st_Name ` set ss = {}"
  by (induction seen ss rule: check_names.induct) auto

lemma check_needs_ok:
  "check_needs names ss = None \<longleftrightarrow> (\<forall>s \<in> set ss. set (st_Needs s) \<subseteq> set names)"
proof (induction names ss rule: check_needs.induct)
  case (2 names s ss)
  have "check_step_needs names s = None \<longleftrightarrow> set (st_Needs s) \<subseteq> set names"
    by (auto simp: check_step_needs_def find_None_iff)
  with 2 show ?case by (auto split: option.splits)
qed simp

section \<open>Relaxation\<close>

lemma relax_deg: "fst (relax ms deg q) = (\<lambda>n. deg n - int (count_list ms n))"
proof (induction ms arbitrary: deg q)
  case (Cons m ms)
  then show ?case by (auto simp: Let_def fun_eq_iff)
qed (simp add: fun_eq_iff)

lemma relax_queue:
  assumes "\<And>n. n \<in> set ms \<Longrightarrow> int (count_list ms n) \<le> deg n"
  shows "\<exists>new. snd (relax ms deg q) = q @ new \<and> distinct new \<and>
     set new = {n \<in> set ms. deg n = int (count_list ms n)}"
  using assms
proof (induction ms arbitrary: deg q)
  case (Cons m ms)
  let ?deg = "deg(m := deg m - 1)" and ?q = "if deg m = 1 then q @ [m] else q"
  have le: "int (count_list ms n) \<le> ?deg n" if "n \<in> set ms" for n
    using Cons.prems [of n] that by (auto split: if_splits)
  obtain new where new: "snd (relax ms ?deg ?q) = ?q @ new" "distinct new"
    "set new = {n \<in> set ms. ?deg n = int (count_list ms n)}"
    using Cons.IH [of ?deg ?q] le by blast
  show ?case
  proof (cases "deg m = 1")
    case True
    have "m \<notin> set ms"
    proof
      assume "m \<in> set ms"
      then have "0 < count_list ms m" by (simp add: count_list_0_iff neq0_conv [symmetric])
      with Cons.prems [of m] True show False by simp
    qed
    with new True show ?thesis
      by (intro exI [of _ "m # new"]) (auto simp: Let_def count_list_0_iff)
  next
    case False
    have "(deg m = int (count_list (m # ms) m)) \<longleftrightarrow> m \<in> set new"
    proof (cases "m \<in> set ms")
      case True
      with new(3) show ?thesis by auto
    next
      case no: False
      then have "count_list ms m = 0" by (simp add: count_list_0_iff)
      with no False new(3) show ?thesis by auto
    qed
    with new False show ?thesis
      by (intro exI [of _ new]) (auto simp: Let_def)
  qed
qed simp

section \<open>The loop invariant\<close>

definition needs_of :: "Step list \<Rightarrow> string \<Rightarrow> string list" where
  "needs_of steps n = (case step_named steps n of None \<Rightarrow> [] | Some s \<Rightarrow> st_Needs s)"

definition valid_steps :: "Step list \<Rightarrow> bool" where
  "valid_steps steps \<longleftrightarrow> [] \<notin> st_Name ` set steps \<and> distinct (map st_Name steps) \<and>
     (\<forall>s \<in> set steps. set (st_Needs s) \<subseteq> st_Name ` set steps)"

definition open_needs :: "Step list \<Rightarrow> string list \<Rightarrow> string \<Rightarrow> nat" where
  "open_needs steps out n = length (filter (\<lambda>d. d \<notin> set out) (needs_of steps n))"

definition kahn_inv :: "Step list \<Rightarrow> string list \<Rightarrow> (string \<Rightarrow> int) \<Rightarrow> string list \<Rightarrow> bool" where
  "kahn_inv steps q deg out \<longleftrightarrow>
     distinct (out @ q) \<and> set (out @ q) \<subseteq> st_Name ` set steps \<and>
     (\<forall>n \<in> st_Name ` set steps. deg n = int (open_needs steps out n)) \<and>
     (\<forall>n \<in> st_Name ` set steps. n \<in> set (out @ q) \<longleftrightarrow> deg n = 0) \<and>
     (\<forall>i < length out. set (needs_of steps (out ! i)) \<subseteq> set (take i out))"

lemma step_named_distinct:
  "distinct (map st_Name steps) \<Longrightarrow> s \<in> set steps \<Longrightarrow> step_named steps (st_Name s) = Some s"
  by (induction steps) (auto simp: step_named_def)

lemma adj_count:
  "distinct (map st_Name steps) \<Longrightarrow> count_list (adj_list steps d) n = count_list (needs_of steps n) d"
proof (induction steps)
  case Nil
  then show ?case by (simp add: adj_list_def needs_of_def step_named_def)
next
  case (Cons s steps)
  have own: "count_list (map (\<lambda>_. m) (filter (\<lambda>x. x = d) ds)) n = (if m = n then count_list ds d else 0)"
    for m and ds :: "string list"
    by (induction ds) auto
  show ?case
  proof (cases "st_Name s = n")
    case True
    with Cons.prems have "n \<notin> st_Name ` set steps" by auto
    then have "count_list (adj_list steps d) n = 0"
      by (auto simp: count_list_0_iff adj_list_def)
    then show ?thesis using True own [of n "st_Needs s"]
      by (simp add: adj_list_def needs_of_def step_named_def)
  next
    case False
    with Cons own [of "st_Name s" "st_Needs s"] show ?thesis
      by (simp add: adj_list_def needs_of_def step_named_def)
  qed
qed

lemma open_needs_snoc:
  "x \<notin> set out \<Longrightarrow> open_needs steps (out @ [x]) n + count_list (needs_of steps n) x = open_needs steps out n"
proof -
  assume x: "x \<notin> set out"
  have "length (filter (\<lambda>d. d \<notin> set (out @ [x])) ds) + count_list ds x = length (filter (\<lambda>d. d \<notin> set out) ds)"
    for ds by (induction ds) (use x in auto)
  then show ?thesis by (simp add: open_needs_def)
qed

lemma kahn_inv_step:
  assumes v: "valid_steps steps" and inv: "kahn_inv steps (x # q) deg out"
    and r: "relax (adj_list steps x) deg q = (deg', q')"
  shows "kahn_inv steps q' deg' (out @ [x])"
proof -
  let ?N = "st_Name ` set steps"
  have d: "distinct (map st_Name steps)" using v by (simp add: valid_steps_def)
  have x: "x \<in> ?N" "x \<notin> set out" "x \<notin> set q" "deg x = 0" using inv by (auto simp: kahn_inv_def)
  have deg: "deg n = int (open_needs steps out n)" if "n \<in> ?N" for n
    using inv that unfolding kahn_inv_def by blast
  note snoc = open_needs_snoc [OF x(2), of steps]
  note cnt = adj_count [OF d, of x]
  have adj: "set (adj_list steps x) \<subseteq> ?N" by (auto simp: adj_list_def)
  have deg': "deg' n = int (open_needs steps (out @ [x]) n)" if "n \<in> ?N" for n
    using deg [OF that] snoc [of n] cnt [of n] relax_deg [of "adj_list steps x" deg q] r by simp
  have "int (count_list (adj_list steps x) n) \<le> deg n" if "n \<in> set (adj_list steps x)" for n
    using deg [of n] adj that snoc [of n] cnt [of n] by auto
  then have "\<exists>new. snd (relax (adj_list steps x) deg q) = q @ new \<and> distinct new \<and>
      set new = {n \<in> set (adj_list steps x). deg n = int (count_list (adj_list steps x) n)}"
    by (rule relax_queue)
  then obtain new where new: "q' = q @ new" "distinct new"
      "set new = {n \<in> set (adj_list steps x). deg n = int (count_list (adj_list steps x) n)}"
    unfolding r snd_conv by (elim exE conjE)
  have new_iff: "n \<in> set new \<longleftrightarrow> deg n \<noteq> 0 \<and> deg' n = 0" if "n \<in> ?N" for n
  proof -
    let ?c = "count_list (adj_list steps x) n"
    have c: "n \<in> set (adj_list steps x) \<longleftrightarrow> ?c \<noteq> 0" by (simp add: count_list_0_iff)
    have sum: "open_needs steps (out @ [x]) n + ?c = open_needs steps out n" using snoc [of n] cnt [of n] by simp
    have "n \<in> set new \<longleftrightarrow> ?c \<noteq> 0 \<and> deg n = int ?c" unfolding new(3) mem_Collect_eq c ..
    also have "\<dots> \<longleftrightarrow> deg n \<noteq> 0 \<and> deg' n = 0"
      unfolding deg [OF that] deg' [OF that] using sum by linarith
    finally show ?thesis .
  qed
  have new_N: "set new \<subseteq> ?N" using new(3) adj by blast
  have zero: "n \<in> set (out @ x # q) \<longleftrightarrow> deg n = 0" if "n \<in> ?N" for n
    using inv that unfolding kahn_inv_def by blast
  have still: "deg' n = 0" if "n \<in> ?N" "deg n = 0" for n
    using deg [OF that(1)] deg' [OF that(1)] snoc [of n] that(2) by simp
  have "m \<notin> set (out @ x # q)" if "m \<in> set new" for m
    using that new_N new_iff [of m] zero [of m] by blast
  then have "set new \<inter> set (out @ x # q) = {}" by blast
  moreover have "distinct (out @ x # q)" using inv unfolding kahn_inv_def by blast
  ultimately have "distinct ((out @ [x]) @ q')" using new(1,2) by auto
  moreover have "set ((out @ [x]) @ q') \<subseteq> ?N"
    using inv new(1) new_N by (auto simp: kahn_inv_def)
  moreover have "n \<in> set ((out @ [x]) @ q') \<longleftrightarrow> deg' n = 0" if "n \<in> ?N" for n
    using new_iff [OF that] zero [OF that] still [OF that] new(1) by auto
  moreover have "set (needs_of steps x) \<subseteq> set out"
    using deg [OF x(1)] x(4) by (auto simp: open_needs_def filter_empty_conv)
  then have "set (needs_of steps ((out @ [x]) ! i)) \<subseteq> set (take i (out @ [x]))" if "i < length (out @ [x])" for i
    using inv that by (cases "i < length out") (auto simp: kahn_inv_def nth_append less_Suc_eq)
  ultimately show ?thesis using deg' unfolding kahn_inv_def by blast
qed

lemma kahn_inv_length:
  "valid_steps steps \<Longrightarrow> kahn_inv steps q deg out \<Longrightarrow> length out + length q \<le> length steps"
proof -
  assume "valid_steps steps" "kahn_inv steps q deg out"
  then have "distinct (out @ q)" "set (out @ q) \<subseteq> set (map st_Name steps)"
    by (auto simp: kahn_inv_def)
  then have "length (out @ q) \<le> card (set (map st_Name steps))"
    by (metis card_mono distinct_card finite_set)
  then show ?thesis using card_length [of "map st_Name steps"] by simp
qed

lemma kahn_finishes:
  assumes "valid_steps steps" "kahn_inv steps q deg out" "length steps < n + length out"
  shows "\<exists>deg' ns. kahn steps n q deg out = Some ns \<and> kahn_inv steps [] deg' ns"
  using assms(2,3)
proof (induction n arbitrary: q deg out)
  case 0
  with kahn_inv_length [OF assms(1)] show ?case by fastforce
next
  case (Suc n)
  show ?case
  proof (cases q)
    case Nil
    with Suc.prems show ?thesis by auto
  next
    case (Cons x q0)
    obtain deg' q' where r: "relax (adj_list steps x) deg q0 = (deg', q')" by fastforce
    have "kahn_inv steps q' deg' (out @ [x])"
      using kahn_inv_step [OF assms(1) _ r] Suc.prems(1) Cons by blast
    from Suc.IH [OF this] Suc.prems(2) Cons r show ?thesis by simp
  qed
qed

section \<open>Correctness\<close>

lemma kahn_inv_start:
  assumes "valid_steps steps"
  shows "kahn_inv steps (map st_Name (filter (\<lambda>s. in_degree steps (st_Name s) = 0) steps)) (in_degree steps) []"
proof -
  have "distinct (map st_Name steps)" using assms by (simp add: valid_steps_def)
  then have "distinct (map st_Name (filter (\<lambda>s. in_degree steps (st_Name s) = 0) steps))"
    by (simp add: distinct_map_filter)
  moreover have "in_degree steps n = int (open_needs steps [] n)" for n
    by (simp add: in_degree_def open_needs_def needs_of_def split: option.split)
  ultimately show ?thesis by (auto simp: kahn_inv_def)
qed

lemma named_all:
  assumes "distinct (map st_Name steps)" "set ns \<subseteq> st_Name ` set steps"
  shows "map st_Name (List.map_filter (step_named steps) ns) = ns \<and>
    set (List.map_filter (step_named steps) ns) \<subseteq> set steps"
  using assms(2)
proof (induction ns)
  case (Cons n ns)
  then obtain s where "s \<in> set steps" "st_Name s = n" by auto
  then have "step_named steps n = Some s" using step_named_distinct [OF assms(1)] by blast
  with Cons \<open>s \<in> set steps\<close> \<open>st_Name s = n\<close> show ?case by (simp add: List.map_filter_simps)
qed (simp add: List.map_filter_simps)

lemma kahn_start:
  assumes "valid_steps steps"
  shows "\<exists>deg ns. kahn steps (Suc (length steps))
      (map st_Name (filter (\<lambda>s. in_degree steps (st_Name s) = 0) steps)) (in_degree steps) [] = Some ns \<and>
    kahn_inv steps [] deg ns"
  using kahn_finishes [OF assms kahn_inv_start [OF assms], of "Suc (length steps)"] by auto

lemma ValidateDAG_cases:
  obtains (bad) e where "\<not> valid_steps steps" "ValidateDAG steps = Inl e"
  | (run) deg ns where "valid_steps steps" "kahn_inv steps [] deg ns"
      "ValidateDAG steps = (if length ns \<noteq> length steps then Inl CycleDetected
         else Inr (List.map_filter (step_named steps) ns))"
proof (cases "valid_steps steps")
  case False
  then have "check_names [] steps \<noteq> None \<or> check_needs (map st_Name steps) steps \<noteq> None"
    by (auto simp: valid_steps_def check_names_ok check_needs_ok)
  then have "\<exists>e. ValidateDAG steps = Inl e"
    by (cases "check_names [] steps"; cases "check_needs (map st_Name steps) steps") (auto simp: ValidateDAG_def)
  with False that(1) show thesis by blast
next
  case True
  then have ok: "check_names [] steps = None" "check_needs (map st_Name steps) steps = None"
    by (auto simp: valid_steps_def check_names_ok check_needs_ok)
  obtain deg ns where ns: "kahn steps (Suc (length steps))
      (map st_Name (filter (\<lambda>s. in_degree steps (st_Name s) = 0) steps)) (in_degree steps) [] = Some ns"
    "kahn_inv steps [] deg ns" using kahn_start [OF True] by blast
  have "set ns \<subseteq> st_Name ` set steps" using ns(2) by (simp add: kahn_inv_def)
  then have "map st_Name (List.map_filter (step_named steps) ns) = ns"
    using named_all True unfolding valid_steps_def by blast
  then have "length (List.map_filter (step_named steps) ns) = length ns" by (metis length_map)
  with True ns ok that(2) show thesis by (simp add: ValidateDAG_def del: kahn.simps)
qed

definition dep_rel :: "Step list \<Rightarrow> (string \<times> string) set" where
  "dep_rel steps = {(d, st_Name s) | d s. s \<in> set steps \<and> d \<in> set (st_Needs s)}"

lemma needs_of_step:
  "distinct (map st_Name steps) \<Longrightarrow> s \<in> set steps \<Longrightarrow> needs_of steps (st_Name s) = st_Needs s"
  by (simp add: needs_of_def step_named_distinct)

text \<open>Steps left over have a dependency left over, so the dependencies are not well founded.\<close>

lemma stuck_cyclic:
  assumes v: "valid_steps steps" and inv: "kahn_inv steps [] deg ns" and short: "length ns \<noteq> length steps"
  shows "\<not> acyclic (dep_rel steps)"
proof
  assume ac: "acyclic (dep_rel steps)"
  let ?N = "st_Name ` set steps" and ?R = "st_Name ` set steps - set ns"
  have d: "distinct (map st_Name steps)" using v by (simp add: valid_steps_def)
  have ns: "distinct ns" "set ns \<subseteq> ?N" using inv by (auto simp: kahn_inv_def)
  have "set ns \<noteq> ?N"
    using short ns(1) d by (metis distinct_card length_map list.set_map)
  then obtain n where n: "n \<in> ?R" using ns(2) by blast
  have "dep_rel steps \<subseteq> ?N \<times> ?N" using v by (fastforce simp: dep_rel_def valid_steps_def)
  then have "finite (dep_rel steps)" by (rule finite_subset) simp
  then have "wf (dep_rel steps)" using ac by (rule finite_acyclic_wf)
  then obtain m where m: "m \<in> ?R" "\<And>y. (y, m) \<in> dep_rel steps \<Longrightarrow> y \<notin> ?R"
    using n by (rule wfE_min) blast
  then obtain s where s: "s \<in> set steps" "st_Name s = m" by blast
  have "open_needs steps ns m \<noteq> 0" using inv m(1) by (auto simp: kahn_inv_def)
  then have "filter (\<lambda>x. x \<notin> set ns) (st_Needs s) \<noteq> []"
    using needs_of_step [OF d s(1)] s(2) by (auto simp: open_needs_def)
  then obtain y where y: "y \<in> set (st_Needs s)" "y \<notin> set ns" by (auto simp: filter_empty_conv)
  have "y \<in> ?N" using v s(1) y(1) by (auto simp: valid_steps_def)
  moreover have "(y, m) \<in> dep_rel steps" using s y(1) by (auto simp: dep_rel_def)
  ultimately show False using m(2) y(2) by blast
qed

lemma ordered_acyclic:
  assumes "distinct (map st_Name out)" "set out = set steps"
    "\<And>i. i < length out \<Longrightarrow> set (st_Needs (out ! i)) \<subseteq> st_Name ` set (take i out)"
  shows "acyclic (dep_rel steps)"
proof -
  let ?pos = "\<lambda>n. THE i. i < length out \<and> st_Name (out ! i) = n"
  have pos: "?pos (st_Name (out ! i)) = i" if "i < length out" for i
  proof (rule the_equality)
    fix j assume "j < length out \<and> st_Name (out ! j) = st_Name (out ! i)"
    with assms(1) that show "j = i" by (metis length_map nth_eq_iff_index_eq nth_map)
  qed (use that in simp)
  have "dep_rel steps \<subseteq> inv_image less_than ?pos"
  proof
    fix p assume "p \<in> dep_rel steps"
    then obtain d s where p: "p = (d, st_Name s)" "s \<in> set out" "d \<in> set (st_Needs s)"
      using assms(2) by (auto simp: dep_rel_def)
    then obtain i where i: "i < length out" "out ! i = s" by (metis in_set_conv_nth)
    with assms(3) p(3) have "d \<in> st_Name ` set (take i out)" by blast
    then obtain j where j: "j < i" "st_Name (out ! j) = d" by (auto simp: in_set_conv_nth)
    have "?pos d = j" "?pos (st_Name s) = i" using pos [of j] pos [of i] i j by auto
    with p(1) j(1) show "p \<in> inv_image less_than ?pos" by simp
  qed
  then show ?thesis by (meson wf_acyclic wf_inv_image wf_less_than wf_subset)
qed

lemma ValidateDAG_sound:
  assumes "ValidateDAG steps = Inr out"
  shows "valid_steps steps \<and> mset out = mset steps \<and>
    (\<forall>i < length out. set (st_Needs (out ! i)) \<subseteq> st_Name ` set (take i out))"
proof (cases rule: ValidateDAG_cases [of steps])
  case (run deg ns)
  have d: "distinct (map st_Name steps)" using run(1) by (simp add: valid_steps_def)
  have out: "out = List.map_filter (step_named steps) ns" "length ns = length steps"
    using run(3) assms by (auto split: if_splits)
  have ns: "distinct ns" "set ns \<subseteq> st_Name ` set steps" using run(2) by (auto simp: kahn_inv_def)
  note names = named_all [OF d ns(2), folded out(1)]
  have "distinct out" using names ns(1) by (metis distinct_map)
  moreover have "length out = length steps" using names out(2) by (metis length_map)
  moreover have "distinct steps" using d by (simp add: distinct_map)
  ultimately have perm: "mset out = mset steps"
    using names by (metis card_subset_eq distinct_card finite_set set_eq_iff_mset_eq_distinct)
  have "set (st_Needs (out ! i)) \<subseteq> st_Name ` set (take i out)" if i: "i < length out" for i
  proof -
    have "out ! i \<in> set steps" using i perm by (metis nth_mem set_mset_mset)
    then have "needs_of steps (ns ! i) = st_Needs (out ! i)"
      using needs_of_step [OF d] names i by (metis nth_map)
    moreover have "set (needs_of steps (ns ! i)) \<subseteq> set (take i ns)"
      using run(2) i names unfolding kahn_inv_def by (metis length_map)
    moreover have "set (take i ns) = st_Name ` set (take i out)" using names by (metis list.set_map take_map)
    ultimately show ?thesis by simp
  qed
  with perm run(1) show ?thesis by blast
qed (use assms in simp)

section \<open>Properties\<close>

text \<open>
  C29: A phase is accepted exactly when its steps can be ordered: every step has a name of its own, every
  dependency names a step of the phase and the dependencies have no cycle; and then the order returned
  holds exactly the steps given, each after everything it needs.
\<close>

theorem validate_dag_decides:
  "(case ValidateDAG steps of
      Inr out \<Rightarrow> mset out = mset steps \<and>
        (\<forall>i < length out. set (st_Needs (out ! i)) \<subseteq> st_Name ` set (take i out))
    | Inl e \<Rightarrow> True) \<and>
   ((\<exists>out. ValidateDAG steps = Inr out) \<longleftrightarrow>
      [] \<notin> st_Name ` set steps \<and> distinct (map st_Name steps) \<and>
      (\<forall>s \<in> set steps. set (st_Needs s) \<subseteq> st_Name ` set steps) \<and> acyclic (dep_rel steps))"
proof -
  have "acyclic (dep_rel steps)" if o: "ValidateDAG steps = Inr out" for out
  proof -
    note s = ValidateDAG_sound [OF o]
    have "mset (map st_Name out) = mset (map st_Name steps)" using s by simp
    then have "distinct (map st_Name out)"
      using s unfolding valid_steps_def by (metis mset_eq_imp_distinct_iff)
    with s show ?thesis by (intro ordered_acyclic [of out]) (auto dest: mset_eq_setD)
  qed
  moreover have "\<exists>out. ValidateDAG steps = Inr out" if "valid_steps steps" "acyclic (dep_rel steps)"
    using that stuck_cyclic by (cases rule: ValidateDAG_cases [of steps]) auto
  ultimately show ?thesis
    using ValidateDAG_sound [of steps] unfolding valid_steps_def by (auto split: sum.split)
qed

text \<open>
  The error names the reason: a phase whose steps are well named and whose dependencies are all known is
  refused only for a cycle.
\<close>

theorem validate_dag_error:
  assumes "ValidateDAG steps = Inl e"
  shows "(e = StepNameRequired \<and> [] \<in> st_Name ` set steps) \<or>
    (\<exists>n. e = DuplicateStep n \<and> n \<in> st_Name ` set steps \<and> \<not> distinct (map st_Name steps)) \<or>
    (\<exists>s \<in> set steps. \<exists>d \<in> set (st_Needs s). e = UnknownDependency (st_Name s) d \<and> d \<notin> st_Name ` set steps) \<or>
    (e = CycleDetected \<and> \<not> acyclic (dep_rel steps))"
proof -
  have names: "check_names seen ss = Some e \<Longrightarrow>
      (e = StepNameRequired \<and> [] \<in> st_Name ` set ss) \<or>
      (\<exists>n. e = DuplicateStep n \<and> n \<in> st_Name ` set ss \<and> (n \<in> set seen \<or> \<not> distinct (map st_Name ss)))"
    for seen ss
  proof (induction seen ss rule: check_names.induct)
    case (2 seen s ss)
    show ?case
    proof (cases "st_Name s = [] \<or> st_Name s \<in> set seen")
      case False
      then have "check_names (st_Name s # seen) ss = Some e" using "2.prems" by simp
      then consider "e = StepNameRequired" "[] \<in> st_Name ` set ss"
        | n where "e = DuplicateStep n" "n \<in> st_Name ` set ss"
            "n = st_Name s \<or> n \<in> set seen \<or> \<not> distinct (map st_Name ss)"
        using "2.IH" False by auto
      then show ?thesis
      proof cases
        case (2 n)
        then have "n \<in> st_Name ` set (s # ss)" "n \<in> set seen \<or> \<not> distinct (map st_Name (s # ss))"
          by (simp, metis distinct.simps(2) list.set_map list.simps(9))
        with 2(1) show ?thesis by blast
      qed simp
    qed (use "2.prems" in \<open>auto split: if_splits\<close>)
  qed simp
  have needs: "check_needs ns ss = Some e \<Longrightarrow>
      \<exists>s \<in> set ss. \<exists>d \<in> set (st_Needs s). e = UnknownDependency (st_Name s) d \<and> d \<notin> set ns"
    for ns ss
    by (induction ns ss rule: check_needs.induct)
      (auto simp: check_step_needs_def find_Some_iff in_set_conv_nth split: option.splits)
  show ?thesis
  proof (cases "check_names [] steps")
    case (Some e')
    with assms have "check_names [] steps = Some e" by (simp add: ValidateDAG_def)
    from names [OF this] show ?thesis by auto
  next
    case none: None
    show ?thesis
    proof (cases "check_needs (map st_Name steps) steps")
      case (Some e')
      with none assms have "check_needs (map st_Name steps) steps = Some e" by (simp add: ValidateDAG_def)
      from needs [OF this] show ?thesis by auto
    next
      case None
      with none have "valid_steps steps" by (auto simp: valid_steps_def check_names_ok check_needs_ok)
      with assms show ?thesis
        by (cases rule: ValidateDAG_cases [of steps]) (auto split: if_splits dest: stuck_cyclic)
    qed
  qed
qed

definition sample_step :: "string \<Rightarrow> string list \<Rightarrow> Step" where
  "sample_step n ds = \<lparr>st_Name = n, st_Type = ''shell'', st_Needs = ds, st_Roles = [], st_RunIf = [],
     st_Concurrency = [], st_Retries = 0, st_RetryDelay = [], st_With = []\<rparr>"

theorem validate_dag_error_witness:
  "\<not> acyclic (dep_rel [sample_step ''a'' [''b''], sample_step ''b'' [''a'']])"
proof -
  have "ValidateDAG [sample_step ''a'' [''b''], sample_step ''b'' [''a'']] = Inl CycleDetected"
    by (simp add: ValidateDAG_def sample_step_def check_step_needs_def in_degree_def step_named_def
        List.map_filter_simps)
  from validate_dag_error [OF this] show ?thesis by (auto simp: sample_step_def)
qed

theorem validate_dag_decides_witness:
  "ValidateDAG [sample_step ''b'' [''a''], sample_step ''a'' []] =
     Inr [sample_step ''a'' [], sample_step ''b'' [''a'']] \<and>
   acyclic (dep_rel [sample_step ''b'' [''a''], sample_step ''a'' []])"
proof -
  have "ValidateDAG [sample_step ''b'' [''a''], sample_step ''a'' []] =
     Inr [sample_step ''a'' [], sample_step ''b'' [''a'']]"
    by (simp add: ValidateDAG_def sample_step_def check_step_needs_def in_degree_def step_named_def
        List.map_filter_simps adj_list_def)
  with validate_dag_decides [of "[sample_step ''b'' [''a''], sample_step ''a'' []]"] show ?thesis by blast
qed

end
