(* ===== verification/GoDuration.thy ===== *)
theory GoDuration
  imports GoText
begin

text \<open>
  \<^verbatim>\<open>time.ParseDuration\<close>: a signed sequence of decimal numbers with units, in nanoseconds. A fraction
  is rounded down to whole nanoseconds, where Go computes it in floating point.
\<close>

definition unit_ns :: "string \<Rightarrow> nat option" where
  "unit_ns u =
     (if u = ''ns'' then Some 1
      else if u = ''us'' \<or> u = [CHR 0xC2, CHR 0xB5, CHR ''s''] \<or> u = [CHR 0xCE, CHR 0xBC, CHR ''s''] then Some (10 ^ 3)
      else if u = ''ms'' then Some (10 ^ 6)
      else if u = ''s'' then Some (10 ^ 9)
      else if u = ''m'' then Some (60 * 10 ^ 9)
      else if u = ''h'' then Some (3600 * 10 ^ 9)
      else None)"

text \<open>One number with its unit: its value and what follows.\<close>

definition duration_term :: "string \<Rightarrow> (nat \<times> string) option" where
  "duration_term s =
     (let ds = takeWhile is_digit s; r1 = dropWhile is_digit s;
          dot = (r1 \<noteq> [] \<and> hd r1 = CHR ''.'');
          fs = (if dot then takeWhile is_digit (tl r1) else []);
          r2 = (if dot then dropWhile is_digit (tl r1) else r1);
          stp = (\<lambda>c. c \<noteq> CHR ''.'' \<and> \<not> is_digit c);
          u = takeWhile stp r2; r3 = dropWhile stp r2
      in if ds = [] \<and> fs = [] then None
         else case unit_ns u of None \<Rightarrow> None
           | Some k \<Rightarrow>
               let v = digits_value ds * k + digits_value fs * k div 10 ^ length fs
               in if digits_value ds * k > 2 ^ 63 \<or> v > 2 ^ 63 then None else Some (v, r3))"

function duration_terms :: "nat \<Rightarrow> string \<Rightarrow> nat option" where
  "duration_terms d s =
     (if s = [] then Some d
      else case duration_term s of None \<Rightarrow> None
        | Some (v, r) \<Rightarrow>
            if d + v > 2 ^ 63 \<or> length s \<le> length r then None else duration_terms (d + v) r)"
  by pat_completeness auto
termination by (relation "measure (\<lambda>(d, s). length s)") auto

declare duration_terms.simps [simp del, go_eval]

definition ParseDuration :: "string \<Rightarrow> int option" where
  "ParseDuration s0 =
     (let neg = (s0 \<noteq> [] \<and> hd s0 = CHR ''-'');
          s = (if s0 \<noteq> [] \<and> (hd s0 = CHR ''-'' \<or> hd s0 = CHR ''+'') then tl s0 else s0)
      in if s = ''0'' then Some 0
         else if s = [] then None
         else case duration_terms 0 s of None \<Rightarrow> None
           | Some d \<Rightarrow> if neg then Some (- int d) else if d > 2 ^ 63 - 1 then None else Some (int d))"

lemma dropWhile_shorter: "takeWhile P xs \<noteq> [] \<Longrightarrow> length (dropWhile P xs) < length xs"
  by (cases xs) (auto simp: le_imp_less_Suc length_dropWhile_le split: if_splits)

text \<open>The term a step reads is never empty, so the guard of the recursion is never what stops it.\<close>

lemma duration_term_shorter: "duration_term s = Some (v, r) \<Longrightarrow> length r < length s"
proof -
  assume t: "duration_term s = Some (v, r)"
  let ?r1 = "dropWhile is_digit s"
  let ?dot = "?r1 \<noteq> [] \<and> hd ?r1 = CHR ''.''"
  let ?r2 = "if ?dot then dropWhile is_digit (tl ?r1) else ?r1"
  let ?stp = "\<lambda>c. c \<noteq> CHR ''.'' \<and> \<not> is_digit c"
  have u: "unit_ns (takeWhile ?stp ?r2) \<noteq> None" and r: "r = dropWhile ?stp ?r2"
    using t by (auto simp: duration_term_def Let_def split: if_splits option.splits)
  have "unit_ns [] = None" by (simp add: unit_ns_def)
  with u have "takeWhile ?stp ?r2 \<noteq> []" by metis
  then have "length r < length ?r2"
    unfolding r by (rule dropWhile_shorter)
  also have "\<dots> \<le> length ?r1"
    using length_dropWhile_le [of is_digit "tl ?r1"] by (auto intro: le_trans)
  also have "\<dots> \<le> length s" by (rule length_dropWhile_le)
  finally show ?thesis .
qed

end
