(* ===== verification/PipelinePlan.thy ===== *)
theory PipelinePlan
  imports PipelineDag GoDuration
begin

text \<open>
  From a declared pipeline to a plan: conditions (\<^verbatim>\<open>run_if.go\<close>), step concurrency
  (\<^verbatim>\<open>concurrency.go\<close>), \<^verbatim>\<open>${name}\<close> variables (\<^verbatim>\<open>template/vars.go\<close> and \<^verbatim>\<open>renderSteps\<close>), targets
  and the run skeleton (\<^verbatim>\<open>planner.go\<close>) and the static checks (\<^verbatim>\<open>validation.go\<close>).
\<close>

section \<open>Conditions\<close>

definition splitRunIfComparison :: "string \<Rightarrow> (string \<times> string \<times> bool) option" where
  "splitRunIfComparison e =
     (case (Index e ''=='', Index e ''!='') of
        (Some eq, None) \<Rightarrow> Some (take eq e, drop (eq + 2) e, True)
      | (Some eq, Some ne) \<Rightarrow>
          if eq < ne then Some (take eq e, drop (eq + 2) e, True) else Some (take ne e, drop (ne + 2) e, False)
      | (None, Some ne) \<Rightarrow> Some (take ne e, drop (ne + 2) e, False)
      | (None, None) \<Rightarrow> None)"

definition parseRunIfOperand :: "string \<Rightarrow> string option" where
  "parseRunIfOperand raw =
     (let value = TrimSpace raw
      in if value = [] then None
         else if hd value = CHR 0x27 \<or> hd value = CHR 0x22
         then (if length value < 2 \<or> last value \<noteq> hd value then None else Some (butlast (tl value)))
         else if list_ex (\<lambda>c. c \<in> {CHR '' '', CHR 0x09, CHR 0x0D, CHR 0x0A}) value then None
         else Some value)"

definition EvaluateRunIf :: "string \<Rightarrow> pipe_error + bool" where
  "EvaluateRunIf expr =
     (let trimmed = TrimSpace expr; low = ToLower trimmed
      in if low = [] then Inr True
         else if low = ''true'' then Inr True
         else if low = ''false'' then Inr False
         else case splitRunIfComparison trimmed of
           None \<Rightarrow> Inl (InvalidRunIf expr)
         | Some (left, right, eq) \<Rightarrow>
             (case parseRunIfOperand left of
                None \<Rightarrow> Inl (InvalidRunIf expr)
              | Some lv \<Rightarrow>
                  (case parseRunIfOperand right of
                     None \<Rightarrow> Inl (InvalidRunIf expr)
                   | Some rv \<Rightarrow> Inr (if eq then lv = rv else lv \<noteq> rv))))"

section \<open>Concurrency\<close>

datatype ConcurrencyMode = ConcurrencySerial | ConcurrencyParallel | ConcurrencyBatch

record StepConcurrency =
  sc_Mode :: ConcurrencyMode
  sc_Limit :: int

definition ParseStepConcurrency :: "string \<Rightarrow> pipe_error + StepConcurrency" where
  "ParseStepConcurrency value0 =
     (let value = TrimSpace value0
      in if value = [] \<or> value = ''serial'' then Inr \<lparr>sc_Mode = ConcurrencySerial, sc_Limit = 1\<rparr>
         else if value = ''parallel'' then Inr \<lparr>sc_Mode = ConcurrencyParallel, sc_Limit = 0\<rparr>
         else if prefix ''batch:'' value then
           (case Atoi (drop 6 value) of
              Some n \<Rightarrow> if n \<le> 0 then Inl (InvalidConcurrency value)
                         else Inr \<lparr>sc_Mode = ConcurrencyBatch, sc_Limit = n\<rparr>
            | None \<Rightarrow> Inl (InvalidConcurrency value))
         else Inl (InvalidConcurrency value))"

section \<open>Variables\<close>

type_synonym vars = "string \<rightharpoonup> string"

definition is_var_char :: "char \<Rightarrow> bool" where
  "is_var_char c \<longleftrightarrow> (let n = (of_char c :: nat) in
     (97 \<le> n \<and> n \<le> 122) \<or> (65 \<le> n \<and> n \<le> 90) \<or> (48 \<le> n \<and> n \<le> 57) \<or> n = 95)"

text \<open>What follows a \<^verbatim>\<open>$\<close>, where it is a reference: the name and the rest of the text.\<close>

definition var_ref :: "string \<Rightarrow> (string \<times> string) option" where
  "var_ref s =
     (if s \<noteq> [] \<and> hd s = CHR ''{'' then
        let n = takeWhile is_var_char (tl s); r = dropWhile is_var_char (tl s)
        in if n \<noteq> [] \<and> r \<noteq> [] \<and> hd r = CHR ''}'' then Some (n, tl r) else None
      else None)"

function RenderPipelineVars :: "vars \<Rightarrow> string \<Rightarrow> string" where
  "RenderPipelineVars vs [] = []"
| "RenderPipelineVars vs (c # s) =
     (if c = CHR ''$'' then
        case var_ref s of
          Some (n, r) \<Rightarrow>
            (if length r \<le> length s
             then (case vs n of Some v \<Rightarrow> v | None \<Rightarrow> ''${'' @ n @ ''}'') @ RenderPipelineVars vs r
             else [])
        | None \<Rightarrow> c # RenderPipelineVars vs s
      else c # RenderPipelineVars vs s)"
  by pat_completeness auto
termination by (relation "measure (\<lambda>(vs, s). length s)") auto

declare RenderPipelineVars.simps(2) [simp del, go_eval]

text \<open>
  Variables that refer to each other: rounds over the map until nothing changes, at most as many as there
  are variables. Go visits a map in any order, a new one for each round: \<open>order i\<close> is the order of round
  \<open>i\<close>.
\<close>

fun render_round :: "string list \<Rightarrow> vars \<Rightarrow> bool \<Rightarrow> vars \<times> bool" where
  "render_round [] out changed = (out, changed)"
| "render_round (k # ks) out changed =
     (case out k of
        None \<Rightarrow> render_round ks out changed
      | Some v \<Rightarrow>
          let rendered = RenderPipelineVars out v
          in if rendered = v then render_round ks out changed
             else render_round ks (out(k \<mapsto> rendered)) True)"

fun render_rounds :: "nat \<Rightarrow> nat \<Rightarrow> (nat \<Rightarrow> string list) \<Rightarrow> vars \<Rightarrow> vars" where
  "render_rounds 0 i order out = out"
| "render_rounds (Suc n) i order out =
     (let (out, changed) = render_round (order i) out False
      in if changed then render_rounds n (Suc i) order out else out)"

definition RenderPipelineVariableMap :: "(nat \<Rightarrow> string list) \<Rightarrow> vars \<Rightarrow> vars" where
  "RenderPipelineVariableMap order vs = render_rounds (length (order 0)) 0 order vs"

definition MergeVariables :: "vars \<Rightarrow> vars \<Rightarrow> vars" where
  "MergeVariables base reserved = base ++ reserved"

definition renderStringSlice :: "vars \<Rightarrow> string list \<Rightarrow> string list" where
  "renderStringSlice vs items = map (RenderPipelineVars vs) items"

fun renderInterfaceValue :: "vars \<Rightarrow> json \<Rightarrow> json" where
  "renderInterfaceValue vs (JString s) = JString (RenderPipelineVars vs s)"
| "renderInterfaceValue vs (JObj fs) = JObj (map (\<lambda>(k, v). (k, renderInterfaceValue vs v)) fs)"
| "renderInterfaceValue vs (JArr js) = JArr (map (renderInterfaceValue vs) js)"
| "renderInterfaceValue vs (JBool b) = JBool b"
| "renderInterfaceValue vs (JInt n) = JInt n"

definition renderInterfaceMap :: "vars \<Rightarrow> (string \<times> json) list \<Rightarrow> (string \<times> json) list" where
  "renderInterfaceMap vs fs = map (\<lambda>(k, v). (k, renderInterfaceValue vs v)) fs"

definition renderStep :: "vars \<Rightarrow> Step \<Rightarrow> Step" where
  "renderStep vs s = s\<lparr>st_Name := RenderPipelineVars vs (st_Name s),
     st_Roles := renderStringSlice vs (st_Roles s), st_Needs := renderStringSlice vs (st_Needs s),
     st_RunIf := RenderPipelineVars vs (st_RunIf s), st_Concurrency := RenderPipelineVars vs (st_Concurrency s),
     st_RetryDelay := RenderPipelineVars vs (st_RetryDelay s), st_With := renderInterfaceMap vs (st_With s)\<rparr>"

definition renderSteps :: "vars \<Rightarrow> Step list \<Rightarrow> Step list" where
  "renderSteps vs steps = map (renderStep vs) steps"

section \<open>Targets and the run skeleton\<close>

record PTarget =
  pt_HostID :: string
  pt_HostName :: string
  pt_HostAddress :: string

definition IsLocal :: "PTarget \<Rightarrow> bool" where
  "IsLocal t \<longleftrightarrow> pt_HostID t = []"

record PPlan =
  pn_Phases :: "string \<Rightarrow> Step list"
  pn_Variables :: vars

text \<open>Later hosts replace earlier ones of the same identifier or name.\<close>

definition find_host :: "HostRef list \<Rightarrow> string \<Rightarrow> HostRef option" where
  "find_host hosts x =
     (case find (\<lambda>h. hr_ID h = x) (rev hosts) of
        Some h \<Rightarrow> Some h
      | None \<Rightarrow> find (\<lambda>h. hr_Name h \<noteq> [] \<and> hr_Name h = x) (rev hosts))"

fun resolve_ids :: "HostRef list \<Rightarrow> string \<Rightarrow> string list \<Rightarrow> PTarget list \<Rightarrow> pipe_error + PTarget list" where
  "resolve_ids hosts role [] out = Inr out"
| "resolve_ids hosts role (x # xs) out =
     (case find_host hosts x of
        None \<Rightarrow> Inl (HostNotFound x role)
      | Some h \<Rightarrow>
          resolve_ids hosts role xs
            (if hr_ID h \<in> pt_HostID ` set out then out
             else out @ [\<lparr>pt_HostID = hr_ID h, pt_HostName = hr_Name h, pt_HostAddress = hr_Address h\<rparr>]))"

fun resolve_roles ::
  "HostRef list \<Rightarrow> (string \<rightharpoonup> string list) \<Rightarrow> string list \<Rightarrow> PTarget list \<Rightarrow> pipe_error + PTarget list" where
  "resolve_roles hosts roles [] out = Inr out"
| "resolve_roles hosts roles (r # rs) out =
     (case roles r of
        None \<Rightarrow> Inl (RoleNotFound r)
      | Some xs \<Rightarrow>
          (case resolve_ids hosts r xs out of
             Inl e \<Rightarrow> Inl e
           | Inr out \<Rightarrow> resolve_roles hosts roles rs out))"

definition ResolveStepTargets ::
  "Step \<Rightarrow> (string \<rightharpoonup> string list) \<Rightarrow> HostRef list \<Rightarrow> pipe_error + PTarget list" where
  "ResolveStepTargets step roles hosts =
     (if st_Roles step = [] then Inr [] else resolve_roles hosts roles (st_Roles step) [])"

definition pipelinePhases :: "string list" where
  "pipelinePhases = [PhaseBuild, PhaseDeploy, PhaseFinally]"

definition stepsForPhase :: "Pipeline \<Rightarrow> string \<Rightarrow> Step list" where
  "stepsForPhase p phase =
     (if phase = PhaseBuild then pp_Build p
      else if phase = PhaseDeploy then pp_Deploy p
      else if phase = PhaseFinally then pp_Finally p else [])"

definition pending_task :: "PTarget \<Rightarrow> Task" where
  "pending_task t = \<lparr>tk_HostID = pt_HostID t, tk_HostName = pt_HostName t, tk_HostAddress = pt_HostAddress t,
     tk_Status = StatusPending, tk_ExitCode = 0, tk_StartedAt = 0, tk_FinishedAt = 0\<rparr>"

definition local_target :: PTarget where
  "local_target = \<lparr>pt_HostID = [], pt_HostName = [], pt_HostAddress = []\<rparr>"

definition step_skeleton :: "string \<Rightarrow> Step \<Rightarrow> PTarget list \<Rightarrow> StepRun" where
  "step_skeleton phase s targets = \<lparr>sr_StepName = st_Name s, sr_Type = st_Type s, sr_Phase = phase,
     sr_Needs = st_Needs s, sr_Status = StatusPending,
     sr_Tasks = (if st_Roles s = [] then [pending_task local_target] else map pending_task targets)\<rparr>"

fun order_phases :: "Pipeline \<Rightarrow> string list \<Rightarrow> (string \<Rightarrow> Step list) \<Rightarrow> pipe_error + (string \<Rightarrow> Step list)" where
  "order_phases p [] acc = Inr acc"
| "order_phases p (ph # phs) acc =
     (case ValidateDAG (stepsForPhase p ph) of
        Inl e \<Rightarrow> Inl (PhaseError ph e)
      | Inr out \<Rightarrow> order_phases p phs (acc(ph := out)))"

fun skeletons ::
  "(string \<rightharpoonup> string list) \<Rightarrow> HostRef list \<Rightarrow> (string \<times> Step) list \<Rightarrow> pipe_error + StepRun list" where
  "skeletons roles hosts [] = Inr []"
| "skeletons roles hosts ((ph, s) # rest) =
     (case ResolveStepTargets s roles hosts of
        Inl e \<Rightarrow> Inl e
      | Inr ts \<Rightarrow>
          (case skeletons roles hosts rest of
             Inl e \<Rightarrow> Inl e
           | Inr srs \<Rightarrow> Inr (step_skeleton ph s ts # srs)))"

definition phase_steps :: "(string \<Rightarrow> Step list) \<Rightarrow> (string \<times> Step) list" where
  "phase_steps phases = concat (map (\<lambda>ph. map (Pair ph) (phases ph)) pipelinePhases)"

definition BuildPlan :: "string \<Rightarrow> Pipeline \<Rightarrow> HostRef list \<Rightarrow> pipe_error + PPlan \<times> Run" where
  "BuildPlan deploymentID p hosts =
     (case order_phases p pipelinePhases (\<lambda>_. []) of
        Inl e \<Rightarrow> Inl e
      | Inr phases \<Rightarrow>
          (case skeletons (pp_Roles p) hosts (phase_steps phases) of
             Inl e \<Rightarrow> Inl e
           | Inr srs \<Rightarrow> Inr (\<lparr>pn_Phases = phases, pn_Variables = pp_Variables p\<rparr>,
               \<lparr>rn_DeploymentID = deploymentID, rn_Status = StatusPending, rn_StepRuns = srs,
                rn_StartedAt = 0, rn_FinishedAt = 0\<rparr>)))"

section \<open>The step runs of a run\<close>

text \<open>\<^verbatim>\<open>indexStepRuns\<close> and \<^verbatim>\<open>get\<close>: a later entry with the same key replaces an earlier one.\<close>

definition phaseStepKey :: "string \<Rightarrow> string \<Rightarrow> string" where
  "phaseStepKey phase name = phase @ [CHR 0x00] @ name"

fun last_index :: "('a \<Rightarrow> bool) \<Rightarrow> 'a list \<Rightarrow> nat option" where
  "last_index P [] = None"
| "last_index P (x # xs) =
     (case last_index P xs of Some i \<Rightarrow> Some (Suc i) | None \<Rightarrow> if P x then Some 0 else None)"

definition run_index :: "StepRun list \<Rightarrow> string \<Rightarrow> string \<Rightarrow> nat option" where
  "run_index srs phase name =
     last_index (\<lambda>sr. phaseStepKey (sr_Phase sr) (sr_StepName sr) = phaseStepKey phase name) srs"

section \<open>Static validation\<close>

text \<open>
  A plugin is code behind an interface: its validations are functions of the step; a plugin that does not
  implement \<^verbatim>\<open>TargetValidator\<close> has no target validation.
\<close>

record StepPlugin =
  pg_Validate :: "Step \<Rightarrow> pipe_error option"
  pg_ValidateTargets :: "(Step \<Rightarrow> PTarget list \<Rightarrow> pipe_error option) option"

type_synonym plugins = "string \<rightharpoonup> StepPlugin"

definition task_target :: "Task \<Rightarrow> PTarget" where
  "task_target t = \<lparr>pt_HostID = tk_HostID t, pt_HostName = tk_HostName t, pt_HostAddress = tk_HostAddress t\<rparr>"

definition targetsFromStepRun :: "StepRun \<Rightarrow> PTarget list" where
  "targetsFromStepRun sr = map task_target (filter (\<lambda>t. tk_HostID t \<noteq> []) (sr_Tasks sr))"

definition validateStep :: "plugins \<Rightarrow> StepRun list \<Rightarrow> string \<Rightarrow> Step \<Rightarrow> pipe_error option" where
  "validateStep plugins srs phase step =
     (case run_index srs phase (st_Name step) of
        None \<Rightarrow> Some (MissingRunSkeleton phase (st_Name step))
      | Some i \<Rightarrow>
          (case plugins (st_Type step) of
             None \<Rightarrow> Some (PluginNotRegistered (st_Type step))
           | Some pg \<Rightarrow>
               (case pg_Validate pg step of
                  Some e \<Rightarrow> Some e
                | None \<Rightarrow>
                    (case EvaluateRunIf (st_RunIf step) of
                       Inl e \<Rightarrow> Some e
                     | Inr b \<Rightarrow>
                         (case ParseStepConcurrency (st_Concurrency step) of
                            Inl e \<Rightarrow> Some e
                          | Inr c \<Rightarrow>
                              (case pg_ValidateTargets pg of
                                 None \<Rightarrow> None
                               | Some vt \<Rightarrow> vt step (targetsFromStepRun (srs ! i))))))))"

fun first_error :: "('a \<Rightarrow> 'e option) \<Rightarrow> 'a list \<Rightarrow> 'e option" where
  "first_error f [] = None"
| "first_error f (x # xs) = (case f x of Some e \<Rightarrow> Some e | None \<Rightarrow> first_error f xs)"

definition ValidatePlan :: "plugins \<Rightarrow> PPlan \<Rightarrow> Run \<Rightarrow> pipe_error option" where
  "ValidatePlan plugins plan run =
     first_error (\<lambda>(ph, s). validateStep plugins (rn_StepRuns run) ph s) (phase_steps (pn_Phases plan))"

end
