(* ===== verification/PipelineEngine.thy ===== *)
theory PipelineEngine
  imports PipelinePlan
begin

text \<open>
  \<^verbatim>\<open>agent/pipeline/engine.go\<close>: the engine that runs a plan over its run skeleton. What happens outside
  the engine is the \<open>world\<close>: what a plugin's \<^verbatim>\<open>Execute\<close> returns for an attempt, whether the context
  is done, clocks, the schedule of the goroutines of a batch. Progress events are output only and left out.
\<close>

section \<open>The world\<close>

record world =
  wl_plugins :: plugins
  wl_exec :: "string \<Rightarrow> Step \<Rightarrow> nat \<Rightarrow> nat \<Rightarrow> pipe_error option"
  wl_done :: "string \<Rightarrow> Step \<Rightarrow> nat \<Rightarrow> nat \<Rightarrow> bool"
  wl_done_waiting :: "string \<Rightarrow> Step \<Rightarrow> nat \<Rightarrow> nat \<Rightarrow> bool"
  wl_start :: "string \<Rightarrow> Step \<Rightarrow> nat \<Rightarrow> int"
  wl_finish :: "string \<Rightarrow> Step \<Rightarrow> nat \<Rightarrow> int"
  wl_schedule :: "string \<Rightarrow> Step \<Rightarrow> nat list \<Rightarrow> nat list"

text \<open>
  \<^verbatim>\<open>wl_exec w ph s i k\<close> is the result of attempt \<open>k\<close> of task \<open>i\<close> of step \<open>s\<close> in phase \<open>ph\<close>,
  \<open>wl_done\<close> what \<^verbatim>\<open>ctx.Err()\<close> says before it, \<open>wl_done_waiting\<close> whether the context ends during
  the wait after it; \<open>wl_schedule\<close> is the order in which the goroutines of a batch take effect.
\<close>

section \<open>Tasks\<close>

definition retryDelay :: "string \<Rightarrow> int" where
  "retryDelay value = (if value = [] then 0 else case ParseDuration value of None \<Rightarrow> 0 | Some d \<Rightarrow> d)"

definition attempts_of :: "Step \<Rightarrow> nat" where
  "attempts_of step = (let n = wrap64 (st_Retries step + 1) in if n < 1 then 1 else nat n)"

text \<open>\<open>left\<close> attempts remain, the next one is \<open>k\<close>; \<open>err\<close> is the last error.\<close>

fun retry_loop ::
  "(nat \<Rightarrow> pipe_error option) \<Rightarrow> (nat \<Rightarrow> bool) \<Rightarrow> (nat \<Rightarrow> bool) \<Rightarrow> int \<Rightarrow> nat \<Rightarrow> nat \<Rightarrow> pipe_error option \<Rightarrow> pipe_error option" where
  "retry_loop fn dn waiting delay 0 k err = err"
| "retry_loop fn dn waiting delay (Suc left) k err =
     (if dn k then Some ContextDone
      else case fn k of
        None \<Rightarrow> None
      | Some e \<Rightarrow>
          if left = 0 \<or> delay \<le> 0 then retry_loop fn dn waiting delay left (Suc k) (Some e)
          else if waiting k then Some ContextDone
          else retry_loop fn dn waiting delay left (Suc k) (Some e))"

definition executeWithRetries ::
  "Step \<Rightarrow> (nat \<Rightarrow> pipe_error option) \<Rightarrow> (nat \<Rightarrow> bool) \<Rightarrow> (nat \<Rightarrow> bool) \<Rightarrow> pipe_error option" where
  "executeWithRetries step fn dn waiting =
     retry_loop fn dn waiting (retryDelay (st_RetryDelay step)) (attempts_of step) 0 None"

definition exitCodeFromError :: "pipe_error \<Rightarrow> int" where
  "exitCodeFromError e = (case e of ExecError (Some c) \<Rightarrow> c | _ \<Rightarrow> 0)"

definition startTask :: "int \<Rightarrow> nat \<Rightarrow> StepRun \<Rightarrow> StepRun" where
  "startTask now i sr = sr\<lparr>sr_Tasks := update_at (sr_Tasks sr) i
     (\<lambda>t. t\<lparr>tk_Status := RunStatusRunning, tk_StartedAt := now\<rparr>)\<rparr>"

definition finishTask :: "int \<Rightarrow> nat \<Rightarrow> string \<Rightarrow> StepRun \<Rightarrow> StepRun" where
  "finishTask now i status sr = sr\<lparr>sr_Tasks := update_at (sr_Tasks sr) i
     (\<lambda>t. t\<lparr>tk_Status := status, tk_FinishedAt := now\<rparr>)\<rparr>"

definition setExitCode :: "nat \<Rightarrow> int \<Rightarrow> StepRun \<Rightarrow> StepRun" where
  "setExitCode i c sr = sr\<lparr>sr_Tasks := update_at (sr_Tasks sr) i (\<lambda>t. t\<lparr>tk_ExitCode := c\<rparr>)\<rparr>"

definition task_result :: "world \<Rightarrow> string \<Rightarrow> Step \<Rightarrow> nat \<Rightarrow> pipe_error option" where
  "task_result w ph step i = executeWithRetries step (wl_exec w ph step i) (wl_done w ph step i) (wl_done_waiting w ph step i)"

definition executeOneTask :: "world \<Rightarrow> string \<Rightarrow> Step \<Rightarrow> nat \<Rightarrow> StepRun \<Rightarrow> pipe_error option \<times> StepRun" where
  "executeOneTask w ph step i sr =
     (let sr = startTask (wl_start w ph step i) i sr
      in case task_result w ph step i of
           Some e \<Rightarrow> (Some e, finishTask (wl_finish w ph step i) i RunStatusFailed
                                (setExitCode i (exitCodeFromError e) sr))
         | None \<Rightarrow> (None, finishTask (wl_finish w ph step i) i StatusSuccess sr))"

section \<open>Steps\<close>

definition rangeIndexes :: "nat \<Rightarrow> nat \<Rightarrow> nat list" where
  "rangeIndexes start bound = [start..<bound]"

fun run_serial :: "world \<Rightarrow> string \<Rightarrow> Step \<Rightarrow> nat list \<Rightarrow> StepRun \<Rightarrow> pipe_error option \<times> StepRun" where
  "run_serial w ph step [] sr = (None, sr)"
| "run_serial w ph step (i # is) sr =
     (case executeOneTask w ph step i sr of
        (Some e, sr) \<Rightarrow> (Some e, sr)
      | (None, sr) \<Rightarrow> run_serial w ph step is sr)"

text \<open>The goroutines of a batch, in the order in which they take effect; \<^verbatim>\<open>errs[0]\<close> is the first error.\<close>

fun run_all :: "world \<Rightarrow> string \<Rightarrow> Step \<Rightarrow> nat list \<Rightarrow> StepRun \<Rightarrow> pipe_error list \<times> StepRun" where
  "run_all w ph step [] sr = ([], sr)"
| "run_all w ph step (i # is) sr =
     (let (r, sr) = executeOneTask w ph step i sr;
          (errs, sr) = run_all w ph step is sr
      in (case r of None \<Rightarrow> errs | Some e \<Rightarrow> e # errs, sr))"

definition executeTaskBatch :: "world \<Rightarrow> string \<Rightarrow> Step \<Rightarrow> nat list \<Rightarrow> StepRun \<Rightarrow> pipe_error option \<times> StepRun" where
  "executeTaskBatch w ph step indexes sr =
     (let (errs, sr) = run_all w ph step (wl_schedule w ph step indexes) sr
      in (if errs = [] then None else Some (hd errs), sr))"

text \<open>\<^verbatim>\<open>for start := 0; start < len(sr.Tasks); start += limit\<close>; the limit of a batch is positive.\<close>

function run_batches ::
  "world \<Rightarrow> string \<Rightarrow> Step \<Rightarrow> nat \<Rightarrow> nat \<Rightarrow> nat \<Rightarrow> StepRun \<Rightarrow> pipe_error option \<times> StepRun" where
  "run_batches w ph step limit start n sr =
     (if limit = 0 \<or> n \<le> start then (None, sr)
      else case executeTaskBatch w ph step (rangeIndexes start (min (start + limit) n)) sr of
             (Some e, sr) \<Rightarrow> (Some e, sr)
           | (None, sr) \<Rightarrow> run_batches w ph step limit (start + limit) n sr)"
  by pat_completeness auto
termination by (relation "measure (\<lambda>(w, ph, step, limit, start, n, sr). n - start)") auto

declare run_batches.simps [simp del, go_eval]

definition executeStepTasks ::
  "world \<Rightarrow> string \<Rightarrow> Step \<Rightarrow> StepConcurrency \<Rightarrow> StepRun \<Rightarrow> pipe_error option \<times> StepRun" where
  "executeStepTasks w ph step c sr =
     (if length (sr_Tasks sr) = 1 \<and> IsLocal (task_target (sr_Tasks sr ! 0)) then executeOneTask w ph step 0 sr
      else case sc_Mode c of
        ConcurrencySerial \<Rightarrow> run_serial w ph step (rangeIndexes 0 (length (sr_Tasks sr))) sr
      | ConcurrencyParallel \<Rightarrow> executeTaskBatch w ph step (rangeIndexes 0 (length (sr_Tasks sr))) sr
      | ConcurrencyBatch \<Rightarrow> run_batches w ph step (nat (sc_Limit c)) 0 (length (sr_Tasks sr)) sr)"

definition markStepFailed :: "StepRun \<Rightarrow> StepRun" where
  "markStepFailed sr = sr\<lparr>sr_Status := RunStatusFailed\<rparr>"

definition markStepSkipped :: "StepRun \<Rightarrow> StepRun" where
  "markStepSkipped sr = sr\<lparr>sr_Status := StatusSkipped,
     sr_Tasks := map (\<lambda>t. t\<lparr>tk_Status := StatusSkipped\<rparr>) (sr_Tasks sr)\<rparr>"

definition executeStep :: "world \<Rightarrow> string \<Rightarrow> Step \<Rightarrow> StepRun \<Rightarrow> pipe_error option \<times> StepRun" where
  "executeStep w ph step sr =
     (case wl_plugins w (st_Type step) of
        None \<Rightarrow> (Some (PluginNotRegistered (st_Type step)), markStepFailed sr)
      | Some pg \<Rightarrow>
          (case pg_Validate pg step of
             Some e \<Rightarrow> (Some e, markStepFailed sr)
           | None \<Rightarrow>
               (case ParseStepConcurrency (st_Concurrency step) of
                  Inl e \<Rightarrow> (Some e, markStepFailed sr)
                | Inr c \<Rightarrow>
                    (case executeStepTasks w ph step c (sr\<lparr>sr_Status := RunStatusRunning\<rparr>) of
                       (Some e, sr) \<Rightarrow> (Some (StepFailed (st_Name step) e), markStepFailed sr)
                     | (None, sr) \<Rightarrow> (None, sr\<lparr>sr_Status := StatusSuccess\<rparr>)))))"

section \<open>Phases\<close>

text \<open>A status map; a step that has not been reached has the zero value, the empty string.\<close>

type_synonym statuses = "string \<rightharpoonup> string"

definition dependencyBlocked :: "Step \<Rightarrow> statuses \<Rightarrow> bool" where
  "dependencyBlocked step st \<longleftrightarrow> list_ex (\<lambda>d. st d \<noteq> Some StatusSuccess) (st_Needs step)"

text \<open>What a phase does to the skeleton of one step: its error, its status, its new skeleton.\<close>

definition visit_step :: "world \<Rightarrow> string \<Rightarrow> Step \<Rightarrow> statuses \<Rightarrow> StepRun \<Rightarrow> pipe_error option \<times> string \<times> StepRun" where
  "visit_step w ph step st sr =
     (if dependencyBlocked step st then (None, StatusSkipped, markStepSkipped sr)
      else case EvaluateRunIf (st_RunIf step) of
        Inl e \<Rightarrow> (Some e, RunStatusFailed, markStepFailed sr)
      | Inr shouldRun \<Rightarrow>
          if \<not> shouldRun then (None, StatusSkipped, markStepSkipped sr)
          else if sr_Tasks sr = [] then (None, StatusSuccess, sr\<lparr>sr_Status := StatusSuccess\<rparr>)
          else case executeStep w ph step sr of
            (Some e, sr) \<Rightarrow> (Some e, RunStatusFailed, sr)
          | (None, sr) \<Rightarrow> (None, StatusSuccess, sr))"

fun runPhase ::
  "world \<Rightarrow> string \<Rightarrow> Step list \<Rightarrow> statuses \<Rightarrow> pipe_error option \<Rightarrow> StepRun list \<Rightarrow> pipe_error option \<times> StepRun list" where
  "runPhase w ph [] st err srs = (err, srs)"
| "runPhase w ph (step # steps) st err srs =
     (case run_index srs ph (st_Name step) of
        None \<Rightarrow> runPhase w ph steps st (Some (MissingRunSkeleton ph (st_Name step))) srs
      | Some i \<Rightarrow>
          (case visit_step w ph step st (srs ! i) of
             (e, status, sr) \<Rightarrow>
               runPhase w ph steps (st(st_Name step \<mapsto> status)) (if err = None then e else err) (srs[i := sr])))"

fun skipPhase :: "string \<Rightarrow> Step list \<Rightarrow> StepRun list \<Rightarrow> StepRun list" where
  "skipPhase ph [] srs = srs"
| "skipPhase ph (step # steps) srs =
     (case run_index srs ph (st_Name step) of
        None \<Rightarrow> skipPhase ph steps srs
      | Some i \<Rightarrow> skipPhase ph steps (srs[i := markStepSkipped (srs ! i)]))"

section \<open>A run\<close>

text \<open>
  \<^verbatim>\<open>reservedVars\<close>: \<open>date\<close> and \<open>tim\<close> are the formatted clock; the run's temporary directory is clean, so
  \<^verbatim>\<open>filepath.Join\<close> only adds the separator.
\<close>

definition reservedVars :: "string \<Rightarrow> string \<Rightarrow> string \<Rightarrow> string \<Rightarrow> string \<Rightarrow> string \<Rightarrow> vars" where
  "reservedVars runTempDir workspace version env date tim =
     [''workspace'' \<mapsto> workspace, ''output'' \<mapsto> runTempDir @ ''/output'', ''artifacts'' \<mapsto> runTempDir @ ''/artifacts'',
      ''version'' \<mapsto> version, ''env'' \<mapsto> env, ''date'' \<mapsto> date, ''time'' \<mapsto> tim, ''run_temp_dir'' \<mapsto> runTempDir]"

record RunOptions =
  ro_SkipBuild :: bool
  ro_AfterBuild :: "(Run \<Rightarrow> vars \<Rightarrow> Run \<times> pipe_error option) option"
  ro_BeforeDeploy :: "(Run \<Rightarrow> vars \<Rightarrow> Run \<times> pipe_error option) option"

record run_setup =
  su_TempDir :: "pipe_error + string"
  su_ReservedDirs :: "pipe_error option"
  su_Date :: string
  su_Time :: string
  su_Order :: "nat \<Rightarrow> string list"
  su_Started :: int
  su_Finished :: int

definition var_or_empty :: "vars \<Rightarrow> string \<Rightarrow> string" where
  "var_or_empty vs n = (case vs n of Some v \<Rightarrow> v | None \<Rightarrow> [])"

definition runtime_vars :: "run_setup \<Rightarrow> PPlan \<Rightarrow> string \<Rightarrow> vars" where
  "runtime_vars su plan dir = RenderPipelineVariableMap (su_Order su)
     (MergeVariables (pn_Variables plan)
        (reservedVars dir (var_or_empty (pn_Variables plan) ''workspace'')
           (var_or_empty (pn_Variables plan) ''version'') (var_or_empty (pn_Variables plan) ''env'')
           (su_Date su) (su_Time su)))"

definition renderRuntimePlan :: "PPlan \<Rightarrow> vars \<Rightarrow> PPlan" where
  "renderRuntimePlan plan vs = \<lparr>pn_Phases = (\<lambda>ph. renderSteps vs (pn_Phases plan ph)), pn_Variables = vs\<rparr>"

text \<open>
  The three phases: the failed builds, the hooks between the phases, the phases that are skipped and the
  error that is kept.
\<close>

definition build_part ::
  "world \<Rightarrow> RunOptions \<Rightarrow> PPlan \<Rightarrow> vars \<Rightarrow> Run \<Rightarrow> StepRun list \<Rightarrow> bool \<times> pipe_error option \<times> Run \<times> StepRun list" where
  "build_part w opts plan vs run srs =
     (if ro_SkipBuild opts then (False, None, run, skipPhase PhaseBuild (pn_Phases plan PhaseBuild) srs)
      else
        let (err, srs) = runPhase w PhaseBuild (pn_Phases plan PhaseBuild) Map.empty None srs
        in if err \<noteq> None then (True, err, run, srs)
           else case ro_AfterBuild opts of
             None \<Rightarrow> (False, None, run, srs)
           | Some hook \<Rightarrow>
               let (run, e) = hook (run\<lparr>rn_StepRuns := srs\<rparr>) vs in (e \<noteq> None, e, run, srs))"

definition deploy_part ::
  "world \<Rightarrow> RunOptions \<Rightarrow> PPlan \<Rightarrow> vars \<Rightarrow> bool \<times> pipe_error option \<times> Run \<times> StepRun list
     \<Rightarrow> pipe_error option \<times> Run \<times> StepRun list" where
  "deploy_part w opts plan vs = (\<lambda>(buildFailed, runErr, run, srs).
     if buildFailed then (runErr, run, skipPhase PhaseDeploy (pn_Phases plan PhaseDeploy) srs)
     else
       let (runErr, run, srs) =
             (case ro_BeforeDeploy opts of
                None \<Rightarrow> (runErr, run, srs)
              | Some hook \<Rightarrow>
                  (case hook (run\<lparr>rn_StepRuns := srs\<rparr>) vs of
                     (run, None) \<Rightarrow> (runErr, run, srs)
                   | (run, Some e) \<Rightarrow> (Some e, run, skipPhase PhaseDeploy (pn_Phases plan PhaseDeploy) srs)))
       in if runErr = None
          then (let (err, srs) = runPhase w PhaseDeploy (pn_Phases plan PhaseDeploy) Map.empty None srs
                in (err, if err \<noteq> None then run\<lparr>rn_Status := RunStatusFailed\<rparr> else run, srs))
          else (runErr, run, srs))"

definition finally_part ::
  "world \<Rightarrow> PPlan \<Rightarrow> pipe_error option \<times> Run \<times> StepRun list \<Rightarrow> pipe_error option \<times> Run \<times> StepRun list" where
  "finally_part w plan = (\<lambda>(runErr, run, srs).
     let (err, srs) = runPhase w PhaseFinally (pn_Phases plan PhaseFinally) Map.empty None srs
     in (if runErr = None then err else runErr, run, srs))"

definition RunWithOptions ::
  "world \<Rightarrow> run_setup \<Rightarrow> RunOptions \<Rightarrow> PPlan \<Rightarrow> Run \<Rightarrow> Run \<times> pipe_error option" where
  "RunWithOptions w su opts plan run0 =
     (let run = run0\<lparr>rn_Status := RunStatusRunning, rn_StartedAt := su_Started su\<rparr>;
          failed = (\<lambda>e. (run\<lparr>rn_Status := RunStatusFailed, rn_FinishedAt := su_Finished su\<rparr>, Some e))
      in case su_TempDir su of
           Inl e \<Rightarrow> failed e
         | Inr dir \<Rightarrow>
             let vs = runtime_vars su plan dir; executionPlan = renderRuntimePlan plan vs
             in (case su_ReservedDirs su of
                   Some e \<Rightarrow> failed e
                 | None \<Rightarrow>
                     let (err, run, srs) = finally_part w executionPlan
                           (deploy_part w opts executionPlan vs
                              (build_part w opts executionPlan vs run (rn_StepRuns run)))
                     in (run\<lparr>rn_StepRuns := srs,
                             rn_Status := (if err \<noteq> None then RunStatusFailed else StatusSuccess),
                             rn_FinishedAt := su_Finished su\<rparr>, err)))"

text \<open>\<^verbatim>\<open>Run\<close> is \<^verbatim>\<open>RunWithOptions\<close> with the zero options.\<close>

definition EngineRun :: "world \<Rightarrow> run_setup \<Rightarrow> PPlan \<Rightarrow> Run \<Rightarrow> Run \<times> pipe_error option" where
  "EngineRun w su plan run =
     RunWithOptions w su \<lparr>ro_SkipBuild = False, ro_AfterBuild = None, ro_BeforeDeploy = None\<rparr> plan run"

end
