(* ===== verification/PipelineRuns.thy ===== *)
theory PipelineRuns
  imports PipelineEngine
begin

text \<open>
  What the engine promises: a phase settles every one of its steps, executes none whose dependencies did not
  succeed, and fails exactly when one of them fails; a batch does not depend on its schedule; retries stop
  at the first success.
\<close>

section \<open>Indices of step runs\<close>

definition step_keys :: "StepRun list \<Rightarrow> string list" where
  "step_keys srs = map (\<lambda>sr. phaseStepKey (sr_Phase sr) (sr_StepName sr)) srs"

lemma last_index_map: "last_index (\<lambda>x. P (f x)) xs = last_index P (map f xs)"
  by (induction xs) (auto split: option.splits)

lemma run_index_keys: "run_index srs ph n = last_index (\<lambda>k. k = phaseStepKey ph n) (step_keys srs)"
  by (simp add: run_index_def step_keys_def last_index_map [symmetric])

lemma last_index_Some: "last_index P xs = Some i \<Longrightarrow> i < length xs \<and> P (xs ! i)"
  by (induction xs arbitrary: i) (auto split: option.splits if_splits)

lemma last_index_None: "last_index P xs = None \<longleftrightarrow> (\<forall>x \<in> set xs. \<not> P x)"
  by (induction xs) (auto split: option.splits)

lemma run_index_Some:
  "run_index srs ph n = Some i \<Longrightarrow> i < length srs \<and> phaseStepKey (sr_Phase (srs ! i)) (sr_StepName (srs ! i)) = phaseStepKey ph n"
  by (auto simp: run_index_keys step_keys_def dest: last_index_Some)

lemma run_index_distinct:
  assumes "distinct (step_keys srs)" "i < length srs"
  shows "run_index srs (sr_Phase (srs ! i)) (sr_StepName (srs ! i)) = Some i"
proof -
  let ?k = "phaseStepKey (sr_Phase (srs ! i)) (sr_StepName (srs ! i))"
  have i: "step_keys srs ! i = ?k" "i < length (step_keys srs)" using assms(2) by (simp_all add: step_keys_def)
  then obtain j where j: "last_index (\<lambda>k. k = ?k) (step_keys srs) = Some j"
    using last_index_None [of "\<lambda>k. k = ?k" "step_keys srs"] nth_mem [of i "step_keys srs"] by fastforce
  then have "j < length (step_keys srs)" "step_keys srs ! j = ?k" using last_index_Some by fastforce+
  with i assms(1) have "j = i" by (metis nth_eq_iff_index_eq)
  with j show ?thesis by (simp add: run_index_keys)
qed

lemma key_name_inj: "phaseStepKey ph m = phaseStepKey ph n \<longleftrightarrow> m = n"
  by (simp add: phaseStepKey_def)

lemma run_index_name_inj: "run_index srs ph m = Some i \<Longrightarrow> run_index srs ph n = Some i \<Longrightarrow> m = n"
  using run_index_Some [of srs ph m i] run_index_Some [of srs ph n i] by (metis key_name_inj)

lemma step_keys_update:
  "i < length srs \<Longrightarrow> sr_Phase sr = sr_Phase (srs ! i) \<Longrightarrow> sr_StepName sr = sr_StepName (srs ! i) \<Longrightarrow>
     step_keys (srs[i := sr]) = step_keys srs"
  by (auto simp: step_keys_def map_update intro!: list_update_same_conv [THEN iffD2])

section \<open>Tasks and steps keep their identity\<close>

definition same_step :: "StepRun \<Rightarrow> StepRun \<Rightarrow> bool" where
  "same_step a b \<longleftrightarrow> sr_Phase b = sr_Phase a \<and> sr_StepName b = sr_StepName a \<and> sr_Type b = sr_Type a \<and>
     sr_Needs b = sr_Needs a \<and> map task_target (sr_Tasks b) = map task_target (sr_Tasks a)"

lemma same_step_refl [simp]: "same_step a a"
  by (simp add: same_step_def)

lemma same_step_trans: "same_step a b \<Longrightarrow> same_step b c \<Longrightarrow> same_step a c"
  by (simp add: same_step_def)

lemma same_step_task:
  "(\<And>t. task_target (f t) = task_target t) \<Longrightarrow> same_step sr (sr\<lparr>sr_Tasks := update_at (sr_Tasks sr) i f\<rparr>)"
proof -
  assume f: "\<And>t. task_target (f t) = task_target t"
  have "map task_target (update_at ts i f) = map task_target ts" for ts
    by (rule map_update_at) (rule f)
  then show ?thesis by (simp add: same_step_def)
qed

lemma executeOneTask_same: "same_step sr (snd (executeOneTask w ph step i sr))"
proof -
  have start: "same_step sr (startTask now i sr)" for now sr
    unfolding startTask_def by (rule same_step_task) (simp add: task_target_def)
  have finish: "same_step sr (finishTask now i st sr)" for now st sr
    unfolding finishTask_def by (rule same_step_task) (simp add: task_target_def)
  have code: "same_step sr (setExitCode i c sr)" for c sr
    unfolding setExitCode_def by (rule same_step_task) (simp add: task_target_def)
  show ?thesis
  proof (cases "task_result w ph step i")
    case None
    then show ?thesis by (simp add: executeOneTask_def) (rule same_step_trans [OF start finish])
  next
    case (Some e)
    then show ?thesis
      by (simp add: executeOneTask_def) (rule same_step_trans [OF start same_step_trans [OF code finish]])
  qed
qed

lemma executeOneTask_eq: "fst (executeOneTask w ph step i sr) = task_result w ph step i"
  by (simp add: executeOneTask_def Let_def split: option.split)

lemma run_serial_same: "same_step sr (snd (run_serial w ph step is sr))"
proof (induction "is" arbitrary: sr)
  case (Cons i "is")
  obtain r sr1 where r: "executeOneTask w ph step i sr = (r, sr1)" by fastforce
  have s: "same_step sr sr1" using executeOneTask_same [of sr w ph step i] r by simp
  show ?case
    by (cases r) (use r s Cons.IH [of sr1] in \<open>auto intro: same_step_trans\<close>)
qed simp

lemma run_all_same: "same_step sr (snd (run_all w ph step is sr))"
proof (induction "is" arbitrary: sr)
  case (Cons i "is")
  obtain r sr1 where r: "executeOneTask w ph step i sr = (r, sr1)" by fastforce
  have s: "same_step sr sr1" using executeOneTask_same [of sr w ph step i] r by simp
  with r Cons.IH [of sr1] show ?case
    by (auto simp: Let_def case_prod_beta intro: same_step_trans)
qed simp

lemma executeTaskBatch_same: "same_step sr (snd (executeTaskBatch w ph step is sr))"
  using run_all_same [of sr w ph step "wl_schedule w ph step is"]
  by (simp add: executeTaskBatch_def Let_def case_prod_beta)

lemma run_batches_same: "same_step sr (snd (run_batches w ph step limit start n sr))"
proof (induction w ph step limit start n sr rule: run_batches.induct)
  case (1 w ph step limit start n sr)
  let ?b = "executeTaskBatch w ph step (rangeIndexes start (min (start + limit) n)) sr"
  obtain r sr1 where r: "?b = (r, sr1)" by fastforce
  have s: "same_step sr sr1" using executeTaskBatch_same [of sr w ph step "rangeIndexes start (min (start + limit) n)"] r by simp
  show ?case
  proof (cases "limit = 0 \<or> n \<le> start")
    case False
    then show ?thesis
      by (cases r) (use r s "1.IH" [OF False r [symmetric]] in \<open>auto simp: run_batches.simps [of w ph step limit start] intro: same_step_trans\<close>)
  qed (simp add: run_batches.simps [of w ph step limit start])
qed

lemma executeStepTasks_same: "same_step sr (snd (executeStepTasks w ph step c sr))"
  by (auto simp: executeStepTasks_def executeOneTask_same run_serial_same executeTaskBatch_same run_batches_same
      split: ConcurrencyMode.split)

lemma executeStep_same: "same_step sr (snd (executeStep w ph step sr))"
proof -
  have fail: "same_step a b \<Longrightarrow> same_step a (markStepFailed b)" for a b
    by (simp add: same_step_def markStepFailed_def)
  have set: "same_step a (b\<lparr>sr_Status := st\<rparr>) = same_step a b" "same_step (a\<lparr>sr_Status := st\<rparr>) b = same_step a b"
    for a b st by (simp_all add: same_step_def)
  show ?thesis
  proof (cases "wl_plugins w (st_Type step)")
    case (Some pg)
    show ?thesis
    proof (cases "pg_Validate pg step"; cases "ParseStepConcurrency (st_Concurrency step)")
      fix c assume ok: "pg_Validate pg step = None" "ParseStepConcurrency (st_Concurrency step) = Inr c"
      obtain r sr1 where r: "executeStepTasks w ph step c (sr\<lparr>sr_Status := RunStatusRunning\<rparr>) = (r, sr1)" by fastforce
      have "same_step sr sr1"
        using executeStepTasks_same [of "sr\<lparr>sr_Status := RunStatusRunning\<rparr>" w ph step c] r by (simp add: set)
      with Some ok r show ?thesis by (cases r) (simp_all add: executeStep_def set fail)
    qed (use Some in \<open>simp_all add: executeStep_def fail\<close>)
  qed (simp add: executeStep_def fail)
qed

lemma executeStep_status:
  "executeStep w ph step sr = (r, sr') \<Longrightarrow> sr_Status sr' = (if r = None then StatusSuccess else RunStatusFailed)"
  by (auto simp: executeStep_def markStepFailed_def split: option.splits sum.splits prod.splits)

lemma visit_step_spec:
  assumes "visit_step w ph step st sr = (e, status, sr')"
  shows "same_step sr sr' \<and> sr_Status sr' = status \<and> status \<in> {StatusSuccess, RunStatusFailed, StatusSkipped} \<and>
    (e = None \<longleftrightarrow> status \<noteq> RunStatusFailed) \<and>
    (status \<noteq> StatusSkipped \<longrightarrow> (\<forall>d \<in> set (st_Needs step). st d = Some StatusSuccess))"
proof (cases "dependencyBlocked step st")
  case True
  with assms show ?thesis
    by (auto simp: visit_step_def markStepSkipped_def same_step_def task_target_def comp_def)
next
  case False
  then have needs: "\<forall>d \<in> set (st_Needs step). st d = Some StatusSuccess"
    by (auto simp: dependencyBlocked_def list_ex_iff)
  show ?thesis
  proof (cases "EvaluateRunIf (st_RunIf step)")
    case (Inl x)
    with False assms needs show ?thesis
      by (auto simp: visit_step_def markStepFailed_def same_step_def)
  next
    case (Inr b)
    obtain r sr1 where r: "executeStep w ph step sr = (r, sr1)" by fastforce
    have "same_step sr sr1" using executeStep_same [of sr w ph step] r by simp
    with False Inr assms needs r executeStep_status [OF r] show ?thesis
      by (cases b; cases "sr_Tasks sr = []"; cases r)
        (auto simp: visit_step_def markStepSkipped_def same_step_def task_target_def comp_def)
  qed
qed

section \<open>A phase\<close>

definition addressed :: "StepRun list \<Rightarrow> string \<Rightarrow> Step list \<Rightarrow> nat set" where
  "addressed srs ph steps = {i. \<exists>s \<in> set steps. run_index srs ph (st_Name s) = Some i}"

definition has_skeletons :: "StepRun list \<Rightarrow> string \<Rightarrow> Step list \<Rightarrow> bool" where
  "has_skeletons srs ph steps \<longleftrightarrow>
     distinct (map st_Name steps) \<and> (\<forall>s \<in> set steps. run_index srs ph (st_Name s) \<noteq> None)"

text \<open>
  What a phase leaves behind: the skeletons keep their identity, those of other phases are untouched, each
  step of the phase has a final status; a step whose status is not skipped had all it needs succeed, and the
  phase reports an error exactly when a step failed (or it came with one).
\<close>

definition phase_post ::
  "string \<Rightarrow> Step list \<Rightarrow> statuses \<Rightarrow> pipe_error option \<Rightarrow> StepRun list \<Rightarrow> pipe_error option \<Rightarrow> StepRun list \<Rightarrow> bool" where
  "phase_post ph steps st err srs e srs' \<longleftrightarrow>
     list_all2 same_step srs srs' \<and>
     (\<forall>j < length srs. j \<notin> addressed srs ph steps \<longrightarrow> srs' ! j = srs ! j) \<and>
     (\<forall>i \<in> addressed srs ph steps. sr_Status (srs' ! i) \<in> {StatusSuccess, RunStatusFailed, StatusSkipped}) \<and>
     (e = None \<longleftrightarrow> err = None \<and> (\<forall>i \<in> addressed srs ph steps. sr_Status (srs' ! i) \<noteq> RunStatusFailed)) \<and>
     (\<forall>s \<in> set steps. \<forall>i. run_index srs ph (st_Name s) = Some i \<longrightarrow> sr_Status (srs' ! i) \<noteq> StatusSkipped \<longrightarrow>
        (\<forall>d \<in> set (st_Needs s). st d = Some StatusSuccess \<or>
           (\<exists>j \<in> addressed srs ph steps. run_index srs ph d = Some j \<and> sr_Status (srs' ! j) = StatusSuccess)))"

lemma same_step_keys: "list_all2 same_step srs srs' \<Longrightarrow> step_keys srs' = step_keys srs"
  unfolding step_keys_def by (induction rule: list_all2_induct) (simp_all add: same_step_def)

lemma run_index_same: "list_all2 same_step srs srs' \<Longrightarrow> run_index srs' = run_index srs"
  by (intro ext) (simp add: run_index_keys same_step_keys)

lemma addressed_same: "list_all2 same_step srs srs' \<Longrightarrow> addressed srs' = addressed srs"
  by (intro ext) (simp add: addressed_def run_index_same)

lemma addressed_Cons:
  "run_index srs ph (st_Name s) = Some i \<Longrightarrow> addressed srs ph (s # steps) = insert i (addressed srs ph steps)"
  by (auto simp: addressed_def)

lemma same_step_list_trans:
  "list_all2 same_step xs ys \<Longrightarrow> list_all2 same_step ys zs \<Longrightarrow> list_all2 same_step xs zs"
  by (rule list_all2_trans [of same_step same_step same_step]) (auto intro: same_step_trans)

lemma same_step_list_update:
  "i < length srs \<Longrightarrow> same_step (srs ! i) sr \<Longrightarrow> list_all2 same_step srs (srs[i := sr])"
  by (auto simp: list_all2_conv_all_nth nth_list_update)

lemma runPhase_post:
  assumes "has_skeletons srs ph steps" "runPhase w ph steps st err srs = (e, srs')"
  shows "phase_post ph steps st err srs e srs'"
  using assms
proof (induction w ph steps st err srs arbitrary: e srs' rule: runPhase.induct)
  case (1 w ph st err srs)
  then show ?case by (simp add: phase_post_def addressed_def list_all2_refl_all)
next
  case (2 w ph s steps st err srs)
  obtain i where i: "run_index srs ph (st_Name s) = Some i"
    using "2.prems"(1) by (auto simp: has_skeletons_def)
  then have len: "i < length srs" using run_index_Some by blast
  obtain e1 status sr where v: "visit_step w ph s st (srs ! i) = (e1, status, sr)"
    by (cases "visit_step w ph s st (srs ! i)")
  note vs = visit_step_spec [OF v]
  let ?srs = "srs[i := sr]" and ?st = "st(st_Name s \<mapsto> status)" and ?err = "if err = None then e1 else err"
  have same: "list_all2 same_step srs ?srs" using same_step_list_update len vs by blast
  have "has_skeletons ?srs ph steps"
    using "2.prems"(1) by (auto simp: has_skeletons_def run_index_same [OF same])
  moreover have "runPhase w ph steps ?st ?err ?srs = (e, srs')"
    using "2.prems"(2) i v by simp
  ultimately have post: "phase_post ph steps ?st ?err ?srs e srs'"
    by (rule "2.IH"(2) [OF i v [symmetric] refl])
  have new: "i \<notin> addressed srs ph steps"
    using "2.prems"(1) i run_index_name_inj by (fastforce simp: addressed_def has_skeletons_def)
  then have stays: "srs' ! i = sr"
    using post len by (simp add: phase_post_def addressed_same [OF same])
  note P = post [unfolded phase_post_def addressed_same [OF same] run_index_same [OF same]]
  have 1: "list_all2 same_step srs srs'" using P same same_step_list_trans by blast
  have 2: "\<forall>j < length srs. j \<notin> addressed srs ph (s # steps) \<longrightarrow> srs' ! j = srs ! j"
    using P by (auto simp: addressed_Cons [of srs ph s i steps, OF i])
  have 3: "\<forall>j \<in> addressed srs ph (s # steps). sr_Status (srs' ! j) \<in> {StatusSuccess, RunStatusFailed, StatusSkipped}"
    using P vs stays by (auto simp: addressed_Cons [of srs ph s i steps, OF i])
  have 4: "e = None \<longleftrightarrow> err = None \<and> (\<forall>j \<in> addressed srs ph (s # steps). sr_Status (srs' ! j) \<noteq> RunStatusFailed)"
    using P vs stays by (auto simp: addressed_Cons [of srs ph s i steps, OF i] split: if_splits)
  have 5: "st d = Some StatusSuccess \<or>
      (\<exists>j \<in> addressed srs ph (s # steps). run_index srs ph d = Some j \<and> sr_Status (srs' ! j) = StatusSuccess)"
    if t: "t \<in> set (s # steps)" "run_index srs ph (st_Name t) = Some k" "sr_Status (srs' ! k) \<noteq> StatusSkipped"
      "d \<in> set (st_Needs t)" for t k d
  proof (cases "t = s")
    case True
    with t i stays vs show ?thesis by auto
  next
    case False
    with t P have "?st d = Some StatusSuccess \<or>
        (\<exists>j \<in> addressed srs ph steps. run_index srs ph d = Some j \<and> sr_Status (srs' ! j) = StatusSuccess)"
      by auto
    then show ?thesis
      using i stays vs by (auto simp: addressed_Cons [of srs ph s i steps, OF i] split: if_splits)
  qed
  show ?case unfolding phase_post_def using 1 2 3 4 5 by blast
qed

lemma skipPhase_post:
  assumes "has_skeletons srs ph steps"
  shows "list_all2 same_step srs (skipPhase ph steps srs) \<and>
    (\<forall>j < length srs. j \<notin> addressed srs ph steps \<longrightarrow> skipPhase ph steps srs ! j = srs ! j) \<and>
    (\<forall>i \<in> addressed srs ph steps. sr_Status (skipPhase ph steps srs ! i) = StatusSkipped)"
  using assms
proof (induction ph steps srs rule: skipPhase.induct)
  case (1 ph srs)
  then show ?case by (simp add: addressed_def list_all2_refl_all)
next
  case (2 ph s steps srs)
  obtain i where i: "run_index srs ph (st_Name s) = Some i"
    using "2.prems" by (auto simp: has_skeletons_def)
  then have len: "i < length srs" using run_index_Some by blast
  let ?srs = "srs[i := markStepSkipped (srs ! i)]"
  have "same_step (srs ! i) (markStepSkipped (srs ! i))"
    by (simp add: same_step_def markStepSkipped_def task_target_def comp_def)
  then have same: "list_all2 same_step srs ?srs" by (rule same_step_list_update [OF len])
  have "has_skeletons ?srs ph steps"
    using "2.prems" by (auto simp: has_skeletons_def run_index_same [OF same])
  from "2.IH"(2) [OF i this] have IH: "list_all2 same_step ?srs (skipPhase ph steps ?srs)"
    "\<forall>j < length srs. j \<notin> addressed srs ph steps \<longrightarrow> skipPhase ph steps ?srs ! j = ?srs ! j"
    "\<forall>i \<in> addressed srs ph steps. sr_Status (skipPhase ph steps ?srs ! i) = StatusSkipped"
    by (simp_all add: addressed_same [OF same])
  have new: "i \<notin> addressed srs ph steps"
    using "2.prems" i run_index_name_inj by (fastforce simp: addressed_def has_skeletons_def)
  with IH(2) len have "skipPhase ph steps ?srs ! i = markStepSkipped (srs ! i)" by simp
  with IH i same_step_list_trans [OF same IH(1)] show ?case
    by (auto simp: addressed_Cons [of srs ph s i steps, OF i] markStepSkipped_def)
qed

end
