(* ===== verification/PipelineClaims.thy ===== *)
theory PipelineClaims
  imports PipelineRuns
begin

text \<open>
  A whole run: the skeleton that planning makes fits its plan, and what a run of it leaves behind.
\<close>

section \<open>The skeleton fits the plan\<close>

lemma phase_key_disjoint:
  "ph \<in> set pipelinePhases \<Longrightarrow> ph' \<in> set pipelinePhases \<Longrightarrow> phaseStepKey ph m = phaseStepKey ph' n \<Longrightarrow> ph = ph'"
  by (auto simp: pipelinePhases_def phase_defs phaseStepKey_def)

definition matches :: "PPlan \<Rightarrow> StepRun list \<Rightarrow> bool" where
  "matches plan srs \<longleftrightarrow>
     (\<forall>ph \<in> set pipelinePhases. has_skeletons srs ph (pn_Phases plan ph)) \<and>
     (\<forall>i < length srs. sr_Phase (srs ! i) \<in> set pipelinePhases \<and>
        i \<in> addressed srs (sr_Phase (srs ! i)) (pn_Phases plan (sr_Phase (srs ! i)))) \<and>
     (\<forall>ph \<in> set pipelinePhases. \<forall>s \<in> set (pn_Phases plan ph). \<forall>i. run_index srs ph (st_Name s) = Some i \<longrightarrow>
        sr_Needs (srs ! i) = st_Needs s)"

lemma addressed_phase:
  assumes "matches plan srs" "ph \<in> set pipelinePhases" "i \<in> addressed srs ph steps"
  shows "i < length srs \<and> sr_Phase (srs ! i) = ph"
proof -
  obtain s :: Step where "run_index srs ph (st_Name s) = Some i" using assms(3) unfolding addressed_def by blast
  then have i: "i < length srs" "phaseStepKey (sr_Phase (srs ! i)) (sr_StepName (srs ! i)) = phaseStepKey ph (st_Name s)"
    using run_index_Some by blast+
  then have "sr_Phase (srs ! i) \<in> set pipelinePhases" using assms(1) by (simp add: matches_def)
  with i assms(2) phase_key_disjoint show ?thesis by blast
qed

lemma matches_same:
  assumes "list_all2 same_step srs srs'" "matches plan srs"
  shows "matches plan srs'"
proof -
  have len: "length srs' = length srs" using assms(1) by (simp add: list_all2_lengthD)
  have f: "sr_Phase (srs' ! i) = sr_Phase (srs ! i)" "sr_Needs (srs' ! i) = sr_Needs (srs ! i)"
    if "i < length srs" for i
    using list_all2_nthD [OF assms(1) that] by (simp_all add: same_step_def)
  have lt: "run_index srs ph n = Some i \<Longrightarrow> i < length srs" for ph n i using run_index_Some by blast
  show ?thesis
    using assms(2) unfolding matches_def has_skeletons_def run_index_same [OF assms(1)] addressed_same [OF assms(1)] len
    by (auto simp: f lt)
qed

lemma order_phases_sound:
  assumes "order_phases p phs acc = Inr phases" "distinct phs"
  shows "(\<forall>ph \<in> set phs. ValidateDAG (stepsForPhase p ph) = Inr (phases ph)) \<and> (\<forall>ph. ph \<notin> set phs \<longrightarrow> phases ph = acc ph)"
  using assms
proof (induction p phs acc rule: order_phases.induct)
  case (2 p ph phs acc)
  then obtain steps where v: "ValidateDAG (stepsForPhase p ph) = Inr steps"
    and rest: "order_phases p phs (acc(ph := steps)) = Inr phases" by (auto split: sum.splits)
  have d: "distinct phs" "ph \<notin> set phs" using "2.prems"(2) by simp_all
  have ih: "\<forall>q \<in> set phs. ValidateDAG (stepsForPhase p q) = Inr (phases q)"
    "\<forall>q. q \<notin> set phs \<longrightarrow> phases q = (acc(ph := steps)) q"
    using "2.IH" [OF v rest d(1)] by blast+
  have "phases ph = steps" using ih(2) d(2) by simp
  with ih v show ?case by simp
qed simp

lemma skeletons_keys:
  "skeletons roles hosts pss = Inr srs \<Longrightarrow>
     list_all2 (\<lambda>(ph, s) sr. \<exists>ts. sr = step_skeleton ph s ts \<and> ResolveStepTargets s roles hosts = Inr ts) pss srs"
proof (induction roles hosts pss arbitrary: srs rule: skeletons.induct)
  case (2 roles hosts ph s rest)
  then show ?case by (auto split: sum.splits)
qed simp

lemma BuildPlan_parts:
  assumes "BuildPlan dep p hosts = Inr (plan, run)"
  shows "(\<forall>ph \<in> set pipelinePhases. ValidateDAG (stepsForPhase p ph) = Inr (pn_Phases plan ph)) \<and>
    list_all2 (\<lambda>(ph, s) sr. \<exists>ts. sr = step_skeleton ph s ts \<and> ResolveStepTargets s (pp_Roles p) hosts = Inr ts)
      (phase_steps (pn_Phases plan)) (rn_StepRuns run) \<and> rn_Status run = StatusPending"
proof -
  obtain phases srs where o: "order_phases p pipelinePhases (\<lambda>_. []) = Inr phases"
    and s: "skeletons (pp_Roles p) hosts (phase_steps phases) = Inr srs"
    and plan: "pn_Phases plan = phases" and run: "rn_StepRuns run = srs" "rn_Status run = StatusPending"
    using assms by (auto simp: BuildPlan_def split: sum.splits)
  have "distinct pipelinePhases" by (simp add: pipelinePhases_def)
  with order_phases_sound [OF o] skeletons_keys [OF s] plan run show ?thesis by simp
qed

lemma phase_steps_keys:
  assumes "\<And>ph. ph \<in> set pipelinePhases \<Longrightarrow> distinct (map st_Name (phases ph))"
  shows "distinct (map (\<lambda>(ph, s). phaseStepKey ph (st_Name s)) (phase_steps phases))"
proof -
  have one: "distinct (map (\<lambda>(ph, s). phaseStepKey ph (st_Name s)) (map (Pair ph) (phases ph)))"
    if "ph \<in> set pipelinePhases" for ph
    using assms [OF that] by (auto simp: comp_def distinct_map inj_on_def key_name_inj)
  have keys: "map (\<lambda>(ph, s). phaseStepKey ph (st_Name s)) (phase_steps phases)
      = concat (map (\<lambda>ph. map (\<lambda>s. phaseStepKey ph (st_Name s)) (phases ph)) pipelinePhases)"
    by (simp add: phase_steps_def map_concat comp_def)
  have per: "distinct (map (\<lambda>s. phaseStepKey ph (st_Name s)) (phases ph))" if "ph \<in> set pipelinePhases" for ph
    using one [OF that] by (simp add: comp_def)
  have disj: "phaseStepKey PhaseBuild m \<noteq> phaseStepKey PhaseDeploy n" "phaseStepKey PhaseBuild m \<noteq> phaseStepKey PhaseFinally n"
    "phaseStepKey PhaseDeploy m \<noteq> phaseStepKey PhaseFinally n" for m n
    by (simp_all add: phaseStepKey_def phase_defs)
  show ?thesis
    unfolding keys using per disj by (auto simp: pipelinePhases_def)
qed

lemma BuildPlan_matches:
  assumes "BuildPlan dep p hosts = Inr (plan, run)"
  shows "matches plan (rn_StepRuns run)"
proof -
  let ?srs = "rn_StepRuns run" and ?pss = "phase_steps (pn_Phases plan)"
  note parts = BuildPlan_parts [OF assms]
  have rel: "list_all2 (\<lambda>(ph, s) sr. \<exists>ts. sr = step_skeleton ph s ts \<and> ResolveStepTargets s (pp_Roles p) hosts = Inr ts) ?pss ?srs"
    using parts by blast
  have len: "length ?pss = length ?srs" using rel by (rule list_all2_lengthD)
  have nth: "\<exists>ts. ?srs ! i = step_skeleton (fst (?pss ! i)) (snd (?pss ! i)) ts" if "i < length ?srs" for i
    using list_all2_nthD2 [OF rel that] by (cases "?pss ! i") auto
  have dist: "distinct (map st_Name (pn_Phases plan ph))" if "ph \<in> set pipelinePhases" for ph
  proof -
    have v: "ValidateDAG (stepsForPhase p ph) = Inr (pn_Phases plan ph)" using parts that by blast
    then have "mset (map st_Name (pn_Phases plan ph)) = mset (map st_Name (stepsForPhase p ph))"
      using ValidateDAG_sound by simp
    with ValidateDAG_sound [OF v] show ?thesis unfolding valid_steps_def by (metis mset_eq_imp_distinct_iff)
  qed
  have keys: "step_keys ?srs = map (\<lambda>(ph, s). phaseStepKey ph (st_Name s)) ?pss"
  proof (rule nth_equalityI)
    fix i assume "i < length (step_keys ?srs)"
    then have i: "i < length ?srs" by (simp add: step_keys_def)
    with nth [OF i] len show "step_keys ?srs ! i = map (\<lambda>(ph, s). phaseStepKey ph (st_Name s)) ?pss ! i"
      by (auto simp: step_keys_def step_skeleton_def case_prod_beta)
  qed (simp add: step_keys_def len)
  have d: "distinct (step_keys ?srs)" unfolding keys by (rule phase_steps_keys [OF dist])
  have at: "run_index ?srs (fst (?pss ! i)) (st_Name (snd (?pss ! i))) = Some i" if "i < length ?srs" for i
    using run_index_distinct [OF d that] nth [OF that] by (auto simp: step_skeleton_def)
  have mem: "(ph, s) \<in> set ?pss \<longleftrightarrow> ph \<in> set pipelinePhases \<and> s \<in> set (pn_Phases plan ph)" for ph s
    by (auto simp: phase_steps_def)
  have ix: "\<exists>i < length ?srs. run_index ?srs ph (st_Name s) = Some i \<and> sr_Needs (?srs ! i) = st_Needs s"
    if "ph \<in> set pipelinePhases" "s \<in> set (pn_Phases plan ph)" for ph s
  proof -
    have "(ph, s) \<in> set ?pss" using that mem by blast
    then obtain i where i: "i < length ?pss" "?pss ! i = (ph, s)" by (metis in_set_conv_nth)
    then have "i < length ?srs" using len by simp
    with at [of i] nth [of i] i show ?thesis by (auto simp: step_skeleton_def)
  qed
  show ?thesis
    unfolding matches_def
  proof (intro conjI ballI allI impI)
    fix ph assume ph: "ph \<in> set pipelinePhases"
    then show "has_skeletons ?srs ph (pn_Phases plan ph)"
      unfolding has_skeletons_def using dist [OF ph] ix [OF ph] by fastforce
  next
    fix i assume i: "i < length ?srs"
    let ?ph = "fst (?pss ! i)" and ?s = "snd (?pss ! i)"
    have "(?ph, ?s) \<in> set ?pss" using i len by simp
    then have m: "?ph \<in> set pipelinePhases" "?s \<in> set (pn_Phases plan ?ph)" using mem by blast+
    have "sr_Phase (?srs ! i) = ?ph" using nth [OF i] by (auto simp: step_skeleton_def)
    with m at [OF i] show "sr_Phase (?srs ! i) \<in> set pipelinePhases"
      "i \<in> addressed ?srs (sr_Phase (?srs ! i)) (pn_Phases plan (sr_Phase (?srs ! i)))"
      by (auto simp: addressed_def)
  next
    fix ph s i assume "ph \<in> set pipelinePhases" "s \<in> set (pn_Phases plan ph)" "run_index ?srs ph (st_Name s) = Some i"
    with ix [of ph s] show "sr_Needs (?srs ! i) = st_Needs s" by auto
  qed
qed

section \<open>Rendering leaves closed names alone\<close>

lemma render_closed: "CHR ''$'' \<notin> set s \<Longrightarrow> RenderPipelineVars vs s = s"
  by (induction s) (auto simp: RenderPipelineVars.simps(2))

definition closed_names :: "PPlan \<Rightarrow> bool" where
  "closed_names plan \<longleftrightarrow> (\<forall>ph \<in> set pipelinePhases. \<forall>s \<in> set (pn_Phases plan ph).
     CHR ''$'' \<notin> set (st_Name s) \<and> (\<forall>d \<in> set (st_Needs s). CHR ''$'' \<notin> set d))"

lemma renderStep_closed:
  assumes "closed_names plan" "ph \<in> set pipelinePhases" "s \<in> set (pn_Phases plan ph)"
  shows "st_Name (renderStep vs s) = st_Name s \<and> st_Needs (renderStep vs s) = st_Needs s"
proof -
  have "map (RenderPipelineVars vs) (st_Needs s) = st_Needs s"
    using assms by (intro map_idI) (auto simp: closed_names_def intro: render_closed)
  moreover have "CHR ''$'' \<notin> set (st_Name s)" using assms unfolding closed_names_def by blast
  ultimately show ?thesis by (simp add: renderStep_def renderStringSlice_def render_closed)
qed

lemma render_matches:
  assumes "closed_names plan" "matches plan srs"
  shows "matches (renderRuntimePlan plan vs) srs"
proof -
  have names: "map st_Name (renderSteps vs (pn_Phases plan ph)) = map st_Name (pn_Phases plan ph)"
    if "ph \<in> set pipelinePhases" for ph
    using renderStep_closed [OF assms(1) that] by (simp add: renderSteps_def)
  have addr: "addressed srs ph (renderSteps vs (pn_Phases plan ph)) = addressed srs ph (pn_Phases plan ph)"
    if "ph \<in> set pipelinePhases" for ph
    using renderStep_closed [OF assms(1) that] by (auto simp: addressed_def renderSteps_def)
  have skel: "has_skeletons srs ph (renderSteps vs (pn_Phases plan ph)) = has_skeletons srs ph (pn_Phases plan ph)"
    if "ph \<in> set pipelinePhases" for ph
    unfolding has_skeletons_def names [OF that]
    using renderStep_closed [OF assms(1) that] by (auto simp: renderSteps_def)
  have needs: "sr_Needs (srs ! i) = st_Needs t"
    if "ph \<in> set pipelinePhases" "t \<in> set (renderSteps vs (pn_Phases plan ph))" "run_index srs ph (st_Name t) = Some i" for ph t i
    using that assms(2) renderStep_closed [OF assms(1) that(1)] by (auto simp: renderSteps_def matches_def)
  show ?thesis
    using assms(2) addr skel needs unfolding matches_def by (auto simp: renderRuntimePlan_def)
qed


section \<open>The parts of a run\<close>

text \<open>
  What a phase leaves behind whether it ran or was skipped.
\<close>

definition phase_settled :: "string \<Rightarrow> Step list \<Rightarrow> StepRun list \<Rightarrow> StepRun list \<Rightarrow> bool" where
  "phase_settled ph steps srs srs' \<longleftrightarrow>
     list_all2 same_step srs srs' \<and>
     (\<forall>j < length srs. j \<notin> addressed srs ph steps \<longrightarrow> srs' ! j = srs ! j) \<and>
     (\<forall>i \<in> addressed srs ph steps. sr_Status (srs' ! i) \<in> {StatusSuccess, RunStatusFailed, StatusSkipped}) \<and>
     (\<forall>s \<in> set steps. \<forall>i. run_index srs ph (st_Name s) = Some i \<longrightarrow> sr_Status (srs' ! i) \<noteq> StatusSkipped \<longrightarrow>
        (\<forall>d \<in> set (st_Needs s). \<exists>j \<in> addressed srs ph steps.
           run_index srs ph d = Some j \<and> sr_Status (srs' ! j) = StatusSuccess))"

definition has_failed :: "string \<Rightarrow> Step list \<Rightarrow> StepRun list \<Rightarrow> StepRun list \<Rightarrow> bool" where
  "has_failed ph steps srs srs' \<longleftrightarrow> (\<exists>i \<in> addressed srs ph steps. sr_Status (srs' ! i) = RunStatusFailed)"

definition all_skipped :: "string \<Rightarrow> Step list \<Rightarrow> StepRun list \<Rightarrow> StepRun list \<Rightarrow> bool" where
  "all_skipped ph steps srs srs' \<longleftrightarrow> (\<forall>i \<in> addressed srs ph steps. sr_Status (srs' ! i) = StatusSkipped)"

lemma runPhase_settled:
  assumes "has_skeletons srs ph steps" "runPhase w ph steps Map.empty None srs = (e, srs')"
  shows "phase_settled ph steps srs srs' \<and> (e = None \<longleftrightarrow> \<not> has_failed ph steps srs srs')"
  using runPhase_post [OF assms] unfolding phase_post_def phase_settled_def has_failed_def by simp

lemma skipPhase_settled:
  assumes "has_skeletons srs ph steps"
  shows "phase_settled ph steps srs (skipPhase ph steps srs) \<and> all_skipped ph steps srs (skipPhase ph steps srs)"
proof -
  note p = skipPhase_post [OF assms]
  have "i \<in> addressed srs ph steps" if "s \<in> set steps" "run_index srs ph (st_Name s) = Some i" for s i
    using that unfolding addressed_def by blast
  with p show ?thesis unfolding phase_settled_def all_skipped_def by auto
qed

lemma all_skipped_not_failed: "all_skipped ph steps srs srs' \<Longrightarrow> \<not> has_failed ph steps srs srs'"
  by (auto simp: all_skipped_def has_failed_def)

lemma build_part_post:
  assumes "has_skeletons srs PhaseBuild (pn_Phases plan PhaseBuild)"
    "build_part w opts plan vs run srs = (bf, e, run', srs')"
  shows "phase_settled PhaseBuild (pn_Phases plan PhaseBuild) srs srs' \<and> (bf \<longleftrightarrow> e \<noteq> None) \<and>
    (has_failed PhaseBuild (pn_Phases plan PhaseBuild) srs srs' \<longrightarrow> bf) \<and>
    (bf \<and> ro_AfterBuild opts = None \<longrightarrow> has_failed PhaseBuild (pn_Phases plan PhaseBuild) srs srs')"
proof (cases "ro_SkipBuild opts")
  case True
  with assms(2) skipPhase_settled [OF assms(1)] all_skipped_not_failed show ?thesis
    by (auto simp: build_part_def)
next
  case False
  obtain e1 srs1 where r: "runPhase w PhaseBuild (pn_Phases plan PhaseBuild) Map.empty None srs = (e1, srs1)" by fastforce
  note p = runPhase_settled [OF assms(1) r]
  from False r assms(2) p show ?thesis
    by (auto simp: build_part_def split: if_splits option.splits prod.splits)
qed

lemma deploy_part_post:
  assumes "has_skeletons srs PhaseDeploy (pn_Phases plan PhaseDeploy)" "bf \<longleftrightarrow> e0 \<noteq> None"
    "deploy_part w opts plan vs (bf, e0, run, srs) = (e, run', srs')"
  shows "phase_settled PhaseDeploy (pn_Phases plan PhaseDeploy) srs srs' \<and>
    (bf \<longrightarrow> e = e0 \<and> all_skipped PhaseDeploy (pn_Phases plan PhaseDeploy) srs srs') \<and>
    (e = None \<longrightarrow> \<not> has_failed PhaseDeploy (pn_Phases plan PhaseDeploy) srs srs') \<and>
    (e \<noteq> None \<and> \<not> bf \<and> ro_BeforeDeploy opts = None \<longrightarrow>
       has_failed PhaseDeploy (pn_Phases plan PhaseDeploy) srs srs')"
proof -
  obtain e1 srs1 where r: "runPhase w PhaseDeploy (pn_Phases plan PhaseDeploy) Map.empty None srs = (e1, srs1)" by fastforce
  note p = runPhase_settled [OF assms(1) r] and q = skipPhase_settled [OF assms(1)]
  from assms(2,3) r p q show ?thesis
    by (auto simp: deploy_part_def split: if_splits option.splits prod.splits)
qed

lemma finally_part_post:
  assumes "has_skeletons srs PhaseFinally (pn_Phases plan PhaseFinally)"
    "finally_part w plan (e0, run, srs) = (e, run', srs')"
  shows "phase_settled PhaseFinally (pn_Phases plan PhaseFinally) srs srs' \<and>
    (e = None \<longleftrightarrow> e0 = None \<and> \<not> has_failed PhaseFinally (pn_Phases plan PhaseFinally) srs srs')"
proof -
  obtain e1 srs1 where r: "runPhase w PhaseFinally (pn_Phases plan PhaseFinally) Map.empty None srs = (e1, srs1)" by fastforce
  note p = runPhase_settled [OF assms(1) r]
  from assms(2) r p show ?thesis by (auto simp: finally_part_def split: if_splits)
qed


section \<open>The story of a run\<close>

lemma matches_skeletons: "matches plan srs \<Longrightarrow> ph \<in> set pipelinePhases \<Longrightarrow> has_skeletons srs ph (pn_Phases plan ph)"
  by (simp add: matches_def)

lemma pipeline_phases_mem [simp]:
  "PhaseBuild \<in> set pipelinePhases" "PhaseDeploy \<in> set pipelinePhases" "PhaseFinally \<in> set pipelinePhases"
  by (simp_all add: pipelinePhases_def)

text \<open>A phase later in the run leaves the step runs of another phase as they are.\<close>

lemma settled_frame:
  assumes "matches plan srs" "phase_settled ph' (pn_Phases plan ph') srs srs'"
    "ph \<in> set pipelinePhases" "ph' \<in> set pipelinePhases" "ph \<noteq> ph'" "i \<in> addressed srs ph (pn_Phases plan ph)"
  shows "srs' ! i = srs ! i"
proof -
  have i: "i < length srs" "sr_Phase (srs ! i) = ph" using addressed_phase [OF assms(1,3,6)] by blast+
  then have "i \<notin> addressed srs ph' (pn_Phases plan ph')" using addressed_phase [OF assms(1,4)] assms(5) by blast
  with assms(2) i(1) show ?thesis by (simp add: phase_settled_def)
qed

lemma settled_same: "phase_settled ph steps srs srs' \<Longrightarrow> list_all2 same_step srs srs'"
  by (simp add: phase_settled_def)

text \<open>
  \<open>ended plan srs srs'\<close>: what each phase of a run settled is still there at its end.
\<close>

definition ended :: "PPlan \<Rightarrow> StepRun list \<Rightarrow> StepRun list \<Rightarrow> bool" where
  "ended plan srs srs' \<longleftrightarrow> list_all2 same_step srs srs' \<and>
     (\<forall>ph \<in> set pipelinePhases.
        (\<forall>i \<in> addressed srs ph (pn_Phases plan ph). sr_Status (srs' ! i) \<in> {StatusSuccess, RunStatusFailed, StatusSkipped}) \<and>
        (\<forall>s \<in> set (pn_Phases plan ph). \<forall>i. run_index srs ph (st_Name s) = Some i \<longrightarrow>
           sr_Status (srs' ! i) \<noteq> StatusSkipped \<longrightarrow>
           (\<forall>d \<in> set (st_Needs s). \<exists>j \<in> addressed srs ph (pn_Phases plan ph).
              run_index srs ph d = Some j \<and> sr_Status (srs' ! j) = StatusSuccess)))"

lemma in_addressed: "s \<in> set steps \<Longrightarrow> run_index srs ph (st_Name s) = Some i \<Longrightarrow> i \<in> addressed srs ph steps"
  for s :: Step
  unfolding addressed_def by blast

lemma settled_keeps:
  assumes "phase_settled ph steps srs srs1" "\<And>i. i \<in> addressed srs ph steps \<Longrightarrow> srs' ! i = srs1 ! i"
  shows "(\<forall>i \<in> addressed srs ph steps. sr_Status (srs' ! i) \<in> {StatusSuccess, RunStatusFailed, StatusSkipped}) \<and>
    (\<forall>s \<in> set steps. \<forall>i. run_index srs ph (st_Name s) = Some i \<longrightarrow> sr_Status (srs' ! i) \<noteq> StatusSkipped \<longrightarrow>
       (\<forall>d \<in> set (st_Needs s). \<exists>j \<in> addressed srs ph steps. run_index srs ph d = Some j \<and> sr_Status (srs' ! j) = StatusSuccess))"
proof -
  have s: "sr_Status (srs' ! i) = sr_Status (srs1 ! i)" if "i \<in> addressed srs ph steps" for i
    using assms(2) that by simp
  have "\<exists>j \<in> addressed srs ph steps. run_index srs ph d = Some j \<and> sr_Status (srs' ! j) = StatusSuccess"
    if t: "t \<in> set steps" "run_index srs ph (st_Name t) = Some i" "sr_Status (srs' ! i) \<noteq> StatusSkipped" "d \<in> set (st_Needs t)"
    for t i d
  proof -
    have "sr_Status (srs1 ! i) \<noteq> StatusSkipped" using t(3) s [OF in_addressed [OF t(1,2)]] by simp
    with assms(1) t obtain j where "j \<in> addressed srs ph steps" "run_index srs ph d = Some j" "sr_Status (srs1 ! j) = StatusSuccess"
      unfolding phase_settled_def by blast
    with s show ?thesis by auto
  qed
  moreover have "\<forall>i \<in> addressed srs ph steps. sr_Status (srs' ! i) \<in> {StatusSuccess, RunStatusFailed, StatusSkipped}"
    using assms(1) s by (simp add: phase_settled_def)
  ultimately show ?thesis by blast
qed

lemma three_phases:
  assumes m: "matches plan srs"
    and b: "phase_settled PhaseBuild (pn_Phases plan PhaseBuild) srs srs1"
    and d: "phase_settled PhaseDeploy (pn_Phases plan PhaseDeploy) srs1 srs2"
    and f: "phase_settled PhaseFinally (pn_Phases plan PhaseFinally) srs2 srs3"
  shows "ended plan srs srs3 \<and>
    (\<forall>i \<in> addressed srs PhaseBuild (pn_Phases plan PhaseBuild). srs3 ! i = srs1 ! i) \<and>
    (\<forall>i \<in> addressed srs PhaseDeploy (pn_Phases plan PhaseDeploy). srs3 ! i = srs2 ! i)"
proof -
  have s1: "list_all2 same_step srs srs1" and s12: "list_all2 same_step srs1 srs2" and s23: "list_all2 same_step srs2 srs3"
    using b d f by (simp_all add: settled_same)
  have s2: "list_all2 same_step srs srs2" and s3: "list_all2 same_step srs srs3"
    using s1 s12 s23 same_step_list_trans by blast+
  have m1: "matches plan srs1" and m2: "matches plan srs2" using m s1 s2 matches_same by blast+
  note ix = addressed_same [OF s1] addressed_same [OF s2] run_index_same [OF s1] run_index_same [OF s2]
  have kb: "srs3 ! i = srs1 ! i" if "i \<in> addressed srs PhaseBuild (pn_Phases plan PhaseBuild)" for i
    using settled_frame [OF m1 d, of PhaseBuild i] settled_frame [OF m2 f, of PhaseBuild i] that by (simp add: ix)
  have kd: "srs3 ! i = srs2 ! i" if "i \<in> addressed srs PhaseDeploy (pn_Phases plan PhaseDeploy)" for i
    using settled_frame [OF m2 f, of PhaseDeploy i] that by (simp add: ix)
  have e: "\<forall>ph \<in> set pipelinePhases.
      (\<forall>i \<in> addressed srs ph (pn_Phases plan ph). sr_Status (srs3 ! i) \<in> {StatusSuccess, RunStatusFailed, StatusSkipped}) \<and>
      (\<forall>s \<in> set (pn_Phases plan ph). \<forall>i. run_index srs ph (st_Name s) = Some i \<longrightarrow>
         sr_Status (srs3 ! i) \<noteq> StatusSkipped \<longrightarrow>
         (\<forall>d \<in> set (st_Needs s). \<exists>j \<in> addressed srs ph (pn_Phases plan ph).
            run_index srs ph d = Some j \<and> sr_Status (srs3 ! j) = StatusSuccess))"
    using settled_keeps [OF b kb] settled_keeps [OF d, of srs3] settled_keeps [OF f, of srs3] kd
    unfolding pipelinePhases_def ix by simp
  with s3 kb kd show ?thesis unfolding ended_def by blast
qed

lemma run_story:
  assumes "RunWithOptions w su opts plan run = (run', e)" "su_TempDir su = Inr dir" "su_ReservedDirs su = None"
    "matches (renderRuntimePlan plan (runtime_vars su plan dir)) (rn_StepRuns run)"
  defines "ep \<equiv> renderRuntimePlan plan (runtime_vars su plan dir)"
  defines "srs \<equiv> rn_StepRuns run" and "srs' \<equiv> rn_StepRuns run'"
  shows "ended ep srs srs' \<and> rn_Status run' = (if e = None then StatusSuccess else RunStatusFailed) \<and>
    (has_failed PhaseBuild (pn_Phases ep PhaseBuild) srs srs' \<longrightarrow> all_skipped PhaseDeploy (pn_Phases ep PhaseDeploy) srs srs') \<and>
    (e = None \<longrightarrow> (\<forall>ph \<in> set pipelinePhases. \<not> has_failed ph (pn_Phases ep ph) srs srs')) \<and>
    (e \<noteq> None \<and> ro_AfterBuild opts = None \<and> ro_BeforeDeploy opts = None \<longrightarrow>
       (\<exists>ph \<in> set pipelinePhases. has_failed ph (pn_Phases ep ph) srs srs'))"
proof -
  let ?run = "run\<lparr>rn_Status := RunStatusRunning, rn_StartedAt := su_Started su\<rparr>" and ?vs = "runtime_vars su plan dir"
  obtain bf e1 run1 srs1 where b: "build_part w opts ep ?vs ?run srs = (bf, e1, run1, srs1)"
    by (cases "build_part w opts ep ?vs ?run srs")
  obtain e2 run2 srs2 where d: "deploy_part w opts ep ?vs (bf, e1, run1, srs1) = (e2, run2, srs2)"
    by (cases "deploy_part w opts ep ?vs (bf, e1, run1, srs1)")
  obtain e3 run3 srs3 where f: "finally_part w ep (e2, run2, srs2) = (e3, run3, srs3)"
    by (cases "finally_part w ep (e2, run2, srs2)")
  have res: "e = e3" "srs' = srs3" "rn_Status run' = (if e = None then StatusSuccess else RunStatusFailed)"
    using assms(1-3) b d f by (auto simp: RunWithOptions_def Let_def ep_def [symmetric] srs_def srs'_def)
  have m: "matches ep srs" using assms(4) by (simp add: ep_def srs_def)
  note pb = build_part_post [OF matches_skeletons [OF m pipeline_phases_mem(1)] b]
  have bf: "bf \<longleftrightarrow> e1 \<noteq> None" and set1: "phase_settled PhaseBuild (pn_Phases ep PhaseBuild) srs srs1" using pb by simp_all
  have s1: "list_all2 same_step srs srs1" by (rule settled_same [OF set1])
  have m1: "matches ep srs1" by (rule matches_same [OF s1 m])
  note dp = deploy_part_post [OF matches_skeletons [OF m1 pipeline_phases_mem(2)] bf d]
  have pd: "phase_settled PhaseDeploy (pn_Phases ep PhaseDeploy) srs1 srs2"
    "bf \<Longrightarrow> e2 = e1 \<and> all_skipped PhaseDeploy (pn_Phases ep PhaseDeploy) srs1 srs2"
    "e2 = None \<Longrightarrow> \<not> has_failed PhaseDeploy (pn_Phases ep PhaseDeploy) srs1 srs2"
    "e2 \<noteq> None \<Longrightarrow> \<not> bf \<Longrightarrow> ro_BeforeDeploy opts = None \<Longrightarrow> has_failed PhaseDeploy (pn_Phases ep PhaseDeploy) srs1 srs2"
    using dp by simp_all
  have s2: "list_all2 same_step srs srs2" by (rule same_step_list_trans [OF s1 settled_same [OF pd(1)]])
  have m2: "matches ep srs2" by (rule matches_same [OF s2 m])
  note pf = finally_part_post [OF matches_skeletons [OF m2 pipeline_phases_mem(3)] f]
  then have set3: "phase_settled PhaseFinally (pn_Phases ep PhaseFinally) srs2 srs3" by simp
  note three = three_phases [OF m set1 pd(1) set3]
  have ends: "ended ep srs srs3"
    "\<And>i. i \<in> addressed srs PhaseBuild (pn_Phases ep PhaseBuild) \<Longrightarrow> srs3 ! i = srs1 ! i"
    "\<And>i. i \<in> addressed srs PhaseDeploy (pn_Phases ep PhaseDeploy) \<Longrightarrow> srs3 ! i = srs2 ! i"
    using three by simp_all
  have hb: "has_failed PhaseBuild (pn_Phases ep PhaseBuild) srs srs3 = has_failed PhaseBuild (pn_Phases ep PhaseBuild) srs srs1"
    using ends(2) by (simp add: has_failed_def)
  have hd: "has_failed PhaseDeploy (pn_Phases ep PhaseDeploy) srs srs3 = has_failed PhaseDeploy (pn_Phases ep PhaseDeploy) srs1 srs2"
    "all_skipped PhaseDeploy (pn_Phases ep PhaseDeploy) srs srs3 = all_skipped PhaseDeploy (pn_Phases ep PhaseDeploy) srs1 srs2"
    using ends(3) by (simp_all add: has_failed_def all_skipped_def addressed_same [OF s1])
  have hf: "has_failed PhaseFinally (pn_Phases ep PhaseFinally) srs srs3 = has_failed PhaseFinally (pn_Phases ep PhaseFinally) srs2 srs3"
    by (simp add: has_failed_def addressed_same [OF s2])
  have ok: "\<forall>ph \<in> set pipelinePhases. \<not> has_failed ph (pn_Phases ep ph) srs srs3" if "e = None"
  proof -
    have "e2 = None" "\<not> has_failed PhaseFinally (pn_Phases ep PhaseFinally) srs2 srs3" using that res pf by simp_all
    moreover from this have "\<not> bf" using pb pd by auto
    ultimately have "\<not> has_failed PhaseBuild (pn_Phases ep PhaseBuild) srs srs3"
      "\<not> has_failed PhaseDeploy (pn_Phases ep PhaseDeploy) srs srs3"
      "\<not> has_failed PhaseFinally (pn_Phases ep PhaseFinally) srs srs3"
      using pb pd(3) hb hd hf by auto
    then show ?thesis by (simp add: pipelinePhases_def)
  qed
  have bad: "\<exists>ph \<in> set pipelinePhases. has_failed ph (pn_Phases ep ph) srs srs3"
    if "e \<noteq> None" "ro_AfterBuild opts = None" "ro_BeforeDeploy opts = None"
  proof (cases bf)
    case True
    then have "has_failed PhaseBuild (pn_Phases ep PhaseBuild) srs srs3" using that pb hb by blast
    then show ?thesis by auto
  next
    case False
    show ?thesis
    proof (cases "e2 = None")
      case True
      then have "has_failed PhaseFinally (pn_Phases ep PhaseFinally) srs srs3" using that(1) res(1) pf hf by simp
      then show ?thesis by auto
    next
      case e2: False
      have "has_failed PhaseDeploy (pn_Phases ep PhaseDeploy) srs srs3" using pd(4) [OF e2 False that(3)] hd by simp
      then show ?thesis by auto
    qed
  qed
  have skip: "all_skipped PhaseDeploy (pn_Phases ep PhaseDeploy) srs srs3"
    if "has_failed PhaseBuild (pn_Phases ep PhaseBuild) srs srs3"
  proof -
    have bf using that pb hb by blast
    with pd(2) hd show ?thesis by simp
  qed
  show ?thesis
    unfolding res(2) using res(3) ends(1) ok bad skip by simp
qed


section \<open>What a run promises\<close>

text \<open>
  The story told of the step runs themselves: their indices are addressed by the steps of their phase.
\<close>

lemma run_facts:
  assumes "BuildPlan dep p hosts = Inr (plan, run)" "closed_names plan"
    "su_TempDir su = Inr dir" "su_ReservedDirs su = None" "RunWithOptions w su opts plan run = (run', e)"
  defines "ep \<equiv> renderRuntimePlan plan (runtime_vars su plan dir)"
  shows "matches ep (rn_StepRuns run)" "list_all2 same_step (rn_StepRuns run) (rn_StepRuns run')"
    "matches ep (rn_StepRuns run')"
    "ended ep (rn_StepRuns run) (rn_StepRuns run')"
proof -
  show m: "matches ep (rn_StepRuns run)"
    unfolding ep_def by (rule render_matches [OF assms(2) BuildPlan_matches [OF assms(1)]])
  show e: "ended ep (rn_StepRuns run) (rn_StepRuns run')"
    using run_story [OF assms(5,3,4)] m unfolding ep_def by blast
  then show s: "list_all2 same_step (rn_StepRuns run) (rn_StepRuns run')" by (simp add: ended_def)
  show "matches ep (rn_StepRuns run')" by (rule matches_same [OF s m])
qed

lemma step_run_addressed:
  assumes "matches plan srs" "list_all2 same_step srs srs'" "sr \<in> set srs'"
  obtains i ph where "i < length srs'" "sr = srs' ! i" "ph \<in> set pipelinePhases" "sr_Phase sr = ph"
    "i \<in> addressed srs ph (pn_Phases plan ph)"
proof -
  obtain i where i: "i < length srs'" "sr = srs' ! i" using assms(3) by (metis in_set_conv_nth)
  have m: "matches plan srs'" by (rule matches_same [OF assms(2,1)])
  then have "sr_Phase sr \<in> set pipelinePhases" "i \<in> addressed srs' (sr_Phase sr) (pn_Phases plan (sr_Phase sr))"
    using i by (simp_all add: matches_def)
  with i addressed_same [OF assms(2)] show thesis using that by simp
qed

lemma has_failed_iff:
  assumes "matches plan srs" "list_all2 same_step srs srs'" "ph \<in> set pipelinePhases"
  shows "has_failed ph (pn_Phases plan ph) srs srs' \<longleftrightarrow>
    (\<exists>sr \<in> set srs'. sr_Phase sr = ph \<and> sr_Status sr = RunStatusFailed)"
proof
  assume "has_failed ph (pn_Phases plan ph) srs srs'"
  then obtain i where i: "i \<in> addressed srs' ph (pn_Phases plan ph)" "sr_Status (srs' ! i) = RunStatusFailed"
    by (auto simp: has_failed_def addressed_same [OF assms(2)])
  then have "i < length srs' \<and> sr_Phase (srs' ! i) = ph"
    by (intro addressed_phase [OF matches_same [OF assms(2,1)] assms(3)])
  with i show "\<exists>sr \<in> set srs'. sr_Phase sr = ph \<and> sr_Status sr = RunStatusFailed"
    using nth_mem by blast
next
  assume "\<exists>sr \<in> set srs'. sr_Phase sr = ph \<and> sr_Status sr = RunStatusFailed"
  then obtain sr where sr: "sr \<in> set srs'" "sr_Phase sr = ph" "sr_Status sr = RunStatusFailed" by blast
  then show "has_failed ph (pn_Phases plan ph) srs srs'"
    using step_run_addressed [OF assms(1,2) sr(1)] unfolding has_failed_def by metis
qed

end
