(* ===== verification/PipelineSafety.thy ===== *)
theory PipelineSafety
  imports PipelineClaims
begin

text \<open>
  The properties of a run, each with a run of a small pipeline that meets its hypotheses.
\<close>

section \<open>A small pipeline\<close>

definition sample_pipeline :: Pipeline where
  "sample_pipeline = \<lparr>pp_Variables = [''env'' \<mapsto> ''dev''], pp_Roles = [''web'' \<mapsto> [''h1'', ''h2'']],
     pp_Build = [sample_step ''test'' [''compile''], sample_step ''compile'' []],
     pp_Deploy = [(sample_step ''copy'' [])\<lparr>st_Roles := [''web''], st_Concurrency := ''batch:1''\<rparr>],
     pp_Finally = [sample_step ''clean'' []]\<rparr>"

definition sample_hosts :: "HostRef list" where
  "sample_hosts = [\<lparr>hr_ID = ''h1'', hr_Name = ''one'', hr_Address = ''10.0.0.1''\<rparr>,
     \<lparr>hr_ID = ''h2'', hr_Name = ''two'', hr_Address = ''10.0.0.2''\<rparr>]"

definition sample_built :: "PPlan \<times> Run" where
  "sample_built = projr (BuildPlan ''d1'' sample_pipeline sample_hosts)"

text \<open>A world whose step \<open>bad\<close> fails on its first attempt.\<close>

definition sample_world :: "string \<Rightarrow> world" where
  "sample_world bad = \<lparr>wl_plugins = (\<lambda>t. Some \<lparr>pg_Validate = (\<lambda>s. None), pg_ValidateTargets = None\<rparr>),
     wl_exec = (\<lambda>ph s i k. if st_Name s = bad \<and> k = 0 then Some (ExecError (Some 7)) else None),
     wl_done = (\<lambda>ph s i k. False), wl_done_waiting = (\<lambda>ph s i k. False),
     wl_start = (\<lambda>ph s i. 1), wl_finish = (\<lambda>ph s i. 2), wl_schedule = (\<lambda>ph s is. is)\<rparr>"

definition sample_setup :: run_setup where
  "sample_setup = \<lparr>su_TempDir = Inr ''/tmp/run'', su_ReservedDirs = None, su_Date = ''20260101'', su_Time = ''120000'',
     su_Order = (\<lambda>i. []), su_Started = 5, su_Finished = 9\<rparr>"

lemma sample_built: "BuildPlan ''d1'' sample_pipeline sample_hosts = Inr (fst sample_built, snd sample_built)"
proof -
  have "\<not> isl (BuildPlan ''d1'' sample_pipeline sample_hosts)" by code_simp
  then show ?thesis unfolding sample_built_def by (simp add: sum.collapse(2))
qed

lemma sample_closed: "closed_names (fst sample_built)"
  by code_simp

lemma sample_setup: "su_TempDir sample_setup = Inr ''/tmp/run''" "su_ReservedDirs sample_setup = None"
  by (simp_all add: sample_setup_def)

lemmas sample_run = sample_built sample_closed sample_setup prod.collapse [symmetric]

section \<open>Runs\<close>






text \<open>
  When a build step failed, no deploy step ran: every step run of the deploy phase ends as skipped.
\<close>

theorem failed_build_skips_deploy:
  assumes "BuildPlan dep p hosts = Inr (plan, run)" "closed_names plan"
    "su_TempDir su = Inr dir" "su_ReservedDirs su = None" "RunWithOptions w su opts plan run = (run', e)"
    "b \<in> set (rn_StepRuns run')" "sr_Phase b = PhaseBuild" "sr_Status b = RunStatusFailed"
    "d \<in> set (rn_StepRuns run')" "sr_Phase d = PhaseDeploy"
  shows "sr_Status d = StatusSkipped"
proof -
  note facts = run_facts [OF assms(1-5)]
  note story = run_story [OF assms(5,3,4) facts(1)]
  have "has_failed PhaseBuild (pn_Phases (renderRuntimePlan plan (runtime_vars su plan dir)) PhaseBuild)
      (rn_StepRuns run) (rn_StepRuns run')"
    using has_failed_iff [OF facts(1,2) pipeline_phases_mem(1)] assms(6-8) by blast
  then have "all_skipped PhaseDeploy (pn_Phases (renderRuntimePlan plan (runtime_vars su plan dir)) PhaseDeploy)
      (rn_StepRuns run) (rn_StepRuns run')"
    using story by blast
  then show ?thesis
    using step_run_addressed [OF facts(1,2) assms(9)] assms(10) unfolding all_skipped_def by metis
qed

theorem failed_build_skips_deploy_witness:
  "sr_Status (rn_StepRuns (fst (EngineRun (sample_world ''compile'') sample_setup (fst sample_built) (snd sample_built))) ! 2) =
     StatusSkipped"
proof -
  let ?run = "fst (EngineRun (sample_world ''compile'') sample_setup (fst sample_built) (snd sample_built))"
  have b: "0 < length (rn_StepRuns ?run)" "sr_Phase (rn_StepRuns ?run ! 0) = PhaseBuild"
    "sr_Status (rn_StepRuns ?run ! 0) = RunStatusFailed" by code_simp+
  have d: "2 < length (rn_StepRuns ?run)" "sr_Phase (rn_StepRuns ?run ! 2) = PhaseDeploy" by code_simp+
  note r = b [unfolded EngineRun_def] d [unfolded EngineRun_def]
  show ?thesis
    unfolding EngineRun_def
    by (rule failed_build_skips_deploy [OF sample_run nth_mem [OF r(1)] r(2,3) nth_mem [OF r(4)] r(5)])
qed

text \<open>
  The verdict of a plain run (no hooks) is the verdict of its steps: it returns no error and ends as
  success exactly when none of its step runs failed; otherwise it returns an error and ends as failed.
\<close>

theorem run_verdict:
  assumes "BuildPlan dep p hosts = Inr (plan, run)" "closed_names plan"
    "su_TempDir su = Inr dir" "su_ReservedDirs su = None" "EngineRun w su plan run = (run', e)"
  shows "(e = None \<longleftrightarrow> (\<forall>sr \<in> set (rn_StepRuns run'). sr_Status sr \<noteq> RunStatusFailed)) \<and>
    rn_Status run' = (if e = None then StatusSuccess else RunStatusFailed)"
proof -
  let ?opts = "\<lparr>ro_SkipBuild = False, ro_AfterBuild = None, ro_BeforeDeploy = None\<rparr>"
    and ?ep = "renderRuntimePlan plan (runtime_vars su plan dir)"
  have r: "RunWithOptions w su ?opts plan run = (run', e)" using assms(5) by (simp add: EngineRun_def)
  note facts = run_facts [OF assms(1-4) r]
  note story = run_story [OF r assms(3,4) facts(1)]
  have phase: "sr_Phase sr \<in> set pipelinePhases" if "sr \<in> set (rn_StepRuns run')" for sr
    using step_run_addressed [OF facts(1,2) that] by metis
  have "e = None \<longleftrightarrow> (\<forall>ph \<in> set pipelinePhases. \<not> has_failed ph (pn_Phases ?ep ph) (rn_StepRuns run) (rn_StepRuns run'))"
    using story by (cases "e = None") auto
  also have "\<dots> \<longleftrightarrow> (\<forall>ph \<in> set pipelinePhases. \<forall>sr \<in> set (rn_StepRuns run'). sr_Phase sr = ph \<longrightarrow> sr_Status sr \<noteq> RunStatusFailed)"
    using has_failed_iff [OF facts(1,2)] by blast
  also have "\<dots> \<longleftrightarrow> (\<forall>sr \<in> set (rn_StepRuns run'). sr_Status sr \<noteq> RunStatusFailed)"
    using phase by blast
  finally show ?thesis using story by blast
qed

theorem run_verdict_witness:
  "rn_Status (fst (EngineRun (sample_world ''copy'') sample_setup (fst sample_built) (snd sample_built))) = RunStatusFailed \<and>
   (\<exists>sr \<in> set (rn_StepRuns (fst (EngineRun (sample_world ''copy'') sample_setup (fst sample_built) (snd sample_built)))).
      sr_Status sr = RunStatusFailed)"
proof -
  let ?r = "EngineRun (sample_world ''copy'') sample_setup (fst sample_built) (snd sample_built)"
  have "\<not> Option.is_none (snd ?r)" by code_simp
  then have "snd ?r \<noteq> None" by (simp add: Option.is_none_def)
  with run_verdict [OF sample_run, of "sample_world ''copy''"] show ?thesis by auto
qed

end
