(* ===== verification/PipelineTasks.thy ===== *)
theory PipelineTasks
  imports PipelineSafety
begin

text \<open>
  The tasks of a step: retries stop at the first success, a batch does not depend on the order its
  goroutines take effect in, and the modes of concurrency agree when no task fails.
\<close>

section \<open>Retries\<close>

lemma retry_loop_None:
  "retry_loop fn dn waiting delay left k err = None \<longleftrightarrow>
     (left = 0 \<and> err = None) \<or>
     (\<exists>m < left. fn (k + m) = None \<and> (\<forall>j < m. fn (k + j) \<noteq> None \<and> (delay \<le> 0 \<or> \<not> waiting (k + j))) \<and>
        (\<forall>j \<le> m. \<not> dn (k + j)))"
proof (induction left arbitrary: k err)
  case (Suc left)
  let ?P = "\<lambda>k m. fn (k + m) = None \<and> (\<forall>j < m. fn (k + j) \<noteq> None \<and> (delay \<le> 0 \<or> \<not> waiting (k + j))) \<and>
    (\<forall>j \<le> m. \<not> dn (k + j))"
  have shift: "?P k (Suc m) \<longleftrightarrow> fn k \<noteq> None \<and> (delay \<le> 0 \<or> \<not> waiting k) \<and> \<not> dn k \<and> ?P (Suc k) m" for m
    by (auto simp: All_less_Suc2 le_Suc_eq less_Suc_eq_le [symmetric])
  have "(\<exists>m < Suc left. ?P k m) \<longleftrightarrow>
      (fn k = None \<and> \<not> dn k) \<or> (fn k \<noteq> None \<and> (delay \<le> 0 \<or> \<not> waiting k) \<and> \<not> dn k \<and> (\<exists>m < left. ?P (Suc k) m))"
    unfolding Ex_less_Suc2 shift by auto
  with Suc.IH [of "Suc k"] show ?case
    by (cases "fn k"; cases "dn k"; cases "left = 0"; cases "delay \<le> 0"; cases "waiting k") simp_all
qed simp



section \<open>The effect of one task\<close>

definition task_outcome :: "world \<Rightarrow> string \<Rightarrow> Step \<Rightarrow> nat \<Rightarrow> Task \<Rightarrow> Task" where
  "task_outcome w ph step i t =
     (case task_result w ph step i of
        None \<Rightarrow> t\<lparr>tk_StartedAt := wl_start w ph step i, tk_Status := StatusSuccess, tk_FinishedAt := wl_finish w ph step i\<rparr>
      | Some e \<Rightarrow> t\<lparr>tk_StartedAt := wl_start w ph step i, tk_ExitCode := exitCodeFromError e,
          tk_Status := RunStatusFailed, tk_FinishedAt := wl_finish w ph step i\<rparr>)"

lemma update_at_twice: "update_at (update_at xs i f) i g = update_at xs i (g \<circ> f)"
  by (cases "i < length xs") (simp_all add: update_at_def list_update_beyond)

lemma executeOneTask_outcome:
  "executeOneTask w ph step i sr =
     (task_result w ph step i, sr\<lparr>sr_Tasks := update_at (sr_Tasks sr) i (task_outcome w ph step i)\<rparr>)"
  by (cases "task_result w ph step i")
    (simp_all add: Let_def executeOneTask_def startTask_def finishTask_def setExitCode_def update_at_twice comp_def,
     simp_all add: update_at_def task_outcome_def)

text \<open>The tasks of a step after those at the indices \<open>S\<close> have taken effect.\<close>

definition tasks_after :: "world \<Rightarrow> string \<Rightarrow> Step \<Rightarrow> nat set \<Rightarrow> Task list \<Rightarrow> Task list" where
  "tasks_after w ph step S ts = map (\<lambda>j. if j \<in> S then task_outcome w ph step j (ts ! j) else ts ! j) [0..<length ts]"

lemma tasks_after_empty [simp]: "tasks_after w ph step {} ts = ts"
  by (simp add: tasks_after_def map_nth)

lemma length_tasks_after [simp]: "length (tasks_after w ph step S ts) = length ts"
  by (simp add: tasks_after_def)

lemma nth_tasks_after:
  "j < length ts \<Longrightarrow> tasks_after w ph step S ts ! j = (if j \<in> S then task_outcome w ph step j (ts ! j) else ts ! j)"
  by (simp add: tasks_after_def)

lemma tasks_after_update:
  "i \<notin> S \<Longrightarrow> tasks_after w ph step S (update_at ts i (task_outcome w ph step i)) = tasks_after w ph step (insert i S) ts"
  by (rule nth_equalityI) (auto simp: nth_tasks_after nth_update_at)

lemma tasks_after_union:
  "S \<inter> T = {} \<Longrightarrow> tasks_after w ph step T (tasks_after w ph step S ts) = tasks_after w ph step (S \<union> T) ts"
  by (rule nth_equalityI) (auto simp: nth_tasks_after)

section \<open>Batches\<close>

lemma run_all_outcome:
  "distinct is \<Longrightarrow>
     run_all w ph step is sr = (List.map_filter (task_result w ph step) is,
       sr\<lparr>sr_Tasks := tasks_after w ph step (set is) (sr_Tasks sr)\<rparr>)"
proof (induction "is" arbitrary: sr)
  case (Cons i "is")
  then show ?case
    by (simp add: executeOneTask_outcome tasks_after_update map_filter_simps split: option.split)
qed (simp add: map_filter_simps)

lemma run_serial_outcome:
  "distinct is \<Longrightarrow> (\<And>i. i \<in> set is \<Longrightarrow> task_result w ph step i = None) \<Longrightarrow>
     run_serial w ph step is sr = (None, sr\<lparr>sr_Tasks := tasks_after w ph step (set is) (sr_Tasks sr)\<rparr>)"
proof (induction "is" arbitrary: sr)
  case (Cons i "is")
  then show ?case by (simp add: executeOneTask_outcome tasks_after_update)
qed simp

lemma map_filter_Nil: "List.map_filter f xs = [] \<longleftrightarrow> (\<forall>x \<in> set xs. f x = None)"
  by (induction xs) (auto simp: map_filter_simps split: option.split)

lemma set_map_filter: "y \<in> set (List.map_filter f xs) \<longleftrightarrow> (\<exists>x \<in> set xs. f x = Some y)"
  by (induction xs) (auto simp: map_filter_simps split: option.split)

lemma batch_effect:
  assumes "distinct is" "mset (wl_schedule w ph step is) = mset is" "executeTaskBatch w ph step is sr = (e, sr')"
  shows "sr' = sr\<lparr>sr_Tasks := tasks_after w ph step (set is) (sr_Tasks sr)\<rparr> \<and>
    (e = None \<longleftrightarrow> (\<forall>i \<in> set is. task_result w ph step i = None)) \<and>
    (\<forall>x. e = Some x \<longrightarrow> (\<exists>i \<in> set is. task_result w ph step i = Some x))"
proof -
  let ?s = "wl_schedule w ph step is"
  have s: "distinct ?s" "set ?s = set is"
    using assms(1,2) mset_eq_imp_distinct_iff mset_eq_setD by blast+
  have r: "e = (if List.map_filter (task_result w ph step) ?s = [] then None
      else Some (hd (List.map_filter (task_result w ph step) ?s)))"
    "sr' = sr\<lparr>sr_Tasks := tasks_after w ph step (set is) (sr_Tasks sr)\<rparr>"
    using assms(3) run_all_outcome [OF s(1)] s(2) by (auto simp: executeTaskBatch_def)
  have "\<exists>i \<in> set is. task_result w ph step i = Some x" if "e = Some x" for x
  proof -
    have "x \<in> set (List.map_filter (task_result w ph step) ?s)"
      using that r(1) by (auto split: if_splits intro: hd_in_set)
    then show ?thesis using s(2) by (simp add: set_map_filter)
  qed
  with r s(2) show ?thesis by (auto simp: map_filter_Nil)
qed



section \<open>The modes of concurrency\<close>

lemma run_batches_outcome:
  assumes "\<And>is. mset (wl_schedule w ph step is) = mset is" "\<And>i. i < n \<Longrightarrow> task_result w ph step i = None" "0 < limit"
  shows "run_batches w ph step limit start n sr =
    (None, sr\<lparr>sr_Tasks := tasks_after w ph step {start..<n} (sr_Tasks sr)\<rparr>)"
  using assms
proof (induction w ph step limit start n sr rule: run_batches.induct)
  case (1 w ph step limit start n sr)
  show ?case
  proof (cases "n \<le> start")
    case True
    then show ?thesis by (simp add: run_batches.simps [of w ph step limit start])
  next
    case False
    let ?is = "rangeIndexes start (min (start + limit) n)"
    let ?sr = "sr\<lparr>sr_Tasks := tasks_after w ph step (set ?is) (sr_Tasks sr)\<rparr>"
    have set: "set ?is = {start..<min (start + limit) n}" by (simp add: rangeIndexes_def)
    have dist: "distinct ?is" by (simp add: rangeIndexes_def)
    obtain e sr1 where b: "executeTaskBatch w ph step ?is sr = (e, sr1)" by fastforce
    note batch = batch_effect [OF dist "1.prems"(1) b]
    have e: "e = None" "sr1 = ?sr" using batch "1.prems"(2) set by auto
    have ih: "run_batches w ph step limit (start + limit) n ?sr =
        (None, ?sr\<lparr>sr_Tasks := tasks_after w ph step {start + limit..<n} (sr_Tasks ?sr)\<rparr>)"
      using "1.IH" [of e sr1] "1.prems" False b e by simp
    have "{start..<min (start + limit) n} \<inter> {start + limit..<n} = {}"
      "{start..<min (start + limit) n} \<union> {start + limit..<n} = {start..<n}"
      using False "1.prems"(3) by auto
    then have "tasks_after w ph step {start + limit..<n} (sr_Tasks ?sr) = tasks_after w ph step {start..<n} (sr_Tasks sr)"
      by (simp add: tasks_after_union set)
    with ih b e False "1.prems"(3) show ?thesis by (simp add: run_batches.simps [of w ph step limit start])
  qed
qed

lemma concurrency_limit:
  "ParseStepConcurrency v = Inr c \<Longrightarrow> sc_Mode c = ConcurrencyBatch \<Longrightarrow> 0 < sc_Limit c"
  by (auto simp: ParseStepConcurrency_def Let_def split: if_splits option.splits)

text \<open>
  When no task of a step fails, the three modes of concurrency agree: serial, parallel or in batches of
  any size, whatever the schedule, the step returns no error and each of its tasks ends as it would alone.
\<close>

theorem concurrency_modes_agree:
  assumes "ParseStepConcurrency v = Inr c" "\<And>is. mset (wl_schedule w ph step is) = mset is"
    "\<And>i. i < length (sr_Tasks sr) \<Longrightarrow> task_result w ph step i = None"
  shows "executeStepTasks w ph step c sr =
    (None, sr\<lparr>sr_Tasks := tasks_after w ph step {0..<length (sr_Tasks sr)} (sr_Tasks sr)\<rparr>)"
proof -
  let ?n = "length (sr_Tasks sr)"
  have ixs: "distinct (rangeIndexes 0 ?n)" "set (rangeIndexes 0 ?n) = {0..<?n}" by (simp_all add: rangeIndexes_def)
  show ?thesis
  proof (cases "?n = 1 \<and> IsLocal (task_target (sr_Tasks sr ! 0))")
    case True
    then have "update_at (sr_Tasks sr) 0 (task_outcome w ph step 0) = tasks_after w ph step {0..<?n} (sr_Tasks sr)"
      by (intro nth_equalityI) (auto simp: nth_tasks_after nth_update_at)
    with True assms(3) show ?thesis by (simp add: executeStepTasks_def executeOneTask_outcome)
  next
    case False
    obtain e sr1 where b: "executeTaskBatch w ph step (rangeIndexes 0 ?n) sr = (e, sr1)" by fastforce
    have "run_serial w ph step (rangeIndexes 0 ?n) sr = (None, sr\<lparr>sr_Tasks := tasks_after w ph step {0..<?n} (sr_Tasks sr)\<rparr>)"
      using run_serial_outcome [OF ixs(1), of w ph step sr] assms(3) ixs(2) by simp
    moreover have "executeTaskBatch w ph step (rangeIndexes 0 ?n) sr =
        (None, sr\<lparr>sr_Tasks := tasks_after w ph step {0..<?n} (sr_Tasks sr)\<rparr>)"
      using batch_effect [OF ixs(1) assms(2) b] b assms(3) ixs(2) by simp
    moreover have "run_batches w ph step (nat (sc_Limit c)) 0 ?n sr =
        (None, sr\<lparr>sr_Tasks := tasks_after w ph step {0..<?n} (sr_Tasks sr)\<rparr>)" if "sc_Mode c = ConcurrencyBatch"
      by (rule run_batches_outcome [OF assms(2,3)]) (use concurrency_limit [OF assms(1) that] in simp_all)
    ultimately show ?thesis
      unfolding executeStepTasks_def if_not_P [OF False] by (cases "sc_Mode c") simp_all
  qed
qed

theorem concurrency_modes_agree_witness:
  "executeStepTasks (sample_world ''x'') PhaseDeploy (sample_step ''copy'' []) \<lparr>sc_Mode = ConcurrencyBatch, sc_Limit = 1\<rparr>
     (rn_StepRuns (snd sample_built) ! 2) =
   (None, (rn_StepRuns (snd sample_built) ! 2)\<lparr>sr_Tasks := tasks_after (sample_world ''x'') PhaseDeploy (sample_step ''copy'' [])
      {0..<length (sr_Tasks (rn_StepRuns (snd sample_built) ! 2))} (sr_Tasks (rn_StepRuns (snd sample_built) ! 2))\<rparr>)"
proof (rule concurrency_modes_agree)
  show "ParseStepConcurrency ''batch:1'' = Inr \<lparr>sc_Mode = ConcurrencyBatch, sc_Limit = 1\<rparr>" by code_simp
  show "mset (wl_schedule (sample_world ''x'') PhaseDeploy (sample_step ''copy'' []) is) = mset is" for "is"
    by (simp add: sample_world_def)
  show "task_result (sample_world ''x'') PhaseDeploy (sample_step ''copy'' []) i = None" for i
    by (simp add: task_result_def executeWithRetries_def sample_world_def sample_step_def attempts_of_def wrap64_def numeral_eq_Suc)
qed

text \<open>
  A serial step stops at its first failure: the tasks before it ended as success, it ended as failed with
  the exit code its error carries, and the tasks after it were not touched.
\<close>

theorem serial_stops_at_failure:
  assumes "k < length (sr_Tasks sr)" "task_result w ph step k = Some e"
    "\<And>i. i < k \<Longrightarrow> task_result w ph step i = None"
  shows "run_serial w ph step (rangeIndexes 0 (length (sr_Tasks sr))) sr =
    (Some e, sr\<lparr>sr_Tasks := tasks_after w ph step {0..k} (sr_Tasks sr)\<rparr>)"
proof -
  let ?n = "length (sr_Tasks sr)"
  have app: "run_serial w ph step (xs @ ys) sr =
      (case run_serial w ph step xs sr of (None, sr') \<Rightarrow> run_serial w ph step ys sr' | r \<Rightarrow> r)" for xs ys sr
    by (induction xs arbitrary: sr) (auto split: prod.splits option.splits)
  have split: "rangeIndexes 0 ?n = [0..<k] @ k # [Suc k..<?n]"
    using assms(1) by (simp add: rangeIndexes_def upt_conv_Cons [symmetric]) (metis le_add_diff_inverse less_imp_le upt_add_eq_append zero_le)
  have pre: "run_serial w ph step [0..<k] sr = (None, sr\<lparr>sr_Tasks := tasks_after w ph step {0..<k} (sr_Tasks sr)\<rparr>)"
    using run_serial_outcome [of "[0..<k]" w ph step sr] assms(3) by simp
  have "update_at (tasks_after w ph step {0..<k} (sr_Tasks sr)) k (task_outcome w ph step k) =
      tasks_after w ph step {0..k} (sr_Tasks sr)"
    by (rule nth_equalityI) (auto simp: nth_tasks_after nth_update_at)
  then show ?thesis
    unfolding split by (simp add: app pre executeOneTask_outcome assms(2))
qed

theorem serial_stops_at_failure_witness:
  "fst (run_serial (sample_world ''copy'') PhaseDeploy (sample_step ''copy'' []) (rangeIndexes 0 2)
     ((rn_StepRuns (snd sample_built) ! 2))) = Some (ExecError (Some 7))"
proof -
  have n: "length (sr_Tasks (rn_StepRuns (snd sample_built) ! 2)) = 2" by code_simp
  have r: "task_result (sample_world ''copy'') PhaseDeploy (sample_step ''copy'' []) 0 = Some (ExecError (Some 7))"
    by (simp add: task_result_def executeWithRetries_def sample_world_def sample_step_def attempts_of_def wrap64_def numeral_eq_Suc)
  show ?thesis
    using serial_stops_at_failure [of 0 "rn_StepRuns (snd sample_built) ! 2", OF _ r] n by simp
qed

text \<open>
  The text of a batch size reads back as that batch size, for every positive size a Go \<^verbatim>\<open>int\<close> holds.
\<close>

theorem concurrency_roundtrip:
  assumes "0 < n" "n < 2 ^ 63"
  shows "ParseStepConcurrency (''batch:'' @ int_text n) = Inr \<lparr>sc_Mode = ConcurrencyBatch, sc_Limit = n\<rparr>"
proof -
  have digits: "int_text n \<noteq> []" "list_all is_digit (int_text n)"
    using nat_text_digits [of "nat n"] assms by (simp_all add: int_text_def)
  then have "is_digit (last (int_text n))" by (simp add: list_all_iff)
  then have "no_blank_ends (''batch:'' @ int_text n)"
    using digits(1) by (auto simp: no_blank_ends_def is_digit_def)
  then have "TrimSpace (''batch:'' @ int_text n) = ''batch:'' @ int_text n" by (rule TrimSpace_ascii)
  then show ?thesis
    using Atoi_int_text [of n] assms by (simp add: ParseStepConcurrency_def Let_def)
qed

theorem concurrency_roundtrip_witness:
  "ParseStepConcurrency (''batch:'' @ int_text 12) = Inr \<lparr>sc_Mode = ConcurrencyBatch, sc_Limit = 12\<rparr>"
  by (rule concurrency_roundtrip) simp_all

end
