(* ===== verification/GoEffects.thy ===== *)
theory GoEffects
  imports Prelude
begin

text \<open>
  Code that changes a state and may return an error: an action takes the state to a result, an error or a
  value, and the state it leaves behind. A Go function that returns on an error keeps the changes made
  before it, so an error does not undo anything here either.
\<close>

type_synonym ('s, 'e, 'a) act = "'s \<Rightarrow> ('e + 'a) \<times> 's"

definition ret :: "'a \<Rightarrow> ('s, 'e, 'a) act" where
  "ret a = (\<lambda>s. (Inr a, s))"

definition throwE :: "'e \<Rightarrow> ('s, 'e, 'a) act" where
  "throwE e = (\<lambda>s. (Inl e, s))"

text \<open>\<^verbatim>\<open>x, err := m(); if err != nil { return err }\<close>, then the rest.\<close>

definition andThen :: "('s, 'e, 'a) act \<Rightarrow> ('a \<Rightarrow> ('s, 'e, 'b) act) \<Rightarrow> ('s, 'e, 'b) act" where
  "andThen m f = (\<lambda>s. case m s of (Inl e, s') \<Rightarrow> (Inl e, s') | (Inr a, s') \<Rightarrow> f a s')"

text \<open>The error of a call as a value, for code that goes on after it.\<close>

definition attempt :: "('s, 'e, 'a) act \<Rightarrow> ('s, 'f, 'e + 'a) act" where
  "attempt m = (\<lambda>s. case m s of (r, s') \<Rightarrow> (Inr r, s'))"

definition ofSum :: "'e + 'a \<Rightarrow> ('s, 'e, 'a) act" where
  "ofSum r = (\<lambda>s. (r, s))"

definition readState :: "('s \<Rightarrow> 'a) \<Rightarrow> ('s, 'e, 'a) act" where
  "readState f = (\<lambda>s. (Inr (f s), s))"

definition changeState :: "('s \<Rightarrow> 's) \<Rightarrow> ('s, 'e, unit) act" where
  "changeState f = (\<lambda>s. (Inr (), f s))"

text \<open>A loop over a list whose body may return an error.\<close>

fun forEach :: "('x \<Rightarrow> ('s, 'e, unit) act) \<Rightarrow> 'x list \<Rightarrow> ('s, 'e, unit) act" where
  "forEach f [] = ret ()"
| "forEach f (x # xs) = andThen (f x) (\<lambda>_. forEach f xs)"

fun mapEach :: "('x \<Rightarrow> ('s, 'e, 'y) act) \<Rightarrow> 'x list \<Rightarrow> ('s, 'e, 'y list) act" where
  "mapEach f [] = ret []"
| "mapEach f (x # xs) = andThen (f x) (\<lambda>y. andThen (mapEach f xs) (\<lambda>ys. ret (y # ys)))"

lemma ret_apply [simp]: "ret a s = (Inr a, s)"
  and throwE_apply [simp]: "throwE e s = (Inl e, s)"
  and ofSum_apply [simp]: "ofSum r s = (r, s)"
  and readState_apply [simp]: "readState f s = (Inr (f s), s)"
  and changeState_apply [simp]: "changeState g s = (Inr (), g s)"
  and attempt_apply [simp]: "attempt m s = (Inr (fst (m s)), snd (m s))"
  by (simp_all add: ret_def throwE_def ofSum_def readState_def changeState_def attempt_def case_prod_beta)

lemma andThen_Inl: "m s = (Inl e, s') \<Longrightarrow> andThen m f s = (Inl e, s')"
  and andThen_Inr: "m s = (Inr a, s') \<Longrightarrow> andThen m f s = f a s'"
  by (simp_all add: andThen_def)

lemma andThen_cases:
  "andThen m f s = (r, t) \<longleftrightarrow>
     (\<exists>e. m s = (Inl e, t) \<and> r = Inl e) \<or> (\<exists>a s'. m s = (Inr a, s') \<and> f a s' = (r, t))"
  by (auto simp: andThen_def split: prod.splits sum.splits)

section \<open>Relations every run of an action keeps\<close>

text \<open>
  \<open>stays R m\<close>: whatever its result, the action takes a state only to states related to it. For a
  preorder \<open>R\<close> this composes, so that a whole handler keeps what each of its calls keeps: the interface
  is the preorder, its lemmas are one introduction rule for each way the code composes actions.
\<close>

definition stays :: "('s \<Rightarrow> 's \<Rightarrow> bool) \<Rightarrow> ('s, 'e, 'a) act \<Rightarrow> bool" where
  "stays R m \<longleftrightarrow> (\<forall>s. R s (snd (m s)))"

lemma staysD: "stays R m \<Longrightarrow> m s = (r, t) \<Longrightarrow> R s t"
  by (metis snd_conv stays_def)

lemma staysI: "(\<And>s. R s (snd (m s))) \<Longrightarrow> stays R m"
  by (simp add: stays_def)

locale step_preorder =
  fixes R :: "'s \<Rightarrow> 's \<Rightarrow> bool"
  assumes step_refl: "R s s"
    and step_trans: "R s t \<Longrightarrow> R t u \<Longrightarrow> R s u"
begin

lemma pure: "stays R (ret a)" "stays R (throwE e)" "stays R (ofSum r)" "stays R (readState g)"
  by (simp_all add: stays_def step_refl)

lemma seq:
  assumes "stays R m" "\<And>a. stays R (f a)"
  shows "stays R (andThen m f)"
proof (rule staysI)
  fix s
  obtain r t where m: "m s = (r, t)" by fastforce
  have st: "R s t" by (rule staysD [OF assms(1) m])
  show "R s (snd (andThen m f s))"
  proof (cases r)
    case (Inl e)
    with m st show ?thesis by (simp add: andThen_Inl)
  next
    case (Inr a)
    have "R t (snd (f a t))" using assms(2) by (simp add: stays_def)
    from step_trans [OF st this] m Inr show ?thesis by (simp add: andThen_Inr)
  qed
qed

lemma try_: "stays R m \<Longrightarrow> stays R (attempt m)"
  by (simp add: stays_def)

lemma if_: "(b \<Longrightarrow> stays R m) \<Longrightarrow> (\<not> b \<Longrightarrow> stays R n) \<Longrightarrow> stays R (if b then m else n)"
  by simp

lemma let_: "(\<And>x. stays R (f x)) \<Longrightarrow> stays R (Let t f)"
  by simp

lemma prod_: "(\<And>a b. stays R (f a b)) \<Longrightarrow> stays R (case p of (a, b) \<Rightarrow> f a b)"
  by (cases p) simp

lemma option_: "stays R m \<Longrightarrow> (\<And>a. stays R (f a)) \<Longrightarrow> stays R (case x of None \<Rightarrow> m | Some a \<Rightarrow> f a)"
  by (cases x) simp_all

lemma sum_: "(\<And>e. stays R (f e)) \<Longrightarrow> (\<And>a. stays R (g a)) \<Longrightarrow> stays R (case x of Inl e \<Rightarrow> f e | Inr a \<Rightarrow> g a)"
  by (cases x) simp_all

lemma each: "(\<And>x. stays R (f x)) \<Longrightarrow> stays R (forEach f xs)"
  by (induction xs) (simp_all only: forEach.simps pure seq)

lemma map_each:
  assumes "\<And>x. stays R (f x)"
  shows "stays R (mapEach f xs)"
proof (induction xs)
  case (Cons x xs)
  then show ?case unfolding mapEach.simps by (intro seq assms pure)
qed (simp only: mapEach.simps pure)

lemmas compose = pure seq try_ if_ let_ prod_ option_ sum_ each map_each

end

text \<open>An invariant is the relation that a state with it leads only to states with it.\<close>

definition keeps :: "('s \<Rightarrow> bool) \<Rightarrow> 's \<Rightarrow> 's \<Rightarrow> bool" where
  "keeps I s t \<longleftrightarrow> (I s \<longrightarrow> I t)"

interpretation keeps: step_preorder "keeps I" for I
  by unfold_locales (auto simp: keeps_def)

end
