(* ===== verification/ProvisionModel.thy ===== *)
theory ProvisionModel
  imports GoEffects GoText
begin

text \<open>
  The data of \<^verbatim>\<open>agent/dbprovision\<close>: registered data sources, project bindings, plans, resources,
  leases and the errors of the package (\<^verbatim>\<open>types.go\<close>), and the calls the package makes outside.
\<close>

type_synonym meta = "string \<rightharpoonup> string"

definition KindPostgres :: string where "KindPostgres = ''postgres''"
definition KindRedis :: string where "KindRedis = ''redis''"

lemma kinds_differ [simp]: "KindPostgres \<noteq> KindRedis" "KindRedis \<noteq> KindPostgres"
  by (simp_all add: KindPostgres_def KindRedis_def)

record ProbeResult =
  pb_OK :: bool
  pb_CheckedAt :: time
  pb_ServerVer :: string
  pb_Capabilities :: "string \<rightharpoonup> bool"
  pb_Facts :: meta
  pb_Missing :: "string list"
  pb_FixHint :: string
  pb_Error :: string

record DataSource =
  ds_ID :: string
  ds_Kind :: string
  ds_Name :: string
  ds_Host :: string
  ds_Port :: int
  ds_User :: string
  ds_Password :: string
  ds_Extra :: meta
  ds_Probe :: ProbeResult
  ds_Source :: string
  ds_CreatedAt :: time

record PostgresBinding =
  pgb_DataSourceName :: string
  pgb_DevDatabase :: string
  pgb_TerminateConnections :: bool

record RedisBinding =
  rdb_DataSourceName :: string

record ProjectBinding =
  bd_Postgres :: "PostgresBinding option"
  bd_Redis :: "RedisBinding option"
  bd_MaxConcurrentLeases :: int
  bd_DefaultTTLMinutes :: int

record PlanRequest =
  rq_ProjectID :: string
  rq_NameSeed :: string
  rq_Binding :: ProjectBinding
  rq_TakenHints :: "string list"

record SideEffect =
  se_Kind :: string
  se_Target :: string
  se_Detail :: string
  se_Count :: int

record ProvisionPlan =
  pl_Kind :: string
  pl_ResourceName :: string
  pl_Steps :: "string list"
  pl_SideEffects :: "SideEffect list"
  pl_Detail :: meta

record Resource =
  rs_Kind :: string
  rs_Name :: string
  rs_DSN :: string
  rs_Meta :: meta

definition WithoutSecret :: "Resource \<Rightarrow> Resource" where
  "WithoutSecret r = r\<lparr>rs_DSN := []\<rparr>"

definition Sanitized :: "DataSource \<Rightarrow> DataSource" where
  "Sanitized d = d\<lparr>ds_Password := []\<rparr>"

record Orphan =
  or_Kind :: string
  or_Name :: string
  or_Reason :: string

record AcquireRequest =
  aq_ProjectID :: string
  aq_Purpose :: string
  aq_TTL :: duration
  aq_Kinds :: "string list"

record Lease =
  le_ID :: string
  le_ProjectID :: string
  le_Purpose :: string
  le_Resources :: "Resource list"
  le_CreatedAt :: time
  le_ExpiresAt :: time
  le_RenewCount :: int

record StoredResource =
  sd_ID :: string
  sd_LeaseID :: string
  sd_DataSourceID :: string
  sd_Kind :: string
  sd_Name :: string
  sd_Meta :: meta
  sd_Status :: string

section \<open>Errors\<close>

text \<open>
  The sentinels of \<^verbatim>\<open>types.go\<close> with the data their messages carry, the errors the manager makes
  itself, and those that come from outside (\<open>DbError\<close> from SQLite, \<open>Outside\<close> from a provisioner, the
  bindings, the registry or the approval gate).
\<close>

datatype prov_error =
    QuotaExceeded int int "(string \<times> string \<times> time) list"
  | TemplateBusy string nat
  | NoFreeDB
  | BindingMissing
  | DataSourceNotFound
  | LeaseNotFound
  | LeaseLifetimeExceeded
  | UnsupportedKind string
  | DataSourceInUse int
  | InvalidDataSource
  | ResourceSlotTaken
  | ProjectIDRequired
  | PurposeRequired
  | TTLNotPositive
  | NameExists string
  | NoDataSourceName string
  | RandError
  | DbError
  | FileError
  | ProbeFailed "string list" string string
  | Joined "prov_error list"
  | Outside string

section \<open>The outside\<close>

text \<open>
  Calls leave the package: to SQLite, the clock, the random source, the project bindings, the registry, the
  approval gate and the provisioners. Each call has a number, the \<open>tick\<close> of the state that makes it, and
  the environment says what the call of that number returns. What provisioners do to real resources is
  recorded as a trace of their calls.
\<close>

record Provisioner =
  pr_Probe :: "nat \<Rightarrow> DataSource \<Rightarrow> prov_error + ProbeResult"
  pr_Plan :: "nat \<Rightarrow> DataSource \<Rightarrow> PlanRequest \<Rightarrow> prov_error + ProvisionPlan"
  pr_Provision :: "nat \<Rightarrow> DataSource \<Rightarrow> ProvisionPlan \<Rightarrow> prov_error + Resource"
  pr_Reclaim :: "nat \<Rightarrow> DataSource \<Rightarrow> Resource \<Rightarrow> prov_error option"
  pr_Reconcile :: "nat \<Rightarrow> DataSource \<Rightarrow> Resource list \<Rightarrow> prov_error + Orphan list"

record environment =
  en_DB :: "nat \<Rightarrow> bool"
  en_UUID :: "nat \<Rightarrow> string"
  en_Now :: "nat \<Rightarrow> time"
  en_Rand :: "nat \<Rightarrow> byte list option"
  en_Binding :: "nat \<Rightarrow> string \<Rightarrow> prov_error + ProjectBinding \<times> string"
  en_Registry :: "nat \<Rightarrow> string \<Rightarrow> string \<Rightarrow> prov_error + DataSource"
  en_Provisioners :: "string \<rightharpoonup> Provisioner"
  en_Approve :: "(nat \<Rightarrow> string \<Rightarrow> ProvisionPlan list \<Rightarrow> prov_error option) option"
  en_Sources :: "(nat \<Rightarrow> prov_error + DataSource list) option"

datatype call = Provisioned string string string | Reclaimed string string string bool

record lease_row =
  lw_ID :: string
  lw_ProjectID :: string
  lw_Purpose :: string
  lw_CreatedAt :: int
  lw_ExpiresAt :: int
  lw_RenewCount :: int
  lw_Status :: string

record resource_row = StoredResource +
  rw_CreatedAt :: int

record provision =
  pv_Leases :: "lease_row list"
  pv_Resources :: "resource_row list"
  pv_Tick :: nat
  pv_Trace :: "call list"

type_synonym 'a pact = "(provision, prov_error, 'a) act"

definition outside :: "(nat \<Rightarrow> 'a) \<Rightarrow> 'a pact" where
  "outside f = (\<lambda>s. (Inr (f (pv_Tick s)), s\<lparr>pv_Tick := Suc (pv_Tick s)\<rparr>))"

definition outsideErr :: "(nat \<Rightarrow> prov_error + 'a) \<Rightarrow> 'a pact" where
  "outsideErr f = andThen (outside f) ofSum"

definition record_call :: "call \<Rightarrow> unit pact" where
  "record_call c = changeState (\<lambda>s. s\<lparr>pv_Trace := pv_Trace s @ [c]\<rparr>)"

end
