(* ===== verification/ProvisionStore.thy ===== *)
theory ProvisionStore
  imports ProvisionModel "HOL-Library.List_Lexorder" "HOL-Library.Product_Lexorder"
begin

text \<open>
  The SQLite repository of leases and resources (\<^verbatim>\<open>agent/store/provision.go\<close>): two tables, the
  primary keys, the partial unique index on the slot of a resource that is not reclaimed, and one function
  per statement. A statement the database refuses returns an error and changes nothing.
\<close>

section \<open>Times\<close>

text \<open>The tables keep Unix seconds: \<^verbatim>\<open>t.Unix()\<close> rounds down, \<^verbatim>\<open>time.Unix(n, 0)\<close> reads back.\<close>

definition unixEpoch :: time where
  "unixEpoch = 62135596800 * second"

definition to_unix :: "time \<Rightarrow> int" where
  "to_unix t = (t - unixEpoch) div second"

definition from_unix :: "int \<Rightarrow> time" where
  "from_unix n = unixEpoch + n * second"

lemma to_unix_from_unix [simp]: "to_unix (from_unix n) = n"
  by (simp add: to_unix_def from_unix_def time_units)

lemma from_unix_to_unix: "from_unix (to_unix t) \<le> t \<and> t < from_unix (to_unix t) + second"
proof -
  have "(t - unixEpoch) div second * second + (t - unixEpoch) mod second = t - unixEpoch" by simp
  moreover have "0 \<le> (t - unixEpoch) mod second" "(t - unixEpoch) mod second < second" by (simp_all add: time_units)
  ultimately show ?thesis unfolding to_unix_def from_unix_def by linarith
qed

lemma to_unix_le: "from_unix n \<le> t \<longleftrightarrow> n \<le> to_unix t"
proof
  assume "from_unix n \<le> t"
  then have "(n * second) div second \<le> (t - unixEpoch) div second"
    by (intro zdiv_mono1) (simp_all add: from_unix_def time_units)
  then show "n \<le> to_unix t" by (simp add: to_unix_def time_units)
next
  assume "n \<le> to_unix t"
  then have "from_unix n \<le> from_unix (to_unix t)" by (simp add: from_unix_def time_units)
  with from_unix_to_unix [of t] show "from_unix n \<le> t" by linarith
qed

section \<open>Statements\<close>

definition exec :: "environment \<Rightarrow> (provision \<Rightarrow> prov_error + provision) \<Rightarrow> unit pact" where
  "exec en f = andThen (outside (en_DB en)) (\<lambda>ok s.
     if \<not> ok then (Inl DbError, s)
     else case f s of Inl e \<Rightarrow> (Inl e, s) | Inr s' \<Rightarrow> (Inr (), s'))"

definition query :: "environment \<Rightarrow> (provision \<Rightarrow> prov_error + 'a) \<Rightarrow> 'a pact" where
  "query en f = andThen (outside (en_DB en)) (\<lambda>ok s. if \<not> ok then (Inl DbError, s) else (f s, s))"

definition live :: "('a StoredResource_scheme) \<Rightarrow> bool" where
  "live r \<longleftrightarrow> sd_Status r \<noteq> ''reclaimed''"

definition slot :: "('a StoredResource_scheme) \<Rightarrow> string \<times> string \<times> string" where
  "slot r = (sd_DataSourceID r, sd_Kind r, sd_Name r)"

text \<open>The unique index \<^verbatim>\<open>idx_provision_resources_slot\<close>.\<close>

definition slots_unique :: "resource_row list \<Rightarrow> bool" where
  "slots_unique rs \<longleftrightarrow> distinct (map slot (filter live rs))"

definition InsertLease :: "environment \<Rightarrow> Lease \<Rightarrow> unit pact" where
  "InsertLease en l = exec en (\<lambda>s.
     if le_ID l \<in> lw_ID ` set (pv_Leases s) then Inl DbError
     else Inr (s\<lparr>pv_Leases := pv_Leases s @ [\<lparr>lw_ID = le_ID l, lw_ProjectID = le_ProjectID l, lw_Purpose = le_Purpose l,
       lw_CreatedAt = to_unix (le_CreatedAt l), lw_ExpiresAt = to_unix (le_ExpiresAt l),
       lw_RenewCount = le_RenewCount l, lw_Status = ''active''\<rparr>]\<rparr>))"

definition creating_row :: "string \<Rightarrow> string \<Rightarrow> string \<Rightarrow> Resource \<Rightarrow> time \<Rightarrow> resource_row" where
  "creating_row rid leaseID datasourceID res now = \<lparr>sd_ID = rid, sd_LeaseID = leaseID, sd_DataSourceID = datasourceID,
     sd_Kind = rs_Kind res, sd_Name = rs_Name res, sd_Meta = rs_Meta res, sd_Status = ''creating'',
     rw_CreatedAt = to_unix now\<rparr>"

text \<open>
  A violated primary key reports itself with the same text as a violated slot, so both become
  \<^verbatim>\<open>ErrResourceSlotTaken\<close>.
\<close>

definition InsertResource :: "environment \<Rightarrow> string \<Rightarrow> string \<Rightarrow> Resource \<Rightarrow> string pact" where
  "InsertResource en leaseID datasourceID res =
     andThen (outside (en_UUID en)) (\<lambda>rid.
     andThen (outside (en_Now en)) (\<lambda>now.
     andThen (exec en (\<lambda>s.
       let rs = pv_Resources s @ [creating_row rid leaseID datasourceID res now]
       in if rid \<in> sd_ID ` set (pv_Resources s) \<or> \<not> slots_unique rs then Inl ResourceSlotTaken
          else Inr (s\<lparr>pv_Resources := rs\<rparr>))) (\<lambda>_. ret rid)))"

definition set_resource_status :: "string \<Rightarrow> string \<Rightarrow> resource_row list \<Rightarrow> resource_row list" where
  "set_resource_status rid st rs = map (\<lambda>r. if sd_ID r = rid then r\<lparr>sd_Status := st\<rparr> else r) rs"

definition MarkResourceActive :: "environment \<Rightarrow> string \<Rightarrow> unit pact" where
  "MarkResourceActive en rid = exec en (\<lambda>s.
     let rs = set_resource_status rid ''active'' (pv_Resources s)
     in if slots_unique rs then Inr (s\<lparr>pv_Resources := rs\<rparr>) else Inl DbError)"

definition MarkResourceReclaimed :: "environment \<Rightarrow> string \<Rightarrow> unit pact" where
  "MarkResourceReclaimed en rid = exec en (\<lambda>s.
     Inr (s\<lparr>pv_Resources := set_resource_status rid ''reclaimed'' (pv_Resources s)\<rparr>))"

definition UpdateLeaseExpiry :: "environment \<Rightarrow> string \<Rightarrow> time \<Rightarrow> int \<Rightarrow> unit pact" where
  "UpdateLeaseExpiry en lid expiresAt n = exec en (\<lambda>s.
     Inr (s\<lparr>pv_Leases := map (\<lambda>l. if lw_ID l = lid then l\<lparr>lw_ExpiresAt := to_unix expiresAt, lw_RenewCount := n\<rparr> else l)
       (pv_Leases s)\<rparr>))"

definition MarkLeaseReleased :: "environment \<Rightarrow> string \<Rightarrow> unit pact" where
  "MarkLeaseReleased en lid = exec en (\<lambda>s.
     Inr (s\<lparr>pv_Leases := map (\<lambda>l. if lw_ID l = lid then l\<lparr>lw_Status := ''released''\<rparr> else l) (pv_Leases s)\<rparr>))"

section \<open>Queries\<close>

text \<open>SQLite compares text byte by byte.\<close>

definition text_key :: "string \<Rightarrow> nat list" where
  "text_key s = map of_char s"

definition listResourceRows :: "environment \<Rightarrow> (resource_row \<Rightarrow> bool) \<Rightarrow> StoredResource list pact" where
  "listResourceRows en P = query en (\<lambda>s. Inr (map StoredResource.truncate
     (sort_key (\<lambda>r. (rw_CreatedAt r, text_key (sd_ID r))) (filter P (pv_Resources s)))))"

definition lease_of_row :: "lease_row \<Rightarrow> Lease" where
  "lease_of_row l = \<lparr>le_ID = lw_ID l, le_ProjectID = lw_ProjectID l, le_Purpose = lw_Purpose l, le_Resources = [],
     le_CreatedAt = from_unix (lw_CreatedAt l), le_ExpiresAt = from_unix (lw_ExpiresAt l),
     le_RenewCount = lw_RenewCount l\<rparr>"

definition GetLease :: "environment \<Rightarrow> string \<Rightarrow> (Lease \<times> StoredResource list) pact" where
  "GetLease en lid =
     andThen (query en (\<lambda>s. case find (\<lambda>l. lw_ID l = lid) (pv_Leases s) of
       None \<Rightarrow> Inl LeaseNotFound | Some l \<Rightarrow> Inr (lease_of_row l))) (\<lambda>lease.
     andThen (listResourceRows en (\<lambda>r. sd_LeaseID r = lid)) (\<lambda>rows. ret (lease, rows)))"

text \<open>A lease that was released counts as missing; a second query reads the status.\<close>

definition GetLeaseWithResources :: "environment \<Rightarrow> string \<Rightarrow> (Lease \<times> StoredResource list) pact" where
  "GetLeaseWithResources en lid =
     andThen (GetLease en lid) (\<lambda>(lease, rows).
     andThen (query en (\<lambda>s. case find (\<lambda>l. lw_ID l = lid) (pv_Leases s) of
       None \<Rightarrow> Inl DbError | Some l \<Rightarrow> Inr (lw_Status l))) (\<lambda>status.
     if status = ''released'' then throwE LeaseNotFound else ret (lease, rows)))"

definition resource_of_row :: "StoredResource \<Rightarrow> Resource" where
  "resource_of_row r = \<lparr>rs_Kind = sd_Kind r, rs_Name = sd_Name r, rs_DSN = [], rs_Meta = sd_Meta r\<rparr>"

definition listLeases :: "environment \<Rightarrow> (lease_row list \<Rightarrow> lease_row list) \<Rightarrow> Lease list pact" where
  "listLeases en select =
     andThen (query en (\<lambda>s. Inr (map lease_of_row (select (pv_Leases s))))) (\<lambda>leases.
     mapEach (\<lambda>l. andThen (listResourceRows en (\<lambda>r. sd_LeaseID r = le_ID l)) (\<lambda>rows.
       ret (l\<lparr>le_Resources := map resource_of_row (filter live rows)\<rparr>))) leases)"

definition active_lease :: "lease_row \<Rightarrow> bool" where
  "active_lease l \<longleftrightarrow> lw_Status l = ''active''"

definition ListLeases :: "environment \<Rightarrow> string \<Rightarrow> Lease list pact" where
  "ListLeases en projectID = listLeases en (\<lambda>ls.
     rev (sort_key (\<lambda>l. (lw_CreatedAt l, text_key (lw_ID l)))
       (filter (\<lambda>l. active_lease l \<and> (projectID \<noteq> [] \<longrightarrow> lw_ProjectID l = projectID)) ls)))"

definition ListExpiredLeases :: "environment \<Rightarrow> time \<Rightarrow> Lease list pact" where
  "ListExpiredLeases en now = listLeases en (\<lambda>ls.
     sort_key (\<lambda>l. (lw_ExpiresAt l, text_key (lw_ID l)))
       (filter (\<lambda>l. active_lease l \<and> lw_ExpiresAt l \<le> to_unix now) ls))"

definition active_count :: "string \<Rightarrow> lease_row list \<Rightarrow> nat" where
  "active_count projectID ls = length (filter (\<lambda>l. lw_ProjectID l = projectID \<and> active_lease l) ls)"

definition CountActiveLeases :: "environment \<Rightarrow> string \<Rightarrow> int pact" where
  "CountActiveLeases en projectID = query en (\<lambda>s. Inr (int (active_count projectID (pv_Leases s))))"

definition CountActiveLeasesByDataSource :: "environment \<Rightarrow> string \<Rightarrow> int pact" where
  "CountActiveLeasesByDataSource en dsID = query en (\<lambda>s. Inr (int (length (remdups (map lw_ID
     (filter (\<lambda>l. active_lease l \<and> list_ex (\<lambda>r. sd_LeaseID r = lw_ID l \<and> sd_DataSourceID r = dsID \<and> live r) (pv_Resources s))
       (pv_Leases s)))))))"

definition ListActiveResourceNames :: "environment \<Rightarrow> string \<Rightarrow> string \<Rightarrow> string list pact" where
  "ListActiveResourceNames en dsID kind = query en (\<lambda>s. Inr (map sd_Name
     (sort_key (\<lambda>r. text_key (sd_Name r)) (filter (\<lambda>r. sd_DataSourceID r = dsID \<and> sd_Kind r = kind \<and> live r) (pv_Resources s)))))"

definition ListAllActiveResources :: "environment \<Rightarrow> StoredResource list pact" where
  "ListAllActiveResources en = listResourceRows en live"

section \<open>How statements act\<close>

lemma outside_apply [simp]: "outside f s = (Inr (f (pv_Tick s)), s\<lparr>pv_Tick := Suc (pv_Tick s)\<rparr>)"
  by (simp add: outside_def)

lemma outsideErr_apply [simp]: "outsideErr f s = (f (pv_Tick s), s\<lparr>pv_Tick := Suc (pv_Tick s)\<rparr>)"
  by (cases "f (pv_Tick s)") (simp_all add: outsideErr_def andThen_def)

lemma exec_cases:
  "exec en f s = (let t = s\<lparr>pv_Tick := Suc (pv_Tick s)\<rparr> in
     if \<not> en_DB en (pv_Tick s) then (Inl DbError, t)
     else case f t of Inl e \<Rightarrow> (Inl e, t) | Inr s' \<Rightarrow> (Inr (), s'))"
  by (simp add: exec_def andThen_def Let_def)

lemma query_cases:
  "query en f s = (let t = s\<lparr>pv_Tick := Suc (pv_Tick s)\<rparr> in if \<not> en_DB en (pv_Tick s) then (Inl DbError, t) else (f t, t))"
  by (simp add: query_def andThen_def Let_def)

text \<open>
  The steps of the package come from calls outside, from the trace and from statements; a preorder is kept
  by a whole operation when it is kept by those of the three that it makes. Queries only make calls.
\<close>

locale tick_preorder = step_preorder R for R :: "provision \<Rightarrow> provision \<Rightarrow> bool" +
  assumes tick: "R s (s\<lparr>pv_Tick := n\<rparr>)"
begin

lemma outside_stays: "stays R (outside f)" "stays R (outsideErr g)"
  by (simp_all add: stays_def tick)

lemma query_stays: "stays R (query en f)"
  by (simp add: stays_def query_cases Let_def tick)

lemma exec_stays:
  assumes "\<And>s s'. f s = Inr s' \<Longrightarrow> R s s'"
  shows "stays R (exec en f)"
proof (rule staysI)
  fix s :: provision
  let ?t = "s\<lparr>pv_Tick := Suc (pv_Tick s)\<rparr>"
  show "R s (snd (exec en f s))"
  proof (cases "en_DB en (pv_Tick s) \<and> \<not> isl (f ?t)")
    case True
    then obtain s' where f: "f ?t = Inr s'" by (cases "f ?t") auto
    then have "R s s'" by (rule step_trans [OF tick assms])
    with True f show ?thesis by (simp add: exec_cases)
  next
    case False
    then have "snd (exec en f s) = ?t" by (cases "f ?t") (auto simp: exec_cases Let_def)
    then show ?thesis by (simp add: tick)
  qed
qed

lemma rows_stay: "stays R (listResourceRows en P)"
  unfolding listResourceRows_def by (rule query_stays)

lemma lease_stay: "stays R (GetLease en lid)"
  unfolding GetLease_def by (intro compose query_stays rows_stay)

lemma leases_stay: "stays R (listLeases en sel)"
  unfolding listLeases_def by (intro compose query_stays rows_stay)

lemma queries_stay:
  "stays R (listResourceRows en P)" "stays R (GetLease en lid)" "stays R (GetLeaseWithResources en lid)"
  "stays R (listLeases en sel)" "stays R (ListLeases en pid)" "stays R (ListExpiredLeases en now)"
  "stays R (CountActiveLeases en pid)" "stays R (ListActiveResourceNames en d k)" "stays R (ListAllActiveResources en)"
  unfolding GetLeaseWithResources_def ListLeases_def ListExpiredLeases_def CountActiveLeases_def
    ListActiveResourceNames_def ListAllActiveResources_def
  by (rule rows_stay lease_stay leases_stay query_stays | intro compose query_stays lease_stay)+

lemmas asks = compose outside_stays queries_stay

end

locale store_preorder = tick_preorder +
  assumes call: "R s (s\<lparr>pv_Trace := cs\<rparr>)"
begin

lemma record_stays: "stays R (record_call c)"
  by (simp add: stays_def record_call_def call)

lemmas calls = asks record_stays

end

text \<open>What an operation that only asks leaves alone: the tables and the trace.\<close>

definition same_tables :: "provision \<Rightarrow> provision \<Rightarrow> bool" where
  "same_tables s t \<longleftrightarrow> pv_Leases t = pv_Leases s \<and> pv_Resources t = pv_Resources s \<and> pv_Trace t = pv_Trace s"

interpretation same: tick_preorder same_tables
  by unfold_locales (simp_all add: same_tables_def)

section \<open>The store's invariant\<close>

text \<open>Keys are unique, and a slot belongs to at most one resource that is not reclaimed.\<close>

definition store_ok :: "provision \<Rightarrow> bool" where
  "store_ok s \<longleftrightarrow> distinct (map lw_ID (pv_Leases s)) \<and> distinct (map sd_ID (pv_Resources s)) \<and>
     slots_unique (pv_Resources s)"

interpretation ok: store_preorder "keeps store_ok"
  by unfold_locales (simp_all add: keeps_def store_ok_def)

lemma set_status_ids [simp]: "map sd_ID (set_resource_status rid st rs) = map sd_ID rs"
  by (simp add: set_resource_status_def comp_def if_distrib)

lemma reclaim_live:
  "filter live (set_resource_status rid ''reclaimed'' rs) = filter (\<lambda>r. live r \<and> sd_ID r \<noteq> rid) rs"
  by (induction rs) (auto simp: set_resource_status_def live_def)

lemma slots_unique_reclaim: "slots_unique rs \<Longrightarrow> slots_unique (set_resource_status rid ''reclaimed'' rs)"
proof -
  assume "slots_unique rs"
  then have "distinct (map slot (filter (\<lambda>r. sd_ID r \<noteq> rid) (filter live rs)))"
    unfolding slots_unique_def by (rule distinct_map_filter)
  then show ?thesis by (simp add: slots_unique_def reclaim_live conj_commute)
qed

lemma map_lease_ids: "(\<And>l. lw_ID (f l) = lw_ID l) \<Longrightarrow> map lw_ID (map (\<lambda>l. if P l then f l else l) ls) = map lw_ID ls"
  by (simp add: comp_def if_distrib)

lemma statements_ok:
  "stays (keeps store_ok) (InsertLease en l)"
  "stays (keeps store_ok) (InsertResource en lid did res)"
  "stays (keeps store_ok) (MarkResourceActive en rid)"
  "stays (keeps store_ok) (MarkResourceReclaimed en rid)"
  "stays (keeps store_ok) (UpdateLeaseExpiry en lid ex n)"
  "stays (keeps store_ok) (MarkLeaseReleased en lid)"
proof -
  show "stays (keeps store_ok) (InsertLease en l)"
    unfolding InsertLease_def
    by (rule ok.exec_stays) (auto simp: keeps_def store_ok_def split: if_splits)
  show "stays (keeps store_ok) (InsertResource en lid did res)"
    unfolding InsertResource_def
    by (intro ok.calls ok.exec_stays) (auto simp: keeps_def store_ok_def Let_def creating_row_def split: if_splits)
  show "stays (keeps store_ok) (MarkResourceActive en rid)"
    unfolding MarkResourceActive_def
    by (rule ok.exec_stays) (auto simp: keeps_def store_ok_def Let_def split: if_splits)
  show "stays (keeps store_ok) (MarkResourceReclaimed en rid)"
    unfolding MarkResourceReclaimed_def
    by (rule ok.exec_stays) (auto simp: keeps_def store_ok_def slots_unique_reclaim)
  show "stays (keeps store_ok) (UpdateLeaseExpiry en lid ex n)"
    unfolding UpdateLeaseExpiry_def
    by (rule ok.exec_stays) (auto simp: keeps_def store_ok_def map_lease_ids simp del: map_map)
  show "stays (keeps store_ok) (MarkLeaseReleased en lid)"
    unfolding MarkLeaseReleased_def
    by (rule ok.exec_stays) (auto simp: keeps_def store_ok_def map_lease_ids simp del: map_map)
qed

end
