(* ===== verification/ResourceNames.thy ===== *)
theory ResourceNames
  imports ProvisionModel
begin

text \<open>
  Names of temporary resources (\<^verbatim>\<open>agent/dbprovision/naming.go\<close>): a fixed prefix, a slug of the
  project's name and six random bytes in hexadecimal.
\<close>

section \<open>Runes\<close>

definition byte_at :: "string \<Rightarrow> nat \<Rightarrow> nat" where
  "byte_at s i = (if i < length s then of_char (s ! i) else 0)"

definition is_cont :: "nat \<Rightarrow> bool" where
  "is_cont b \<longleftrightarrow> 0x80 \<le> b \<and> b \<le> 0xBF"

text \<open>
  \<^verbatim>\<open>utf8.DecodeRuneInString\<close>: the rune at the start of a text that is not empty and its width in
  bytes; bytes that are no valid encoding are a rune of their own each, the replacement character.
\<close>

definition decode_rune :: "string \<Rightarrow> nat \<times> nat" where
  "decode_rune s =
     (let b0 = byte_at s 0; b1 = byte_at s 1; b2 = byte_at s 2; b3 = byte_at s 3
      in if b0 < 0x80 then (b0, 1)
         else if 0xC2 \<le> b0 \<and> b0 \<le> 0xDF \<and> is_cont b1 then ((b0 - 0xC0) * 64 + (b1 - 0x80), 2)
         else if 0xE0 \<le> b0 \<and> b0 \<le> 0xEF \<and> is_cont b1 \<and> is_cont b2 \<and>
           (b0 = 0xE0 \<longrightarrow> 0xA0 \<le> b1) \<and> (b0 = 0xED \<longrightarrow> b1 \<le> 0x9F)
         then ((b0 - 0xE0) * 4096 + (b1 - 0x80) * 64 + (b2 - 0x80), 3)
         else if 0xF0 \<le> b0 \<and> b0 \<le> 0xF4 \<and> is_cont b1 \<and> is_cont b2 \<and> is_cont b3 \<and>
           (b0 = 0xF0 \<longrightarrow> 0x90 \<le> b1) \<and> (b0 = 0xF4 \<longrightarrow> b1 \<le> 0x8F)
         then ((b0 - 0xF0) * 262144 + (b1 - 0x80) * 4096 + (b2 - 0x80) * 64 + (b3 - 0x80), 4)
         else (0xFFFD, 1))"

lemma decode_rune_width: "1 \<le> snd (decode_rune s) \<and> snd (decode_rune s) \<le> 4"
  by (simp add: decode_rune_def Let_def)

function runes :: "string \<Rightarrow> nat list" where
  "runes s = (if s = [] then [] else fst (decode_rune s) # runes (drop (snd (decode_rune s)) s))"
  by pat_completeness auto
termination
  by (relation "measure length") (use decode_rune_width in \<open>auto simp: Suc_le_eq\<close>)

declare runes.simps [simp del, go_eval]

section \<open>Slugs\<close>

text \<open>
  The byte a rune of the name adds: letters and digits of ASCII after lowering, an underscore for any other.
  Two runes beyond ASCII lower to ASCII letters, the Kelvin sign and the capital I with a dot.
\<close>

definition slug_char :: "nat \<Rightarrow> char" where
  "slug_char r =
     (if 97 \<le> r \<and> r \<le> 122 \<or> 48 \<le> r \<and> r \<le> 57 then char_of r
      else if 65 \<le> r \<and> r \<le> 90 then char_of (r + 32)
      else if r = 0x212A then CHR ''k''
      else if r = 0x130 then CHR ''i''
      else CHR ''_'')"

definition maxProjectSlugLen :: nat where "maxProjectSlugLen = 20"

text \<open>The loop writes a byte per rune and stops once it has written the maximum.\<close>

fun slug_loop :: "nat list \<Rightarrow> string \<Rightarrow> string" where
  "slug_loop [] b = b"
| "slug_loop (r # rs) b =
     (let b = b @ [slug_char r] in if maxProjectSlugLen \<le> length b then b else slug_loop rs b)"

definition trim_underscores :: "string \<Rightarrow> string" where
  "trim_underscores s = rev (dropWhile (\<lambda>c. c = CHR ''_'') (rev (dropWhile (\<lambda>c. c = CHR ''_'') s)))"

definition projectSlug :: "string \<Rightarrow> string" where
  "projectSlug projectName =
     (let slug = trim_underscores (slug_loop (runes projectName) []) in if slug = [] then ''proj'' else slug)"

definition ResourcePrefix :: string where "ResourcePrefix = ''sdev_eph_''"

definition resource_name :: "string \<Rightarrow> byte list \<Rightarrow> string" where
  "resource_name projectName bs = ResourcePrefix @ projectSlug projectName @ ''_'' @ hex bs"

definition name_char :: "char \<Rightarrow> bool" where
  "name_char c \<longleftrightarrow> (let n = (of_char c :: nat) in (97 \<le> n \<and> n \<le> 122) \<or> (48 \<le> n \<and> n \<le> 57) \<or> n = 95)"

lemma slug_char_name: "name_char (slug_char r)"
  by (auto simp: slug_char_def name_char_def Let_def)

lemma slug_loop_chars: "list_all name_char b \<Longrightarrow> list_all name_char (slug_loop rs b)"
  by (induction rs b rule: slug_loop.induct) (auto simp: Let_def slug_char_name)

lemma slug_loop_length: "length b < maxProjectSlugLen \<Longrightarrow> length (slug_loop rs b) \<le> maxProjectSlugLen"
  by (induction rs b rule: slug_loop.induct) (auto simp: Let_def)

lemma trim_underscores_props:
  "length (trim_underscores s) \<le> length s \<and> set (trim_underscores s) \<subseteq> set s"
proof -
  let ?P = "\<lambda>c. c = CHR ''_''" and ?a = "dropWhile (\<lambda>c. c = CHR ''_'') s"
  have "length (dropWhile ?P (rev ?a)) \<le> length (rev ?a)" "length ?a \<le> length s" by (rule length_dropWhile_le)+
  moreover have "set (dropWhile ?P (rev ?a)) \<subseteq> set s" by (auto dest!: set_dropWhileD)
  ultimately show ?thesis unfolding trim_underscores_def by simp
qed

lemma projectSlug_props:
  "projectSlug n \<noteq> [] \<and> length (projectSlug n) \<le> maxProjectSlugLen \<and> list_all name_char (projectSlug n)"
proof -
  let ?t = "slug_loop (runes n) []"
  have "length ?t \<le> maxProjectSlugLen" "list_all name_char ?t"
    by (rule slug_loop_length, simp add: maxProjectSlugLen_def) (rule slug_loop_chars, simp)
  with trim_underscores_props [of ?t] show ?thesis
    by (auto simp: projectSlug_def Let_def list_all_iff name_char_def maxProjectSlugLen_def)
qed

lemma hex_chars: "list_all name_char (hex bs)"
proof -
  have "name_char (nibble d)" if "d < 16" for d
    using that by (auto simp: nibble_def name_char_def Let_def)
  moreover have "unat (b :: byte) div 16 < 16" "unat b mod 16 < 16" for b using unat_byte [of b] by simp_all
  ultimately show ?thesis by (auto simp: hex_def list_all_iff)
qed

text \<open>
  A resource name is safe to use as an identifier: it starts with the prefix the reaper looks for, has
  only lower case letters, digits and underscores, and with six random bytes is at most 42 characters long,
  below the 63 bytes PostgreSQL keeps of an identifier.
\<close>

theorem resource_name_safe:
  "prefix ResourcePrefix (resource_name projectName bs) \<and> list_all name_char (resource_name projectName bs) \<and>
   length (resource_name projectName bs) \<le> 30 + 2 * length bs"
  using projectSlug_props [of projectName] hex_chars [of bs]
  by (auto simp: resource_name_def ResourcePrefix_def name_char_def maxProjectSlugLen_def)

end
