(* ===== verification/LeaseManager.thy ===== *)
theory LeaseManager
  imports ProvisionStore ResourceNames
begin

text \<open>
  The lease manager (\<^verbatim>\<open>agent/dbprovision/lease.go\<close>): acquiring, renewing, releasing and listing the
  temporary resources of a project, and the reconciliation of the background reaper.
\<close>

definition absoluteLeaseLifetime :: duration where "absoluteLeaseLifetime = 24 * hour"
definition defaultQuota :: int where "defaultQuota = 3"
definition defaultTTL :: duration where "defaultTTL = 30 * minute"
definition maxSlotRetries :: nat where "maxSlotRetries = 3"

record plannedResource =
  pd_Kind :: string
  pd_DataSource :: DataSource
  pd_Provisioner :: Provisioner
  pd_Plan :: ProvisionPlan

record createdResource =
  cr_Stored :: StoredResource
  cr_DataSource :: DataSource
  cr_Provisioner :: Provisioner
  cr_Resource :: Resource

section \<open>Bindings\<close>

fun pick_kinds :: "ProjectBinding \<Rightarrow> string list \<Rightarrow> string list \<Rightarrow> prov_error + string list" where
  "pick_kinds binding [] result = Inr result"
| "pick_kinds binding (kind # kinds) result =
     (if kind \<in> set result then pick_kinds binding kinds result
      else if (kind = KindPostgres \<and> bd_Postgres binding = None) \<or> (kind = KindRedis \<and> bd_Redis binding = None)
      then Inl BindingMissing
      else if kind \<noteq> KindPostgres \<and> kind \<noteq> KindRedis then Inl (UnsupportedKind kind)
      else pick_kinds binding kinds (result @ [kind]))"

definition selectedKinds :: "ProjectBinding \<Rightarrow> string list \<Rightarrow> prov_error + string list" where
  "selectedKinds binding requested =
     (if requested = []
      then Inr ((if bd_Postgres binding \<noteq> None then [KindPostgres] else []) @
                (if bd_Redis binding \<noteq> None then [KindRedis] else []))
      else case pick_kinds binding requested [] of
        Inl e \<Rightarrow> Inl e
      | Inr result \<Rightarrow> if result = [] then Inl BindingMissing else Inr result)"

definition bindingDataSourceName :: "ProjectBinding \<Rightarrow> string \<Rightarrow> prov_error + string" where
  "bindingDataSourceName binding kind =
     (if kind = KindPostgres then
        (case bd_Postgres binding of None \<Rightarrow> Inl BindingMissing
         | Some b \<Rightarrow> if TrimSpace (pgb_DataSourceName b) = [] then Inl BindingMissing else Inr (pgb_DataSourceName b))
      else if kind = KindRedis then
        (case bd_Redis binding of None \<Rightarrow> Inl BindingMissing
         | Some b \<Rightarrow> if TrimSpace (rdb_DataSourceName b) = [] then Inl BindingMissing else Inr (rdb_DataSourceName b))
      else Inl (UnsupportedKind kind))"

definition bindingTTL :: "ProjectBinding \<Rightarrow> duration" where
  "bindingTTL binding =
     (if bd_DefaultTTLMinutes binding \<le> 0 then defaultTTL else wrap64 (bd_DefaultTTLMinutes binding * minute))"

definition quota_limit :: "ProjectBinding \<Rightarrow> int" where
  "quota_limit binding = (if bd_MaxConcurrentLeases binding \<le> 0 then defaultQuota else bd_MaxConcurrentLeases binding)"

section \<open>Planning\<close>

definition NewResourceName :: "environment \<Rightarrow> string \<Rightarrow> string pact" where
  "NewResourceName en projectName = andThen (outside (en_Rand en)) (\<lambda>buf.
     case buf of None \<Rightarrow> throwE RandError | Some bs \<Rightarrow> ret (resource_name projectName bs))"

definition planResource :: "environment \<Rightarrow> string \<Rightarrow> ProjectBinding \<Rightarrow> string \<Rightarrow> string \<Rightarrow> plannedResource pact" where
  "planResource en projectID binding kind nameSeed =
     andThen (ofSum (bindingDataSourceName binding kind)) (\<lambda>name.
     andThen (outsideErr (\<lambda>k. en_Registry en k kind name)) (\<lambda>ds.
     case en_Provisioners en kind of
       None \<Rightarrow> throwE (UnsupportedKind kind)
     | Some p \<Rightarrow>
         andThen (ListActiveResourceNames en (ds_ID ds) kind) (\<lambda>taken.
         andThen (outsideErr (\<lambda>k. pr_Plan p k ds \<lparr>rq_ProjectID = projectID, rq_NameSeed = nameSeed,
           rq_Binding = binding, rq_TakenHints = taken\<rparr>)) (\<lambda>plan.
         ret \<lparr>pd_Kind = kind, pd_DataSource = ds, pd_Provisioner = p, pd_Plan = plan\<rparr>))))"

definition mergeMeta :: "meta \<Rightarrow> meta \<Rightarrow> meta" where
  "mergeMeta primary fallback = fallback ++ primary"

definition resourceForReservation :: "plannedResource \<Rightarrow> Resource" where
  "resourceForReservation planned = \<lparr>rs_Kind = pd_Kind planned, rs_Name = pl_ResourceName (pd_Plan planned), rs_DSN = [],
     rs_Meta = mergeMeta (pl_Detail (pd_Plan planned)) [''datasource_name'' \<mapsto> ds_Name (pd_DataSource planned)]\<rparr>"

section \<open>Provisioning\<close>

definition call_provision :: "Provisioner \<Rightarrow> DataSource \<Rightarrow> ProvisionPlan \<Rightarrow> Resource pact" where
  "call_provision p ds plan = andThen (outsideErr (\<lambda>k. pr_Provision p k ds plan)) (\<lambda>res.
     andThen (record_call (Provisioned (ds_ID ds) (rs_Kind res) (rs_Name res))) (\<lambda>_. ret res))"

definition call_reclaim :: "Provisioner \<Rightarrow> DataSource \<Rightarrow> Resource \<Rightarrow> unit pact" where
  "call_reclaim p ds res = andThen (outside (\<lambda>k. pr_Reclaim p k ds res)) (\<lambda>r.
     andThen (record_call (Reclaimed (ds_ID ds) (rs_Kind res) (rs_Name res) (r = None))) (\<lambda>_.
     case r of None \<Rightarrow> ret () | Some e \<Rightarrow> throwE e))"

text \<open>The slot is registered before the resource is made; a taken slot is planned anew, three attempts in all.\<close>

fun reserve ::
  "environment \<Rightarrow> string \<Rightarrow> string \<Rightarrow> ProjectBinding \<Rightarrow> string \<Rightarrow> string \<Rightarrow> nat \<Rightarrow> plannedResource
     \<Rightarrow> (plannedResource \<times> string \<times> Resource) pact" where
  "reserve en projectID projectName binding nameSeed leaseID 0 planned = throwE ResourceSlotTaken"
| "reserve en projectID projectName binding nameSeed leaseID (Suc left) planned =
     andThen (attempt (InsertResource en leaseID (ds_ID (pd_DataSource planned)) (resourceForReservation planned))) (\<lambda>r.
     case r of
       Inr rid \<Rightarrow> ret (planned, rid, resourceForReservation planned)
     | Inl e \<Rightarrow>
         if e \<noteq> ResourceSlotTaken \<or> left = 0 then throwE e
         else
           andThen (if pd_Kind planned = KindPostgres then NewResourceName en projectName else ret nameSeed) (\<lambda>seed.
           andThen (planResource en projectID binding (pd_Kind planned) seed) (\<lambda>planned.
           reserve en projectID projectName binding nameSeed leaseID left planned)))"

definition provision_one ::
  "environment \<Rightarrow> string \<Rightarrow> string \<Rightarrow> ProjectBinding \<Rightarrow> string \<Rightarrow> string \<Rightarrow> plannedResource \<Rightarrow> createdResource pact" where
  "provision_one en projectID projectName binding nameSeed leaseID planned =
     andThen (reserve en projectID projectName binding nameSeed leaseID maxSlotRetries planned) (\<lambda>(planned, rid, stored).
     andThen (attempt (call_provision (pd_Provisioner planned) (pd_DataSource planned) (pd_Plan planned))) (\<lambda>r.
     case r of
       Inl e \<Rightarrow> andThen (attempt (MarkResourceReclaimed en rid)) (\<lambda>_. throwE e)
     | Inr res0 \<Rightarrow>
         let res = res0\<lparr>rs_Meta := mergeMeta (rs_Meta res0) (rs_Meta stored)\<rparr>
         in andThen (attempt (MarkResourceActive en rid)) (\<lambda>a.
            case a of
              Inl e \<Rightarrow>
                andThen (attempt (call_reclaim (pd_Provisioner planned) (pd_DataSource planned) res)) (\<lambda>_.
                andThen (attempt (MarkResourceReclaimed en rid)) (\<lambda>_. throwE e))
            | Inr _ \<Rightarrow> ret \<lparr>cr_Stored = \<lparr>sd_ID = rid, sd_LeaseID = leaseID, sd_DataSourceID = ds_ID (pd_DataSource planned),
                sd_Kind = pd_Kind planned, sd_Name = rs_Name res, sd_Meta = rs_Meta res, sd_Status = ''active''\<rparr>,
                cr_DataSource = pd_DataSource planned, cr_Provisioner = pd_Provisioner planned, cr_Resource = res\<rparr>)))"

fun provision_all ::
  "environment \<Rightarrow> string \<Rightarrow> string \<Rightarrow> ProjectBinding \<Rightarrow> string \<Rightarrow> string \<Rightarrow> plannedResource list \<Rightarrow> createdResource list
     \<Rightarrow> (prov_error option \<times> createdResource list) pact" where
  "provision_all en projectID projectName binding nameSeed leaseID [] created = ret (None, created)"
| "provision_all en projectID projectName binding nameSeed leaseID (planned # rest) created =
     andThen (attempt (provision_one en projectID projectName binding nameSeed leaseID planned)) (\<lambda>r.
     case r of
       Inl e \<Rightarrow> ret (Some e, created)
     | Inr c \<Rightarrow> provision_all en projectID projectName binding nameSeed leaseID rest (created @ [c]))"

definition rollbackCreated :: "environment \<Rightarrow> createdResource list \<Rightarrow> unit pact" where
  "rollbackCreated en created = forEach (\<lambda>c.
     andThen (attempt (call_reclaim (cr_Provisioner c) (cr_DataSource c) (cr_Resource c))) (\<lambda>_.
     andThen (attempt (MarkResourceReclaimed en (sd_ID (cr_Stored c)))) (\<lambda>_. ret ()))) created"

section \<open>Acquire\<close>

text \<open>Checks, quota, lifetime and plans: everything before the first change.\<close>

definition quota_details :: "Lease list \<Rightarrow> (string \<times> string \<times> time) list" where
  "quota_details leases = concat (map (\<lambda>l. map (\<lambda>r. (rs_Name r, rs_Kind r, le_ExpiresAt l)) (le_Resources l)) leases)"

definition check_quota :: "environment \<Rightarrow> string \<Rightarrow> int \<Rightarrow> unit pact" where
  "check_quota en projectID limit =
     andThen (CountActiveLeases en projectID) (\<lambda>active.
     if limit \<le> active
     then andThen (ListLeases en projectID) (\<lambda>existing. throwE (QuotaExceeded active limit (quota_details existing)))
     else ret ())"

definition approve :: "environment \<Rightarrow> string \<Rightarrow> plannedResource list \<Rightarrow> unit pact" where
  "approve en projectID plans =
     (case en_Approve en of
        None \<Rightarrow> ret ()
      | Some gate \<Rightarrow> andThen (outside (\<lambda>k. gate k projectID (map pd_Plan plans))) (\<lambda>r.
          case r of None \<Rightarrow> ret () | Some e \<Rightarrow> throwE e))"

definition prepare ::
  "environment \<Rightarrow> AcquireRequest \<Rightarrow> (ProjectBinding \<times> string \<times> string \<times> plannedResource list \<times> Lease) pact" where
  "prepare en req =
     (if TrimSpace (aq_ProjectID req) = [] then throwE ProjectIDRequired
      else if TrimSpace (aq_Purpose req) = [] then throwE PurposeRequired
      else
        andThen (outsideErr (\<lambda>k. en_Binding en k (aq_ProjectID req))) (\<lambda>(binding, projectName).
        if bd_Postgres binding = None \<and> bd_Redis binding = None then throwE BindingMissing
        else
          andThen (ofSum (selectedKinds binding (aq_Kinds req))) (\<lambda>kinds.
          andThen (check_quota en (aq_ProjectID req) (quota_limit binding)) (\<lambda>_.
          let ttl = (if aq_TTL req = 0 then bindingTTL binding else aq_TTL req)
          in if ttl \<le> 0 then throwE TTLNotPositive
             else
               andThen (outside (en_Now en)) (\<lambda>now.
               andThen (outside (en_UUID en)) (\<lambda>leaseID.
               andThen (NewResourceName en projectName) (\<lambda>nameSeed.
               andThen (mapEach (\<lambda>kind. planResource en (aq_ProjectID req) binding kind nameSeed) kinds) (\<lambda>plans.
               andThen (approve en (aq_ProjectID req) plans) (\<lambda>_.
               ret (binding, projectName, nameSeed, plans,
                 \<lparr>le_ID = leaseID, le_ProjectID = aq_ProjectID req, le_Purpose = aq_Purpose req, le_Resources = [],
                  le_CreatedAt = now, le_ExpiresAt = now + ttl, le_RenewCount = 0\<rparr>))))))))))"

text \<open>\<^verbatim>\<open>fail\<close>: what is left of a request that could not be completed is rolled back.\<close>

definition give_up :: "environment \<Rightarrow> Lease \<Rightarrow> createdResource list \<Rightarrow> prov_error \<Rightarrow> Lease pact" where
  "give_up en lease created cause =
     andThen (rollbackCreated en created) (\<lambda>_.
     andThen (attempt (MarkLeaseReleased en (le_ID lease))) (\<lambda>_. throwE cause))"

definition Acquire :: "environment \<Rightarrow> AcquireRequest \<Rightarrow> Lease pact" where
  "Acquire en req =
     andThen (prepare en req) (\<lambda>(binding, projectName, nameSeed, plans, lease).
     andThen (InsertLease en lease) (\<lambda>_.
     andThen (provision_all en (aq_ProjectID req) projectName binding nameSeed (le_ID lease) plans []) (\<lambda>(failure, created).
     case failure of
       Some cause \<Rightarrow> give_up en lease created cause
     | None \<Rightarrow> ret (lease\<lparr>le_Resources := map cr_Resource created\<rparr>))))"

section \<open>Renew, release and list\<close>

definition Renew :: "environment \<Rightarrow> string \<Rightarrow> duration \<Rightarrow> Lease pact" where
  "Renew en leaseID ttl0 =
     andThen (GetLeaseWithResources en leaseID) (\<lambda>(lease, _).
     andThen (outside (en_Now en)) (\<lambda>now.
     if absoluteLeaseLifetime < time_sub now (le_CreatedAt lease) then throwE LeaseLifetimeExceeded
     else
       andThen (outsideErr (\<lambda>k. en_Binding en k (le_ProjectID lease))) (\<lambda>(binding, _).
       let limit = bindingTTL binding; ttl = (if ttl0 = 0 \<or> limit < ttl0 then limit else ttl0)
       in if ttl \<le> 0 then throwE TTLNotPositive
          else
            let lease = lease\<lparr>le_ExpiresAt := now + ttl, le_RenewCount := wrap64 (le_RenewCount lease + 1)\<rparr>
            in andThen (UpdateLeaseExpiry en leaseID (le_ExpiresAt lease) (le_RenewCount lease)) (\<lambda>_. ret lease))))"

definition datasourceFor :: "environment \<Rightarrow> StoredResource \<Rightarrow> DataSource pact" where
  "datasourceFor en r =
     (case sd_Meta r ''datasource_name'' of
        None \<Rightarrow> throwE (NoDataSourceName (sd_Name r))
      | Some name \<Rightarrow>
          if name = [] then throwE (NoDataSourceName (sd_Name r))
          else outsideErr (\<lambda>k. en_Registry en k (sd_Kind r) name))"

fun errors_of :: "'e + 'a \<Rightarrow> 'e list" where
  "errors_of (Inl e) = [e]"
| "errors_of (Inr a) = []"

definition release_row :: "environment \<Rightarrow> StoredResource \<Rightarrow> prov_error list pact" where
  "release_row en r =
     (if sd_Status r = ''reclaimed'' then ret []
      else
        andThen (attempt (datasourceFor en r)) (\<lambda>d.
        case d of
          Inl e \<Rightarrow> ret [e]
        | Inr ds \<Rightarrow>
            (case en_Provisioners en (sd_Kind r) of
               None \<Rightarrow> ret [UnsupportedKind (sd_Kind r)]
             | Some p \<Rightarrow>
                 andThen (attempt (call_reclaim p ds (resource_of_row r))) (\<lambda>c.
                 andThen (attempt (MarkResourceReclaimed en (sd_ID r))) (\<lambda>m.
                 ret (errors_of c @ errors_of m))))))"

definition Release :: "environment \<Rightarrow> string \<Rightarrow> unit pact" where
  "Release en leaseID =
     andThen (attempt (GetLeaseWithResources en leaseID)) (\<lambda>g.
     case g of
       Inl e \<Rightarrow> if e = LeaseNotFound then ret () else throwE e
     | Inr (_, rows) \<Rightarrow>
         andThen (mapEach (release_row en) rows) (\<lambda>errs.
         andThen (attempt (MarkLeaseReleased en leaseID)) (\<lambda>m.
         let all = concat errs @ errors_of m in if all = [] then ret () else throwE (Joined all))))"

definition ListProjectLeases :: "environment \<Rightarrow> string \<Rightarrow> Lease list pact" where
  "ListProjectLeases en projectID =
     andThen (ListLeases en projectID) (\<lambda>leases.
     ret (map (\<lambda>l. l\<lparr>le_Resources := map WithoutSecret (le_Resources l)\<rparr>) leases))"

section \<open>Reconciliation\<close>

record ReconcileReport =
  rp_ExpiredReclaimed :: nat
  rp_OrphansReclaimed :: "Orphan list"
  rp_Errors :: nat

text \<open>The report's errors are texts; the model counts them.\<close>

fun reconcile_expired :: "environment \<Rightarrow> Lease list \<Rightarrow> ReconcileReport \<Rightarrow> ReconcileReport pact" where
  "reconcile_expired en [] rep = ret rep"
| "reconcile_expired en (l # ls) rep =
     andThen (attempt (Release en (le_ID l))) (\<lambda>r.
     case r of
       Inl _ \<Rightarrow> reconcile_expired en ls (rep\<lparr>rp_Errors := Suc (rp_Errors rep)\<rparr>)
     | Inr _ \<Rightarrow> reconcile_expired en ls (rep\<lparr>rp_ExpiredReclaimed := Suc (rp_ExpiredReclaimed rep)\<rparr>))"

fun reclaim_orphans :: "Provisioner \<Rightarrow> DataSource \<Rightarrow> Orphan list \<Rightarrow> ReconcileReport \<Rightarrow> ReconcileReport pact" where
  "reclaim_orphans p ds [] rep = ret rep"
| "reclaim_orphans p ds (x # xs) rep =
     andThen (attempt (call_reclaim p ds \<lparr>rs_Kind = or_Kind x, rs_Name = or_Name x, rs_DSN = [], rs_Meta = Map.empty\<rparr>)) (\<lambda>r.
     case r of
       Inl _ \<Rightarrow> reclaim_orphans p ds xs (rep\<lparr>rp_Errors := Suc (rp_Errors rep)\<rparr>)
     | Inr _ \<Rightarrow> reclaim_orphans p ds xs (rep\<lparr>rp_OrphansReclaimed := rp_OrphansReclaimed rep @ [x]\<rparr>))"

definition known_resources :: "DataSource \<Rightarrow> StoredResource list \<Rightarrow> Resource list" where
  "known_resources ds active =
     map resource_of_row (filter (\<lambda>r. sd_DataSourceID r = ds_ID ds \<and> sd_Kind r = ds_Kind ds \<and> live r) active)"

fun reconcile_sources ::
  "environment \<Rightarrow> StoredResource list \<Rightarrow> DataSource list \<Rightarrow> ReconcileReport \<Rightarrow> ReconcileReport pact" where
  "reconcile_sources en active [] rep = ret rep"
| "reconcile_sources en active (ds # dss) rep =
     (case en_Provisioners en (ds_Kind ds) of
        None \<Rightarrow> reconcile_sources en active dss (rep\<lparr>rp_Errors := Suc (rp_Errors rep)\<rparr>)
      | Some p \<Rightarrow>
          andThen (outside (\<lambda>k. pr_Reconcile p k ds (known_resources ds active))) (\<lambda>r.
          case r of
            Inl _ \<Rightarrow> reconcile_sources en active dss (rep\<lparr>rp_Errors := Suc (rp_Errors rep)\<rparr>)
          | Inr orphans \<Rightarrow>
              andThen (reclaim_orphans p ds orphans rep) (\<lambda>rep. reconcile_sources en active dss rep)))"

definition reconcile_datasources :: "environment \<Rightarrow> ReconcileReport \<Rightarrow> ReconcileReport pact" where
  "reconcile_datasources en rep =
     (case en_Sources en of
        None \<Rightarrow> ret rep
      | Some list_sources \<Rightarrow>
          andThen (outside list_sources) (\<lambda>r.
          case r of
            Inl _ \<Rightarrow> ret (rep\<lparr>rp_Errors := Suc (rp_Errors rep)\<rparr>)
          | Inr sources \<Rightarrow>
              andThen (attempt (ListAllActiveResources en)) (\<lambda>a.
              case a of
                Inl _ \<Rightarrow> ret (rep\<lparr>rp_Errors := Suc (rp_Errors rep)\<rparr>)
              | Inr active \<Rightarrow> reconcile_sources en active sources rep)))"

definition Reconcile :: "environment \<Rightarrow> ReconcileReport pact" where
  "Reconcile en =
     andThen (outside (en_Now en)) (\<lambda>now.
     andThen (ListExpiredLeases en now) (\<lambda>expired.
     andThen (reconcile_expired en expired \<lparr>rp_ExpiredReclaimed = 0, rp_OrphansReclaimed = [], rp_Errors = 0\<rparr>) (\<lambda>rep.
     reconcile_datasources en rep)))"

section \<open>A small project\<close>

text \<open>
  A project bound to a PostgreSQL and a Redis data source, two leases at most; the Redis provisioner fails
  when it is told to, and a data source that was removed is not found.
\<close>

definition sample_source :: "string \<Rightarrow> DataSource" where
  "sample_source kind = \<lparr>ds_ID = kind @ ''-1'', ds_Kind = kind, ds_Name = ''main'', ds_Host = ''localhost'', ds_Port = 5432,
     ds_User = ''admin'', ds_Password = ''x'', ds_Extra = Map.empty,
     ds_Probe = \<lparr>pb_OK = True, pb_CheckedAt = 0, pb_ServerVer = ''16'', pb_Capabilities = Map.empty, pb_Facts = Map.empty,
       pb_Missing = [], pb_FixHint = [], pb_Error = []\<rparr>,
     ds_Source = ''manual'', ds_CreatedAt = 0\<rparr>"

definition sample_provisioner :: "string \<Rightarrow> bool \<Rightarrow> Provisioner" where
  "sample_provisioner kind fails = \<lparr>pr_Probe = (\<lambda>k ds. Inr (ds_Probe ds)),
     pr_Plan = (\<lambda>k ds req. Inr \<lparr>pl_Kind = kind,
       pl_ResourceName = (if kind = KindPostgres then rq_NameSeed req else if rq_TakenHints req = [] then ''db1'' else ''db2''),
       pl_Steps = [], pl_SideEffects = [], pl_Detail = Map.empty\<rparr>),
     pr_Provision = (\<lambda>k ds plan. if fails then Inl (Outside ''down'')
       else Inr \<lparr>rs_Kind = kind, rs_Name = pl_ResourceName plan, rs_DSN = ''dsn'', rs_Meta = Map.empty\<rparr>),
     pr_Reclaim = (\<lambda>k ds res. None), pr_Reconcile = (\<lambda>k ds known. Inr [])\<rparr>"

definition sample_binding :: ProjectBinding where
  "sample_binding = \<lparr>bd_Postgres = Some \<lparr>pgb_DataSourceName = ''main'', pgb_DevDatabase = ''dev'',
     pgb_TerminateConnections = False\<rparr>, bd_Redis = Some \<lparr>rdb_DataSourceName = ''main''\<rparr>,
     bd_MaxConcurrentLeases = 2, bd_DefaultTTLMinutes = 10\<rparr>"

definition sample_env :: "bool \<Rightarrow> bool \<Rightarrow> time \<Rightarrow> environment" where
  "sample_env fails removed now = \<lparr>en_DB = (\<lambda>k. True), en_UUID = (\<lambda>k. ''id-'' @ nat_text k), en_Now = (\<lambda>k. now),
     en_Rand = (\<lambda>k. Some [1, 2, 3, 4, 5, 6]),
     en_Binding = (\<lambda>k pid. Inr (sample_binding, ''Shop'')),
     en_Registry = (\<lambda>k kind name. if removed then Inl DataSourceNotFound else Inr (sample_source kind)),
     en_Provisioners = (\<lambda>kind. Some (sample_provisioner kind (fails \<and> kind = KindRedis))),
     en_Approve = None, en_Sources = None\<rparr>"

definition sample_request :: AcquireRequest where
  "sample_request = \<lparr>aq_ProjectID = ''p1'', aq_Purpose = ''tests'', aq_TTL = 0, aq_Kinds = []\<rparr>"

definition sample_now :: time where "sample_now = from_unix 1700000000"

definition no_leases :: provision where
  "no_leases = \<lparr>pv_Leases = [], pv_Resources = [], pv_Tick = 0, pv_Trace = []\<rparr>"

definition one_lease :: provision where
  "one_lease = snd (Acquire (sample_env False False sample_now) sample_request no_leases)"

text \<open>A lease as it is in the tables, without resources.\<close>

definition leased :: "string \<Rightarrow> provision" where
  "leased status = no_leases\<lparr>pv_Leases := [\<lparr>lw_ID = ''L'', lw_ProjectID = ''p1'', lw_Purpose = ''tests'', lw_CreatedAt = 1700000000,
     lw_ExpiresAt = 1700000600, lw_RenewCount = 0, lw_Status = status\<rparr>]\<rparr>"

lemma lease_sample_fields:
  "en_DB (sample_env f r n) = (\<lambda>k. True)" "en_Now (sample_env f r n) = (\<lambda>k. n)"
  "en_Binding (sample_env f r n) = (\<lambda>k pid. Inr (sample_binding, ''Shop''))" "bindingTTL sample_binding = 10 * minute"
  by (simp_all add: sample_env_def sample_binding_def bindingTTL_def wrap64_def time_units)

end
