(* ===== verification/LeaseClaims.thy ===== *)
theory LeaseClaims
  imports LeaseSafety
begin

text \<open>
  Quotas, lifetimes, releases and rounds of the reaper.
\<close>

section \<open>Quotas\<close>

lemma check_quota_result:
  assumes "check_quota en pid limit s = (Inr u, t)"
  shows "int (active_count pid (pv_Leases s)) < limit"
  using assms by (auto simp: check_quota_def andThen_cases CountActiveLeases_def query_cases Let_def split: if_splits)

lemma prepare_result:
  assumes "prepare en req s = (Inr (b, pn, seed, plans, l), t)"
  shows "en_Binding en (pv_Tick s) (aq_ProjectID req) = Inr (b, pn) \<and>
    int (active_count (aq_ProjectID req) (pv_Leases s)) < quota_limit b \<and>
    le_ProjectID l = aq_ProjectID req \<and> le_CreatedAt l < le_ExpiresAt l"
  using assms
  by (auto simp: prepare_def andThen_cases Let_def split: if_splits dest!: check_quota_result)


lemma provision_all_leases:
  "provision_all en pid pn b seed lid plans created s = (r, t) \<Longrightarrow> pv_Leases t = pv_Leases s"
  using staysD [OF same_leases.provision_all_stays, where s = s] by (simp add: same_leases_def)

lemma give_up_throws: "give_up en l cs cause s \<noteq> (Inr x, t)"
  by (auto simp: give_up_def andThen_cases)



section \<open>Approval comes first\<close>

text \<open>
  A request the approval gate refuses changes nothing: no lease, no registration, and no provisioner was
  asked to make or to reclaim anything.
\<close>

theorem refused_request_changes_nothing:
  assumes "en_Approve en = Some gate" "\<And>k pid plans. gate k pid plans \<noteq> None" "Acquire en req s = (r, t)"
  shows "isl r \<and> pv_Leases t = pv_Leases s \<and> pv_Resources t = pv_Resources s \<and> pv_Trace t = pv_Trace s"
proof -
  have "approve en pid plans s \<noteq> (Inr x, u)" for pid plans s x u
    using assms(2) [of "pv_Tick s" pid "map pd_Plan plans"]
    by (auto simp: approve_def assms(1) andThen_cases split: option.splits)
  then have "prepare en req s \<noteq> (Inr x, u)" for x u
    by (auto simp: prepare_def andThen_cases Let_def split: if_splits)
  with assms(3) show ?thesis
  proof (cases rule: Acquire_cases)
    case (unprepared e)
    with prepare_read_only [OF unprepared(1)] show ?thesis by (simp add: same_tables_def)
  qed blast
qed

theorem refused_request_changes_nothing_witness:
  "pv_Resources (snd (Acquire ((sample_env False False sample_now)\<lparr>en_Approve := Some (\<lambda>k pid plans. Some (Outside ''denied''))\<rparr>)
     sample_request no_leases)) = []"
proof -
  let ?en = "(sample_env False False sample_now)\<lparr>en_Approve := Some (\<lambda>k pid plans. Some (Outside ''denied''))\<rparr>"
  have "en_Approve ?en = Some (\<lambda>k pid plans. Some (Outside ''denied''))" by simp
  from refused_request_changes_nothing [OF this _ prod.collapse [symmetric], of sample_request no_leases]
  show ?thesis by (simp add: no_leases_def)
qed

section \<open>Reading a lease\<close>

lemma listResourceRows_result:
  assumes "listResourceRows en P s = (Inr rows, t)"
  shows "same_tables s t \<and> set rows = StoredResource.truncate ` set (filter P (pv_Resources s))"
  using assms by (auto simp: listResourceRows_def query_cases Let_def same_tables_def split: if_splits)

lemma GetLeaseWithResources_result:
  assumes "GetLeaseWithResources en lid s = (Inr (lease, rows), t)"
  shows "\<exists>row. find (\<lambda>l. lw_ID l = lid) (pv_Leases s) = Some row \<and> lw_Status row \<noteq> ''released'' \<and>
    lease = lease_of_row row \<and> same_tables s t \<and>
    set rows = StoredResource.truncate ` set (filter (\<lambda>r. sd_LeaseID r = lid) (pv_Resources s))"
  using assms
  by (auto simp: GetLeaseWithResources_def GetLease_def andThen_cases query_cases Let_def same_tables_def
      split: if_splits option.splits dest!: listResourceRows_result)

section \<open>Renewal\<close>

text \<open>
  A renewal gives a lease at most its project's default lifetime from now, counts it, and is refused more
  than 24 hours after the lease was made; so a lease never runs past 24 hours and one default lifetime after
  it was made.
\<close>

theorem renewal_bounds:
  assumes "Renew en lid ttl s = (Inr lease, t)"
  shows "\<exists>row now b pn. row \<in> set (pv_Leases s) \<and> lw_ID row = lid \<and> (\<exists>k. now = en_Now en k) \<and>
    (\<exists>k. en_Binding en k (lw_ProjectID row) = Inr (b, pn)) \<and> now < le_ExpiresAt lease \<and>
    le_ExpiresAt lease \<le> now + bindingTTL b \<and>
    le_ExpiresAt lease \<le> from_unix (lw_CreatedAt row) + absoluteLeaseLifetime + bindingTTL b \<and>
    le_RenewCount lease = wrap64 (lw_RenewCount row + 1)"
proof -
  have sub: "now - c \<le> absoluteLeaseLifetime" if "\<not> absoluteLeaseLifetime < time_sub now c" for now c
    using that by (auto simp: time_sub_def absoluteLeaseLifetime_def time_units maxDuration_def minDuration_def)
  obtain l rows s1 where get: "GetLeaseWithResources en lid s = (Inr (l, rows), s1)"
    using assms by (auto simp: Renew_def andThen_cases)
  from GetLeaseWithResources_result [OF get] obtain row where
    row: "find (\<lambda>l. lw_ID l = lid) (pv_Leases s) = Some row" "l = lease_of_row row" by blast
  then have mem: "row \<in> set (pv_Leases s)" "lw_ID row = lid" by (auto simp: find_Some_iff)
  let ?now = "en_Now en (pv_Tick s1)"
  obtain b pn where b: "en_Binding en (Suc (pv_Tick s1)) (lw_ProjectID row) = Inr (b, pn)"
    and life: "\<not> absoluteLeaseLifetime < time_sub ?now (from_unix (lw_CreatedAt row))"
    and res: "let ttl = (if ttl = 0 \<or> bindingTTL b < ttl then bindingTTL b else ttl)
      in 0 < ttl \<and> le_ExpiresAt lease = ?now + ttl \<and> le_RenewCount lease = wrap64 (lw_RenewCount row + 1)"
    using assms get row(2) by (auto simp: Renew_def andThen_cases Let_def lease_of_row_def split: if_splits)
  have "?now < le_ExpiresAt lease" "le_ExpiresAt lease \<le> ?now + bindingTTL b"
    using res by (auto simp: Let_def split: if_splits)
  with sub [OF life] mem b res show ?thesis
    by (intro exI [of _ row] exI [of _ ?now] exI [of _ b] exI [of _ pn]) (auto simp: Let_def)
qed

lemma sample_get: "GetLeaseWithResources (sample_env False False n) ''L'' (leased ''active'') = (Inr (lease_of_row (hd (pv_Leases (leased ''active''))), []), (leased ''active'')\<lparr>pv_Tick := 3\<rparr>)"
  by (simp add: andThen_def GetLeaseWithResources_def GetLease_def listResourceRows_def query_cases Let_def
        leased_def no_leases_def sample_env_def numeral_3_eq_3)
lemma time_ok: "time_sub (sample_now + absoluteLeaseLifetime - minute) (from_unix 1700000000) = absoluteLeaseLifetime - minute"
  by (simp add: time_sub_def minDuration_def maxDuration_def absoluteLeaseLifetime_def sample_now_def from_unix_def time_units)
lemma late_renewal: "case fst (Renew (sample_env False False (sample_now + absoluteLeaseLifetime - minute)) ''L'' 0 (leased ''active'')) of
  Inl _ \<Rightarrow> False | Inr l \<Rightarrow> sample_now + absoluteLeaseLifetime < le_ExpiresAt l"
proof -
  have young: "time_sub (sample_now + absoluteLeaseLifetime - minute) (le_CreatedAt (lease_of_row (hd (pv_Leases (leased ''active''))))) \<le> absoluteLeaseLifetime"
    by (simp add: leased_def lease_of_row_def time_ok) (simp add: time_units)
  show ?thesis
    unfolding Renew_def andThen_Inr [where m = "GetLeaseWithResources en l" for en l, OF sample_get] prod.case
    using young by (simp add: andThen_def Let_def UpdateLeaseExpiry_def exec_cases lease_sample_fields) (simp add: time_units)
qed
text \<open>
  A lease renewed 23 hours and 59 minutes after it was made ends more than 24 hours after it was made.
\<close>

theorem renewal_bounds_witness:
  "case fst (Renew (sample_env False False (sample_now + absoluteLeaseLifetime - minute)) ''L'' 0 (leased ''active'')) of
     Inl _ \<Rightarrow> False
   | Inr lease \<Rightarrow> sample_now + absoluteLeaseLifetime < le_ExpiresAt lease \<and>
       (\<exists>b. le_ExpiresAt lease \<le> sample_now + absoluteLeaseLifetime + bindingTTL b)"
proof -
  obtain r t where run: "Renew (sample_env False False (sample_now + absoluteLeaseLifetime - minute)) ''L'' 0 (leased ''active'') = (r, t)"
    by fastforce
  note late = late_renewal [unfolded run fst_conv]
  obtain lease where lease: "r = Inr lease" "sample_now + absoluteLeaseLifetime < le_ExpiresAt lease"
  proof (cases r)
    case (Inl e)
    with late show ?thesis by (simp only: sum.case)
  next
    case (Inr l)
    with late have "sample_now + absoluteLeaseLifetime < le_ExpiresAt l" by (simp only: sum.case)
    with Inr show ?thesis by (rule that)
  qed
  from renewal_bounds [OF run [unfolded lease(1)]] obtain row b where "row \<in> set (pv_Leases (leased ''active''))"
    "le_ExpiresAt lease \<le> from_unix (lw_CreatedAt row) + absoluteLeaseLifetime + bindingTTL b" by blast
  then have "le_ExpiresAt lease \<le> sample_now + absoluteLeaseLifetime + bindingTTL b"
    by (simp add: leased_def sample_now_def)
  with lease(2) show ?thesis unfolding run lease(1) fst_conv sum.case by blast
qed

section \<open>Release\<close>

text \<open>Rolling back, releasing and the reaper never bring a reclaimed resource back.\<close>

definition live_ids :: "provision \<Rightarrow> string set" where
  "live_ids s = sd_ID ` set (filter live (pv_Resources s))"

definition fewer_live :: "provision \<Rightarrow> provision \<Rightarrow> bool" where
  "fewer_live s t \<longleftrightarrow> live_ids t \<subseteq> live_ids s"

lemma reclaimed_live_ids:
  "pv_Resources t = set_resource_status rid ''reclaimed'' (pv_Resources s) \<Longrightarrow> live_ids t = live_ids s - {rid}"
  unfolding live_ids_def by (auto simp: reclaim_live)

lemma MarkReclaimed_cases:
  assumes "MarkResourceReclaimed en rid s = (r, t)"
  shows "pv_Leases t = pv_Leases s \<and> pv_Trace t = pv_Trace s \<and>
    (case r of Inl _ \<Rightarrow> pv_Resources t = pv_Resources s
     | Inr _ \<Rightarrow> pv_Resources t = set_resource_status rid ''reclaimed'' (pv_Resources s))"
  using assms by (auto simp: MarkResourceReclaimed_def exec_cases Let_def split: if_splits)

lemma statements_fewer:
  "stays fewer_live (MarkResourceReclaimed en rid)" "stays fewer_live (MarkLeaseReleased en lid)"
proof -
  show "stays fewer_live (MarkResourceReclaimed en rid)"
  proof (rule staysI)
    fix s :: provision
    obtain r t where m: "MarkResourceReclaimed en rid s = (r, t)" by fastforce
    have "live_ids t \<subseteq> live_ids s"
    proof (cases r)
      case (Inl e)
      with MarkReclaimed_cases [OF m] show ?thesis by (simp add: live_ids_def)
    next
      case (Inr u)
      with MarkReclaimed_cases [OF m] have "live_ids t = live_ids s - {rid}" by (intro reclaimed_live_ids) simp
      then show ?thesis by blast
    qed
    with m show "fewer_live s (snd (MarkResourceReclaimed en rid s))" by (auto simp: fewer_live_def)
  qed
  show "stays fewer_live (MarkLeaseReleased en lid)"
    by (auto simp: stays_def fewer_live_def live_ids_def MarkLeaseReleased_def exec_cases Let_def)
qed

interpretation fewer: release_preorder fewer_live
  by unfold_locales (auto simp: fewer_live_def live_ids_def statements_fewer)

text \<open>A row without an error was reclaimed: its provisioner said so and the table says so.\<close>

lemma release_row_clean:
  assumes "release_row en r s = (Inr [], t)" "live r"
  shows "sd_ID r \<notin> live_ids t \<and> (\<exists>d. pv_Trace t = pv_Trace s @ [Reclaimed d (sd_Kind r) (sd_Name r) True])"
proof -
  have nr: "sd_Status r \<noteq> ''reclaimed''" using assms(2) by (simp add: live_def)
  obtain rd s1 where d: "datasourceFor en r s = (rd, s1)" by fastforce
  obtain ds where ds: "rd = Inr ds" using assms(1) nr d by (cases rd) (auto simp: release_row_def andThen_def)
  obtain p where p: "en_Provisioners en (sd_Kind r) = Some p"
    using assms(1) nr d ds by (cases "en_Provisioners en (sd_Kind r)") (auto simp: release_row_def andThen_def)
  obtain rc s2 where c: "call_reclaim p ds (resource_of_row r) s1 = (rc, s2)" by fastforce
  obtain rm s3 where m0: "MarkResourceReclaimed en (sd_ID r) s2 = (rm, s3)" by fastforce
  have fin: "errors_of rc = [] \<and> errors_of rm = [] \<and> s3 = t"
    using assms(1) nr d ds p c m0 by (auto simp: release_row_def andThen_def)
  then have m: "MarkResourceReclaimed en (sd_ID r) s2 = (rm, t)" and none: "errors_of rc = []" "errors_of rm = []"
    using m0 by simp_all
  have ok: "\<not> isl rc" "\<not> isl rm" using none by (cases rc; cases rm; simp)+
  have "same_tables s s1" using same_asks(4) [OF d [unfolded ds]] .
  with call_reclaim_result [OF c] MarkReclaimed_cases [OF m] ok show ?thesis
    by (cases rm) (auto simp: same_tables_def resource_of_row_def dest!: reclaimed_live_ids)
qed

lemma release_rows_clean:
  "mapEach (release_row en) rows s = (Inr errs, t) \<Longrightarrow> concat errs = [] \<Longrightarrow>
     (\<forall>r \<in> set rows. live r \<longrightarrow> sd_ID r \<notin> live_ids t \<and> (\<exists>d. Reclaimed d (sd_Kind r) (sd_Name r) True \<in> set (pv_Trace t)))
     \<and> set (pv_Trace s) \<subseteq> set (pv_Trace t)"
proof (induction rows arbitrary: s errs)
  case (Cons r rows)
  then obtain e s1 es where one: "release_row en r s = (Inr e, s1)" and rest: "mapEach (release_row en) rows s1 = (Inr es, t)"
    and errs: "errs = e # es" by (auto simp: andThen_cases)
  have clean: "e = []" "concat es = []" using Cons.prems(2) errs by simp_all
  note ih = Cons.IH [OF rest clean(2)]
  have "fewer_live s1 t"
    by (rule staysD [where m = "mapEach (release_row en) rows"]) (rule fewer.map_each [OF fewer.release_row_stays], rule rest)
  then have down: "live_ids t \<subseteq> live_ids s1" by (simp add: fewer_live_def)
  have grow: "set (pv_Trace s) \<subseteq> set (pv_Trace s1)"
  proof (cases "live r")
    case True
    with release_row_clean [of en r s s1] one clean(1) show ?thesis by auto
  next
    case False
    with one show ?thesis by (simp add: release_row_def live_def)
  qed
  have "sd_ID r \<notin> live_ids t \<and> (\<exists>d. Reclaimed d (sd_Kind r) (sd_Name r) True \<in> set (pv_Trace t))" if "live r"
  proof -
    from release_row_clean [of en r s s1] one clean(1) that obtain d where
      d: "sd_ID r \<notin> live_ids s1" "pv_Trace s1 = pv_Trace s @ [Reclaimed d (sd_Kind r) (sd_Name r) True]" by blast
    then have "Reclaimed d (sd_Kind r) (sd_Name r) True \<in> set (pv_Trace t)" using ih by auto
    with d(1) down show ?thesis by blast
  qed
  with ih grow show ?case by auto
qed simp

lemma truncate_row [simp]:
  "sd_ID (StoredResource.truncate r) = sd_ID r" "sd_Kind (StoredResource.truncate r) = sd_Kind r"
  "sd_Name (StoredResource.truncate r) = sd_Name r" "live (StoredResource.truncate r) = live r"
  by (simp_all add: StoredResource.truncate_def live_def)

definition released_id :: "string \<Rightarrow> provision \<Rightarrow> bool" where
  "released_id lid s \<longleftrightarrow> (\<forall>l \<in> set (pv_Leases s). lw_ID l = lid \<longrightarrow> lw_Status l = ''released'')"

lemma released_map:
  fixes ls :: "lease_row list"
  shows "\<forall>l \<in> set (map (\<lambda>l. if lw_ID l = lid then l\<lparr>lw_Status := ''released''\<rparr> else l) ls). lw_ID l = lid \<longrightarrow> lw_Status l = ''released''"
proof (intro ballI impI)
  fix l assume l: "l \<in> set (map (\<lambda>l. if lw_ID l = lid then l\<lparr>lw_Status := ''released''\<rparr> else l) ls)" "lw_ID l = lid"
  then obtain x :: lease_row where "l = (if lw_ID x = lid then x\<lparr>lw_Status := ''released''\<rparr> else x)" unfolding set_map image_iff by blast
  with l(2) show "lw_Status l = ''released''" by (cases "lw_ID x = lid") simp_all
qed

lemma released_map_other:
  fixes ls :: "lease_row list"
  assumes "\<forall>l' \<in> set ls. lw_ID l' = lid \<longrightarrow> lw_Status l' = ''released''"
  shows "\<forall>l' \<in> set (map (\<lambda>x. if lw_ID x = l then x\<lparr>lw_Status := ''released''\<rparr> else x) ls). lw_ID l' = lid \<longrightarrow> lw_Status l' = ''released''"
proof (intro ballI impI)
  fix y assume y: "y \<in> set (map (\<lambda>x. if lw_ID x = l then x\<lparr>lw_Status := ''released''\<rparr> else x) ls)" "lw_ID y = lid"
  then obtain x :: lease_row where x: "y = (if lw_ID x = l then x\<lparr>lw_Status := ''released''\<rparr> else x)" "x \<in> set ls" unfolding set_map image_iff by blast
  then have "lw_ID x = lid" using y(2) by (cases "lw_ID x = l") simp_all
  with assms x show "lw_Status y = ''released''" by (cases "lw_ID x = l") simp_all
qed

lemma MarkReleased_cases:
  assumes "MarkLeaseReleased en lid s = (r, t)"
  shows "pv_Resources t = pv_Resources s \<and> pv_Trace t = pv_Trace s \<and> (r = Inr () \<longrightarrow> released_id lid t)"
proof (cases "en_DB en (pv_Tick s)")
  case True
  have "released_id lid (snd (MarkLeaseReleased en lid s))"
    using True released_map [of lid "pv_Leases s"] by (simp add: MarkLeaseReleased_def exec_cases released_id_def del: set_map)
  with True assms show ?thesis by (auto simp: MarkLeaseReleased_def exec_cases Let_def)
next
  case False
  with assms show ?thesis by (auto simp: MarkLeaseReleased_def exec_cases Let_def)
qed

lemma statements_released:
  "stays (keeps (released_id lid)) (MarkResourceReclaimed en rid)"
  "stays (keeps (released_id lid)) (MarkLeaseReleased en l)"
proof -
  show "stays (keeps (released_id lid)) (MarkResourceReclaimed en rid)"
    by (simp add: stays_def keeps_def released_id_def MarkResourceReclaimed_def exec_cases Let_def)
  show "stays (keeps (released_id lid)) (MarkLeaseReleased en l)"
    unfolding stays_def keeps_def released_id_def MarkLeaseReleased_def exec_cases Let_def
    by (simp add: released_map_other del: set_map)
qed

interpretation released: release_preorder "keeps (released_id lid)" for lid
  by unfold_locales (auto simp: keeps_def released_id_def statements_released)

lemma release_row_returns: "\<exists>errs. fst (release_row en r s) = Inr errs"
  by (auto simp: release_row_def andThen_def split: sum.splits prod.splits option.splits)

lemma release_rows_return: "mapEach (release_row en) rows s \<noteq> (Inl e, t)"
proof (induction rows arbitrary: s e t)
  case (Cons r rows)
  show ?case using release_row_returns [of en r s] Cons.IH by (auto simp: andThen_cases)
qed simp

text \<open>A release of a lease that is there and not released: its rows, its mark, its verdict.\<close>

lemma Release_parts:
  assumes "GetLeaseWithResources en lid s = (Inr (lease, rows), s1)" "Release en lid s = (r, t)"
  obtains errs s2 m where "mapEach (release_row en) rows s1 = (Inr errs, s2)" "MarkLeaseReleased en lid s2 = (m, t)"
    "r = Inr () \<longleftrightarrow> concat errs = [] \<and> m = Inr ()"
proof -
  obtain rr s2 where rows: "mapEach (release_row en) rows s1 = (rr, s2)" by fastforce
  obtain errs where rr: "rr = Inr errs" using rows release_rows_return by (cases rr) auto
  obtain m s3 where m: "MarkLeaseReleased en lid s2 = (m, s3)" by fastforce
  show thesis
  proof (rule that [of errs s2 m])
    show "mapEach (release_row en) rows s1 = (Inr errs, s2)" using rows rr by simp
    show "MarkLeaseReleased en lid s2 = (m, t)" "r = Inr () \<longleftrightarrow> concat errs = [] \<and> m = Inr ()"
      using assms rows rr m by (cases m; auto simp: Release_def andThen_def Let_def split: if_splits)+
  qed
qed

lemma lease_there:
  assumes "provisioned s" "row \<in> set (pv_Leases s)" "lw_ID row = lid"
  shows "find (\<lambda>l. lw_ID l = lid) (pv_Leases s) = Some row"
proof -
  have d: "distinct (map lw_ID (pv_Leases s))" using provisioned_ok [OF assms(1)] by (simp add: store_ok_def)
  obtain x where x: "find (\<lambda>l. lw_ID l = lid) (pv_Leases s) = Some x"
    using assms(2,3) by (cases "find (\<lambda>l. lw_ID l = lid) (pv_Leases s)") (auto simp: find_None_iff)
  then have "x \<in> set (pv_Leases s)" "lw_ID x = lid" by (auto simp: find_Some_iff)
  with d assms(2,3) have "x = row" by (auto simp: distinct_map dest: inj_onD)
  with x show ?thesis by simp
qed

lemma Get_found:
  assumes "find (\<lambda>l. lw_ID l = lid) (pv_Leases s) = Some row" "lw_Status row \<noteq> ''released''"
    "Release en lid s = (Inr (), t)"
  obtains lease rows s1 where "GetLeaseWithResources en lid s = (Inr (lease, rows), s1)"
proof -
  obtain g s1 where g: "GetLeaseWithResources en lid s = (g, s1)" by fastforce
  have "g \<noteq> Inl e" for e
  proof
    assume e: "g = Inl e"
    with g assms(3) have "e = LeaseNotFound" by (auto simp: Release_def andThen_def split: if_splits)
    with e g assms(1,2) show False
      by (auto simp: GetLeaseWithResources_def GetLease_def listResourceRows_def andThen_cases query_cases Let_def
          split: if_splits)
  qed
  then obtain x where "g = Inr x" by (cases g) auto
  with g that show thesis by (cases x) auto
qed

text \<open>
  A release without an error is complete: the lease is released, and each resource of it that was still
  registered was reclaimed by its provisioner, which said so, and is marked reclaimed.
\<close>

theorem clean_release_is_complete:
  assumes "provisioned s" "row \<in> set (pv_Leases s)" "lw_Status row \<noteq> ''released''"
    "Release en (lw_ID row) s = (Inr (), t)" "r \<in> set (pv_Resources s)" "sd_LeaseID r = lw_ID row" "live r"
  shows "released_id (lw_ID row) t \<and> sd_ID r \<notin> live_ids t \<and>
    (\<exists>d. Reclaimed d (sd_Kind r) (sd_Name r) True \<in> set (pv_Trace t))"
proof -
  have found: "find (\<lambda>l. lw_ID l = lw_ID row) (pv_Leases s) = Some row" by (rule lease_there [OF assms(1,2) refl])
  obtain lease rows s1 where g: "GetLeaseWithResources en (lw_ID row) s = (Inr (lease, rows), s1)"
    by (rule Get_found [OF found assms(3,4)])
  obtain errs s2 m where parts: "mapEach (release_row en) rows s1 = (Inr errs, s2)" "MarkLeaseReleased en (lw_ID row) s2 = (m, t)"
    "Inr () = (Inr () :: prov_error + unit) \<longleftrightarrow> concat errs = [] \<and> m = Inr ()"
    by (rule Release_parts [OF g assms(4)])
  have "StoredResource.truncate r \<in> set rows" using GetLeaseWithResources_result [OF g] assms(5,6) by auto
  with release_rows_clean [OF parts(1)] parts(3) assms(7)
  have "sd_ID r \<notin> live_ids s2 \<and> (\<exists>d. Reclaimed d (sd_Kind r) (sd_Name r) True \<in> set (pv_Trace s2))" by fastforce
  with MarkReleased_cases [OF parts(2)] parts(3) show ?thesis by (simp add: live_ids_def)
qed

lemma lease_in_one: "\<exists>row. pv_Leases one_lease = [row] \<and> lw_ID row = ''id-3'' \<and> lw_Status row = ''active''"
proof -
  have "map (\<lambda>l. (lw_ID l, lw_Status l)) (pv_Leases one_lease) = [(''id-3'', ''active'')]" by code_simp
  then show ?thesis by auto
qed

lemma resource_in_one:
  "\<exists>r. r \<in> set (pv_Resources one_lease) \<and> sd_LeaseID r = ''id-3'' \<and> live r \<and> sd_Kind r = KindRedis \<and> sd_Name r = ''db1''"
proof -
  have "list_ex (\<lambda>r. sd_LeaseID r = ''id-3'' \<and> live r \<and> sd_Kind r = KindRedis \<and> sd_Name r = ''db1'') (pv_Resources one_lease)" by code_simp
  then show ?thesis by (auto simp: list_ex_iff)
qed

theorem clean_release_is_complete_witness:
  "\<exists>d. Reclaimed d KindRedis ''db1'' True \<in> set (pv_Trace (snd (Release (sample_env False False sample_now) ''id-3'' one_lease)))"
proof -
  let ?r = "Release (sample_env False False sample_now) ''id-3'' one_lease"
  obtain row where row: "pv_Leases one_lease = [row]" "lw_ID row = ''id-3''" "lw_Status row = ''active''" using lease_in_one by blast
  obtain r where r: "r \<in> set (pv_Resources one_lease)" "sd_LeaseID r = ''id-3''" "live r" "sd_Kind r = KindRedis" "sd_Name r = ''db1''"
    using resource_in_one by blast
  have "\<not> isl (fst ?r)" by code_simp
  then have ok: "Release (sample_env False False sample_now) (lw_ID row) one_lease = (Inr (), snd ?r)"
    using row(2) by (cases "fst ?r") (auto simp: prod_eq_iff)
  show ?thesis
    using clean_release_is_complete [OF provisioned_one _ _ ok r(1) _ r(3)] row r by auto
qed

text \<open>
  Releasing is idempotent: a lease that is released stays as it is, whatever rows it still has, and the
  call succeeds.
\<close>

theorem release_is_idempotent:
  assumes "provisioned s" "row \<in> set (pv_Leases s)" "lw_Status row = ''released''" "Release en (lw_ID row) s = (r, t)"
  shows "same_tables s t \<and> (db_ok en \<longrightarrow> r = Inr ())"
proof -
  have found: "find (\<lambda>l. lw_ID l = lw_ID row) (pv_Leases s) = Some row" by (rule lease_there [OF assms(1,2) refl])
  obtain g s1 where g: "GetLeaseWithResources en (lw_ID row) s = (g, s1)" by fastforce
  have "same_tables s s1" by (rule staysD [where m = "GetLeaseWithResources en (lw_ID row)"]) (rule same.queries_stay, rule g)
  moreover have "\<exists>e. g = Inl e \<and> (db_ok en \<longrightarrow> e = LeaseNotFound)"
    using g found assms(3)
    by (auto simp: GetLeaseWithResources_def GetLease_def listResourceRows_def andThen_def query_cases Let_def db_ok_def
        split: if_splits)
  ultimately show ?thesis using g assms(4) by (auto simp: Release_def andThen_def split: if_splits)
qed

theorem release_is_idempotent_witness:
  "let s = snd (Release (sample_env False False sample_now) ''id-3'' one_lease) in
     fst (Release (sample_env False False sample_now) ''id-3'' s) = Inr ()"
proof -
  let ?en = "sample_env False False sample_now"
  let ?s = "snd (Release ?en ''id-3'' one_lease)"
  have p: "provisioned ?s" by (rule provisioned.step [OF provisioned_one provision_step.release])
  have "list_ex (\<lambda>l. lw_ID l = ''id-3'' \<and> lw_Status l = ''released'') (pv_Leases ?s)" by code_simp
  then obtain row where "row \<in> set (pv_Leases ?s)" "lw_ID row = ''id-3''" "lw_Status row = ''released''" by (auto simp: list_ex_iff)
  with release_is_idempotent [OF p this(1,3) prod.collapse [symmetric], of ?en] show ?thesis
    by (simp add: Let_def db_ok_def sample_env_def)
qed

section \<open>Where a release gives up a resource\<close>

lemma status_keeps_other: "r \<in> set rs \<Longrightarrow> sd_ID r \<noteq> rid \<Longrightarrow> r \<in> set (set_resource_status rid st rs)" for rs :: "resource_row list"
  unfolding set_resource_status_def set_map by (rule image_eqI [where x = r]) simp_all

lemma release_row_keeps:
  assumes "release_row en x s = (res, t)" "r \<in> set (pv_Resources s)"
    "sd_ID x \<noteq> sd_ID r \<or> (\<forall>k n. isl (en_Registry en k (sd_Kind x) n))"
  shows "r \<in> set (pv_Resources t)"
proof -
  obtain rd s1 where d: "datasourceFor en x s = (rd, s1)" by fastforce
  have r1: "r \<in> set (pv_Resources s1)" using same_asks(4) [OF d] assms(2) by (simp add: same_tables_def)
  show ?thesis
  proof (cases "sd_Status x = ''reclaimed'' \<or> isl rd \<or> en_Provisioners en (sd_Kind x) = None")
    case True
    with assms(1,2) d r1 show ?thesis
      by (cases rd) (auto simp: release_row_def andThen_def split: if_splits option.splits)
  next
    case False
    then obtain ds p where ds: "rd = Inr ds" "en_Provisioners en (sd_Kind x) = Some p" by (cases rd) auto
    have "sd_ID x \<noteq> sd_ID r"
    proof
      assume same: "sd_ID x = sd_ID r"
      then have isl: "isl (en_Registry en k (sd_Kind x) n)" for k n using assms(3) by blast
      have "fst (datasourceFor en x s) \<noteq> Inr ds"
        using isl by (auto simp: datasourceFor_def split: option.splits) (metis sum.disc(2))
      with d ds show False by simp
    qed
    obtain rc s2 where c: "call_reclaim p ds (resource_of_row x) s1 = (rc, s2)" by fastforce
    obtain rm s3 where m: "MarkResourceReclaimed en (sd_ID x) s2 = (rm, s3)" by fastforce
    have "t = s3" using assms(1) False d ds c m by (auto simp: release_row_def andThen_def)
    moreover have "r \<in> set (pv_Resources s3)"
      using call_reclaim_result [OF c] MarkReclaimed_cases [OF m] r1 status_keeps_other [of r _ "sd_ID x"] \<open>sd_ID x \<noteq> sd_ID r\<close>
      by (cases rm) auto
    ultimately show ?thesis by simp
  qed
qed

lemma release_rows_keep:
  assumes "\<And>x. x \<in> set rows \<Longrightarrow> sd_ID x \<noteq> sd_ID r \<or> (\<forall>k n. isl (en_Registry en k (sd_Kind x) n))"
  shows "mapEach (release_row en) rows s = (res, t) \<Longrightarrow> r \<in> set (pv_Resources s) \<Longrightarrow> r \<in> set (pv_Resources t)"
  using assms
proof (induction rows arbitrary: s res t)
  case (Cons x rows)
  obtain rx s1 where x: "release_row en x s = (rx, s1)" by fastforce
  have r1: "r \<in> set (pv_Resources s1)" by (rule release_row_keeps [OF x Cons.prems(2)]) (use Cons.prems(3) in simp)
  show ?case
  proof (cases rx)
    case (Inl e)
    with Cons.prems(1) x r1 show ?thesis by (auto simp: andThen_def)
  next
    case (Inr e)
    obtain rr s2 where rest: "mapEach (release_row en) rows s1 = (rr, s2)" by fastforce
    have "t = s2" using Cons.prems(1) x Inr rest by (cases rr) (auto simp: andThen_def)
    moreover have "r \<in> set (pv_Resources s2)" by (rule Cons.IH [OF rest r1]) (use Cons.prems(3) in auto)
    ultimately show ?thesis by simp
  qed
qed simp

text \<open>
  A release forgets what it cannot locate: when the data source of a resource is no longer registered,
  releasing its lease leaves the resource registered and unreclaimed and still marks the lease released, and
  no later release of the lease does anything. The resource keeps its slot for good.
\<close>

theorem unlocatable_resource_is_stranded:
  assumes "provisioned s" "db_ok en" "row \<in> set (pv_Leases s)" "lw_Status row \<noteq> ''released''"
    "r \<in> set (pv_Resources s)" "sd_LeaseID r = lw_ID row" "live r" "\<And>k n. isl (en_Registry en k (sd_Kind r) n)"
    "Release en (lw_ID row) s = (res, t)"
  shows "r \<in> set (pv_Resources t) \<and> released_id (lw_ID row) t \<and>
    (\<forall>en' res' u. Release en' (lw_ID row) t = (res', u) \<longrightarrow> pv_Resources u = pv_Resources t \<and> pv_Trace u = pv_Trace t)"
proof -
  have found: "find (\<lambda>l. lw_ID l = lw_ID row) (pv_Leases s) = Some row" by (rule lease_there [OF assms(1,3) refl])
  obtain g s1 where g0: "GetLeaseWithResources en (lw_ID row) s = (g, s1)" by fastforce
  have "\<not> isl g"
    using g0 found assms(2,4)
    by (auto simp: GetLeaseWithResources_def GetLease_def listResourceRows_def andThen_def query_cases Let_def db_ok_def)
  then obtain lease rows where g: "GetLeaseWithResources en (lw_ID row) s = (Inr (lease, rows), s1)"
    using g0 by (cases g) auto
  note got = GetLeaseWithResources_result [OF g]
  obtain errs s2 m where parts: "mapEach (release_row en) rows s1 = (Inr errs, s2)" "MarkLeaseReleased en (lw_ID row) s2 = (m, t)"
    using Release_parts [OF g assms(9)] by metis
  have ids: "distinct (map sd_ID (pv_Resources s))" using provisioned_ok [OF assms(1)] by (simp add: store_ok_def)
  have "sd_ID x \<noteq> sd_ID r \<or> (\<forall>k n. isl (en_Registry en k (sd_Kind x) n))" if x: "x \<in> set rows" for x
  proof -
    obtain y :: resource_row where y: "y \<in> set (pv_Resources s)" "x = StoredResource.truncate y" using x got by auto
    then have "sd_ID y = sd_ID r \<Longrightarrow> y = r" using ids assms(5) by (auto simp: distinct_map dest: inj_onD)
    with y assms(8) show ?thesis by auto
  qed
  then have "r \<in> set (pv_Resources s2)"
    by (rule release_rows_keep [OF _ parts(1)]) (use got assms(5) in \<open>auto simp: same_tables_def\<close>)
  then have kept: "r \<in> set (pv_Resources t)" using MarkReleased_cases [OF parts(2)] by simp
  have "m = Inr ()" using parts(2) MarkReleased_result [OF assms(2) parts(2)] by simp
  then have rel: "released_id (lw_ID row) t" using MarkReleased_cases [OF parts(2)] by simp
  have "pv_Resources u = pv_Resources t \<and> pv_Trace u = pv_Trace t" if "Release en' (lw_ID row) t = (res', u)" for en' res' u
  proof -
    obtain g' t1 where g': "GetLeaseWithResources en' (lw_ID row) t = (g', t1)" by fastforce
    have same: "same_tables t t1"
      by (rule staysD [where m = "GetLeaseWithResources en' (lw_ID row)"]) (rule same.queries_stay, rule g')
    have "isl g'"
    proof (rule ccontr)
      assume "\<not> isl g'"
      then obtain l rows' where "GetLeaseWithResources en' (lw_ID row) t = (Inr (l, rows'), t1)" using g' by (cases g') auto
      from GetLeaseWithResources_result [OF this] rel show False by (auto simp: released_id_def find_Some_iff)
    qed
    with g' that same show ?thesis by (cases g') (auto simp: Release_def andThen_def same_tables_def split: if_splits)
  qed
  with kept rel show ?thesis by blast
qed

theorem unlocatable_resource_is_stranded_witness:
  "\<exists>r \<in> set (pv_Resources (snd (Release (sample_env False True sample_now) ''id-3'' one_lease))).
     sd_LeaseID r = ''id-3'' \<and> live r \<and> sd_Name r = ''db1''"
proof -
  let ?en = "sample_env False True sample_now"
  obtain row where row: "pv_Leases one_lease = [row]" "lw_ID row = ''id-3''" "lw_Status row = ''active''" using lease_in_one by blast
  obtain r where r: "r \<in> set (pv_Resources one_lease)" "sd_LeaseID r = ''id-3''" "live r" "sd_Name r = ''db1''"
    using resource_in_one by blast
  have "db_ok ?en" "\<And>k n. isl (en_Registry ?en k (sd_Kind r) n)" by (simp_all add: db_ok_def sample_env_def)
  from unlocatable_resource_is_stranded [OF provisioned_one this(1) _ _ r(1) _ r(3) this(2) prod.collapse [symmetric], of row] row r
  show ?thesis by auto
qed

section \<open>The reaper\<close>

lemma listResourceRows_ok: "db_ok en \<Longrightarrow> \<not> isl (fst (listResourceRows en P s))"
  by (simp add: listResourceRows_def query_cases db_ok_def Let_def)

lemma lease_resources_ok:
  assumes "db_ok en"
  shows "\<exists>ls' t. mapEach (\<lambda>l. andThen (listResourceRows en (\<lambda>r. sd_LeaseID r = le_ID l)) (\<lambda>rows.
       ret (l\<lparr>le_Resources := map resource_of_row (filter live rows)\<rparr>))) ls s = (Inr ls', t) \<and> map le_ID ls' = map le_ID ls"
proof (induction ls arbitrary: s)
  case (Cons l ls)
  obtain rr s1 where r: "listResourceRows en (\<lambda>r. sd_LeaseID r = le_ID l) s = (rr, s1)" by fastforce
  then obtain rows where rows: "rr = Inr rows" using listResourceRows_ok [OF assms, of "\<lambda>r. sd_LeaseID r = le_ID l" s] by (cases rr) auto
  from Cons.IH [of s1] r rows show ?case by (auto simp: andThen_def)
qed simp

lemma ListExpired_ok:
  assumes "db_ok en" "ListExpiredLeases en now s = (r, t)"
  shows "same_tables s t \<and> (\<exists>ls. r = Inr ls \<and>
    (\<forall>row \<in> set (pv_Leases s). active_lease row \<and> lw_ExpiresAt row \<le> to_unix now \<longrightarrow> lw_ID row \<in> le_ID ` set ls))"
proof -
  have same: "same_tables s t"
    by (rule staysD [where m = "ListExpiredLeases en now"]) (rule same.queries_stay, rule assms(2))
  let ?sel = "sort_key (\<lambda>l. (lw_ExpiresAt l, text_key (lw_ID l)))
       (filter (\<lambda>l. active_lease l \<and> lw_ExpiresAt l \<le> to_unix now) (pv_Leases s))"
  obtain ls' u where ls: "mapEach (\<lambda>l. andThen (listResourceRows en (\<lambda>r. sd_LeaseID r = le_ID l)) (\<lambda>rows.
       ret (l\<lparr>le_Resources := map resource_of_row (filter live rows)\<rparr>))) (map lease_of_row ?sel) (s\<lparr>pv_Tick := Suc (pv_Tick s)\<rparr>)
       = (Inr ls', u)" "map le_ID ls' = map le_ID (map lease_of_row ?sel)"
    using lease_resources_ok [OF assms(1)] by blast
  have "ListExpiredLeases en now s = (Inr ls', u)"
    using ls(1) assms(1) by (simp add: ListExpiredLeases_def listLeases_def andThen_def query_cases db_ok_def)
  then have r: "r = Inr ls'" using assms(2) by simp
  have "set (map le_ID ls') = lw_ID ` set ?sel"
    unfolding ls(2) by (simp add: lease_of_row_def image_image)
  then have "le_ID ` set ls' = lw_ID ` {l \<in> set (pv_Leases s). active_lease l \<and> lw_ExpiresAt l \<le> to_unix now}"
    by simp
  with same r show ?thesis by blast
qed

lemma Release_releases:
  assumes "db_ok en" "distinct (map lw_ID (pv_Leases s))" "Release en lid s = (r, t)"
  shows "released_id lid t"
proof -
  obtain g s1 where g: "GetLeaseWithResources en lid s = (g, s1)" by fastforce
  have same: "same_tables s s1"
    by (rule staysD [where m = "GetLeaseWithResources en lid"]) (rule same.queries_stay, rule g)
  show ?thesis
  proof (cases g)
    case (Inr x)
    then obtain lease rows where "GetLeaseWithResources en lid s = (Inr (lease, rows), s1)" using g by (cases x) auto
    from Release_parts [OF this assms(3)] obtain s2 m where "MarkLeaseReleased en lid s2 = (m, t)" by metis
    with MarkReleased_result [OF assms(1)] MarkReleased_cases show ?thesis by blast
  next
    case (Inl e)
    have gone: "released_id lid s"
    proof (cases "find (\<lambda>l. lw_ID l = lid) (pv_Leases s)")
      case None
      then show ?thesis by (auto simp: released_id_def find_None_iff)
    next
      case (Some row)
      then have row: "row \<in> set (pv_Leases s)" "lw_ID row = lid" by (auto simp: find_Some_iff)
      have "lw_Status row = ''released''"
        using g Inl Some assms(1)
        by (auto simp: GetLeaseWithResources_def GetLease_def listResourceRows_def andThen_def query_cases Let_def db_ok_def
            split: if_splits)
      then show ?thesis using row assms(2) by (auto simp: released_id_def distinct_map dest: inj_onD)
    qed
    have "t = s1" using assms(3) g Inl by (auto simp: Release_def andThen_def split: if_splits)
    with gone same show ?thesis by (simp add: released_id_def same_tables_def)
  qed
qed

lemma keeps_trans: "keeps I s t \<Longrightarrow> I s \<Longrightarrow> I t"
  by (simp add: keeps_def)

definition lease_keys :: "provision \<Rightarrow> bool" where
  "lease_keys s \<longleftrightarrow> distinct (map lw_ID (pv_Leases s))"

lemma statements_keys:
  "stays (keeps lease_keys) (MarkResourceReclaimed en rid)" "stays (keeps lease_keys) (MarkLeaseReleased en l)"
  by (auto simp: stays_def keeps_def lease_keys_def MarkResourceReclaimed_def MarkLeaseReleased_def exec_cases Let_def map_lease_ids
      simp del: map_map)

interpretation keys: release_preorder "keeps lease_keys"
  by unfold_locales (auto simp: keeps_def lease_keys_def statements_keys)

lemma reconcile_expired_releases:
  assumes "db_ok en"
  shows "reconcile_expired en ls rep s = (r, t) \<Longrightarrow> lease_keys s \<Longrightarrow>
    \<not> isl r \<and> (\<forall>l \<in> set ls. released_id (le_ID l) t)"
proof (induction ls arbitrary: rep s)
  case (Cons l ls)
  obtain rl s1 where one: "Release en (le_ID l) s = (rl, s1)" by fastforce
  obtain rep' where rest: "reconcile_expired en ls rep' s1 = (r, t)"
    using Cons.prems(1) one by (cases rl) (auto simp: andThen_def)
  have rel: "released_id (le_ID l) s1"
    by (rule Release_releases [OF assms _ one]) (use Cons.prems(2) in \<open>simp add: lease_keys_def\<close>)
  have "keeps lease_keys s s1"
    by (rule staysD [where m = "Release en (le_ID l)"]) (rule keys.Release_stays, rule one)
  then have k: "lease_keys s1" using Cons.prems(2) by (rule keeps_trans)
  have "keeps (released_id (le_ID l)) s1 t"
    by (rule staysD [where m = "reconcile_expired en ls rep'"]) (rule released.reconcile_expired_stays, rule rest)
  then have "released_id (le_ID l) t" using rel by (rule keeps_trans)
  with Cons.IH [OF rest k] show ?case by simp
qed auto

lemma reclaim_orphans_returns: "\<not> isl (fst (reclaim_orphans p ds xs rep s))"
proof (induction xs arbitrary: rep s)
  case (Cons x xs)
  then show ?case by (auto simp: andThen_def split: sum.splits prod.splits)
qed simp

lemma reconcile_sources_returns: "\<not> isl (fst (reconcile_sources en active dss rep s))"
proof (induction dss arbitrary: rep s)
  case (Cons ds dss)
  have "\<not> isl (fst (andThen (reclaim_orphans p ds xs rep) (\<lambda>rep. reconcile_sources en active dss rep) u))" for p xs u rep
    using Cons.IH reclaim_orphans_returns [of p ds xs rep u] by (auto simp: andThen_def split: sum.splits prod.splits)
  then show ?case using Cons.IH by (auto simp: andThen_def [of "outside f" for f] split: option.splits sum.splits)
qed simp

lemma reconcile_datasources_returns: "\<not> isl (fst (reconcile_datasources en rep s))"
  using reconcile_sources_returns by (auto simp: reconcile_datasources_def andThen_def split: option.splits sum.splits)

text \<open>
  A round of the reaper ends every expired lease (the database accepting its statements): a lease that is
  active and whose expiry has passed when the round starts is released when the round ends, whatever errors
  its resources, other leases or the reconciliation of the data sources meet.
\<close>

theorem reaper_ends_expired_leases:
  assumes "provisioned s" "db_ok en" "row \<in> set (pv_Leases s)" "active_lease row"
    "from_unix (lw_ExpiresAt row) \<le> en_Now en (pv_Tick s)" "Reconcile en s = (r, t)"
  shows "\<not> isl r \<and> released_id (lw_ID row) t"
proof -
  let ?now = "en_Now en (pv_Tick s)" and ?s0 = "s\<lparr>pv_Tick := Suc (pv_Tick s)\<rparr>"
    and ?rep = "\<lparr>rp_ExpiredReclaimed = 0, rp_OrphansReclaimed = [], rp_Errors = 0\<rparr>"
  obtain rl s1 where list: "ListExpiredLeases en ?now ?s0 = (rl, s1)" by fastforce
  note L = ListExpired_ok [OF assms(2) list]
  from L obtain ls where ls: "rl = Inr ls" "lw_ID row \<in> le_ID ` set ls"
    using assms(3-5) by (auto simp: to_unix_le)
  have "lease_keys s1" using L provisioned_ok [OF assms(1)] by (simp add: lease_keys_def same_tables_def store_ok_def)
  obtain re s2 where exp: "reconcile_expired en ls ?rep s1 = (re, s2)" by fastforce
  note E = reconcile_expired_releases [OF assms(2) exp \<open>lease_keys s1\<close>]
  then have rel: "released_id (lw_ID row) s2" using ls(2) by auto
  obtain rep where rep: "re = Inr rep" using E by (cases re) auto
  have tail: "reconcile_datasources en rep s2 = (r, t)"
    using assms(6) list ls(1) exp rep by (simp add: Reconcile_def andThen_def)
  have "keeps (released_id (lw_ID row)) s2 t"
    by (rule staysD [where m = "reconcile_datasources en rep"]) (rule released.reconcile_datasources_stays, rule tail)
  from keeps_trans [OF this rel] reconcile_datasources_returns [of en rep s2] tail show ?thesis by simp
qed

theorem reaper_ends_expired_leases_witness:
  "released_id ''id-3'' (snd (Reconcile (sample_env False False (sample_now + hour)) one_lease))"
proof -
  let ?en = "sample_env False False (sample_now + hour)"
  have "map (\<lambda>l. (lw_ID l, lw_Status l, lw_ExpiresAt l)) (pv_Leases one_lease) = [(''id-3'', ''active'', 1700000600)]" by code_simp
  then obtain row where row: "row \<in> set (pv_Leases one_lease)" "lw_ID row = ''id-3''" "active_lease row" "lw_ExpiresAt row = 1700000600"
    by (auto simp: active_lease_def)
  have "db_ok ?en" "from_unix (lw_ExpiresAt row) \<le> en_Now ?en (pv_Tick one_lease)"
    by (simp_all add: db_ok_def sample_env_def row(4) sample_now_def from_unix_def time_units)
  from reaper_ends_expired_leases [OF provisioned_one this(1) row(1,3) this(2) prod.collapse [symmetric]] row(2)
  show ?thesis by simp
qed

end
