(* ===== verification/DryRun.thy ===== *)
theory DryRun
  imports LeaseSafety
begin

text \<open>
  The rehearsal of a project's binding (\<^verbatim>\<open>DryRun\<close> of \<^verbatim>\<open>agent/dbprovision/lease.go\<close>): it plans and makes
  every resource and gives it back, without registering anything. The connection strings of the result are those
  before \<^verbatim>\<open>maskDSN\<close>.
\<close>

record DryRunResult =
  dr_Plans :: "ProvisionPlan list"
  dr_DSNs :: "string list"
  dr_Succeeded :: bool
  dr_Error :: "prov_error option"

definition dry_failed :: "plannedResource list \<Rightarrow> prov_error \<Rightarrow> DryRunResult \<times> prov_error option" where
  "dry_failed plans e = (\<lparr>dr_Plans = map pd_Plan plans, dr_DSNs = [], dr_Succeeded = False, dr_Error = Some e\<rparr>, Some e)"

definition dry_prepare :: "environment \<Rightarrow> string \<Rightarrow> (ProjectBinding \<times> string list \<times> string) pact" where
  "dry_prepare en projectID =
     andThen (outsideErr (\<lambda>k. en_Binding en k projectID)) (\<lambda>(binding, projectName).
     andThen (ofSum (selectedKinds binding [])) (\<lambda>kinds.
     andThen (NewResourceName en projectName) (\<lambda>nameSeed. ret (binding, kinds, nameSeed))))"

fun dry_plans :: "environment \<Rightarrow> string \<Rightarrow> ProjectBinding \<Rightarrow> string \<Rightarrow> string list \<Rightarrow> plannedResource list
    \<Rightarrow> (prov_error option \<times> plannedResource list) pact" where
  "dry_plans en projectID binding nameSeed [] plans = ret (None, plans)"
| "dry_plans en projectID binding nameSeed (kind # kinds) plans =
     andThen (attempt (planResource en projectID binding kind nameSeed)) (\<lambda>r.
     case r of
       Inl e \<Rightarrow> ret (Some e, plans)
     | Inr planned \<Rightarrow> dry_plans en projectID binding nameSeed kinds (plans @ [planned]))"

text \<open>Making the resources of the plans until one cannot be made.\<close>

fun dry_provision :: "plannedResource list \<Rightarrow> (plannedResource \<times> Resource) list \<Rightarrow> (prov_error option \<times> (plannedResource \<times> Resource) list) pact" where
  "dry_provision [] created = ret (None, created)"
| "dry_provision (planned # rest) created =
     andThen (attempt (call_provision (pd_Provisioner planned) (pd_DataSource planned) (pd_Plan planned))) (\<lambda>r.
     case r of
       Inl e \<Rightarrow> ret (Some e, created)
     | Inr res \<Rightarrow> dry_provision rest
         (created @ [(planned, res\<lparr>rs_Meta := mergeMeta (rs_Meta res) [''datasource_name'' \<mapsto> ds_Name (pd_DataSource planned)]\<rparr>)]))"

text \<open>The deferred function: every resource made is given back, and the first failure is noted if there was none.\<close>

fun dry_reclaim :: "(plannedResource \<times> Resource) list \<Rightarrow> DryRunResult \<Rightarrow> DryRunResult pact" where
  "dry_reclaim [] result = ret result"
| "dry_reclaim ((planned, res) # created) result =
     andThen (attempt (call_reclaim (pd_Provisioner planned) (pd_DataSource planned) res)) (\<lambda>r.
     case r of
       Inl e \<Rightarrow> dry_reclaim created (result\<lparr>dr_Succeeded := False,
                  dr_Error := (if dr_Error result = None then Some e else dr_Error result)\<rparr>)
     | Inr _ \<Rightarrow> dry_reclaim created result)"

definition dry_execute :: "plannedResource list \<Rightarrow> (DryRunResult \<times> prov_error option) pact" where
  "dry_execute plans =
     andThen (dry_provision plans []) (\<lambda>(err, created).
     andThen (dry_reclaim created \<lparr>dr_Plans = map pd_Plan plans, dr_DSNs = map (\<lambda>(_, res). rs_DSN res) created,
        dr_Succeeded = (err = None), dr_Error = err\<rparr>) (\<lambda>result.
     ret (result, err)))"

definition DryRun :: "environment \<Rightarrow> string \<Rightarrow> (DryRunResult \<times> prov_error option) pact" where
  "DryRun en projectID =
     andThen (attempt (dry_prepare en projectID)) (\<lambda>r.
     case r of
       Inl e \<Rightarrow> ret (dry_failed [] e)
     | Inr (binding, kinds, nameSeed) \<Rightarrow>
         andThen (dry_plans en projectID binding nameSeed kinds []) (\<lambda>(failure, plans).
         case failure of
           Some e \<Rightarrow> ret (dry_failed plans e)
         | None \<Rightarrow> dry_execute plans))"

section \<open>Nothing is left\<close>

context tick_preorder begin

lemma dry_prepare_stays: "stays R (dry_prepare en pid)"
  unfolding dry_prepare_def by (intro asks NewResourceName_stays)

lemma dry_plans_stays: "stays R (dry_plans en pid b seed kinds plans)"
proof (induction kinds arbitrary: plans)
  case (Cons kind kinds)
  show ?case unfolding dry_plans.simps by (intro asks planResource_stays Cons.IH)
qed (simp only: dry_plans.simps pure)

end

definition made :: "plannedResource \<times> Resource \<Rightarrow> string \<times> string \<times> string" where
  "made = (\<lambda>(planned, res). (ds_ID (pd_DataSource planned), rs_Kind res, rs_Name res))"

lemma dry_provision_result:
  "dry_provision plans created s = (r, t) \<Longrightarrow> pv_Leases t = pv_Leases s \<and> pv_Resources t = pv_Resources s \<and>
     (\<exists>err more. r = Inr (err, created @ more) \<and>
        pv_Trace t = pv_Trace s @ map (\<lambda>c. case made c of (d, k, n) \<Rightarrow> Provisioned d k n) more)"
proof (induction plans created arbitrary: s rule: dry_provision.induct)
  case (2 planned rest created)
  obtain r1 s1 where p: "call_provision (pd_Provisioner planned) (pd_DataSource planned) (pd_Plan planned) s = (r1, s1)" by fastforce
  note one = call_provision_result [OF p]
  show ?case
  proof (cases r1)
    case (Inl e)
    with "2.prems" p one show ?thesis by (auto simp: andThen_def)
  next
    case (Inr res)
    let ?c = "(planned, res\<lparr>rs_Meta := mergeMeta (rs_Meta res) [''datasource_name'' \<mapsto> ds_Name (pd_DataSource planned)]\<rparr>)"
    have "dry_provision rest (created @ [?c]) s1 = (r, t)" using "2.prems" p Inr by (simp add: andThen_def)
    from "2.IH" [OF this] obtain err more where
      "pv_Leases t = pv_Leases s1" "pv_Resources t = pv_Resources s1" "r = Inr (err, (created @ [?c]) @ more)"
      "pv_Trace t = pv_Trace s1 @ map (\<lambda>c. case made c of (d, k, n) \<Rightarrow> Provisioned d k n) more" by blast
    with one Inr show ?thesis by (intro conjI exI [of _ err] exI [of _ "?c # more"]) (simp_all add: made_def)
  qed
qed auto

lemma dry_reclaim_result:
  "dry_reclaim created result s = (r, t) \<Longrightarrow> pv_Leases t = pv_Leases s \<and> pv_Resources t = pv_Resources s \<and>
     (\<exists>result' oks. r = Inr result' \<and> length oks = length created \<and>
        pv_Trace t = pv_Trace s @ map2 (\<lambda>c ok. case made c of (d, k, n) \<Rightarrow> Reclaimed d k n ok) created oks)"
proof (induction created result arbitrary: s rule: dry_reclaim.induct)
  case (2 planned res created result)
  obtain r1 s1 where p: "call_reclaim (pd_Provisioner planned) (pd_DataSource planned) res s = (r1, s1)" by fastforce
  note one = call_reclaim_result [OF p]
  obtain result1 where "dry_reclaim created result1 s1 = (r, t)" and
    ih: "pv_Leases t = pv_Leases s1 \<and> pv_Resources t = pv_Resources s1 \<and>
     (\<exists>result' oks. r = Inr result' \<and> length oks = length created \<and>
        pv_Trace t = pv_Trace s1 @ map2 (\<lambda>c ok. case made c of (d, k, n) \<Rightarrow> Reclaimed d k n ok) created oks)"
    using "2.prems" p "2.IH" by (cases r1) (auto simp: andThen_def)
  then obtain result' oks where "r = Inr result'" "length oks = length created"
    "pv_Trace t = pv_Trace s1 @ map2 (\<lambda>c ok. case made c of (d, k, n) \<Rightarrow> Reclaimed d k n ok) created oks" by blast
  with ih one show ?case
    by (intro conjI exI [of _ result'] exI [of _ "(isl r1 = False) # oks"]) (simp_all add: made_def)
qed auto

lemma dry_execute_result:
  assumes "dry_execute plans s = (r, t)"
  obtains result err created oks where "r = Inr (result, err)" "pv_Leases t = pv_Leases s" "pv_Resources t = pv_Resources s"
    "length oks = length created"
    "pv_Trace t = pv_Trace s @ map (\<lambda>c. case made c of (d, k, n) \<Rightarrow> Provisioned d k n) created @
       map2 (\<lambda>c ok. case made c of (d, k, n) \<Rightarrow> Reclaimed d k n ok) created oks"
proof -
  obtain r1 s1 where p: "dry_provision plans [] s = (r1, s1)" by fastforce
  from dry_provision_result [OF p] obtain err created where 1: "pv_Leases s1 = pv_Leases s" "pv_Resources s1 = pv_Resources s"
    "r1 = Inr (err, created)" "pv_Trace s1 = pv_Trace s @ map (\<lambda>c. case made c of (d, k, n) \<Rightarrow> Provisioned d k n) created" by auto
  let ?r0 = "\<lparr>dr_Plans = map pd_Plan plans, dr_DSNs = map (\<lambda>(_, res). rs_DSN res) created, dr_Succeeded = (err = None), dr_Error = err\<rparr>"
  obtain r2 s2 where q: "dry_reclaim created ?r0 s1 = (r2, s2)" by fastforce
  from dry_reclaim_result [OF q] obtain result oks where 2: "pv_Leases s2 = pv_Leases s1" "pv_Resources s2 = pv_Resources s1"
    "r2 = Inr result" "length oks = length created"
    "pv_Trace s2 = pv_Trace s1 @ map2 (\<lambda>c ok. case made c of (d, k, n) \<Rightarrow> Reclaimed d k n ok) created oks" by blast
  have "r = Inr (result, err)" "t = s2" using assms p q 1(3) 2(3) by (simp_all add: dry_execute_def andThen_def)
  with 1 2 show ?thesis by (intro that [of result err oks created]) simp_all
qed

text \<open>
  C33: A rehearsal leaves nothing. Whatever the plans, the provisioners and the database do, it returns, the tables are those
  of before, and every resource it made was given back to its provisioner.
\<close>

theorem dry_run_leaves_nothing:
  assumes "DryRun en projectID s = (r, t)"
  shows "pv_Leases t = pv_Leases s \<and> pv_Resources t = pv_Resources s \<and> \<not> isl r \<and>
    (\<exists>calls. pv_Trace t = pv_Trace s @ calls \<and>
       (\<forall>d k n. Provisioned d k n \<in> set calls \<longrightarrow> (\<exists>ok. Reclaimed d k n ok \<in> set calls)))"
proof -
  obtain r1 s1 where p: "dry_prepare en projectID s = (r1, s1)" by fastforce
  then have st1: "same_tables s s1" by (rule staysD [OF same.dry_prepare_stays])
  show ?thesis
  proof (cases r1)
    case (Inl e)
    with assms p st1 show ?thesis by (auto simp: DryRun_def andThen_def same_tables_def)
  next
    case (Inr x)
    then obtain b kinds seed where r1: "r1 = Inr (b, kinds, seed)" by (cases x) auto
    obtain r2 s2 where q: "dry_plans en projectID b seed kinds [] s1 = (r2, s2)" by fastforce
    then have st2: "same_tables s s2" by (intro same.step_trans [OF st1] staysD [OF same.dry_plans_stays])
    have "\<not> isl (fst (dry_plans en projectID b seed kinds plans u))" for plans u
      by (induction kinds arbitrary: plans u) (auto simp: andThen_def split: prod.splits sum.splits)
    then have "\<not> isl r2" using q by (metis fst_conv)
    then obtain failure plans where r2: "r2 = Inr (failure, plans)" by (cases r2) auto
    show ?thesis
    proof (cases failure)
      case (Some e)
      with assms p q r1 r2 st2 show ?thesis by (auto simp: DryRun_def andThen_def same_tables_def)
    next
      case None
      with assms p q r1 r2 have "dry_execute plans s2 = (r, t)" by (simp add: DryRun_def andThen_def)
      then obtain result err created oks where x: "r = Inr (result, err)" "pv_Leases t = pv_Leases s2" "pv_Resources t = pv_Resources s2"
        "length oks = length created"
        "pv_Trace t = pv_Trace s2 @ map (\<lambda>c. case made c of (d, k, n) \<Rightarrow> Provisioned d k n) created @
           map2 (\<lambda>c ok. case made c of (d, k, n) \<Rightarrow> Reclaimed d k n ok) created oks" by (rule dry_execute_result)
      let ?calls = "map (\<lambda>c. case made c of (d, k, n) \<Rightarrow> Provisioned d k n) created @
           map2 (\<lambda>c ok. case made c of (d, k, n) \<Rightarrow> Reclaimed d k n ok) created oks"
      have "\<exists>ok. Reclaimed d k n ok \<in> set ?calls" if "Provisioned d k n \<in> set ?calls" for d k n
      proof -
        from that obtain c where c: "c \<in> set created" "made c = (d, k, n)"
          by (auto split: prod.splits)
        then obtain i where i: "i < length created" "created ! i = c" by (metis in_set_conv_nth)
        then have "(c, oks ! i) \<in> set (zip created oks)" using x(4) by (metis in_set_zip fst_conv snd_conv)
        then have "Reclaimed d k n (oks ! i) \<in> set ?calls" using c(2) by force
        then show ?thesis by blast
      qed
      with x st2 show ?thesis by (simp add: same_tables_def)
    qed
  qed
qed

theorem dry_run_leaves_nothing_witness:
  "pv_Resources (snd (DryRun (sample_env False False sample_now) ''p1'' one_lease)) = pv_Resources one_lease \<and>
   map sd_Name (pv_Resources one_lease) ! 1 = ''db1''"
proof -
  have "map sd_Name (pv_Resources one_lease) ! 1 = ''db1''" by code_simp
  with dry_run_leaves_nothing [OF prod.collapse [symmetric], of "sample_env False False sample_now" "''p1''" one_lease]
  show ?thesis by blast
qed

text \<open>
  C34: A rehearsal can empty a database that is on lease. It does not register what it plans: when a request leases the
  planned slot before the rehearsal is over, the rehearsal gives back a resource of that slot, and the lease still
  has it registered.
\<close>

theorem dry_run_reclaims_leased_slot:
  assumes "row \<in> set (pv_Resources s)" "ds_ID (pd_DataSource planned) = sd_DataSourceID row"
    and "pr_Provision (pd_Provisioner planned) (pv_Tick s) (pd_DataSource planned) (pd_Plan planned) = Inr res"
    and "rs_Kind res = sd_Kind row" "rs_Name res = sd_Name row" "dry_execute [planned] s = (r, t)"
  shows "row \<in> set (pv_Resources t) \<and>
    (\<exists>ok. Reclaimed (sd_DataSourceID row) (sd_Kind row) (sd_Name row) ok \<in> set (drop (length (pv_Trace s)) (pv_Trace t)))"
proof -
  let ?res = "res\<lparr>rs_Meta := mergeMeta (rs_Meta res) [''datasource_name'' \<mapsto> ds_Name (pd_DataSource planned)]\<rparr>"
  obtain s1 where p: "dry_provision [planned] [] s = (Inr (None, [(planned, ?res)]), s1)"
    using assms(3) by (simp add: andThen_def call_provision_def record_call_def)
  from dry_provision_result [OF p] have s1: "pv_Resources s1 = pv_Resources s"
    "pv_Trace s1 = pv_Trace s @ [Provisioned (ds_ID (pd_DataSource planned)) (rs_Kind res) (rs_Name res)]" by (auto simp: made_def)
  let ?r0 = "\<lparr>dr_Plans = [pd_Plan planned], dr_DSNs = [rs_DSN ?res], dr_Succeeded = True, dr_Error = None\<rparr>"
  obtain rr u where q: "dry_reclaim [(planned, ?res)] ?r0 s1 = (rr, u)" by fastforce
  note given_back = dry_reclaim_result [OF q]
  have "t = u" using assms(6) p q given_back by (auto simp: dry_execute_def andThen_def simp del: dry_provision.simps dry_reclaim.simps)
  with given_back s1 assms(1,2,4,5) show ?thesis
    by (auto simp: made_def length_Suc_conv)
qed

theorem dry_run_reclaims_leased_slot_witness:
  "\<exists>planned. fst (planResource (sample_env False False sample_now) ''p1'' sample_binding KindRedis [] no_leases) = Inr planned \<and>
     sd_Status (pv_Resources one_lease ! 1) = ''active'' \<and>
     (\<exists>ok. Reclaimed ''redis-1'' KindRedis ''db1'' ok \<in> set (drop (length (pv_Trace one_lease)) (pv_Trace (snd (dry_execute [planned] one_lease))))) \<and>
     pv_Resources one_lease ! 1 \<in> set (pv_Resources (snd (dry_execute [planned] one_lease)))"
proof -
  let ?row = "pv_Resources one_lease ! 1"
  have row: "sd_DataSourceID ?row = ''redis-1''" "sd_Kind ?row = KindRedis" "sd_Name ?row = ''db1''" "sd_Status ?row = ''active''"
    "1 < length (pv_Resources one_lease)" by (code_simp, code_simp, code_simp, code_simp, code_simp)
  then have mem: "?row \<in> set (pv_Resources one_lease)" by simp
  let ?planned = "\<lparr>pd_Kind = KindRedis, pd_DataSource = sample_source KindRedis, pd_Provisioner = sample_provisioner KindRedis False,
     pd_Plan = \<lparr>pl_Kind = KindRedis, pl_ResourceName = ''db1'', pl_Steps = [], pl_SideEffects = [], pl_Detail = Map.empty\<rparr>\<rparr>"
  have main: "TrimSpace ''main'' = ''main''" by code_simp
  have pl: "fst (planResource (sample_env False False sample_now) ''p1'' sample_binding KindRedis [] no_leases) = Inr ?planned"
    by (simp add: planResource_def andThen_def bindingDataSourceName_def sample_binding_def sample_env_def main
        ListActiveResourceNames_def query_cases no_leases_def Let_def) (simp add: sample_provisioner_def)
  have "ds_ID (pd_DataSource ?planned) = sd_DataSourceID ?row" unfolding row(1) by (simp add: sample_source_def KindRedis_def)
  from dry_run_reclaims_leased_slot [OF mem this _ _ _ prod.collapse [symmetric],
      of "\<lparr>rs_Kind = KindRedis, rs_Name = ''db1'', rs_DSN = ''dsn'', rs_Meta = Map.empty\<rparr>"] row pl
  show ?thesis by (intro exI [of _ ?planned]) (simp add: sample_provisioner_def)
qed

end
