(* ===== verification/RedisSlots.thy ===== *)
theory RedisSlots
  imports ProvisionModel
begin

text \<open>
  The Redis provisioner (\<^verbatim>\<open>agent/dbprovision/redis.go\<close>) up to its connections: what it reads from the
  server's answers, which database it picks and which one a resource names. The answers of the server are
  arguments.
\<close>

section \<open>Texts\<close>

text \<open>\<^verbatim>\<open>strings.Split\<close> by one byte, \<^verbatim>\<open>strings.Cut\<close> at the first colon and \<^verbatim>\<open>strings.Join\<close> with a comma.\<close>

fun split_on :: "char \<Rightarrow> string \<Rightarrow> string list" where
  "split_on c [] = [[]]"
| "split_on c (x # xs) =
     (if x = c then [] # split_on c xs
      else case split_on c xs of [] \<Rightarrow> [[x]] | p # ps \<Rightarrow> (x # p) # ps)"

definition cut_colon :: "string \<Rightarrow> (string \<times> string) option" where
  "cut_colon s = (let k = takeWhile (\<lambda>c. c \<noteq> CHR '':'') s; r = dropWhile (\<lambda>c. c \<noteq> CHR '':'') s
     in if r = [] then None else Some (k, tl r))"

fun join_comma :: "string list \<Rightarrow> string" where
  "join_comma [] = []"
| "join_comma [p] = p"
| "join_comma (p # q # ps) = p @ CHR '','' # join_comma (q # ps)"

section \<open>The server's answers\<close>

text \<open>A Go map that is only read by key or whose values are sorted: its entries, one per key.\<close>

type_synonym fields = "(string \<times> string) list"

definition put :: "string \<Rightarrow> string \<Rightarrow> fields \<Rightarrow> fields" where
  "put k v fs = (k, v) # filter (\<lambda>p. fst p \<noteq> k) fs"

definition parseRedisInfo :: "string \<Rightarrow> fields" where
  "parseRedisInfo info = foldl (\<lambda>fs line0. let line = TrimSpace line0 in
     if line = [] \<or> hd line = CHR ''#'' then fs
     else case cut_colon line of None \<Rightarrow> fs | Some (k, v) \<Rightarrow> put k v fs) [] (split_on (CHR 0x0A) info)"

definition db_index :: "string \<Rightarrow> int option" where
  "db_index name = (if prefix ''db'' name then Atoi (drop 2 name) else None)"

definition occupiedDBIndexes :: "fields \<Rightarrow> int list" where
  "occupiedDBIndexes fs = sort (List.map_filter (\<lambda>p. db_index (fst p)) fs)"

definition joinIndexes :: "int list \<Rightarrow> string" where
  "joinIndexes xs = join_comma (map int_text xs)"

fun parse_parts :: "string list \<Rightarrow> int list option" where
  "parse_parts [] = Some []"
| "parse_parts (p # ps) =
     (case Atoi p of None \<Rightarrow> None | Some n \<Rightarrow> map_option (\<lambda>ns. n # ns) (parse_parts ps))"

definition parseIndexList :: "string \<Rightarrow> int list option" where
  "parseIndexList v = (if v = [] then Some [] else parse_parts (split_on (CHR '','') v))"

text \<open>
  The probe: the answers to PING, the three INFO sections and CONFIG GET, each an error or a text; the
  configured number of databases counts when it is a positive number, otherwise it is 16.
\<close>

definition get :: "fields \<Rightarrow> string \<Rightarrow> string" where
  "get fs k = (case map_of fs k of Some v \<Rightarrow> v | None \<Rightarrow> [])"

definition databases_of :: "(string + fields) \<Rightarrow> int \<times> string" where
  "databases_of config =
     (case config of
        Inl _ \<Rightarrow> (16, ''fallback'')
      | Inr fs \<Rightarrow>
          (case map_of fs ''databases'' of
             None \<Rightarrow> (16, ''fallback'')
           | Some v \<Rightarrow> (case Atoi v of None \<Rightarrow> (16, ''fallback'') | Some n \<Rightarrow> if n < 1 then (16, ''fallback'') else (n, ''config''))))"

definition blank_probe :: "time \<Rightarrow> ProbeResult" where
  "blank_probe now = \<lparr>pb_OK = False, pb_CheckedAt = now, pb_ServerVer = [], pb_Capabilities = Map.empty, pb_Facts = Map.empty,
     pb_Missing = [], pb_FixHint = [], pb_Error = []\<rparr>"

definition cluster_message :: string where
  "cluster_message = 
  utf8 [82, 101, 100, 105, 115, 32, 233, 155, 134, 231, 190, 164, 230, 168, 161, 229, 188, 143, 228, 184, 141, 230, 148, 175, 230, 140, 129, 229, 164, 154, 32, 100, 98, 239, 188, 140, 230, 151, 160, 230, 179, 149, 230, 140, 137, 32, 100, 98, 32, 229, 143, 183, 233, 154, 148, 231, 166, 187]"

definition RedisProbe ::
  "time \<Rightarrow> string option \<Rightarrow> string + string \<Rightarrow> string + string \<Rightarrow> string + fields \<Rightarrow> string + string \<Rightarrow> ProbeResult" where
  "RedisProbe now ping server cluster config keyspace =
     (case ping of Some e \<Rightarrow> (blank_probe now)\<lparr>pb_Error := e\<rparr>
      | None \<Rightarrow>
     (case server of Inl e \<Rightarrow> (blank_probe now)\<lparr>pb_Error := e\<rparr>
      | Inr info \<Rightarrow>
     let p = (blank_probe now)\<lparr>pb_ServerVer := get (parseRedisInfo info) ''redis_version''\<rparr> in
     (case cluster of Inl e \<Rightarrow> p\<lparr>pb_Error := e\<rparr>
      | Inr cinfo \<Rightarrow>
     if get (parseRedisInfo cinfo) ''cluster_enabled'' = ''1'' then p\<lparr>pb_Error := cluster_message\<rparr>
     else let (databases, src) = databases_of config; facts = [''databases_source'' \<mapsto> src] in
     (case keyspace of Inl e \<Rightarrow> p\<lparr>pb_Facts := facts, pb_Error := e\<rparr>
      | Inr kinfo \<Rightarrow> p\<lparr>pb_OK := True, pb_Facts := facts(''databases'' \<mapsto> int_text databases,
          ''occupied_dbs'' \<mapsto> joinIndexes (occupiedDBIndexes (parseRedisInfo kinfo)))\<rparr>))))"

section \<open>Picking a database\<close>

definition blocked :: "int list \<Rightarrow> string list \<Rightarrow> int set" where
  "blocked occupied taken = set occupied \<union> set (List.map_filter db_index taken)"

definition freeDBIndexes :: "int \<Rightarrow> int list \<Rightarrow> string list \<Rightarrow> int list" where
  "freeDBIndexes databases occupied taken = filter (\<lambda>i. i \<notin> blocked occupied taken) [1..databases - 1]"

definition fact :: "ProbeResult \<Rightarrow> string \<Rightarrow> string" where
  "fact p k = (case pb_Facts p k of Some v \<Rightarrow> v | None \<Rightarrow> [])"

definition redis_step :: "int \<Rightarrow> string" where
  "redis_step i = utf8 [229, 136, 134, 233, 133, 141, 231, 169, 186, 233, 151, 178, 32, 100, 98, 32, 229, 143, 183, 32] @ int_text i @
     utf8 [239, 188, 136, 231, 169, 186, 229, 186, 147, 239, 188, 140, 228, 184, 141, 229, 133, 139, 233, 154, 134, 239, 188, 137]"

definition RedisPlan :: "ProbeResult \<Rightarrow> PlanRequest \<Rightarrow> prov_error + ProvisionPlan" where
  "RedisPlan probe req =
     (if bd_Redis (rq_Binding req) = None then Inl BindingMissing
      else if \<not> pb_OK probe then Inl (Outside (pb_Error probe))
      else case Atoi (fact probe ''databases'') of None \<Rightarrow> Inl (Outside ''databases'')
      | Some databases \<Rightarrow>
          (case parseIndexList (fact probe ''occupied_dbs'') of None \<Rightarrow> Inl (Outside ''occupied_dbs'')
           | Some occupied \<Rightarrow>
               (case freeDBIndexes databases occupied (rq_TakenHints req) of [] \<Rightarrow> Inl NoFreeDB
                | i # _ \<Rightarrow> Inr \<lparr>pl_Kind = KindRedis, pl_ResourceName = ''db'' @ int_text i,
                    pl_Steps = [redis_step i], pl_SideEffects = [],
                    pl_Detail = [''db_index'' \<mapsto> int_text i]\<rparr>)))"

definition resourceDBIndex :: "string \<Rightarrow> meta \<Rightarrow> int option" where
  "resourceDBIndex name m =
     (let given = (case m ''db_index'' of Some v \<Rightarrow> v | None \<Rightarrow> []);
          value = (if given = [] then (if prefix ''db'' name then Some (drop 2 name) else None) else Some given)
      in case value of None \<Rightarrow> None
       | Some v \<Rightarrow> (case Atoi v of None \<Rightarrow> None | Some i \<Rightarrow> if i \<le> 0 then None else Some i))"

text \<open>Provisioning checks that the picked database is empty: \<open>dbsize\<close> is the answer to DBSIZE.\<close>

definition RedisProvision :: "string + int \<Rightarrow> string \<Rightarrow> ProvisionPlan \<Rightarrow> prov_error + Resource" where
  "RedisProvision dbsize dsn plan =
     (case resourceDBIndex (pl_ResourceName plan) (pl_Detail plan) of None \<Rightarrow> Inl (Outside ''name'')
      | Some i \<Rightarrow>
          (case dbsize of Inl e \<Rightarrow> Inl (Outside e)
           | Inr n \<Rightarrow> if n \<noteq> 0 then Inl (Outside ''not empty'')
               else Inr \<lparr>rs_Kind = KindRedis, rs_Name = ''db'' @ int_text i, rs_DSN = dsn,
                 rs_Meta = [''db_index'' \<mapsto> int_text i]\<rparr>))"

text \<open>
  Reclaiming, with the commands it sends and the answers to them: SELECT, FLUSHDB ASYNC and, where the
  server does not know ASYNC, FLUSHDB. Nothing is ever cleaned up that no lease holds.
\<close>

datatype redis_command = SelectDB int | FlushAsync | FlushSync

definition RedisReclaim ::
  "string option \<Rightarrow> string option \<Rightarrow> string option \<Rightarrow> Resource \<Rightarrow> prov_error option \<times> redis_command list" where
  "RedisReclaim select async flush res =
     (case resourceDBIndex (rs_Name res) (rs_Meta res) of None \<Rightarrow> (Some (Outside ''name''), [])
      | Some i \<Rightarrow>
     (case select of Some e \<Rightarrow> (Some (Outside e), [SelectDB i])
      | None \<Rightarrow>
     (case async of None \<Rightarrow> (None, [SelectDB i, FlushAsync])
      | Some e \<Rightarrow>
          if Index (ToUpper e) ''ASYNC'' \<noteq> None
          then (map_option Outside flush, [SelectDB i, FlushAsync, FlushSync])
          else (Some (Outside e), [SelectDB i, FlushAsync]))))"

definition RedisReconcile :: "DataSource \<Rightarrow> Resource list \<Rightarrow> Orphan list" where
  "RedisReconcile ds known = []"

section \<open>Properties\<close>

lemma split_on_nonempty [simp]: "split_on c s \<noteq> []"
  by (induction s) (auto split: list.split)

lemma split_on_plain: "c \<notin> set p \<Longrightarrow> split_on c p = [p]"
  by (induction p) auto

lemma split_on_append: "c \<notin> set p \<Longrightarrow> split_on c (p @ c # s) = p # split_on c s"
  by (induction p) (auto split: list.splits)

lemma split_join: "ps \<noteq> [] \<Longrightarrow> (\<And>p. p \<in> set ps \<Longrightarrow> CHR '','' \<notin> set p) \<Longrightarrow> split_on (CHR '','') (join_comma ps) = ps"
  by (induction ps rule: join_comma.induct) (auto simp: split_on_plain split_on_append)

lemma int_text_chars: "CHR '','' \<notin> set (int_text n)" "int_text n \<noteq> []"
proof -
  have "CHR '','' \<notin> set (nat_text m)" for m
    using nat_text_digits [of m] by (auto simp: list_all_iff is_digit_def)
  then show "CHR '','' \<notin> set (int_text n)" by (auto simp: int_text_def)
  show "int_text n \<noteq> []" using nat_text_digits [of "nat n"] by (auto simp: int_text_def)
qed

lemma parse_parts_map: "(\<And>n. n \<in> set ns \<Longrightarrow> - (2 ^ 63) \<le> n \<and> n < 2 ^ 63) \<Longrightarrow> parse_parts (map int_text ns) = Some ns"
  by (induction ns) (auto simp: Atoi_int_text)

text \<open>
  The list of occupied databases the probe writes into its facts reads back in the plan as it was
  written, for 64-bit indices, the empty list included.
\<close>

theorem index_list_roundtrip:
  assumes "\<And>n. n \<in> set ns \<Longrightarrow> - (2 ^ 63) \<le> n \<and> n < 2 ^ 63"
  shows "parseIndexList (joinIndexes ns) = Some ns"
proof (cases ns)
  case Nil
  then show ?thesis by (simp add: parseIndexList_def joinIndexes_def)
next
  case (Cons m ms)
  have "join_comma (map int_text ns) \<noteq> []"
    unfolding Cons using int_text_chars(2) [of m] by (cases ms) auto
  moreover have "split_on (CHR '','') (join_comma (map int_text ns)) = map int_text ns"
    by (rule split_join) (use Cons int_text_chars(1) in auto)
  ultimately show ?thesis using parse_parts_map [OF assms] by (simp add: parseIndexList_def joinIndexes_def)
qed

theorem index_list_roundtrip_witness: "parseIndexList (joinIndexes [1, 3, 15]) = Some [1, 3, 15]"
  by (rule index_list_roundtrip) auto

lemma db_index_name: "0 < i \<Longrightarrow> i < 2 ^ 63 \<Longrightarrow> db_index (''db'' @ int_text i) = Some i"
  using Atoi_int_text [of i] by (simp add: db_index_def)

lemma resource_index_roundtrip:
  "0 < i \<Longrightarrow> i < 2 ^ 63 \<Longrightarrow> resourceDBIndex (''db'' @ int_text i) [''db_index'' \<mapsto> int_text i] = Some i"
  using Atoi_int_text [of i] int_text_chars(2) [of i] by (simp add: resourceDBIndex_def)

lemma filter_hd: "filter P xs = i # r \<Longrightarrow> sorted xs \<Longrightarrow> P i \<and> i \<in> set xs \<and> (\<forall>j \<in> set xs. j < i \<longrightarrow> \<not> P j)" for i :: int
proof -
  assume f: "filter P xs = i # r" and s: "sorted xs"
  have "i \<in> set (filter P xs)" using f by simp
  moreover have "\<not> P j" if "j \<in> set xs" "j < i" for j
  proof
    assume "P j"
    then have "j \<in> set (filter P xs)" using that(1) by simp
    then have "j \<in> set (i # r)" unfolding f .
    moreover have "sorted (i # r)" using s sorted_filter [of "\<lambda>x. x" xs P] by (simp add: f)
    ultimately show False using that(2) by auto
  qed
  ultimately show ?thesis by auto
qed

text \<open>
  The plan takes the least database that is free: it is at least 1 and within the server's databases,
  neither occupied nor registered, and each smaller one is one of the two; and what the plan names is the
  database that provisioning checks and reclaiming flushes.
\<close>

theorem redis_plan_least_free:
  assumes "RedisPlan probe req = Inr plan" "Atoi (fact probe ''databases'') = Some databases"
    "parseIndexList (fact probe ''occupied_dbs'') = Some occupied"
  shows "\<exists>i. pl_ResourceName plan = ''db'' @ int_text i \<and> 1 \<le> i \<and> i < databases \<and>
    i \<notin> set occupied \<and> pl_ResourceName plan \<notin> set (rq_TakenHints req) \<and>
    (\<forall>j. 1 \<le> j \<and> j < i \<longrightarrow> j \<in> set occupied \<or> (\<exists>n \<in> set (rq_TakenHints req). db_index n = Some j)) \<and>
    resourceDBIndex (pl_ResourceName plan) (pl_Detail plan) = Some i"
proof -
  obtain i r where free: "freeDBIndexes databases occupied (rq_TakenHints req) = i # r"
    and plan: "pl_ResourceName plan = ''db'' @ int_text i" "pl_Detail plan = [''db_index'' \<mapsto> int_text i]"
    using assms by (auto simp: RedisPlan_def split: if_splits list.splits)
  have least: "i \<notin> blocked occupied (rq_TakenHints req) \<and> i \<in> {1..databases - 1} \<and>
      (\<forall>j \<in> {1..databases - 1}. j < i \<longrightarrow> j \<in> blocked occupied (rq_TakenHints req))"
    using filter_hd [OF free [unfolded freeDBIndexes_def]] by simp
  have "databases < 2 ^ 63" using assms(2) by (auto simp: Atoi_def Let_def split: if_splits)
  with least have i: "0 < i" "i < 2 ^ 63" by auto
  have taken: "j \<in> set (List.map_filter db_index ns) \<longleftrightarrow> (\<exists>n \<in> set ns. db_index n = Some j)" for j ns
    by (induction ns) (auto simp: map_filter_simps split: option.split)
  have "\<not> (\<exists>n \<in> set (rq_TakenHints req). db_index n = Some i)" using least taken by (auto simp: blocked_def)
  then have "''db'' @ int_text i \<notin> set (rq_TakenHints req)" using db_index_name [OF i] by blast
  with least plan resource_index_roundtrip [OF i] show ?thesis
    by (intro exI [of _ i]) (auto simp: blocked_def taken)
qed

theorem redis_plan_least_free_witness:
  "let probe = RedisProbe 0 None (Inr ''redis_version:7'') (Inr ''cluster_enabled:0'') (Inr [(''databases'', ''16'')]) (Inr ''db1:keys=3'');
       req = \<lparr>rq_ProjectID = ''p'', rq_NameSeed = ''n'', rq_Binding = \<lparr>bd_Postgres = None, bd_Redis = Some \<lparr>rdb_DataSourceName = ''main''\<rparr>,
         bd_MaxConcurrentLeases = 0, bd_DefaultTTLMinutes = 0\<rparr>, rq_TakenHints = [''db2'']\<rparr>
   in \<exists>plan i. RedisPlan probe req = Inr plan \<and> pl_ResourceName plan = ''db'' @ int_text i \<and> 1 \<le> i \<and> i \<noteq> 1 \<and> pl_ResourceName plan \<noteq> ''db2''"
proof -
  let ?probe = "RedisProbe 0 None (Inr ''redis_version:7'') (Inr ''cluster_enabled:0'') (Inr [(''databases'', ''16'')]) (Inr ''db1:keys=3'')"
  let ?req = "\<lparr>rq_ProjectID = ''p'', rq_NameSeed = ''n'', rq_Binding = \<lparr>bd_Postgres = None, bd_Redis = Some \<lparr>rdb_DataSourceName = ''main''\<rparr>,
         bd_MaxConcurrentLeases = 0, bd_DefaultTTLMinutes = 0\<rparr>, rq_TakenHints = [''db2'']\<rparr>"
  have "\<not> isl (RedisPlan ?probe ?req)" by code_simp
  then obtain plan where plan: "RedisPlan ?probe ?req = Inr plan" by (cases "RedisPlan ?probe ?req") auto
  have "Atoi (fact ?probe ''databases'') = Some 16" "parseIndexList (fact ?probe ''occupied_dbs'') = Some [1]" by code_simp+
  from redis_plan_least_free [OF plan this] plan show ?thesis by (auto simp: Let_def)
qed

text \<open>
  A database is emptied only for the resource that a provisioning of a plan made: whatever the server
  answers, reclaiming that resource selects the database of the plan, never database 0, before it flushes
  anything, and it reports success exactly when one flush was accepted.
\<close>

theorem redis_reclaim_scope:
  assumes "RedisProvision dbsize dsn plan = Inr res" "RedisReclaim select async flush res = (r, cs)"
  shows "\<exists>i > 0. resourceDBIndex (pl_ResourceName plan) (pl_Detail plan) = Some i \<and> dbsize = Inr 0 \<and>
    hd cs = SelectDB i \<and> (\<forall>j. SelectDB j \<in> set cs \<longrightarrow> j = i) \<and>
    (r = None \<longleftrightarrow> select = None \<and> (async = None \<or> last cs = FlushSync \<and> flush = None))"
proof -
  obtain i where i: "resourceDBIndex (pl_ResourceName plan) (pl_Detail plan) = Some i" "dbsize = Inr 0"
    "rs_Name res = ''db'' @ int_text i" "rs_Meta res = [''db_index'' \<mapsto> int_text i]"
    using assms(1) by (auto simp: RedisProvision_def split: option.splits sum.splits if_splits)
  have bounds: "0 < i" "i < 2 ^ 63"
    using i(1) by (auto simp: resourceDBIndex_def Atoi_def Let_def split: option.splits if_splits)
  then have "resourceDBIndex (rs_Name res) (rs_Meta res) = Some i"
    using i(3,4) resource_index_roundtrip [of i] by simp
  with assms(2) i bounds show ?thesis
    by (intro exI [of _ i]) (auto simp: RedisReclaim_def split: option.splits if_splits)
qed

theorem redis_reclaim_scope_witness:
  "let plan = \<lparr>pl_Kind = KindRedis, pl_ResourceName = ''db3'', pl_Steps = [], pl_SideEffects = [], pl_Detail = Map.empty\<rparr>
   in \<exists>res cs. RedisProvision (Inr 0) ''redis://h/3'' plan = Inr res \<and>
     RedisReclaim None (Some ''ERR unknown option async'') None res = (None, cs) \<and> hd cs = SelectDB 3"
proof -
  let ?plan = "\<lparr>pl_Kind = KindRedis, pl_ResourceName = ''db3'', pl_Steps = [], pl_SideEffects = [], pl_Detail = Map.empty\<rparr>"
  let ?res = "\<lparr>rs_Kind = KindRedis, rs_Name = ''db3'', rs_DSN = ''redis://h/3'', rs_Meta = [''db_index'' \<mapsto> ''3'']\<rparr>"
  let ?run = "RedisReclaim None (Some ''ERR unknown option async'') None ?res"
  have "resourceDBIndex ''db3'' Map.empty = Some 3" "int_text 3 = ''3''" by code_simp+
  then have made: "RedisProvision (Inr 0) ''redis://h/3'' ?plan = Inr ?res" by (simp add: RedisProvision_def)
  have run: "?run = (None, [SelectDB 3, FlushAsync, FlushSync])" by code_simp
  from redis_reclaim_scope [OF made run] run made show ?thesis by (auto simp: Let_def)
qed

end
