(* ===== verification/GoRegexp.thy ===== *)
theory GoRegexp
  imports GoText
begin

text \<open>
  The regular expressions of the source, with the leftmost-first matching of Go's \<^verbatim>\<open>regexp\<close> package:
  the matches of an expression at a place, in order of preference, as the texts that are left behind them.
  The classes used are of ASCII bytes, which never occur inside another rune.
\<close>

datatype regex =
    Bytes "char \<Rightarrow> bool"
  | Then regex regex
  | Or regex regex
  | Opt regex
  | Star regex

function matches :: "regex \<Rightarrow> string \<Rightarrow> string list" where
  "matches (Bytes P) s = (case s of [] \<Rightarrow> [] | c # t \<Rightarrow> if P c then [t] else [])"
| "matches (Then a b) s = concat (map (matches b) (matches a s))"
| "matches (Or a b) s = matches a s @ matches b s"
| "matches (Opt a) s = matches a s @ [s]"
| "matches (Star a) s = concat (map (\<lambda>t. if length t < length s then matches (Star a) t else []) (matches a s)) @ [s]"
  by pat_completeness auto
termination
  by (relation "(\<lambda>(r, s). size r) <*mlex*> measure (\<lambda>(r, s). length s)") (auto simp: mlex_prod_def)

declare matches.simps(5) [simp del]

text \<open>The usual abbreviations: a text, a digit, a blank, bounded repetition.\<close>

definition literal :: "char \<Rightarrow> regex" where
  "literal c = Bytes (\<lambda>d. d = c)"

fun Times :: "nat \<Rightarrow> regex \<Rightarrow> regex" where
  "Times n r = (if n \<le> 1 then r else Then r (Times (n - 1) r))"

definition Plus :: "regex \<Rightarrow> regex" where
  "Plus r = Then r (Star r)"

definition between :: "char \<Rightarrow> char \<Rightarrow> char \<Rightarrow> bool" where
  "between a b c \<longleftrightarrow> (of_char a :: nat) \<le> of_char c \<and> (of_char c :: nat) \<le> of_char b"

definition digit :: regex where
  "digit = Bytes is_digit"

definition blank :: regex where
  "blank = Bytes (\<lambda>c. c \<in> {CHR 0x09, CHR 0x0A, CHR 0x0C, CHR 0x0D, CHR '' ''})"

fun sequence :: "regex list \<Rightarrow> regex" where
  "sequence [] = Opt (Bytes (\<lambda>c. False))"
| "sequence [r] = r"
| "sequence (r # q # rs) = Then r (sequence (q # rs))"

lemma matches_shorter: "t \<in> set (matches r s) \<Longrightarrow> length t \<le> length s"
proof (induction r s arbitrary: t rule: matches.induct)
  case (1 P s)
  then show ?case by (cases s) (auto split: if_splits)
next
  case (2 a b s)
  from "2.prems" obtain u where u: "u \<in> set (matches a s)" "t \<in> set (matches b u)" by auto
  from "2.IH"(1) [OF u(1)] "2.IH"(2) [OF u] show ?case by (rule order_trans [rotated])
next
  case (3 a b s)
  from "3.prems" have "t \<in> set (matches a s) \<or> t \<in> set (matches b s)" by auto
  with "3.IH" show ?case by blast
next
  case (4 a s)
  from "4.prems" have "t \<in> set (matches a s) \<or> t = s" by auto
  with "4.IH" show ?case by blast
next
  case (5 a s)
  show ?case
  proof (cases "t = s")
    case False
    with "5.prems" obtain u where u: "u \<in> set (matches a s)" "length u < length s" "t \<in> set (matches (Star a) u)"
      by (auto simp: matches.simps(5) [of a s] split: if_splits)
    have "length t \<le> length u" by (rule "5.IH"(2) [OF u(1,2,3)])
    with u(2) show ?thesis by linarith
  qed simp
qed

text \<open>
  \<^verbatim>\<open>ReplaceAllString\<close> for an expression anchored at the start of the text, and for one that is not; the
  expressions of the source match no empty text.
\<close>

definition replace_start :: "regex \<Rightarrow> string \<Rightarrow> string \<Rightarrow> string" where
  "replace_start r rep s = (case matches r s of [] \<Rightarrow> s | t # _ \<Rightarrow> rep @ t)"

function replace_all :: "regex \<Rightarrow> string \<Rightarrow> string \<Rightarrow> string" where
  "replace_all r rep [] = []"
| "replace_all r rep (c # s) =
     (case matches r (c # s) of
        [] \<Rightarrow> c # replace_all r rep s
      | t # _ \<Rightarrow> if length t \<le> length s then rep @ replace_all r rep t else c # replace_all r rep s)"
  by pat_completeness auto
termination by (relation "measure (\<lambda>(r, rep, s). length s)") auto

end
