(* ===== verification/LogText.thy ===== *)
theory LogText
  imports GoRegexp
begin

text \<open>
  The texts of log lines (\<^verbatim>\<open>agent/logparse\<close>): the signature under which equal lines are folded
  (\<^verbatim>\<open>normalize.go\<close>) and the level of a line (\<^verbatim>\<open>level.go\<close>).
\<close>

section \<open>Signatures\<close>

definition upper :: regex where "upper = Bytes (between (CHR ''A'') (CHR ''Z''))"
definition lower :: regex where "lower = Bytes (between (CHR ''a'') (CHR ''z''))"
definition colon :: regex where "colon = literal (CHR '':'')"
definition dot :: regex where "dot = literal (CHR ''.'')"
definition dash :: regex where "dash = literal (CHR ''-'')"

definition clock_time :: regex where
  "clock_time = sequence [digit, digit, colon, digit, digit, colon, digit, digit]"

definition fraction :: regex where
  "fraction = Opt (Then dot (Plus digit))"

definition clockPrefixRe :: regex where
  "clockPrefixRe = sequence [clock_time, fraction, Star blank]"

definition isoPrefixRe :: regex where
  "isoPrefixRe = sequence [Times 4 digit, dash, Times 2 digit, dash, Times 2 digit, Bytes (\<lambda>c. c = CHR ''T'' \<or> c = CHR '' ''),
     clock_time, fraction, Star blank]"

definition weekdayPrefixRe :: regex where
  "weekdayPrefixRe = sequence [upper, lower, lower, Plus blank, upper, lower, lower, Plus blank, digit, Opt digit, Plus blank,
     clock_time, Plus blank, upper, upper, Opt (Then upper (Opt upper)), Plus blank, Times 4 digit, Star blank]"

definition numAssignRe :: regex where
  "numAssignRe = Then (literal (CHR ''='')) (Plus digit)"

definition one_to_three :: regex where
  "one_to_three = Then digit (Opt (Then digit (Opt digit)))"

definition ipPortRe :: regex where
  "ipPortRe = sequence [one_to_three, dot, one_to_three, dot, one_to_three, dot, one_to_three, colon, Plus digit]"

definition Normalize :: "string \<Rightarrow> string" where
  "Normalize line =
     (let r1 = replace_start clockPrefixRe [] line;
          r2 = replace_start isoPrefixRe [] r1;
          r3 = replace_start weekdayPrefixRe [] r2;
          r4 = replace_all numAssignRe ''=*'' r3;
          r5 = replace_all ipPortRe ''*:*'' r4
      in TrimSpace r5)"

lemmas log_regex_defs = clockPrefixRe_def isoPrefixRe_def weekdayPrefixRe_def numAssignRe_def ipPortRe_def

text \<open>The repository's own examples of signatures.\<close>

lemma normalize_examples:
  "Normalize ''12:30:45.123 connection failed'' = ''connection failed''"
  "Normalize ''2026-06-08T12:30:45 boot ok'' = ''boot ok''"
  "Normalize ''Wed May 20 17:20:51 CST 2026 started'' = ''started''"
  "Normalize ''retry count=123 done'' = ''retry count=* done''"
  "Normalize ''dial 192.168.1.10:8080 refused'' = ''dial *:* refused''"
  by code_simp+

section \<open>Levels\<close>

definition normalizeLevel :: "string \<Rightarrow> string" where
  "normalizeLevel raw =
     (let l = ToLower (TrimSpace raw) in
      if l \<in> set [''error'', ''err'', ''fatal'', ''critical'', ''panic''] then ''ERROR''
      else if l \<in> set [''warn'', ''warning''] then ''WARN''
      else if l \<in> set [''debug'', ''trace''] then ''DEBUG''
      else if l = ''info'' then ''INFO'' else [])"

text \<open>
  \<^verbatim>\<open>levelFieldRe\<close>: the word \<^verbatim>\<open>level\<close> in any case, behind no word character, an equals sign, an optional
  quote and letters; under \<^verbatim>\<open>(?i)\<close> the long s (C5 BF) and the Kelvin sign (E2 84 AA) are letters too.
\<close>

definition is_word :: "char \<Rightarrow> bool" where
  "is_word c \<longleftrightarrow> is_digit c \<or> between (CHR ''a'') (CHR ''z'') c \<or> between (CHR ''A'') (CHR ''Z'') c \<or> c = CHR ''_''"

definition any_case :: "char \<Rightarrow> regex" where
  "any_case l = Bytes (\<lambda>c. ascii_lower c = l)"

definition level_head :: regex where
  "level_head = sequence (map any_case ''level'' @ [Star blank, literal (CHR ''=''), Star blank, Opt (literal (CHR 0x22))])"

definition letter :: regex where
  "letter = Or (Or upper lower) (Or (Then (literal (CHR 0xC5)) (literal (CHR 0xBF)))
     (sequence [literal (CHR 0xE2), literal (CHR 0x84), literal (CHR 0xAA)]))"

fun level_group :: "char option \<Rightarrow> string \<Rightarrow> string option" where
  "level_group before [] = None"
| "level_group before (c # s) =
     (let starts = (case before of None \<Rightarrow> True | Some b \<Rightarrow> \<not> is_word b);
          heads = (if starts then filter (\<lambda>t. matches (Plus letter) t \<noteq> []) (matches level_head (c # s)) else [])
      in case heads of
           t # _ \<Rightarrow> Some (take (length t - length (hd (matches (Plus letter) t))) t)
         | [] \<Rightarrow> level_group (Some c) s)"

definition levelFromField :: "string \<Rightarrow> string" where
  "levelFromField line = (case level_group None line of None \<Rightarrow> [] | Some g \<Rightarrow> normalizeLevel g)"

text \<open>\<^verbatim>\<open>bracketLevelRe\<close>: the leftmost bracketed level.\<close>

definition bracket_words :: "string list" where
  "bracket_words = [''ERROR'', ''WARN'', ''WARNING'', ''INFO'', ''DEBUG'', ''TRACE'', ''FATAL'', ''CRITICAL'']"

fun bracket_group :: "string \<Rightarrow> string option" where
  "bracket_group [] = None"
| "bracket_group (c # s) =
     (case filter (\<lambda>w. prefix (''['' @ w @ '']'') (c # s)) bracket_words of
        w # _ \<Rightarrow> Some w
      | [] \<Rightarrow> bracket_group s)"

definition levelFromBrackets :: "string \<Rightarrow> string" where
  "levelFromBrackets line = (case bracket_group (ToUpper line) of None \<Rightarrow> [] | Some g \<Rightarrow> normalizeLevel g)"

definition contains :: "string \<Rightarrow> string \<Rightarrow> bool" where
  "contains s w \<longleftrightarrow> Index s w \<noteq> None"

definition levelFromKeywords :: "string \<Rightarrow> string" where
  "levelFromKeywords line =
     (let up = ToUpper line in
      if contains up ''ERROR'' \<or> contains up ''FATAL'' \<or> contains up ''CRITICAL'' \<or> contains up ''PANIC'' then ''ERROR''
      else if contains up ''WARN'' \<or> contains up ''WARNING'' then ''WARN''
      else if contains up ''DEBUG'' \<or> contains up ''TRACE'' then ''DEBUG''
      else ''INFO'')"

definition DetectLevel :: "string \<Rightarrow> string" where
  "DetectLevel line =
     (let lv = levelFromField line in
      if lv \<noteq> [] then lv
      else let lv = levelFromBrackets line in
           if lv \<noteq> [] then lv else levelFromKeywords line)"

lemma level_examples:
  "DetectLevel (''time='' @ [CHR 0x22] @ ''16:37'' @ [CHR 0x22] @ '' level=warning msg=x'') = ''WARN''"
  "DetectLevel ''10:00:00 [ERROR] database connection failed'' = ''ERROR''"
  "DetectLevel ''TRACE: entering handler'' = ''DEBUG''"
  "DetectLevel ''server started on port 8080'' = ''INFO''"
  by code_simp+

definition log_levels :: "string set" where
  "log_levels = {''ERROR'', ''WARN'', ''DEBUG'', ''INFO''}"

lemma normalizeLevel_levels: "normalizeLevel raw \<noteq> [] \<Longrightarrow> normalizeLevel raw \<in> log_levels"
  by (simp add: normalizeLevel_def log_levels_def Let_def split: if_splits)

text \<open>Every line has one of the four levels.\<close>

lemma DetectLevel_levels: "DetectLevel line \<in> log_levels"
proof -
  have "levelFromKeywords line \<in> log_levels" by (simp add: levelFromKeywords_def log_levels_def Let_def)
  then show ?thesis
    using normalizeLevel_levels
    by (auto simp: DetectLevel_def levelFromField_def levelFromBrackets_def Let_def split: option.splits)
qed

end
