(* ===== verification/LogFold.thy ===== *)
theory LogFold
  imports LogText Prelude
begin

text \<open>
  Folding of repeated log lines (\<^verbatim>\<open>agent/logbuf/fold.go\<close>): per deployment one open segment, its lane, which
  absorbs lines of the same signature that follow within the window. The counter of fold keys is the process
  counter of the code; a Go map that is ranged over is visited in a given order of its keys. Counters are
  natural numbers: none of them comes near the 63 bits they have.
\<close>

section \<open>Entries and fold keys\<close>

record LogEntry =
  lg_ID :: int
  lg_DeploymentID :: string
  lg_SourceID :: string
  lg_RunID :: string
  lg_Timestamp :: time
  lg_Level :: string
  lg_Message :: string
  lg_Stream :: string
  lg_RepeatCount :: nat
  lg_FoldKey :: string
  lg_Seq :: nat
  lg_LastSeenAt :: "time option"

definition blank_entry :: LogEntry where
  "blank_entry = \<lparr>lg_ID = 0, lg_DeploymentID = [], lg_SourceID = [], lg_RunID = [], lg_Timestamp = 0, lg_Level = [],
     lg_Message = [], lg_Stream = [], lg_RepeatCount = 0, lg_FoldKey = [], lg_Seq = 0, lg_LastSeenAt = None\<rparr>"

definition digit36 :: "nat \<Rightarrow> char" where
  "digit36 d = (if d < 10 then char_of (48 + d) else char_of (87 + d))"

fun base36 :: "nat \<Rightarrow> string" where
  "base36 n = (if n < 36 then [digit36 n] else base36 (n div 36) @ [digit36 (n mod 36)])"

declare base36.simps [simp del]

definition nextFoldKey :: "string \<Rightarrow> nat \<Rightarrow> string \<Rightarrow> string" where
  "nextFoldKey epoch seq runID =
     (if runID = [] then ''f'' @ epoch @ '':'' @ base36 seq else ''f'' @ runID @ '':'' @ base36 seq)"

text \<open>Keys drawn at different counts differ, whatever the runs: the count is what follows the last colon.\<close>

definition value36 :: "char \<Rightarrow> nat" where
  "value36 c = (let n = of_char c in if n < 58 then n - 48 else n - 87)"

lemma digit36_value: "d < 36 \<Longrightarrow> value36 (digit36 d) = d"
  by (simp add: digit36_def value36_def)

lemma digit36_colon: "d < 36 \<Longrightarrow> digit36 d \<noteq> CHR '':''"
proof
  assume d: "d < 36" and eq: "digit36 d = CHR '':''"
  have "(of_char (digit36 d) :: nat) = (if d < 10 then 48 + d else 87 + d)"
    using d by (simp add: digit36_def)
  then show False unfolding eq by (simp split: if_splits)
qed

lemma base36_value: "foldl (\<lambda>a c. 36 * a + value36 c) 0 (base36 n) = n"
proof (induction n rule: base36.induct)
  case (1 n)
  then show ?case
    by (cases "n < 36") (simp_all add: base36.simps [of n] digit36_value)
qed

lemma base36_colon: "CHR '':'' \<notin> set (base36 n)"
proof (induction n rule: base36.induct)
  case (1 n)
  then show ?case
    using digit36_colon [of n] digit36_colon [of "n mod 36"]
    by (cases "n < 36") (auto simp: base36.simps [of n])
qed

lemma last_colon: "CHR '':'' \<notin> set s \<Longrightarrow> takeWhile (\<lambda>c. c \<noteq> CHR '':'') (rev (p @ '':'' @ s)) = rev s"
  using takeWhile_append2 [of "rev s" "\<lambda>c. c \<noteq> CHR '':''" "CHR '':'' # rev p"] by auto

lemma nextFoldKey_shape: "\<exists>p. nextFoldKey epoch n runID = p @ '':'' @ base36 n"
  by (cases "runID = []")
    (auto simp: nextFoldKey_def intro: exI [of _ "''f'' @ epoch"] exI [of _ "''f'' @ runID"])

lemma nextFoldKey_inj:
  assumes "nextFoldKey e m r = nextFoldKey e' n r'"
  shows "m = n"
proof -
  obtain p q where "nextFoldKey e m r = p @ '':'' @ base36 m" "nextFoldKey e' n r' = q @ '':'' @ base36 n"
    using nextFoldKey_shape by metis
  then have "rev (base36 m) = rev (base36 n)"
    using last_colon [OF base36_colon] assms by metis
  then have "base36 m = base36 n" by simp
  then show ?thesis using base36_value by metis
qed

lemma nextFoldKey_nonempty: "nextFoldKey e n r \<noteq> []"
  by (simp add: nextFoldKey_def)

section \<open>Lanes\<close>

record foldLane =
  fl_Signature :: string
  fl_FoldKey :: string
  fl_Seq :: nat
  fl_RepeatCount :: nat
  fl_Rep :: LogEntry
  fl_LastSeen :: time

record foldIncrement =
  fi_DeploymentID :: string
  fi_FoldKey :: string
  fi_RepeatCount :: nat

record foldTracker =
  ft_Window :: duration
  ft_Lanes :: "string \<rightharpoonup> foldLane"
  ft_Watermarks :: "string \<Rightarrow> nat"
  ft_KeySeq :: nat
  ft_Epoch :: string

definition newFoldTracker :: "duration \<Rightarrow> (string \<Rightarrow> nat) \<Rightarrow> nat \<Rightarrow> string \<Rightarrow> foldTracker" where
  "newFoldTracker window watermarks keySeq epoch =
     \<lparr>ft_Window = window, ft_Lanes = Map.empty, ft_Watermarks = watermarks, ft_KeySeq = keySeq, ft_Epoch = epoch\<rparr>"

definition folds :: "LogEntry \<Rightarrow> foldTracker \<Rightarrow> foldLane option" where
  "folds e t =
     (case ft_Lanes t (lg_DeploymentID e) of
        None \<Rightarrow> None
      | Some lane \<Rightarrow>
          if fl_Signature lane = Normalize (lg_Message e) \<and> time_sub (lg_Timestamp e) (fl_LastSeen lane) < ft_Window t
          then Some lane else None)"

definition absorb :: "LogEntry \<Rightarrow> foldLane \<Rightarrow> foldLane" where
  "absorb e lane =
     (let n = fl_RepeatCount lane + 1
      in lane\<lparr>fl_RepeatCount := n, fl_LastSeen := lg_Timestamp e,
           fl_Rep := e\<lparr>lg_RepeatCount := n, lg_FoldKey := fl_FoldKey lane, lg_Seq := fl_Seq lane\<rparr>\<rparr>)"

definition open_row :: "LogEntry \<Rightarrow> foldTracker \<Rightarrow> LogEntry" where
  "open_row e t = e\<lparr>lg_RepeatCount := 1, lg_FoldKey := nextFoldKey (ft_Epoch t) (ft_KeySeq t + 1) (lg_RunID e),
     lg_Seq := ft_Watermarks t (lg_DeploymentID e) + 1\<rparr>"

definition open_lane :: "LogEntry \<Rightarrow> LogEntry \<Rightarrow> foldLane" where
  "open_lane e row = \<lparr>fl_Signature = Normalize (lg_Message e), fl_FoldKey = lg_FoldKey row, fl_Seq = lg_Seq row,
     fl_RepeatCount = 1, fl_Rep = row, fl_LastSeen = lg_Timestamp e\<rparr>"

definition observe :: "LogEntry \<Rightarrow> foldTracker \<Rightarrow> (LogEntry + foldIncrement) \<times> foldTracker" where
  "observe e t =
     (let d = lg_DeploymentID e in
      case folds e t of
        Some lane \<Rightarrow>
          let lane = absorb e lane
          in (Inr \<lparr>fi_DeploymentID = d, fi_FoldKey = fl_FoldKey lane, fi_RepeatCount = fl_RepeatCount lane\<rparr>,
              t\<lparr>ft_Lanes := (ft_Lanes t)(d \<mapsto> lane)\<rparr>)
      | None \<Rightarrow>
          let row = open_row e t
          in (Inl row,
              t\<lparr>ft_Lanes := (ft_Lanes t)(d \<mapsto> open_lane e row), ft_KeySeq := ft_KeySeq t + 1,
                ft_Watermarks := (ft_Watermarks t)(d := lg_Seq row)\<rparr>))"

text \<open>Closing the lanes whose window has passed, and all of them; \<open>ks\<close> is the order of the visits.\<close>

fun close_lanes :: "(foldLane \<Rightarrow> bool) \<Rightarrow> string list \<Rightarrow> (string \<rightharpoonup> foldLane) \<Rightarrow> LogEntry list \<times> (string \<rightharpoonup> foldLane)" where
  "close_lanes P [] lanes = ([], lanes)"
| "close_lanes P (d # ks) lanes =
     (case lanes d of
        None \<Rightarrow> close_lanes P ks lanes
      | Some lane \<Rightarrow>
          if P lane then (let (rows, lanes) = close_lanes P ks (lanes(d := None)) in (fl_Rep lane # rows, lanes))
          else close_lanes P ks lanes)"

definition sweep :: "time \<Rightarrow> string list \<Rightarrow> foldTracker \<Rightarrow> LogEntry list \<times> foldTracker" where
  "sweep now ks t =
     (let (rows, lanes) = close_lanes (\<lambda>lane. ft_Window t \<le> time_sub now (fl_LastSeen lane)) ks (ft_Lanes t)
      in (rows, t\<lparr>ft_Lanes := lanes\<rparr>))"

definition closeAll :: "string list \<Rightarrow> foldTracker \<Rightarrow> LogEntry list \<times> foldTracker" where
  "closeAll ks t =
     (let (rows, lanes) = close_lanes (\<lambda>lane. True) ks (ft_Lanes t) in (rows, t\<lparr>ft_Lanes := lanes\<rparr>))"

lemma close_lanes_rows:
  "close_lanes P ks lanes = (rows, lanes') \<Longrightarrow>
     (\<forall>r \<in> set rows. \<exists>d lane. lanes d = Some lane \<and> r = fl_Rep lane) \<and> (\<forall>d lane. lanes' d = Some lane \<longrightarrow> lanes d = Some lane)"
proof (induction P ks lanes arbitrary: rows lanes' rule: close_lanes.induct)
  case (2 P d ks lanes)
  show ?case
  proof (cases "lanes d")
    case None
    with "2.prems" have rest: "close_lanes P ks lanes = (rows, lanes')" by simp
    show ?thesis by (rule "2.IH"(1) [OF None rest])
  next
    case (Some lane)
    show ?thesis
    proof (cases "P lane")
      case True
      with Some "2.prems" obtain rows1 where
        rest: "close_lanes P ks (lanes(d := None)) = (rows1, lanes')" "rows = fl_Rep lane # rows1"
        by (auto split: prod.splits)
      from "2.IH"(2) [OF Some True rest(1)] have ih:
        "\<forall>r \<in> set rows1. \<exists>d' l. (lanes(d := None)) d' = Some l \<and> r = fl_Rep l"
        "\<forall>d' l. lanes' d' = Some l \<longrightarrow> (lanes(d := None)) d' = Some l" by simp_all
      have sub: "lanes d' = Some l" if "(lanes(d := None)) d' = Some l" for d' l
        using that by (cases "d' = d") simp_all
      show ?thesis
      proof (intro conjI ballI allI impI)
        fix r assume "r \<in> set rows"
        then have "r = fl_Rep lane \<or> r \<in> set rows1" unfolding rest(2) by simp
        then show "\<exists>d' l. lanes d' = Some l \<and> r = fl_Rep l"
        proof
          assume "r = fl_Rep lane"
          with Some show ?thesis by (intro exI conjI)
        next
          assume "r \<in> set rows1"
          from ih(1) [rule_format, OF this] obtain d' l where "(lanes(d := None)) d' = Some l" "r = fl_Rep l" by (elim exE conjE)
          with sub show ?thesis by (intro exI conjI)
        qed
      next
        fix d' l assume "lanes' d' = Some l"
        then have "(lanes(d := None)) d' = Some l" by (rule ih(2) [rule_format])
        then show "lanes d' = Some l" by (rule sub)
      qed
    next
      case False
      with Some "2.prems" have rest: "close_lanes P ks lanes = (rows, lanes')" by simp
      show ?thesis by (rule "2.IH"(3) [OF Some False rest])
    qed
  qed
qed simp

end
