(* ===== verification/LogStore.thy ===== *)
theory LogStore
  imports LogFold
begin

text \<open>
  The table of log rows (\<^verbatim>\<open>AppendBatch\<close>, \<^verbatim>\<open>SeqWatermarks\<close> and \<^verbatim>\<open>scanLogEntry\<close> of
  \<^verbatim>\<open>agent/store/store.go\<close>) with its two unique indices: run and fold key, where there is a fold key, and
  deployment and sequence number, where there is a number. An insert that meets the first updates the row
  it meets; one that meets only the second is refused, and with it its whole batch. The generated row id is
  the position of a row.
\<close>

record log_row =
  lr_DeploymentID :: string
  lr_RunID :: string
  lr_Timestamp :: time
  lr_Level :: string
  lr_Message :: string
  lr_Stream :: string
  lr_RepeatCount :: nat
  lr_FoldKey :: string
  lr_Seq :: "nat option"
  lr_LastSeenAt :: time

definition nullableSeq :: "nat \<Rightarrow> nat option" where
  "nullableSeq seq = (if seq = 0 then None else Some seq)"

definition row_of_entry :: "LogEntry \<Rightarrow> log_row" where
  "row_of_entry e =
     \<lparr>lr_DeploymentID = lg_DeploymentID e, lr_RunID = lg_RunID e, lr_Timestamp = lg_Timestamp e, lr_Level = lg_Level e,
      lr_Message = lg_Message e, lr_Stream = lg_Stream e, lr_RepeatCount = (if lg_RepeatCount e = 0 then 1 else lg_RepeatCount e),
      lr_FoldKey = lg_FoldKey e, lr_Seq = nullableSeq (lg_Seq e), lr_LastSeenAt = lg_Timestamp e\<rparr>"

definition scanLogEntry :: "nat \<Rightarrow> log_row \<Rightarrow> LogEntry" where
  "scanLogEntry rid r =
     \<lparr>lg_ID = int rid, lg_DeploymentID = lr_DeploymentID r, lg_SourceID = [], lg_RunID = lr_RunID r, lg_Timestamp = lr_Timestamp r,
      lg_Level = lr_Level r, lg_Message = lr_Message r, lg_Stream = lr_Stream r, lg_RepeatCount = lr_RepeatCount r,
      lg_FoldKey = lr_FoldKey r, lg_Seq = (case lr_Seq r of None \<Rightarrow> 0 | Some n \<Rightarrow> n), lg_LastSeenAt = Some (lr_LastSeenAt r)\<rparr>"

definition same_fold :: "log_row \<Rightarrow> log_row \<Rightarrow> bool" where
  "same_fold r q \<longleftrightarrow> lr_FoldKey r \<noteq> [] \<and> lr_FoldKey q = lr_FoldKey r \<and> lr_RunID q = lr_RunID r"

definition same_seq :: "log_row \<Rightarrow> log_row \<Rightarrow> bool" where
  "same_seq r q \<longleftrightarrow> lr_Seq r \<noteq> None \<and> lr_Seq q = lr_Seq r \<and> lr_DeploymentID q = lr_DeploymentID r"

definition recount :: "log_row \<Rightarrow> log_row \<Rightarrow> log_row" where
  "recount r q = q\<lparr>lr_RepeatCount := lr_RepeatCount r, lr_LastSeenAt := lr_LastSeenAt r\<rparr>"

definition upsert :: "log_row \<Rightarrow> log_row list \<Rightarrow> log_row list option" where
  "upsert r rows =
     (if list_ex (same_fold r) rows then Some (map (\<lambda>q. if same_fold r q then recount r q else q) rows)
      else if list_ex (same_seq r) rows then None
      else Some (rows @ [r]))"

fun upserts :: "LogEntry list \<Rightarrow> log_row list \<Rightarrow> log_row list option" where
  "upserts [] rows = Some rows"
| "upserts (e # es) rows = (case upsert (row_of_entry e) rows of None \<Rightarrow> None | Some rows \<Rightarrow> upserts es rows)"

text \<open>One transaction; \<open>ok\<close> is whether the database accepts its statements otherwise.\<close>

definition AppendBatch :: "bool \<Rightarrow> LogEntry list \<Rightarrow> log_row list \<Rightarrow> bool \<times> log_row list" where
  "AppendBatch ok entries rows =
     (if entries = [] then (True, rows)
      else if \<not> ok then (False, rows)
      else case upserts entries rows of None \<Rightarrow> (False, rows) | Some rows \<Rightarrow> (True, rows))"

definition SeqWatermarks :: "log_row list \<Rightarrow> string \<Rightarrow> nat" where
  "SeqWatermarks rows dep =
     fold max (List.map_filter (\<lambda>r. if lr_DeploymentID r = dep then lr_Seq r else None) rows) 0"

lemma fold_max_bound: "(\<forall>n \<in> set ns. n \<le> fold max ns m) \<and> m \<le> fold max ns m" for m :: nat
proof (induction ns arbitrary: m)
  case (Cons n ns)
  from Cons.IH [of "max n m"] show ?case by (auto intro: order_trans)
qed simp

lemma SeqWatermarks_bound:
  assumes "r \<in> set rows" "lr_Seq r = Some n"
  shows "n \<le> SeqWatermarks rows (lr_DeploymentID r)"
proof -
  have "n \<in> set (List.map_filter (\<lambda>q. if lr_DeploymentID q = lr_DeploymentID r then lr_Seq q else None) rows)"
    using assms by (force simp: map_filter_def)
  then show ?thesis unfolding SeqWatermarks_def using fold_max_bound by blast
qed

lemma upserts_append:
  "upserts (es @ fs) rows = (case upserts es rows of None \<Rightarrow> None | Some rows \<Rightarrow> upserts fs rows)"
  by (induction es arbitrary: rows) (auto split: option.splits)

end
