(* ===== verification/LogBuffer.thy ===== *)
theory LogBuffer
  imports LogStore
begin

text \<open>
  The ring buffer of log entries (\<^verbatim>\<open>agent/logbuf/buffer.go\<close>): appending behind the folding, reading
  the most recent rows, subscribers, batches for the store. The lock makes the part of \<^verbatim>\<open>Append\<close> up to
  the sends one step; the sends come after it, outside the lock.
\<close>

section \<open>State\<close>

text \<open>A Go channel of 64 entries; sending to a closed one panics, sending to a full one is skipped.\<close>

record log_chan =
  ch_Queue :: "LogEntry list"
  ch_Closed :: bool

record Buffer =
  bf_Ring :: "LogEntry list"
  bf_Head :: nat
  bf_Count :: nat
  bf_MaxSize :: nat
  bf_Pending :: "LogEntry list"
  bf_Subs :: "string \<rightharpoonup> nat"
  bf_Chans :: "log_chan list"
  bf_NodeID :: string
  bf_Fold :: foldTracker
  bf_FoldPos :: "string \<rightharpoonup> nat"

definition flushBatch :: nat where "flushBatch = 50"

definition defaultFoldWindow :: duration where "defaultFoldWindow = 5 * second"

definition New :: "nat \<Rightarrow> string \<Rightarrow> (string \<Rightarrow> nat) \<Rightarrow> nat \<Rightarrow> string \<Rightarrow> Buffer" where
  "New maxSize nodeID seqWatermarks keySeq epoch =
     \<lparr>bf_Ring = replicate maxSize blank_entry, bf_Head = 0, bf_Count = 0, bf_MaxSize = maxSize, bf_Pending = [],
      bf_Subs = Map.empty, bf_Chans = [], bf_NodeID = nodeID,
      bf_Fold = newFoldTracker defaultFoldWindow seqWatermarks keySeq epoch, bf_FoldPos = Map.empty\<rparr>"

definition SetFoldWindow :: "duration \<Rightarrow> Buffer \<Rightarrow> Buffer" where
  "SetFoldWindow d b = b\<lparr>bf_Fold := (bf_Fold b)\<lparr>ft_Window := d\<rparr>\<rparr>"

section \<open>Appending\<close>

definition incrementEntry :: "foldIncrement \<Rightarrow> LogEntry" where
  "incrementEntry inc = blank_entry\<lparr>lg_DeploymentID := fi_DeploymentID inc, lg_FoldKey := fi_FoldKey inc,
     lg_RepeatCount := fi_RepeatCount inc\<rparr>"

definition stamp :: "Buffer \<Rightarrow> LogEntry \<Rightarrow> LogEntry" where
  "stamp b e = (if lg_SourceID e = [] \<and> bf_NodeID b \<noteq> [] then e\<lparr>lg_SourceID := bf_NodeID b\<rparr> else e)"

definition push_row :: "LogEntry \<Rightarrow> Buffer \<Rightarrow> Buffer" where
  "push_row row b =
     (let old = bf_Ring b ! bf_Head b;
          pos = (if lg_FoldKey old \<noteq> [] then (bf_FoldPos b)(lg_FoldKey old := None) else bf_FoldPos b)
      in b\<lparr>bf_Ring := (bf_Ring b)[bf_Head b := row], bf_FoldPos := pos(lg_FoldKey row \<mapsto> bf_Head b),
           bf_Head := (bf_Head b + 1) mod bf_MaxSize b, bf_Count := bf_Count b + 1, bf_Pending := bf_Pending b @ [row]\<rparr>)"

definition recount_entry :: "nat \<Rightarrow> time \<Rightarrow> LogEntry \<Rightarrow> LogEntry" where
  "recount_entry n now e = e\<lparr>lg_RepeatCount := n, lg_Timestamp := now\<rparr>"

definition push_increment :: "LogEntry \<Rightarrow> foldIncrement \<Rightarrow> Buffer \<Rightarrow> Buffer" where
  "push_increment rep inc b =
     (let b1 = b\<lparr>bf_Pending := bf_Pending b @ [rep]\<rparr> in
      case bf_FoldPos b (fi_FoldKey inc) of
        Some i \<Rightarrow>
          if lg_FoldKey (bf_Ring b ! i) = fi_FoldKey inc
          then b1\<lparr>bf_Ring := (bf_Ring b)[i := recount_entry (fi_RepeatCount inc) (lg_Timestamp rep) (bf_Ring b ! i)]\<rparr>
          else b1
      | None \<Rightarrow> b1)"

text \<open>The step under the lock: what is sent to the subscribers, and the new state.\<close>

definition append_locked :: "LogEntry \<Rightarrow> Buffer \<Rightarrow> LogEntry \<times> Buffer" where
  "append_locked e0 b0 =
     (let e = stamp b0 e0; (seen, t) = observe e (bf_Fold b0); b = b0\<lparr>bf_Fold := t\<rparr>
      in case seen of
           Inl row \<Rightarrow> (row, push_row row b)
         | Inr inc \<Rightarrow>
             (case ft_Lanes t (lg_DeploymentID e) of
                Some lane \<Rightarrow> (incrementEntry inc, push_increment (fl_Rep lane) inc b)
              | None \<Rightarrow> (incrementEntry inc, b)))"

definition send :: "LogEntry \<Rightarrow> log_chan \<Rightarrow> log_chan option" where
  "send e ch =
     (if ch_Closed ch then None
      else if length (ch_Queue ch) < 64 then Some (ch\<lparr>ch_Queue := ch_Queue ch @ [e]\<rparr>) else Some ch)"

fun send_all :: "LogEntry \<Rightarrow> nat list \<Rightarrow> Buffer \<Rightarrow> Buffer option" where
  "send_all e [] b = Some b"
| "send_all e (a # as) b =
     (case send e (bf_Chans b ! a) of
        None \<Rightarrow> None
      | Some ch \<Rightarrow> send_all e as (b\<lparr>bf_Chans := (bf_Chans b)[a := ch]\<rparr>))"

text \<open>Opening a row in a ring without room panics: the index is out of range.\<close>

definition row_panics :: "LogEntry \<Rightarrow> Buffer \<Rightarrow> bool" where
  "row_panics e b \<longleftrightarrow> length (bf_Ring b) \<le> bf_Head b \<and> folds (stamp b e) (bf_Fold b) = None"

text \<open>The channels of the subscribers, in the order \<open>su\<close> of the visit.\<close>

definition subscribers :: "string list \<Rightarrow> Buffer \<Rightarrow> nat list" where
  "subscribers su b = List.map_filter (bf_Subs b) su"

definition flush :: "bool \<Rightarrow> Buffer \<times> log_row list \<Rightarrow> Buffer \<times> log_row list" where
  "flush ok = (\<lambda>(b, rows). if bf_Pending b = [] then (b, rows)
     else (b\<lparr>bf_Pending := []\<rparr>, snd (AppendBatch ok (bf_Pending b) rows)))"

definition Append :: "bool \<Rightarrow> string list \<Rightarrow> LogEntry \<Rightarrow> Buffer \<times> log_row list \<Rightarrow> (Buffer \<times> log_row list) option" where
  "Append ok su e = (\<lambda>(b0, rows).
     if row_panics e b0 then None else
     let (pushed, b1) = append_locked e b0 in
     case send_all pushed (subscribers su b1) b1 of
       None \<Rightarrow> None
     | Some b \<Rightarrow> Some (if flushBatch \<le> length (bf_Pending b1) then flush ok (b, rows) else (b, rows)))"

section \<open>Reading and subscribing\<close>

definition Recent :: "nat \<Rightarrow> Buffer \<Rightarrow> LogEntry list" where
  "Recent n0 b =
     (let total = min (bf_Count b) (bf_MaxSize b);
          n = min n0 total;
          start = (bf_Head b + bf_MaxSize b - n) mod bf_MaxSize b
      in map (\<lambda>i. bf_Ring b ! ((start + i) mod bf_MaxSize b)) [0..<n])"

definition Subscribe :: "string \<Rightarrow> Buffer \<Rightarrow> nat \<times> Buffer" where
  "Subscribe sid b = (length (bf_Chans b), b\<lparr>bf_Chans := bf_Chans b @ [\<lparr>ch_Queue = [], ch_Closed = False\<rparr>],
     bf_Subs := (bf_Subs b)(sid \<mapsto> length (bf_Chans b))\<rparr>)"

definition Unsubscribe :: "string \<Rightarrow> Buffer \<Rightarrow> Buffer" where
  "Unsubscribe sid b =
     (case bf_Subs b sid of
        None \<Rightarrow> b
      | Some a \<Rightarrow> b\<lparr>bf_Chans := (bf_Chans b)[a := (bf_Chans b ! a)\<lparr>ch_Closed := True\<rparr>],
          bf_Subs := (bf_Subs b)(sid := None)\<rparr>)"

section \<open>Sweeping and closing\<close>

definition enqueue_closed :: "LogEntry list \<Rightarrow> Buffer \<Rightarrow> Buffer" where
  "enqueue_closed rows b = b\<lparr>bf_Pending := bf_Pending b @ filter (\<lambda>r. 1 < lg_RepeatCount r) rows\<rparr>"

definition sweepFolds :: "time \<Rightarrow> string list \<Rightarrow> Buffer \<Rightarrow> Buffer" where
  "sweepFolds now ks b = (let (rows, t) = sweep now ks (bf_Fold b) in enqueue_closed rows (b\<lparr>bf_Fold := t\<rparr>))"

definition Close :: "bool \<Rightarrow> string list \<Rightarrow> Buffer \<times> log_row list \<Rightarrow> Buffer \<times> log_row list" where
  "Close ok ks = (\<lambda>(b, rows).
     let (closed, t) = closeAll ks (bf_Fold b) in flush ok (enqueue_closed closed (b\<lparr>bf_Fold := t\<rparr>), rows))"

section \<open>Runs\<close>

text \<open>
  What happens to a buffer and its table: a line comes in, the flush loop ticks, the configuration sets the
  window, subscribers come and go. A run is a list of such events; it is \<open>None\<close> where one panics.
\<close>

datatype log_event =
    Line bool "string list" LogEntry
  | Tick bool time "string list"
  | Window duration
  | Join string
  | Leave string

fun log_step :: "log_event \<Rightarrow> Buffer \<times> log_row list \<Rightarrow> (Buffer \<times> log_row list) option" where
  "log_step (Line ok su e) s = Append ok su e s"
| "log_step (Tick ok now ks) (b, rows) = Some (flush ok (sweepFolds now ks b, rows))"
| "log_step (Window d) (b, rows) = Some (SetFoldWindow d b, rows)"
| "log_step (Join sid) (b, rows) = Some (snd (Subscribe sid b), rows)"
| "log_step (Leave sid) (b, rows) = Some (Unsubscribe sid b, rows)"

fun log_run :: "log_event list \<Rightarrow> Buffer \<times> log_row list \<Rightarrow> (Buffer \<times> log_row list) option" where
  "log_run [] s = Some s"
| "log_run (v # vs) s = (case log_step v s of None \<Rightarrow> None | Some s \<Rightarrow> log_run vs s)"

lemma log_run_append:
  "log_run (vs @ ws) s = (case log_run vs s of None \<Rightarrow> None | Some s \<Rightarrow> log_run ws s)"
  by (induction vs arbitrary: s) (auto split: option.splits)

end
