(* ===== verification/LogRing.thy ===== *)
theory LogRing
  imports LogBuffer
begin

text \<open>
  What the ring buffer promises to its readers: it shows the latest rows of an unbounded record of the log,
  folds included. The record is the specification; the ring with its index of fold keys refines it. And,
  used by one goroutine at a time, it never panics.
\<close>

section \<open>The specification\<close>

definition shown_line :: "string \<Rightarrow> LogEntry \<Rightarrow> foldTracker \<times> LogEntry list \<Rightarrow> foldTracker \<times> LogEntry list" where
  "shown_line nodeID e0 = (\<lambda>(t0, hist).
     let e = (if lg_SourceID e0 = [] \<and> nodeID \<noteq> [] then e0\<lparr>lg_SourceID := nodeID\<rparr> else e0); (seen, t) = observe e t0
     in case seen of
          Inl row \<Rightarrow> (t, hist @ [row])
        | Inr inc \<Rightarrow> (t, map (\<lambda>r. if lg_FoldKey r = fi_FoldKey inc then recount_entry (fi_RepeatCount inc) (lg_Timestamp e) r else r) hist))"

fun shown_step :: "string \<Rightarrow> log_event \<Rightarrow> foldTracker \<times> LogEntry list \<Rightarrow> foldTracker \<times> LogEntry list" where
  "shown_step nodeID (Line ok su e) s = shown_line nodeID e s"
| "shown_step nodeID (Tick ok now ks) (t, hist) = (snd (sweep now ks t), hist)"
| "shown_step nodeID (Window d) (t, hist) = (t\<lparr>ft_Window := d\<rparr>, hist)"
| "shown_step nodeID (Join sid) s = s"
| "shown_step nodeID (Leave sid) s = s"

definition shown :: "string \<Rightarrow> log_event list \<Rightarrow> foldTracker \<Rightarrow> foldTracker \<times> LogEntry list" where
  "shown nodeID vs t = foldl (\<lambda>s v. shown_step nodeID v s) (t, []) vs"

text \<open>Every row of the record has a fold key of its own, drawn before now.\<close>

definition keyed :: "foldTracker \<Rightarrow> LogEntry list \<Rightarrow> bool" where
  "keyed t hist \<longleftrightarrow> distinct (map lg_FoldKey hist) \<and>
     (\<forall>r \<in> set hist. \<exists>m \<le> ft_KeySeq t. \<exists>q. lg_FoldKey r = nextFoldKey (ft_Epoch t) m q)"

lemma observe_cases:
  "observe e t =
     (case folds e t of
        Some lane \<Rightarrow> (Inr \<lparr>fi_DeploymentID = lg_DeploymentID e, fi_FoldKey = fl_FoldKey lane, fi_RepeatCount = fl_RepeatCount lane + 1\<rparr>,
          t\<lparr>ft_Lanes := (ft_Lanes t)(lg_DeploymentID e \<mapsto> absorb e lane)\<rparr>)
      | None \<Rightarrow> (Inl (open_row e t), t\<lparr>ft_Lanes := (ft_Lanes t)(lg_DeploymentID e \<mapsto> open_lane e (open_row e t)),
          ft_KeySeq := ft_KeySeq t + 1, ft_Watermarks := (ft_Watermarks t)(lg_DeploymentID e := lg_Seq (open_row e t))\<rparr>))"
  by (simp add: observe_def Let_def absorb_def split: option.split)

lemma new_key_fresh:
  assumes "keyed t hist" "r \<in> set hist"
  shows "lg_FoldKey r \<noteq> lg_FoldKey (open_row e t)"
proof
  assume eq: "lg_FoldKey r = lg_FoldKey (open_row e t)"
  from assms obtain m q where "m \<le> ft_KeySeq t" "lg_FoldKey r = nextFoldKey (ft_Epoch t) m q"
    unfolding keyed_def by blast
  with eq nextFoldKey_inj [of "ft_Epoch t" m q] show False by (auto simp: open_row_def)
qed

lemma keyed_nonempty: "keyed t hist \<Longrightarrow> r \<in> set hist \<Longrightarrow> lg_FoldKey r \<noteq> []"
  unfolding keyed_def using nextFoldKey_nonempty by metis

lemma keyed_later:
  assumes "keyed t hist" "ft_KeySeq t \<le> ft_KeySeq u" "ft_Epoch u = ft_Epoch t"
  shows "keyed u hist"
  using assms unfolding keyed_def by (metis order_trans)

lemma keyed_map:
  assumes "keyed t hist" "map lg_FoldKey hist' = map lg_FoldKey hist" "ft_KeySeq u = ft_KeySeq t" "ft_Epoch u = ft_Epoch t"
  shows "keyed u hist'"
proof -
  have eq: "keyed v h \<longleftrightarrow> distinct (map lg_FoldKey h) \<and>
      (\<forall>k \<in> set (map lg_FoldKey h). \<exists>m \<le> ft_KeySeq v. \<exists>q. k = nextFoldKey (ft_Epoch v) m q)" for v h
    by (simp add: keyed_def)
  from assms(1) show ?thesis unfolding eq assms(2-4) .
qed

lemma keyed_new: "keyed t hist \<Longrightarrow> observe e t = (Inl row, u) \<Longrightarrow> keyed u (hist @ [row]) \<and> row = open_row e t"
proof -
  assume k: "keyed t hist" and o: "observe e t = (Inl row, u)"
  then have u: "row = open_row e t" "ft_KeySeq u = ft_KeySeq t + 1" "ft_Epoch u = ft_Epoch t"
    by (auto simp: observe_cases split: option.splits)
  have "keyed u hist" by (rule keyed_later [OF k]) (use u in simp_all)
  moreover have "\<exists>m \<le> ft_KeySeq u. \<exists>q. lg_FoldKey row = nextFoldKey (ft_Epoch u) m q"
    using u by (intro exI [of _ "ft_KeySeq u"] conjI exI [of _ "lg_RunID e"]) (simp_all add: open_row_def)
  moreover have "lg_FoldKey row \<notin> lg_FoldKey ` set hist" using new_key_fresh [OF k] u(1) by (metis imageE)
  ultimately show ?thesis using u(1) unfolding keyed_def by simp
qed

section \<open>The ring\<close>

definition ring_shows :: "nat \<Rightarrow> Buffer \<Rightarrow> LogEntry list \<Rightarrow> bool" where
  "ring_shows M b hist \<longleftrightarrow> 0 < M \<and> bf_MaxSize b = M \<and> length (bf_Ring b) = M \<and> bf_Count b = length hist \<and>
     bf_Head b = length hist mod M \<and>
     (\<forall>i < length hist. length hist \<le> i + M \<longrightarrow>
        bf_Ring b ! (i mod M) = hist ! i \<and> bf_FoldPos b (lg_FoldKey (hist ! i)) = Some (i mod M)) \<and>
     (\<forall>j < M. length hist \<le> j \<longrightarrow> lg_FoldKey (bf_Ring b ! j) = []) \<and>
     (\<forall>k j. bf_FoldPos b k = Some j \<longrightarrow> j < M)"

lemma window_inj:
  fixes i :: nat
  assumes "i < L" "j < L" "L \<le> i + M" "L \<le> j + M" "i mod M = j mod M"
  shows "i = j"
proof (rule ccontr)
  assume "i \<noteq> j"
  then consider "i < j" | "j < i" by linarith
  then show False
  proof cases
    case 1
    then have "M dvd j - i" using assms(5) by (metis mod_eq_dvd_iff_nat less_imp_le)
    with 1 assms show False by (auto dest: dvd_imp_le)
  next
    case 2
    then have "M dvd i - j" using assms(5) by (metis mod_eq_dvd_iff_nat less_imp_le)
    with 2 assms show False by (auto dest: dvd_imp_le)
  qed
qed

lemma window_cover:
  fixes j :: nat
  assumes "j < M" "j < L"
  obtains i where "i < L" "L \<le> i + M" "i mod M = j"
proof -
  let ?i = "j + M * ((L - 1 - j) div M)"
  have "(L - 1 - j) mod M < M" using assms by simp
  moreover have "M * ((L - 1 - j) div M) + (L - 1 - j) mod M = L - 1 - j" by (metis mult_div_mod_eq)
  ultimately have "?i < L" "L \<le> ?i + M" using assms by linarith+
  with assms show thesis by (intro that [of ?i]) simp_all
qed

lemma ring_new: "0 < M \<Longrightarrow> ring_shows M (New M nodeID wm ks ep) []"
  by (simp add: ring_shows_def New_def blank_entry_def)

lemma ringD:
  assumes "ring_shows M b hist"
  shows "0 < M" "bf_MaxSize b = M" "length (bf_Ring b) = M" "bf_Count b = length hist" "bf_Head b = length hist mod M"
    "\<And>i. i < length hist \<Longrightarrow> length hist \<le> i + M \<Longrightarrow> bf_Ring b ! (i mod M) = hist ! i"
    "\<And>i. i < length hist \<Longrightarrow> length hist \<le> i + M \<Longrightarrow> bf_FoldPos b (lg_FoldKey (hist ! i)) = Some (i mod M)"
    "\<And>j. j < M \<Longrightarrow> length hist \<le> j \<Longrightarrow> lg_FoldKey (bf_Ring b ! j) = []"
    "\<And>k j. bf_FoldPos b k = Some j \<Longrightarrow> j < M"
  using assms unfolding ring_shows_def by blast+

lemma distinct_keys: "distinct (map f xs) \<Longrightarrow> i < length xs \<Longrightarrow> j < length xs \<Longrightarrow> f (xs ! i) = f (xs ! j) \<Longrightarrow> i = j"
  by (simp add: distinct_conv_nth) metis

text \<open>The entry that a new row overwrites is not one of the rows that stay.\<close>

lemma overwritten_key:
  assumes ring: "ring_shows M b hist" and keys: "distinct (map lg_FoldKey hist)" "\<And>r. r \<in> set hist \<Longrightarrow> lg_FoldKey r \<noteq> []"
    and i: "i < length hist" "length hist < i + M"
  shows "lg_FoldKey (bf_Ring b ! (length hist mod M)) \<noteq> lg_FoldKey (hist ! i)"
proof (cases "length hist < M")
  case True
  then have "lg_FoldKey (bf_Ring b ! (length hist mod M)) = []" using ringD(8) [OF ring, of "length hist"] by simp
  moreover have "lg_FoldKey (hist ! i) \<noteq> []" using keys(2) i(1) by simp
  ultimately show ?thesis by simp
next
  case False
  let ?j = "length hist - M"
  have "?j < length hist" "?j mod M = length hist mod M" "?j \<noteq> i"
    using False ringD(1) [OF ring] i by (auto simp: le_mod_geq)
  moreover have "bf_Ring b ! (?j mod M) = hist ! ?j"
    by (rule ringD(6) [OF ring]) (use False ringD(1) [OF ring] in auto)
  ultimately show ?thesis using distinct_keys [OF keys(1) _ i(1), of ?j] by auto
qed

lemma ring_push:
  assumes ring: "ring_shows M b hist" and keys: "distinct (map lg_FoldKey (hist @ [row]))"
    "\<And>r. r \<in> set hist \<Longrightarrow> lg_FoldKey r \<noteq> []"
  shows "ring_shows M (push_row row b) (hist @ [row])"
proof -
  let ?L = "length hist" and ?R = "bf_Ring b" and ?b = "push_row row b"
  let ?old = "?R ! (?L mod M)"
  note rd = ringD [OF ring]
  have M: "0 < M" by (rule rd(1))
  have b: "bf_Ring ?b = ?R[?L mod M := row]" "bf_Head ?b = (?L mod M + 1) mod M" "bf_Count ?b = ?L + 1" "bf_MaxSize ?b = M"
    "bf_FoldPos ?b = (if lg_FoldKey ?old \<noteq> [] then (bf_FoldPos b)(lg_FoldKey ?old := None) else bf_FoldPos b)(lg_FoldKey row \<mapsto> ?L mod M)"
    using rd by (simp_all add: push_row_def Let_def)
  have kept: "bf_Ring ?b ! (i mod M) = hist ! i \<and> bf_FoldPos ?b (lg_FoldKey (hist ! i)) = Some (i mod M)"
    if i: "i < ?L" "?L < i + M" for i
  proof -
    have "i mod M \<noteq> ?L mod M" using window_inj [of i "Suc ?L" ?L M] i M by auto
    moreover have "lg_FoldKey (hist ! i) \<noteq> lg_FoldKey row"
    proof -
      have "lg_FoldKey row \<notin> lg_FoldKey ` set hist" using keys(1) by simp
      with nth_mem [OF i(1)] show ?thesis by (metis imageI)
    qed
    moreover have "lg_FoldKey ?old \<noteq> lg_FoldKey (hist ! i)"
      by (rule overwritten_key [OF ring _ keys(2) i]) (use keys(1) in auto)
    ultimately show ?thesis using rd(6,7) [of i] i b(1,5) by (simp add: fun_upd_def)
  qed
  have last: "bf_Ring ?b ! (?L mod M) = row" "bf_FoldPos ?b (lg_FoldKey row) = Some (?L mod M)"
    using b(1,5) rd(3) M by simp_all
  have "\<forall>i < Suc ?L. Suc ?L \<le> i + M \<longrightarrow>
      bf_Ring ?b ! (i mod M) = (hist @ [row]) ! i \<and> bf_FoldPos ?b (lg_FoldKey ((hist @ [row]) ! i)) = Some (i mod M)"
  proof (intro allI impI)
    fix i assume "i < Suc ?L" "Suc ?L \<le> i + M"
    then show "bf_Ring ?b ! (i mod M) = (hist @ [row]) ! i \<and> bf_FoldPos ?b (lg_FoldKey ((hist @ [row]) ! i)) = Some (i mod M)"
      using kept [of i] last by (cases "i = ?L") (simp_all add: nth_append)
  qed
  moreover have "\<forall>j < M. Suc ?L \<le> j \<longrightarrow> lg_FoldKey (bf_Ring ?b ! j) = []"
    using rd(8) b(1) by (auto simp: nth_list_update)
  moreover have "\<forall>k j. bf_FoldPos ?b k = Some j \<longrightarrow> j < M"
    using rd(9) M unfolding b(5) by (auto split: if_splits)
  ultimately show ?thesis
    using b(1-4) rd(3) M unfolding ring_shows_def by (simp add: mod_Suc_eq)
qed

lemma ring_increment:
  assumes ring: "ring_shows M b hist" and keys: "distinct (map lg_FoldKey hist)" and k: "fi_FoldKey inc \<noteq> []"
  shows "ring_shows M (push_increment rep inc b)
    (map (\<lambda>r. if lg_FoldKey r = fi_FoldKey inc then recount_entry (fi_RepeatCount inc) (lg_Timestamp rep) r else r) hist)"
proof -
  let ?L = "length hist" and ?R = "bf_Ring b" and ?k = "fi_FoldKey inc" and ?b = "push_increment rep inc b"
  let ?upd = "recount_entry (fi_RepeatCount inc) (lg_Timestamp rep)"
  let ?f = "\<lambda>r. if lg_FoldKey r = ?k then ?upd r else r"
  note rd = ringD [OF ring]
  have same: "lg_FoldKey (?f r) = lg_FoldKey r" "lg_FoldKey (?upd r) = lg_FoldKey r" for r by (simp_all add: recount_entry_def)
  have fields: "bf_MaxSize ?b = M" "bf_Count ?b = ?L" "bf_Head ?b = ?L mod M" "bf_FoldPos ?b = bf_FoldPos b"
    using rd by (simp_all add: push_increment_def Let_def split: option.split)
  show ?thesis
  proof (cases "\<exists>j. bf_FoldPos b ?k = Some j \<and> lg_FoldKey (?R ! j) = ?k")
    case True
    then obtain j where j: "bf_FoldPos b ?k = Some j" "lg_FoldKey (?R ! j) = ?k" by blast
    have r: "bf_Ring ?b = ?R[j := ?upd (?R ! j)]" using j by (simp add: push_increment_def Let_def)
    have jM: "j < M" by (rule rd(9) [OF j(1)])
    then have "j < ?L" using rd(8) [of j] j(2) k by (cases "?L \<le> j") auto
    then obtain i where i: "i < ?L" "?L \<le> i + M" "i mod M = j" by (rule window_cover [OF jM])
    have ik: "lg_FoldKey (hist ! i) = ?k" "?R ! j = hist ! i" using rd(6) [OF i(1,2)] i(3) j(2) by simp_all
    have "bf_Ring ?b ! (i' mod M) = ?f (hist ! i')" if i': "i' < ?L" "?L \<le> i' + M" for i'
    proof (cases "i' = i")
      case True
      with ik i(3) r jM rd(3) show ?thesis by simp
    next
      case False
      then have "i' mod M \<noteq> j" using window_inj [OF i(1) i'(1) i(2) i'(2)] i(3) by auto
      moreover have "lg_FoldKey (hist ! i') \<noteq> ?k" using distinct_keys [OF keys i(1) i'(1)] ik(1) False by auto
      ultimately show ?thesis using rd(6) [OF i'] r by simp
    qed
    moreover have "lg_FoldKey (bf_Ring ?b ! j') = []" if "j' < M" "?L \<le> j'" for j'
      using rd(8) [OF that] r \<open>j < ?L\<close> that by (cases "j' = j") simp_all
    ultimately show ?thesis
      using rd(1,3,7,9) fields r unfolding ring_shows_def by (simp add: same)
  next
    case False
    then have r: "bf_Ring ?b = ?R" by (auto simp: push_increment_def Let_def split: option.split)
    have "?R ! (i mod M) = ?f (hist ! i)" if i: "i < ?L" "?L \<le> i + M" for i
    proof -
      have "lg_FoldKey (hist ! i) \<noteq> ?k" using rd(6,7) [OF i] False by auto
      then show ?thesis using rd(6) [OF i] by simp
    qed
    then show ?thesis
      using rd(1,3,7,8,9) fields r unfolding ring_shows_def by (simp add: same)
  qed
qed

text \<open>Reading: the rows asked for are the latest ones.\<close>

lemma ring_recent:
  assumes ring: "ring_shows M b hist"
  shows "Recent n b = keep_last (min n M) hist"
proof -
  note rd = ringD [OF ring]
  let ?L = "length hist"
  let ?n = "min n (min ?L M)"
  have len: "length (Recent n b) = ?n" using rd(2,4) by (simp add: Recent_def Let_def)
  have start: "(((?L mod M + M - ?n) mod M) + i) mod M = (?L - ?n + i) mod M" for i
  proof -
    have "?L mod M + M - ?n = ?L mod M + (M - ?n)" by simp
    then have "((?L mod M + M - ?n) mod M + i) mod M = (?L + (M - ?n) + i) mod M"
      by (metis mod_add_left_eq)
    also have "?L + (M - ?n) + i = (?L - ?n + i) + M" by auto
    finally show ?thesis by (simp only: mod_add_self2)
  qed
  show ?thesis
  proof (rule nth_equalityI)
    show "length (Recent n b) = length (keep_last (min n M) hist)" using len by (simp add: keep_last_def min_def)
  next
    fix i assume "i < length (Recent n b)"
    then have i: "i < ?n" using len by simp
    have "Recent n b ! i = bf_Ring b ! ((?L - ?n + i) mod M)"
      using i rd(2,4,5) start [of i] by (simp add: Recent_def Let_def)
    also have "\<dots> = hist ! (?L - ?n + i)" by (rule rd(6)) (use i in auto)
    also have "\<dots> = keep_last (min n M) hist ! i" using i by (auto simp: keep_last_def min_def)
    finally show "Recent n b ! i = keep_last (min n M) hist ! i" .
  qed
qed

section \<open>Subscribers\<close>

text \<open>Each subscriber has an open channel of its own.\<close>

definition channels_open :: "Buffer \<Rightarrow> bool" where
  "channels_open b \<longleftrightarrow>
     (\<forall>sid a. bf_Subs b sid = Some a \<longrightarrow> a < length (bf_Chans b) \<and> \<not> ch_Closed (bf_Chans b ! a)) \<and>
     (\<forall>sid sid' a. bf_Subs b sid = Some a \<longrightarrow> bf_Subs b sid' = Some a \<longrightarrow> sid = sid')"

lemma send_open:
  assumes "\<not> ch_Closed ch"
  obtains ch' where "send e ch = Some ch'" "\<not> ch_Closed ch'"
  using assms by (cases "length (ch_Queue ch) < 64") (auto simp: send_def)

lemma send_all_open:
  "(\<And>a. a \<in> set as \<Longrightarrow> a < length (bf_Chans b) \<and> \<not> ch_Closed (bf_Chans b ! a)) \<Longrightarrow>
     \<exists>cs. send_all e as b = Some (b\<lparr>bf_Chans := cs\<rparr>) \<and> length cs = length (bf_Chans b) \<and>
       (\<forall>a < length cs. ch_Closed (cs ! a) = ch_Closed (bf_Chans b ! a))"
proof (induction as arbitrary: b)
  case Nil
  show ?case by (intro exI [of _ "bf_Chans b"]) simp
next
  case (Cons a as)
  from Cons.prems [of a] have a: "a < length (bf_Chans b)" "\<not> ch_Closed (bf_Chans b ! a)" by simp_all
  from a(2) obtain ch where ch: "send e (bf_Chans b ! a) = Some ch" "\<not> ch_Closed ch" by (rule send_open)
  let ?b = "b\<lparr>bf_Chans := (bf_Chans b)[a := ch]\<rparr>"
  have closed: "ch_Closed (bf_Chans ?b ! x) = ch_Closed (bf_Chans b ! x)" if "x < length (bf_Chans b)" for x
    using a ch(2) that by (cases "x = a") simp_all
  have "x < length (bf_Chans ?b) \<and> \<not> ch_Closed (bf_Chans ?b ! x)" if "x \<in> set as" for x
    using Cons.prems [of x] closed [of x] that by simp
  from Cons.IH [OF this] obtain cs where
    "send_all e as ?b = Some (?b\<lparr>bf_Chans := cs\<rparr>)" "length cs = length (bf_Chans ?b)"
    "\<forall>x < length cs. ch_Closed (cs ! x) = ch_Closed (bf_Chans ?b ! x)" by blast
  with ch closed show ?case by (intro exI [of _ cs]) simp
qed

lemma subscribers_set: "a \<in> set (subscribers su b) \<longleftrightarrow> (\<exists>sid \<in> set su. bf_Subs b sid = Some a)"
  by (induction su) (auto simp: subscribers_def map_filter_simps split: option.split)

section \<open>The refinement\<close>

definition shows_log :: "nat \<Rightarrow> string \<Rightarrow> Buffer \<Rightarrow> foldTracker \<times> LogEntry list \<Rightarrow> bool" where
  "shows_log M nodeID b = (\<lambda>(t, hist). bf_Fold b = t \<and> bf_NodeID b = nodeID \<and> ring_shows M b hist \<and> keyed t hist \<and>
     channels_open b \<and> (\<forall>d lane. ft_Lanes t d = Some lane \<longrightarrow> fl_FoldKey lane \<in> lg_FoldKey ` set hist))"

lemma ring_frame:
  assumes "ring_shows M b hist" "bf_Ring b' = bf_Ring b" "bf_Head b' = bf_Head b" "bf_Count b' = bf_Count b"
    "bf_MaxSize b' = bf_MaxSize b" "bf_FoldPos b' = bf_FoldPos b"
  shows "ring_shows M b' hist"
  using assms by (simp add: ring_shows_def)

lemma channels_frame:
  "channels_open b \<Longrightarrow> bf_Subs b' = bf_Subs b \<Longrightarrow> bf_Chans b' = bf_Chans b \<Longrightarrow> channels_open b'"
  by (simp add: channels_open_def)

lemma push_fields [simp]:
  "bf_Fold (push_row row b) = bf_Fold b" "bf_NodeID (push_row row b) = bf_NodeID b"
  "bf_Subs (push_row row b) = bf_Subs b" "bf_Chans (push_row row b) = bf_Chans b"
  "bf_Fold (push_increment rep inc b) = bf_Fold b" "bf_NodeID (push_increment rep inc b) = bf_NodeID b"
  "bf_Subs (push_increment rep inc b) = bf_Subs b" "bf_Chans (push_increment rep inc b) = bf_Chans b"
  by (simp_all add: push_row_def push_increment_def Let_def split: option.split)

lemma absorb_fields [simp]:
  "fl_FoldKey (absorb e lane) = fl_FoldKey lane" "lg_Timestamp (fl_Rep (absorb e lane)) = lg_Timestamp e"
  "fl_RepeatCount (absorb e lane) = fl_RepeatCount lane + 1"
  by (simp_all add: absorb_def Let_def)

lemma append_shows:
  assumes s: "shows_log M nodeID b (t, hist)" and a: "append_locked e0 b = (pushed, b')"
  shows "shows_log M nodeID b' (shown_line nodeID e0 (t, hist)) \<and> bf_Subs b' = bf_Subs b \<and> bf_Chans b' = bf_Chans b"
proof -
  from s have t: "bf_Fold b = t" "bf_NodeID b = nodeID" and ring: "ring_shows M b hist" and keyed: "keyed t hist"
    and open': "channels_open b" and lanes: "\<And>d lane. ft_Lanes t d = Some lane \<Longrightarrow> fl_FoldKey lane \<in> lg_FoldKey ` set hist"
    unfolding shows_log_def by auto
  let ?e = "stamp b e0"
  have e: "(if lg_SourceID e0 = [] \<and> nodeID \<noteq> [] then e0\<lparr>lg_SourceID := nodeID\<rparr> else e0) = ?e" using t by (simp add: stamp_def)
  have keys: "distinct (map lg_FoldKey hist)" using keyed by (simp add: keyed_def)
  show ?thesis
  proof (cases "folds ?e t")
    case None
    obtain row u where o: "observe ?e t = (Inl row, u)" using None by (simp add: observe_cases)
    have u: "ft_Lanes u = (ft_Lanes t)(lg_DeploymentID ?e \<mapsto> open_lane ?e row)" using o None by (auto simp: observe_cases)
    have k: "keyed u (hist @ [row])" by (rule conjunct1 [OF keyed_new [OF keyed o]])
    have b': "b' = push_row row (b\<lparr>bf_Fold := u\<rparr>)" using a o t by (auto simp: append_locked_def Let_def)
    have "ring_shows M b' (hist @ [row])"
      unfolding b'
    proof (rule ring_push)
      show "ring_shows M (b\<lparr>bf_Fold := u\<rparr>) hist" by (rule ring_frame [OF ring]) simp_all
    qed (use k keyed_nonempty [OF keyed] in \<open>auto simp: keyed_def\<close>)
    moreover have "fl_FoldKey lane \<in> lg_FoldKey ` set (hist @ [row])" if "ft_Lanes u d = Some lane" for d lane
      using that lanes u by (cases "d = lg_DeploymentID ?e") (auto simp: open_lane_def)
    ultimately show ?thesis
      using o k t channels_frame [OF open', of b'] unfolding shown_line_def shows_log_def by (simp add: e b' Let_def)
  next
    case (Some lane)
    let ?inc = "\<lparr>fi_DeploymentID = lg_DeploymentID ?e, fi_FoldKey = fl_FoldKey lane, fi_RepeatCount = fl_RepeatCount lane + 1\<rparr>"
    let ?u = "t\<lparr>ft_Lanes := (ft_Lanes t)(lg_DeploymentID ?e \<mapsto> absorb ?e lane)\<rparr>"
    have o: "observe ?e t = (Inr ?inc, ?u)" using Some by (simp add: observe_cases)
    have there: "ft_Lanes t (lg_DeploymentID ?e) = Some lane" using Some by (auto simp: folds_def split: option.splits if_splits)
    have b': "b' = push_increment (fl_Rep (absorb ?e lane)) ?inc (b\<lparr>bf_Fold := ?u\<rparr>)"
      using a o t by (simp add: append_locked_def Let_def)
    let ?hist = "map (\<lambda>r. if lg_FoldKey r = fi_FoldKey ?inc then recount_entry (fi_RepeatCount ?inc) (lg_Timestamp (fl_Rep (absorb ?e lane))) r else r) hist"
    have "ring_shows M b' ?hist"
      unfolding b'
    proof (rule ring_increment)
      show "ring_shows M (b\<lparr>bf_Fold := ?u\<rparr>) hist" by (rule ring_frame [OF ring]) simp_all
      from lanes [OF there] obtain r where "r \<in> set hist" "fl_FoldKey lane = lg_FoldKey r" by (elim imageE)
      with keyed_nonempty [OF keyed] show "fi_FoldKey ?inc \<noteq> []" by simp
    qed (rule keys)
    moreover have same: "map lg_FoldKey ?hist = map lg_FoldKey hist" by (simp add: recount_entry_def)
    moreover have "keyed ?u ?hist" by (rule keyed_map [OF keyed same]) simp_all
    moreover have "fl_FoldKey l \<in> lg_FoldKey ` set ?hist" if l: "ft_Lanes ?u d = Some l" for d l
    proof -
      have "\<exists>d' l'. ft_Lanes t d' = Some l' \<and> fl_FoldKey l' = fl_FoldKey l"
      proof (cases "d = lg_DeploymentID ?e")
        case True
        with l there show ?thesis by (intro exI [of _ d] exI [of _ lane]) auto
      next
        case False
        with l show ?thesis by (intro exI [of _ d] exI [of _ l]) simp
      qed
      then have "fl_FoldKey l \<in> lg_FoldKey ` set hist" using lanes by metis
      then show ?thesis using same by (metis set_map)
    qed
    moreover have "shown_line nodeID e0 (t, hist) = (?u, ?hist)"
      using o by (simp add: shown_line_def e Let_def cong: if_cong)
    moreover have "bf_Fold b' = ?u" "bf_NodeID b' = nodeID" "bf_Subs b' = bf_Subs b" "bf_Chans b' = bf_Chans b"
      using t by (simp_all add: b')
    ultimately show ?thesis using channels_frame [OF open', of b'] unfolding shows_log_def by simp
  qed
qed


lemma step_shows:
  assumes s: "shows_log M nodeID b sp"
  shows "\<exists>b' rows'. log_step v (b, rows) = Some (b', rows') \<and> shows_log M nodeID b' (shown_step nodeID v sp)"
proof -
  obtain t hist where sp: "sp = (t, hist)" by fastforce
  from s have fields: "bf_Fold b = t" "bf_NodeID b = nodeID" and ring: "ring_shows M b hist" and keyed: "keyed t hist"
    and chans: "channels_open b" and lanes: "\<And>d lane. ft_Lanes t d = Some lane \<Longrightarrow> fl_FoldKey lane \<in> lg_FoldKey ` set hist"
    unfolding shows_log_def sp by auto
  have frame: "shows_log M nodeID (c\<lparr>bf_Pending := p\<rparr>) x \<longleftrightarrow> shows_log M nodeID c x" for c p x
    by (simp add: shows_log_def ring_shows_def channels_open_def split_beta)
  have flushed: "shows_log M nodeID (fst (flush ok (c, r))) x \<longleftrightarrow> shows_log M nodeID c x" for ok c r x
    by (simp add: flush_def frame)
  show ?thesis
  proof (cases v)
    case (Line ok su e)
    obtain pushed b1 where a: "append_locked e b = (pushed, b1)" by fastforce
    from append_shows [OF s [unfolded sp] a] have b1: "shows_log M nodeID b1 (shown_step nodeID v sp)"
      "bf_Subs b1 = bf_Subs b" "bf_Chans b1 = bf_Chans b" by (simp_all add: Line sp)
    have "bf_Head b < length (bf_Ring b)" using ringD(1,3,5) [OF ring] by simp
    then have "\<not> row_panics e b" by (simp add: row_panics_def)
    have "x < length (bf_Chans b1) \<and> \<not> ch_Closed (bf_Chans b1 ! x)" if "x \<in> set (subscribers su b1)" for x
      using that chans b1(2,3) unfolding subscribers_set channels_open_def by auto
    from send_all_open [OF this] obtain cs where
      cs: "send_all pushed (subscribers su b1) b1 = Some (b1\<lparr>bf_Chans := cs\<rparr>)" "length cs = length (bf_Chans b1)"
      "\<forall>x < length cs. ch_Closed (cs ! x) = ch_Closed (bf_Chans b1 ! x)" by blast
    let ?b2 = "b1\<lparr>bf_Chans := cs\<rparr>"
    have "channels_open ?b2" using b1(1) cs(2,3) unfolding shows_log_def channels_open_def split_beta by auto
    then have "shows_log M nodeID ?b2 (shown_step nodeID v sp)"
      using b1(1) unfolding shows_log_def split_beta by (auto intro: ring_frame)
    then have fl: "shows_log M nodeID (fst (flush ok (?b2, rows))) (shown_step nodeID v sp)"
      by (rule iffD2 [OF flushed])
    have "log_step v (b, rows) = Some (if flushBatch \<le> length (bf_Pending b1) then flush ok (?b2, rows) else (?b2, rows))"
      using \<open>\<not> row_panics e b\<close> a cs(1) by (simp add: Line Append_def)
    with fl \<open>shows_log M nodeID ?b2 (shown_step nodeID v sp)\<close> show ?thesis
      by (cases "flushBatch \<le> length (bf_Pending b1)") (auto intro!: exI prod.collapse [symmetric])
  next
    case (Tick ok now ks)
    obtain closed u where w: "sweep now ks t = (closed, u)" by fastforce
    then obtain lanes' where u: "u = t\<lparr>ft_Lanes := lanes'\<rparr>"
      "close_lanes (\<lambda>lane. ft_Window t \<le> time_sub now (fl_LastSeen lane)) ks (ft_Lanes t) = (closed, lanes')"
      by (auto simp: sweep_def split: prod.splits)
    have "keyed u hist" by (rule keyed_later [OF keyed]) (simp_all add: u(1))
    moreover have "fl_FoldKey lane \<in> lg_FoldKey ` set hist" if "ft_Lanes u d = Some lane" for d lane
    proof -
      have "lanes' d = Some lane" using that u(1) by simp
      then have "ft_Lanes t d = Some lane" by (rule close_lanes_rows [OF u(2), THEN conjunct2, rule_format])
      then show ?thesis by (rule lanes)
    qed
    moreover have "ring_shows M (b\<lparr>bf_Fold := u\<rparr>) hist" by (rule ring_frame [OF ring]) simp_all
    moreover have "channels_open (b\<lparr>bf_Fold := u\<rparr>)" by (rule channels_frame [OF chans]) simp_all
    ultimately have "shows_log M nodeID (b\<lparr>bf_Fold := u\<rparr>) (u, hist)" using fields by (simp add: shows_log_def)
    then have "shows_log M nodeID (sweepFolds now ks b) (u, hist)"
      using fields w by (simp add: sweepFolds_def enqueue_closed_def frame)
    with w show ?thesis using flushed [of ok "sweepFolds now ks b" rows] unfolding Tick sp
      by (auto intro!: exI prod.collapse [symmetric])
  next
    case (Window d)
    have "keyed (t\<lparr>ft_Window := d\<rparr>) hist" by (rule keyed_later [OF keyed]) simp_all
    moreover have "ring_shows M (SetFoldWindow d b) hist" "channels_open (SetFoldWindow d b)"
      by (rule ring_frame [OF ring], simp_all add: SetFoldWindow_def) (rule channels_frame [OF chans], simp_all)
    ultimately show ?thesis using fields lanes unfolding Window sp by (simp add: shows_log_def SetFoldWindow_def)
  next
    case (Join sid)
    have "ring_shows M (snd (Subscribe sid b)) hist" by (rule ring_frame [OF ring]) (simp_all add: Subscribe_def)
    moreover have "channels_open (snd (Subscribe sid b))"
      using chans unfolding channels_open_def Subscribe_def
      by (simp add: nth_append) (metis less_irrefl less_SucI)
    ultimately show ?thesis using fields keyed lanes unfolding Join sp by (simp add: shows_log_def Subscribe_def)
  next
    case (Leave sid)
    have "ring_shows M (Unsubscribe sid b) hist"
      by (rule ring_frame [OF ring]) (simp_all add: Unsubscribe_def split: option.split)
    moreover have "channels_open (Unsubscribe sid b)"
    proof (cases "bf_Subs b sid")
      case (Some a)
      have other: "a' \<noteq> a" if "bf_Subs b sid' = Some a'" "sid' \<noteq> sid" for sid' a'
        using chans Some that unfolding channels_open_def by metis
      with chans Some show ?thesis unfolding channels_open_def
        by (auto simp: Unsubscribe_def nth_list_update split: if_splits dest: other)
    qed (use chans in \<open>simp add: Unsubscribe_def\<close>)
    ultimately show ?thesis using fields keyed lanes unfolding Leave sp
      by (auto simp: shows_log_def Unsubscribe_def split: option.split)
  qed
qed

lemma run_shows:
  "shows_log M nodeID b sp \<Longrightarrow>
     \<exists>b' rows'. log_run vs (b, rows) = Some (b', rows') \<and> shows_log M nodeID b' (foldl (\<lambda>s v. shown_step nodeID v s) sp vs)"
proof (induction vs arbitrary: b rows sp)
  case (Cons v vs)
  from step_shows [OF Cons.prems, of v rows] obtain b1 rows1 where
    s: "log_step v (b, rows) = Some (b1, rows1)" "shows_log M nodeID b1 (shown_step nodeID v sp)" by blast
  from Cons.IH [OF s(2), of rows1] s(1) show ?case by simp
qed simp

lemma new_shows:
  "0 < M \<Longrightarrow> shows_log M nodeID (New M nodeID wm ks ep) (newFoldTracker defaultFoldWindow wm ks ep, [])"
  using ring_new [of M nodeID wm ks ep]
  by (simp add: shows_log_def keyed_def channels_open_def) (simp add: New_def newFoldTracker_def)

end
