(* ===== verification/LogBooks.thy ===== *)
theory LogBooks
  imports LogBuffer
begin

text \<open>
  The bookkeeping of folded lines: what the batches of a buffer write to the table counts every line. The
  proof follows the table as it will be when the pending batch is written.
\<close>

section \<open>Counting\<close>

definition lines_of :: "string \<Rightarrow> log_row list \<Rightarrow> nat" where
  "lines_of d rows = sum_list (map (\<lambda>r. if lr_DeploymentID r = d then lr_RepeatCount r else 0) rows)"

definition seqs_of :: "string \<Rightarrow> log_row list \<Rightarrow> nat option list" where
  "seqs_of d rows = map lr_Seq (filter (\<lambda>r. lr_DeploymentID r = d) rows)"

definition is_line :: "string \<Rightarrow> log_event \<Rightarrow> bool" where
  "is_line d v = (case v of Line ok su e \<Rightarrow> lg_DeploymentID e = d | _ \<Rightarrow> False)"

definition count_lines :: "string \<Rightarrow> log_event list \<Rightarrow> nat" where
  "count_lines d vs = length (filter (is_line d) vs)"

lemma sum_update:
  fixes g :: "'a \<Rightarrow> nat"
  assumes "distinct (map key xs)" "x \<in> set xs" "\<And>y. key (h y) = key y"
  shows "sum_list (map g (map (\<lambda>y. if key y = key x then h y else y) xs)) + g x = sum_list (map g xs) + g (h x)"
  using assms
proof (induction xs)
  case (Cons y ys)
  show ?case
  proof (cases "x = y")
    case True
    have "map (\<lambda>z. if key z = key x then h z else z) ys = ys"
      using Cons.prems(1) True by (intro map_idI) (auto simp: image_iff)
    then have "map g (map (\<lambda>z. if key z = key x then h z else z) ys) = map g ys" by (simp only:)
    with True show ?thesis by (simp del: map_map)
  next
    case False
    then have x: "x \<in> set ys" "key y \<noteq> key x" using Cons.prems by (auto simp: image_iff)
    from Cons.IH [OF _ x(1)] Cons.prems x(2) show ?thesis by simp
  qed
qed simp

definition recounted :: "log_row \<Rightarrow> log_row list \<Rightarrow> log_row list" where
  "recounted r rows = map (\<lambda>q. if lr_FoldKey q = lr_FoldKey r then recount r q else q) rows"

lemma recount_fields [simp]:
  "lr_FoldKey (recount r q) = lr_FoldKey q" "lr_DeploymentID (recount r q) = lr_DeploymentID q"
  "lr_RunID (recount r q) = lr_RunID q" "lr_Seq (recount r q) = lr_Seq q"
  "lr_RepeatCount (recount r q) = lr_RepeatCount r"
  by (simp_all add: recount_def)

lemma recounted_fields:
  "map lr_FoldKey (recounted r rows) = map lr_FoldKey rows"
  "map lr_DeploymentID (recounted r rows) = map lr_DeploymentID rows"
  "seqs_of d (recounted r rows) = seqs_of d rows"
  by (induction rows) (simp_all add: recounted_def seqs_of_def)

lemma lines_recounted:
  assumes "distinct (map lr_FoldKey rows)" "q \<in> set rows" "lr_FoldKey q = lr_FoldKey r"
  shows "lines_of d (recounted r rows) + (if lr_DeploymentID q = d then lr_RepeatCount q else 0) =
    lines_of d rows + (if lr_DeploymentID q = d then lr_RepeatCount r else 0)"
  using sum_update [of lr_FoldKey rows q "recount r" "\<lambda>x. if lr_DeploymentID x = d then lr_RepeatCount x else 0"] assms
  unfolding lines_of_def recounted_def by simp

section \<open>What the table keeps\<close>

text \<open>\<open>f\<close> is the run of a deployment; \<open>ks\<close> the fold keys drawn before the buffer was made.\<close>

definition lane_row :: "(string \<Rightarrow> string) \<Rightarrow> string \<Rightarrow> foldLane \<Rightarrow> log_row list \<Rightarrow> bool" where
  "lane_row f d lane rows \<longleftrightarrow>
     lg_DeploymentID (fl_Rep lane) = d \<and> lg_RunID (fl_Rep lane) = f d \<and> lg_FoldKey (fl_Rep lane) = fl_FoldKey lane \<and>
     lg_RepeatCount (fl_Rep lane) = fl_RepeatCount lane \<and> 0 < fl_RepeatCount lane \<and>
     (\<exists>r \<in> set rows. lr_DeploymentID r = d \<and> lr_FoldKey r = fl_FoldKey lane \<and> lr_RepeatCount r = fl_RepeatCount lane)"

definition tracked :: "(string \<Rightarrow> string) \<Rightarrow> nat \<Rightarrow> log_row list \<Rightarrow> foldTracker \<Rightarrow> log_row list \<Rightarrow> bool" where
  "tracked f ks base t rows \<longleftrightarrow> ks \<le> ft_KeySeq t \<and> distinct (map lr_FoldKey rows) \<and>
     (\<forall>r \<in> set rows. lr_RunID r = f (lr_DeploymentID r) \<and>
        (\<exists>m q. ks < m \<and> m \<le> ft_KeySeq t \<and> lr_FoldKey r = nextFoldKey (ft_Epoch t) m q)) \<and>
     (\<forall>r \<in> set (base @ rows). \<forall>n. lr_Seq r = Some n \<longrightarrow> n \<le> ft_Watermarks t (lr_DeploymentID r)) \<and>
     (\<forall>r \<in> set base. \<forall>m q. ks < m \<longrightarrow> lr_FoldKey r \<noteq> nextFoldKey (ft_Epoch t) m q) \<and>
     (\<forall>d lane. ft_Lanes t d = Some lane \<longrightarrow> lane_row f d lane rows)"

lemma trackedD:
  assumes "tracked f ks base t rows"
  shows "ks \<le> ft_KeySeq t" "distinct (map lr_FoldKey rows)"
    "\<And>r. r \<in> set rows \<Longrightarrow> lr_RunID r = f (lr_DeploymentID r)"
    "\<And>r. r \<in> set rows \<Longrightarrow> \<exists>m q. ks < m \<and> m \<le> ft_KeySeq t \<and> lr_FoldKey r = nextFoldKey (ft_Epoch t) m q"
    "\<And>r n. r \<in> set base \<or> r \<in> set rows \<Longrightarrow> lr_Seq r = Some n \<Longrightarrow> n \<le> ft_Watermarks t (lr_DeploymentID r)"
    "\<And>r m q. r \<in> set base \<Longrightarrow> ks < m \<Longrightarrow> lr_FoldKey r \<noteq> nextFoldKey (ft_Epoch t) m q"
    "\<And>d lane. ft_Lanes t d = Some lane \<Longrightarrow> lane_row f d lane rows"
  using assms unfolding tracked_def set_append by blast+

lemma same_key_same_row:
  "distinct (map lr_FoldKey rows) \<Longrightarrow> r \<in> set rows \<Longrightarrow> q \<in> set rows \<Longrightarrow> lr_FoldKey r = lr_FoldKey q \<Longrightarrow> r = q"
  by (simp add: distinct_map inj_on_def)

text \<open>A write for a row of the table only recounts that row.\<close>

lemma upsert_hit:
  assumes t: "tracked f ks base t rows" and q: "q \<in> set rows" "lr_FoldKey q = lr_FoldKey r"
    "lr_RunID r = f (lr_DeploymentID q)"
  shows "upsert r (base @ rows) = Some (base @ recounted r rows)"
proof -
  note td = trackedD [OF t]
  obtain m p where m: "ks < m" "lr_FoldKey q = nextFoldKey (ft_Epoch t) m p" using td(4) [OF q(1)] by blast
  have key: "lr_FoldKey r \<noteq> []" using m(2) q(2) nextFoldKey_nonempty by metis
  have outside: "\<not> same_fold r x" if "x \<in> set base" for x
    using td(6) [OF that m(1), of p] m(2) q(2) by (simp add: same_fold_def)
  have inside: "same_fold r x \<longleftrightarrow> lr_FoldKey x = lr_FoldKey r" if x: "x \<in> set rows" for x
  proof
    assume k: "lr_FoldKey x = lr_FoldKey r"
    then have "x = q" using same_key_same_row [OF td(2) x q(1)] q(2) by simp
    with k key q(3) td(3) [OF q(1)] show "same_fold r x" by (simp add: same_fold_def)
  qed (simp add: same_fold_def)
  have "list_ex (same_fold r) (base @ rows)" using inside [OF q(1)] q by (auto simp: list_ex_iff)
  moreover have "map (\<lambda>x. if same_fold r x then recount r x else x) base = base"
    using outside by (intro map_idI) simp
  moreover have "map (\<lambda>x. if same_fold r x then recount r x else x) rows = recounted r rows"
    unfolding recounted_def using inside by (intro map_cong) auto
  ultimately show ?thesis by (simp add: upsert_def)
qed

lemma tracked_recounted:
  assumes t: "tracked f ks base t rows" and q: "q \<in> set rows" "lr_FoldKey q = lr_FoldKey r"
    and lanes: "\<And>d lane. ft_Lanes u d = Some lane \<Longrightarrow> lane_row f d lane (recounted r rows)"
    and u: "ft_KeySeq u = ft_KeySeq t" "ft_Epoch u = ft_Epoch t" "ft_Watermarks u = ft_Watermarks t"
  shows "tracked f ks base u (recounted r rows)"
proof -
  note td = trackedD [OF t]
  have from': "\<exists>y \<in> set rows. lr_FoldKey x = lr_FoldKey y \<and> lr_DeploymentID x = lr_DeploymentID y \<and>
      lr_RunID x = lr_RunID y \<and> lr_Seq x = lr_Seq y" if "x \<in> set (recounted r rows)" for x
  proof -
    from that obtain y where y: "y \<in> set rows" "x = (if lr_FoldKey y = lr_FoldKey r then recount r y else y)"
      unfolding recounted_def by auto
    show ?thesis by (rule bexI [OF _ y(1)]) (simp add: y(2))
  qed
  show ?thesis
    unfolding tracked_def
  proof (intro conjI ballI allI impI)
    show "ks \<le> ft_KeySeq u" using td(1) u by simp
    show "distinct (map lr_FoldKey (recounted r rows))" using td(2) by (simp add: recounted_fields)
  next
    fix x assume "x \<in> set (recounted r rows)"
    from from' [OF this] show "lr_RunID x = f (lr_DeploymentID x)" using td(3) by metis
  next
    fix x assume "x \<in> set (recounted r rows)"
    from from' [OF this] show "\<exists>m q. ks < m \<and> m \<le> ft_KeySeq u \<and> lr_FoldKey x = nextFoldKey (ft_Epoch u) m q"
      using td(4) u by metis
  next
    fix x n assume x: "x \<in> set (base @ recounted r rows)" "lr_Seq x = Some n"
    show "n \<le> ft_Watermarks u (lr_DeploymentID x)"
    proof (cases "x \<in> set base")
      case True
      with td(5) x(2) u(3) show ?thesis by simp
    next
      case False
      with x(1) have "x \<in> set (recounted r rows)" by simp
      from from' [OF this] show ?thesis using td(5) x(2) u(3) by metis
    qed
  next
    fix x m q' assume "x \<in> set base" "ks < m"
    then show "lr_FoldKey x \<noteq> nextFoldKey (ft_Epoch u) m q'" using td(6) u(2) by simp
  next
    fix d lane assume "ft_Lanes u d = Some lane"
    then show "lane_row f d lane (recounted r rows)" by (rule lanes)
  qed
qed

text \<open>A new row is added, behind all others.\<close>

lemma upsert_new:
  "list_all (\<lambda>q. \<not> same_fold r q \<and> \<not> same_seq r q) rows \<Longrightarrow> upsert r rows = Some (rows @ [r])"
  by (auto simp: upsert_def list_all_iff list_ex_iff)

lemma open_row_fields [simp]:
  "lg_DeploymentID (open_row e t) = lg_DeploymentID e" "lg_RunID (open_row e t) = lg_RunID e"
  "lg_FoldKey (open_row e t) = nextFoldKey (ft_Epoch t) (ft_KeySeq t + 1) (lg_RunID e)"
  "lg_Seq (open_row e t) = ft_Watermarks t (lg_DeploymentID e) + 1" "lg_RepeatCount (open_row e t) = 1"
  by (simp_all add: open_row_def)

lemma row_of_entry_fields [simp]:
  "lr_DeploymentID (row_of_entry e) = lg_DeploymentID e" "lr_RunID (row_of_entry e) = lg_RunID e"
  "lr_FoldKey (row_of_entry e) = lg_FoldKey e" "lr_Seq (row_of_entry e) = nullableSeq (lg_Seq e)"
  "lr_RepeatCount (row_of_entry e) = (if lg_RepeatCount e = 0 then 1 else lg_RepeatCount e)"
  by (simp_all add: row_of_entry_def)

lemma lane_row_more: "lane_row f d lane rows \<Longrightarrow> lane_row f d lane (rows @ qs)"
  by (auto simp: lane_row_def)

lemma opened:
  assumes t: "tracked f ks base t rows" and o: "observe e t = (Inl row, u)" and run: "lg_RunID e = f (lg_DeploymentID e)"
  shows "upsert (row_of_entry row) (base @ rows) = Some (base @ rows @ [row_of_entry row])"
    "tracked f ks base u (rows @ [row_of_entry row])"
    "ft_Watermarks u = (ft_Watermarks t)(lg_DeploymentID e := ft_Watermarks t (lg_DeploymentID e) + 1)"
    "row = open_row e t"
proof -
  note td = trackedD [OF t]
  from o have none: "folds e t = None" and row: "row = open_row e t"
    and u: "u = t\<lparr>ft_Lanes := (ft_Lanes t)(lg_DeploymentID e \<mapsto> open_lane e row), ft_KeySeq := ft_KeySeq t + 1,
      ft_Watermarks := (ft_Watermarks t)(lg_DeploymentID e := lg_Seq row)\<rparr>"
    by (auto simp: observe_def Let_def split: option.splits)
  let ?r = "row_of_entry row" and ?d = "lg_DeploymentID e"
  have key: "lr_FoldKey ?r = nextFoldKey (ft_Epoch t) (Suc (ft_KeySeq t)) (lg_RunID e)" by (simp add: row)
  have fresh: "lr_FoldKey q \<noteq> lr_FoldKey ?r" if q: "q \<in> set base \<or> q \<in> set rows" for q
  proof (cases "q \<in> set rows")
    case True
    then obtain m p where "m \<le> ft_KeySeq t" "lr_FoldKey q = nextFoldKey (ft_Epoch t) m p" using td(4) by blast
    with key nextFoldKey_inj show ?thesis by (metis Suc_n_not_le_n)
  next
    case False
    with q td(6) [of q "Suc (ft_KeySeq t)"] td(1) key show ?thesis by simp
  qed
  have behind: "lr_Seq q \<noteq> lr_Seq ?r" if "q \<in> set base \<or> q \<in> set rows" "lr_DeploymentID q = ?d" for q
    using td(5) [OF that(1)] that(2) by (auto simp: row nullableSeq_def)
  have "list_all (\<lambda>q. \<not> same_fold ?r q \<and> \<not> same_seq ?r q) (base @ rows)"
    using fresh behind by (auto simp: list_all_iff same_fold_def same_seq_def row)
  then show "upsert ?r (base @ rows) = Some (base @ rows @ [?r])" using upsert_new by fastforce
  show "ft_Watermarks u = (ft_Watermarks t)(?d := ft_Watermarks t ?d + 1)" by (simp add: u row)
  show "row = open_row e t" by (rule row)
  show "tracked f ks base u (rows @ [?r])"
    unfolding tracked_def
  proof (intro conjI ballI allI impI)
    show "ks \<le> ft_KeySeq u" using td(1) u by simp
    have "lr_FoldKey ?r \<notin> lr_FoldKey ` set rows" using fresh by (metis imageE)
    with td(2) show "distinct (map lr_FoldKey (rows @ [?r]))" by simp
  next
    fix x assume "x \<in> set (rows @ [?r])"
    then show "lr_RunID x = f (lr_DeploymentID x)" using td(3) run by (auto simp: row)
  next
    fix x assume "x \<in> set (rows @ [?r])"
    then consider "x \<in> set rows" | "x = ?r" by auto
    then show "\<exists>m q. ks < m \<and> m \<le> ft_KeySeq u \<and> lr_FoldKey x = nextFoldKey (ft_Epoch u) m q"
    proof cases
      case 1
      from td(4) [OF this] obtain m q where "ks < m" "m \<le> ft_KeySeq t" "lr_FoldKey x = nextFoldKey (ft_Epoch t) m q" by blast
      then show ?thesis by (intro exI [of _ m] exI [of _ q]) (simp add: u)
    next
      case 2
      with key td(1) show ?thesis by (intro exI [of _ "Suc (ft_KeySeq t)"] exI [of _ "lg_RunID e"]) (simp add: u)
    qed
  next
    fix x n assume x: "x \<in> set (base @ rows @ [?r])" "lr_Seq x = Some n"
    then consider "x \<in> set base \<or> x \<in> set rows" | "x = ?r" by auto
    then show "n \<le> ft_Watermarks u (lr_DeploymentID x)"
    proof cases
      case 1
      from td(5) [OF this x(2)] show ?thesis by (auto simp: u row)
    next
      case 2
      with x(2) show ?thesis by (simp add: u row nullableSeq_def)
    qed
  next
    fix x m q assume "x \<in> set base" "ks < m"
    from td(6) [OF this] show "lr_FoldKey x \<noteq> nextFoldKey (ft_Epoch u) m q" by (simp add: u)
  next
    fix d lane assume l: "ft_Lanes u d = Some lane"
    show "lane_row f d lane (rows @ [?r])"
    proof (cases "d = ?d")
      case True
      with l have "lane = open_lane e row" by (simp add: u)
      with True run show ?thesis by (simp add: lane_row_def open_lane_def row)
    next
      case False
      with l td(7) show ?thesis by (intro lane_row_more) (simp add: u)
    qed
  qed
qed

text \<open>A write that repeats or raises the count of a lane's row.\<close>

lemma lane_row_other:
  assumes "distinct (map lr_FoldKey rows)" "lane_row f d lane rows" "q \<in> set rows" "lr_FoldKey q = lr_FoldKey r"
    "lr_DeploymentID q \<noteq> d \<or> lr_RepeatCount r = lr_RepeatCount q"
  shows "lane_row f d lane (recounted r rows)"
proof -
  from assms(2) obtain x where x: "x \<in> set rows" "lr_DeploymentID x = d" "lr_FoldKey x = fl_FoldKey lane"
    "lr_RepeatCount x = fl_RepeatCount lane" unfolding lane_row_def by blast
  let ?x = "if lr_FoldKey x = lr_FoldKey r then recount r x else x"
  have "?x \<in> set (recounted r rows)" using x(1) unfolding recounted_def by (simp only: set_map image_eqI)
  moreover have "lr_RepeatCount ?x = fl_RepeatCount lane"
    using same_key_same_row [OF assms(1) x(1) assms(3)] assms(4,5) x(2,4) by auto
  moreover have "lr_DeploymentID ?x = d" "lr_FoldKey ?x = fl_FoldKey lane" using x(2,3) by simp_all
  ultimately show ?thesis using assms(2) unfolding lane_row_def by blast
qed

lemma folded:
  assumes t: "tracked f ks base t rows" and f: "folds e t = Some lane" and run: "lg_RunID e = f (lg_DeploymentID e)"
  defines "rep \<equiv> fl_Rep (absorb e lane)"
  defines "u \<equiv> t\<lparr>ft_Lanes := (ft_Lanes t)(lg_DeploymentID e \<mapsto> absorb e lane)\<rparr>"
  shows "upsert (row_of_entry rep) (base @ rows) = Some (base @ recounted (row_of_entry rep) rows)"
    "tracked f ks base u (recounted (row_of_entry rep) rows)"
    "lines_of d (recounted (row_of_entry rep) rows) = lines_of d rows + (if lg_DeploymentID e = d then 1 else 0)"
proof -
  note td = trackedD [OF t]
  let ?d = "lg_DeploymentID e" and ?r = "row_of_entry rep"
  have lane: "ft_Lanes t ?d = Some lane" using f by (auto simp: folds_def split: option.splits if_splits)
  note lr = td(7) [OF lane]
  then obtain q where q: "q \<in> set rows" "lr_DeploymentID q = ?d" "lr_FoldKey q = fl_FoldKey lane"
    "lr_RepeatCount q = fl_RepeatCount lane" unfolding lane_row_def by blast
  have rep: "lg_DeploymentID rep = ?d" "lg_RunID rep = lg_RunID e" "lg_FoldKey rep = fl_FoldKey lane"
    "lg_RepeatCount rep = fl_RepeatCount lane + 1" by (simp_all add: rep_def absorb_def Let_def)
  have key: "lr_FoldKey q = lr_FoldKey ?r" using q(3) rep(3) by simp
  show "upsert ?r (base @ rows) = Some (base @ recounted ?r rows)"
    by (rule upsert_hit [OF t q(1) key]) (use run rep q(2) in simp)
  show "lines_of d (recounted ?r rows) = lines_of d rows + (if ?d = d then 1 else 0)"
    using lines_recounted [OF td(2) q(1) key, of d] q(2,4) rep(4) by (auto split: if_splits)
  show "tracked f ks base u (recounted ?r rows)"
  proof (rule tracked_recounted [OF t q(1) key])
    fix d' l assume l: "ft_Lanes u d' = Some l"
    show "lane_row f d' l (recounted ?r rows)"
    proof (cases "d' = ?d")
      case True
      with l have la: "l = absorb e lane" by (simp add: u_def)
      have "recount ?r q \<in> set (recounted ?r rows)" using q(1) key by (auto simp: recounted_def)
      then have "\<exists>x \<in> set (recounted ?r rows). lr_DeploymentID x = ?d \<and> lr_FoldKey x = fl_FoldKey l \<and> lr_RepeatCount x = fl_RepeatCount l"
        using q rep by (intro bexI [of _ "recount ?r q"]) (simp_all add: la absorb_def Let_def)
      with True run show ?thesis by (simp add: lane_row_def la absorb_def Let_def)
    next
      case False
      with l have "lane_row f d' l rows" using td(7) by (simp add: u_def)
      then show ?thesis by (rule lane_row_other [OF td(2) _ q(1) key]) (use False q(2) in simp)
    qed
  qed (simp_all add: u_def)
qed

lemma closed_rows:
  "(\<And>e. e \<in> set es \<Longrightarrow> \<exists>d lane. ft_Lanes t d = Some lane \<and> e = fl_Rep lane) \<Longrightarrow> tracked f ks base t rows \<Longrightarrow>
     \<exists>rows'. upserts es (base @ rows) = Some (base @ rows') \<and> tracked f ks base t rows' \<and>
       (\<forall>d. lines_of d rows' = lines_of d rows \<and> seqs_of d rows' = seqs_of d rows)"
proof (induction es arbitrary: rows)
  case (Cons e es)
  note td = trackedD [OF Cons.prems(2)]
  from Cons.prems(1) [of e] obtain d lane where l: "ft_Lanes t d = Some lane" "e = fl_Rep lane" by auto
  from td(7) [OF l(1)] obtain q where q: "q \<in> set rows" "lr_DeploymentID q = d" "lr_FoldKey q = fl_FoldKey lane"
    "lr_RepeatCount q = fl_RepeatCount lane" and e: "lg_DeploymentID e = d" "lg_RunID e = f d" "lg_FoldKey e = fl_FoldKey lane"
    "lg_RepeatCount e = fl_RepeatCount lane" "0 < fl_RepeatCount lane" unfolding lane_row_def l(2) by blast
  let ?r = "row_of_entry e"
  have key: "lr_FoldKey q = lr_FoldKey ?r" and same: "lr_RepeatCount ?r = lr_RepeatCount q" using q e by simp_all
  have up: "upsert ?r (base @ rows) = Some (base @ recounted ?r rows)"
    by (rule upsert_hit [OF Cons.prems(2) q(1) key]) (use q e in simp)
  have tr: "tracked f ks base t (recounted ?r rows)"
    by (rule tracked_recounted [OF Cons.prems(2) q(1) key]) (use lane_row_other [OF td(2) td(7) q(1) key] same in auto)
  have lines: "lines_of d' (recounted ?r rows) = lines_of d' rows" for d'
    using lines_recounted [OF td(2) q(1) key, of d'] same by (auto split: if_splits)
  from Cons.IH [OF _ tr] Cons.prems(1) obtain rows' where
    "upserts es (base @ recounted ?r rows) = Some (base @ rows')" "tracked f ks base t rows'"
    "\<forall>d. lines_of d rows' = lines_of d (recounted ?r rows) \<and> seqs_of d rows' = seqs_of d (recounted ?r rows)" by auto
  with up lines show ?case by (intro exI [of _ rows']) (simp add: recounted_fields)
qed (auto intro: exI)

lemma tracked_fewer_lanes:
  assumes "tracked f ks base t rows" "\<And>d lane. ft_Lanes u d = Some lane \<Longrightarrow> ft_Lanes t d = Some lane"
    "ft_KeySeq u = ft_KeySeq t" "ft_Epoch u = ft_Epoch t" "ft_Watermarks u = ft_Watermarks t"
  shows "tracked f ks base u rows"
  using assms(1,2) unfolding tracked_def assms(3-5) by (meson)

section \<open>The books of a run\<close>

text \<open>
  What the table will be when the pending batch is written: the rows of before and one row per segment,
  whose counts add up to the lines and whose numbers follow the watermark without a gap.
\<close>

definition books ::
  "(string \<Rightarrow> string) \<Rightarrow> nat \<Rightarrow> log_row list \<Rightarrow> (string \<Rightarrow> nat) \<Rightarrow> (string \<Rightarrow> nat) \<Rightarrow> Buffer \<times> log_row list \<Rightarrow> log_row list \<Rightarrow> bool" where
  "books f ks base wm cnt s rows \<longleftrightarrow>
     upserts (bf_Pending (fst s)) (snd s) = Some (base @ rows) \<and> tracked f ks base (bf_Fold (fst s)) rows \<and>
     (\<forall>d. lines_of d rows = cnt d \<and> wm d \<le> ft_Watermarks (bf_Fold (fst s)) d \<and>
        seqs_of d rows = map Some [wm d + 1..<ft_Watermarks (bf_Fold (fst s)) d + 1])"

definition regular :: "(string \<Rightarrow> string) \<Rightarrow> log_event \<Rightarrow> bool" where
  "regular f v = (case v of
     Line ok su e \<Rightarrow> ok \<and> lg_RunID e = f (lg_DeploymentID e)
   | Tick ok now ks \<Rightarrow> ok
   | _ \<Rightarrow> True)"

lemma books_flush:
  assumes "books f ks base wm cnt s rows"
  shows "books f ks base wm cnt (flush True s) rows \<and> snd (flush True s) = base @ rows"
  using assms by (cases s) (auto simp: books_def flush_def AppendBatch_def)

lemma books_frame:
  "books f ks base wm cnt (b, tab) rows \<Longrightarrow> bf_Pending b' = bf_Pending b \<Longrightarrow> bf_Fold b' = bf_Fold b \<Longrightarrow>
     books f ks base wm cnt (b', tab) rows"
  by (simp add: books_def)

lemma push_pending [simp]:
  "bf_Pending (push_row row b) = bf_Pending b @ [row]" "bf_Fold (push_row row b) = bf_Fold b"
  "bf_Pending (push_increment rep inc b) = bf_Pending b @ [rep]" "bf_Fold (push_increment rep inc b) = bf_Fold b"
  by (simp_all add: push_row_def push_increment_def Let_def split: option.split)

lemma stamp_fields [simp]: "lg_DeploymentID (stamp b e) = lg_DeploymentID e" "lg_RunID (stamp b e) = lg_RunID e"
  by (simp_all add: stamp_def)

lemma books_line:
  assumes s: "books f ks base wm cnt (b, tab) rows" and run: "lg_RunID e = f (lg_DeploymentID e)"
    and a: "append_locked e b = (pushed, b')"
  shows "\<exists>rows'. books f ks base wm (\<lambda>d. cnt d + (if lg_DeploymentID e = d then 1 else 0)) (b', tab) rows'"
proof -
  let ?e = "stamp b e" and ?t = "bf_Fold b"
  from s have up: "upserts (bf_Pending b) tab = Some (base @ rows)" and t: "tracked f ks base ?t rows"
    and c: "\<And>d. lines_of d rows = cnt d" "\<And>d. wm d \<le> ft_Watermarks ?t d"
    "\<And>d. seqs_of d rows = map Some [wm d + 1..<ft_Watermarks ?t d + 1]" unfolding books_def by auto
  have run': "lg_RunID ?e = f (lg_DeploymentID ?e)" using run by simp
  show ?thesis
  proof (cases "folds ?e ?t")
    case None
    then obtain row u where o: "observe ?e ?t = (Inl row, u)" by (simp add: observe_def Let_def)
    note op = opened [OF t o run']
    have b': "b' = push_row row (b\<lparr>bf_Fold := u\<rparr>)" using a o by (auto simp: append_locked_def Let_def)
    let ?rows = "rows @ [row_of_entry row]"
    have "upserts (bf_Pending b') tab = Some (base @ ?rows)" using up op(1) by (simp add: b' upserts_append)
    moreover have "lines_of d ?rows = cnt d + (if lg_DeploymentID e = d then 1 else 0)" for d
      using c(1) [of d] by (simp add: lines_of_def op(4))
    moreover have "seqs_of d ?rows = map Some [wm d + 1..<ft_Watermarks u d + 1]" for d
      using c(2,3) [of d] op(3) by (auto simp: seqs_of_def op(4) nullableSeq_def)
    moreover have "wm d \<le> ft_Watermarks u d" for d using c(2) [of d] op(3) by auto
    ultimately have "books f ks base wm (\<lambda>d. cnt d + (if lg_DeploymentID e = d then 1 else 0)) (b', tab) ?rows"
      using op(2) unfolding books_def by (simp add: b')
    then show ?thesis by blast
  next
    case (Some lane)
    note fo = folded [OF t Some run']
    let ?rep = "fl_Rep (absorb ?e lane)" and ?u = "?t\<lparr>ft_Lanes := (ft_Lanes ?t)(lg_DeploymentID ?e \<mapsto> absorb ?e lane)\<rparr>"
    obtain inc where o: "observe ?e ?t = (Inr inc, ?u)" using Some by (simp add: observe_def Let_def)
    have b': "b' = push_increment ?rep inc (b\<lparr>bf_Fold := ?u\<rparr>)"
      using a o by (auto simp: append_locked_def Let_def)
    let ?rows = "recounted (row_of_entry ?rep) rows"
    have "upserts (bf_Pending b') tab = Some (base @ ?rows)" using up fo(1) by (simp add: b' upserts_append)
    then have "books f ks base wm (\<lambda>d. cnt d + (if lg_DeploymentID e = d then 1 else 0)) (b', tab) ?rows"
      using fo(2,3) c unfolding books_def by (simp add: b' recounted_fields)
    then show ?thesis by blast
  qed
qed

lemma books_closed:
  assumes s: "books f ks base wm cnt (b, tab) rows" and w: "close_lanes P order (ft_Lanes (bf_Fold b)) = (closed, lanes)"
  shows "\<exists>rows'. books f ks base wm cnt (enqueue_closed closed (b\<lparr>bf_Fold := (bf_Fold b)\<lparr>ft_Lanes := lanes\<rparr>\<rparr>), tab) rows'"
proof -
  let ?t = "bf_Fold b" and ?es = "filter (\<lambda>r. 1 < lg_RepeatCount r) closed"
  note cl = close_lanes_rows [OF w]
  have es: "\<exists>d lane. ft_Lanes ?t d = Some lane \<and> e = fl_Rep lane" if "e \<in> set ?es" for e
    using that cl by (auto dest!: bspec)
  from s have up: "upserts (bf_Pending b) tab = Some (base @ rows)" and t: "tracked f ks base ?t rows" unfolding books_def by auto
  from closed_rows [OF es t] obtain rows' where
    c: "upserts ?es (base @ rows) = Some (base @ rows')" "tracked f ks base ?t rows'"
    "\<forall>d. lines_of d rows' = lines_of d rows \<and> seqs_of d rows' = seqs_of d rows" by blast
  have "tracked f ks base (?t\<lparr>ft_Lanes := lanes\<rparr>) rows'"
    by (rule tracked_fewer_lanes [OF c(2)]) (use cl in simp_all)
  with s c up show ?thesis unfolding books_def enqueue_closed_def by (intro exI [of _ rows']) (simp add: upserts_append)
qed

end
