(* ===== verification/LogClaims.thy ===== *)
theory LogClaims
  imports LogRing LogBooks
begin

text \<open>The properties of the log buffer: what its readers see, what the table keeps, and where it fails.\<close>

section \<open>Readers\<close>

text \<open>
  C7: Reading the buffer shows the log: after any sequence of lines, ticks, window changes, joins and leaves
  (with a ring that has room) the most recent \<open>n\<close> entries are the last \<open>n\<close>, at most the size of the ring, of
  the unbounded record of the log in which each segment is one row that carries its current count.
\<close>

theorem recent_shows_log:
  assumes "0 < M" "log_run vs (New M nodeID wm ks ep, tab) = Some (b, tab')"
  shows "Recent n b = keep_last (min n M) (snd (shown nodeID vs (newFoldTracker defaultFoldWindow wm ks ep)))"
proof -
  from run_shows [OF new_shows [OF assms(1)], of vs nodeID wm ks ep tab] assms(2)
  have "shows_log M nodeID b (shown nodeID vs (newFoldTracker defaultFoldWindow wm ks ep))" by (simp add: shown_def)
  then have "ring_shows M b (snd (shown nodeID vs (newFoldTracker defaultFoldWindow wm ks ep)))"
    by (simp add: shows_log_def split_beta)
  then show ?thesis by (rule ring_recent)
qed

definition sample_line :: "string \<Rightarrow> string \<Rightarrow> time \<Rightarrow> LogEntry" where
  "sample_line run message now = blank_entry\<lparr>lg_DeploymentID := ''d'', lg_RunID := run, lg_Timestamp := now, lg_Message := message\<rparr>"

definition sample_events :: "log_event list" where
  "sample_events = [Line True [] (sample_line ''r'' ''boot'' 0), Tick True second [], Line True [] (sample_line ''r'' ''boot'' (2 * second)),
     Line True [] (sample_line ''r'' ''ready'' (3 * second))]"

lemma sample_runs: "\<exists>b tab. log_run sample_events (New 1 [] (\<lambda>d. 0) 0 ''e'', []) = Some (b, tab)"
  using run_shows [OF new_shows, of 1 sample_events "[]" "\<lambda>d. 0" 0 "''e''" "[]"] by auto

theorem recent_shows_log_witness:
  "\<exists>b tab. log_run sample_events (New 1 [] (\<lambda>d. 0) 0 ''e'', []) = Some (b, tab) \<and>
     map lg_Message (Recent 5 b) = [''ready'']"
proof -
  obtain b tab where run: "log_run sample_events (New 1 [] (\<lambda>d. 0) 0 ''e'', []) = Some (b, tab)" using sample_runs by blast
  have "map lg_Message (keep_last (min 5 1) (snd (shown [] sample_events (newFoldTracker defaultFoldWindow (\<lambda>d. 0) 0 ''e'')))) = [''ready'']"
    by code_simp
  with recent_shows_log [OF zero_less_one run, of 5] run show ?thesis by auto
qed

text \<open>
  A buffer with room never panics while its operations do not overlap: every sequence of lines, ticks,
  window changes, joins and leaves runs to its end.
\<close>

theorem sequential_log_never_panics:
  assumes "0 < M"
  shows "log_run vs (New M nodeID wm ks ep, tab) \<noteq> None"
  using run_shows [OF new_shows [OF assms], of vs nodeID wm ks ep tab] by auto

theorem sequential_log_never_panics_witness:
  "log_run [Join ''s'', Line True [''s''] (sample_line ''r'' ''boot'' 0), Leave ''s'', Leave ''s''] (New 2000 ''n'' (\<lambda>d. 0) 0 ''e'', []) \<noteq> None"
  by (rule sequential_log_never_panics) simp

lemma send_all_closed:
  "a \<in> set as \<Longrightarrow> a < length (bf_Chans b) \<Longrightarrow> ch_Closed (bf_Chans b ! a) \<Longrightarrow> send_all e as b = None"
proof (induction as arbitrary: b)
  case (Cons x as)
  show ?case
  proof (cases "send e (bf_Chans b ! x)")
    case (Some ch)
    then have "x \<noteq> a" using Cons.prems(3) by (auto simp: send_def)
    with Cons Some show ?thesis by simp
  qed simp
qed simp

lemma append_keeps_channels:
  assumes "append_locked e b = (pushed, b1)"
  shows "bf_Subs b1 = bf_Subs b" "bf_Chans b1 = bf_Chans b"
  using assms by (auto simp: append_locked_def Let_def split: prod.splits sum.splits option.splits)

text \<open>
  Overlapping, it does panic: when a subscriber leaves after an \<^verbatim>\<open>Append\<close> has collected the channels
  under the lock and before it has sent to them, the send meets a closed channel.
\<close>

theorem send_after_leave_panics:
  assumes "bf_Subs b sid = Some a" "a < length (bf_Chans b)" "sid \<in> set su" "append_locked e b = (pushed, b1)"
  shows "send_all pushed (subscribers su b1) (Unsubscribe sid b1) = None"
proof (rule send_all_closed)
  note keep = append_keeps_channels [OF assms(4)]
  show "a \<in> set (subscribers su b1)" using assms(1,3) keep by (auto simp: subscribers_set)
  show "a < length (bf_Chans (Unsubscribe sid b1))" "ch_Closed (bf_Chans (Unsubscribe sid b1) ! a)"
    using assms(1,2) keep by (simp_all add: Unsubscribe_def)
qed

theorem send_after_leave_panics_witness:
  "let b = snd (Subscribe ''s'' (New 2000 ''n'' (\<lambda>d. 0) 0 ''e'')); (pushed, b1) = append_locked (sample_line ''r'' ''boot'' 0) b
   in send_all pushed (subscribers [''s''] b1) (Unsubscribe ''s'' b1) = None"
proof -
  let ?b = "snd (Subscribe ''s'' (New 2000 ''n'' (\<lambda>d. 0) 0 ''e''))"
  have "bf_Subs ?b ''s'' = Some 0" "0 < length (bf_Chans ?b)" "''s'' \<in> set [''s'']" by (simp_all add: Subscribe_def New_def)
  from send_after_leave_panics [OF this prod.collapse [symmetric]] show ?thesis by (simp add: Let_def split_beta)
qed

section \<open>The table\<close>

lemma send_all_keeps: "send_all e as b = Some b' \<Longrightarrow> bf_Pending b' = bf_Pending b \<and> bf_Fold b' = bf_Fold b"
  by (induction as arbitrary: b) (auto split: option.splits)

lemma step_books:
  assumes s: "books f ks base wm cnt s rows" and r: "regular f v" and step: "log_step v s = Some s'"
  shows "\<exists>rows'. books f ks base wm (\<lambda>d. cnt d + (if is_line d v then 1 else 0)) s' rows'"
proof -
  obtain b tab where st: "s = (b, tab)" by fastforce
  show ?thesis
  proof (cases v)
    case (Line ok su e)
    with r have ok: "ok" "lg_RunID e = f (lg_DeploymentID e)" by (simp_all add: regular_def)
    obtain pushed b1 where a: "append_locked e b = (pushed, b1)" by fastforce
    from books_line [OF s [unfolded st] ok(2) a] obtain rows' where
      r': "books f ks base wm (\<lambda>d. cnt d + (if is_line d v then 1 else 0)) (b1, tab) rows'" by (auto simp: Line is_line_def)
    from step a obtain b2 where b2: "send_all pushed (subscribers su b1) b1 = Some b2"
      "s' = (if flushBatch \<le> length (bf_Pending b1) then flush ok (b2, tab) else (b2, tab))"
      by (auto simp: Line st Append_def split: if_splits option.splits)
    have kept: "books f ks base wm (\<lambda>d. cnt d + (if is_line d v then 1 else 0)) (b2, tab) rows'"
      by (rule books_frame [OF r']) (use send_all_keeps [OF b2(1)] in simp_all)
    note flushed = books_flush [OF kept, THEN conjunct1]
    show ?thesis
    proof (cases "flushBatch \<le> length (bf_Pending b1)")
      case True
      with b2(2) ok(1) flushed show ?thesis by (intro exI [of _ rows']) simp
    next
      case False
      with b2(2) kept show ?thesis by (intro exI [of _ rows']) simp
    qed
  next
    case (Tick ok now order)
    with r have ok: ok by (simp add: regular_def)
    obtain closed lanes where w:
      "close_lanes (\<lambda>lane. ft_Window (bf_Fold b) \<le> time_sub now (fl_LastSeen lane)) order (ft_Lanes (bf_Fold b)) = (closed, lanes)"
      by fastforce
    from books_closed [OF s [unfolded st] w] obtain rows' where
      "books f ks base wm cnt (sweepFolds now order b, tab) rows'" by (auto simp: sweepFolds_def sweep_def w)
    from books_flush [OF this] step ok show ?thesis by (auto simp: Tick st is_line_def)
  next
    case (Window d)
    have "tracked f ks base (bf_Fold (SetFoldWindow d b)) rows"
      by (rule tracked_fewer_lanes [of f ks base "bf_Fold b"]) (use s in \<open>simp_all add: books_def st SetFoldWindow_def\<close>)
    with s step show ?thesis by (auto simp: Window st books_def SetFoldWindow_def is_line_def)
  next
    case (Join sid)
    have "books f ks base wm cnt (snd (Subscribe sid b), tab) rows"
      by (rule books_frame [OF s [unfolded st]]) (simp_all add: Subscribe_def)
    with step show ?thesis by (auto simp: Join st is_line_def)
  next
    case (Leave sid)
    have "books f ks base wm cnt (Unsubscribe sid b, tab) rows"
      by (rule books_frame [OF s [unfolded st]]) (simp_all add: Unsubscribe_def split: option.split)
    with step show ?thesis by (auto simp: Leave st is_line_def)
  qed
qed

lemma run_books:
  "books f ks base wm cnt s rows \<Longrightarrow> \<forall>v \<in> set vs. regular f v \<Longrightarrow> log_run vs s = Some s' \<Longrightarrow>
     \<exists>rows'. books f ks base wm (\<lambda>d. cnt d + count_lines d vs) s' rows'"
proof (induction vs arbitrary: cnt s rows)
  case Nil
  then show ?case by (auto simp: count_lines_def)
next
  case (Cons v vs)
  from Cons.prems(3) obtain s1 where s1: "log_step v s = Some s1" "log_run vs s1 = Some s'" by (auto split: option.splits)
  have v: "regular f v" "\<forall>v \<in> set vs. regular f v" using Cons.prems(2) by simp_all
  from step_books [OF Cons.prems(1) v(1) s1(1)] obtain rows1 where
    "books f ks base wm (\<lambda>d. cnt d + (if is_line d v then 1 else 0)) s1 rows1" by blast
  from Cons.IH [OF this v(2) s1(2)] have
    "\<exists>rows'. books f ks base wm (\<lambda>d. cnt d + (if is_line d v then 1 else 0) + count_lines d vs) s' rows'" .
  moreover have "(\<lambda>d. cnt d + (if is_line d v then 1 else 0) + count_lines d vs) = (\<lambda>d. cnt d + count_lines d (v # vs))"
    by (simp add: count_lines_def fun_eq_iff)
  ultimately show ?case by simp
qed

lemma new_books:
  assumes "\<forall>r \<in> set base. \<forall>m q. ks < m \<longrightarrow> lr_FoldKey r \<noteq> nextFoldKey ep m q"
  shows "books f ks base (SeqWatermarks base) (\<lambda>d. 0) (New M nodeID (SeqWatermarks base) ks ep, base) []"
  using assms SeqWatermarks_bound
  by (simp add: books_def tracked_def New_def newFoldTracker_def lines_of_def seqs_of_def)



text \<open>
  C40: Folding across runs loses a batch: when a deployment starts logging under a new run within an open
  segment whose row is stored, the next line of that segment is written under the new run with the number of
  the old row; the store refuses it, and with it the whole batch, whatever lines follow, and the buffer
  forgets the batch.
\<close>

theorem fold_across_runs_loses_batch:
  assumes "folds (stamp b e) (bf_Fold b) = Some lane" "bf_Pending b = []" "append_locked e b = (pushed, b1)"
    "r \<in> set tab" "lr_DeploymentID r = lg_DeploymentID e" "lr_Seq r = Some (fl_Seq lane)" "0 < fl_Seq lane"
    "\<forall>q \<in> set tab. lr_FoldKey q = fl_FoldKey lane \<longrightarrow> lr_RunID q \<noteq> lg_RunID e"
  shows "flush True (b1\<lparr>bf_Pending := bf_Pending b1 @ later\<rparr>, tab) = (b1\<lparr>bf_Pending := []\<rparr>, tab)"
proof -
  let ?rep = "fl_Rep (absorb (stamp b e) lane)"
  have "bf_Pending b1 = [?rep]"
    using assms(1-3) by (auto simp: append_locked_def observe_def Let_def split: prod.splits)
  moreover have "upsert (row_of_entry ?rep) tab = None"
  proof -
    have rep: "lg_DeploymentID ?rep = lg_DeploymentID e" "lg_RunID ?rep = lg_RunID e" "lg_FoldKey ?rep = fl_FoldKey lane"
      "lg_Seq ?rep = fl_Seq lane" by (simp_all add: absorb_def Let_def)
    have "\<not> list_ex (same_fold (row_of_entry ?rep)) tab"
      using assms(8) rep by (auto simp: list_ex_iff same_fold_def)
    moreover have "list_ex (same_seq (row_of_entry ?rep)) tab"
      using assms(4-7) rep by (auto simp: list_ex_iff same_seq_def nullableSeq_def)
    ultimately show ?thesis by (simp add: upsert_def)
  qed
  ultimately show ?thesis by (simp add: flush_def AppendBatch_def)
qed

definition one_line_stored :: "Buffer \<times> log_row list" where
  "one_line_stored = the (log_run [Line True [] (sample_line ''A'' ''boot'' 0), Tick True 0 []] (New 4 [] (\<lambda>d. 0) 0 ''e'', []))"

theorem fold_across_runs_loses_batch_witness:
  "let (b, tab) = one_line_stored; (pushed, b1) = append_locked (sample_line ''B'' ''boot'' second) b
   in tab \<noteq> [] \<and> snd (flush True (b1\<lparr>bf_Pending := bf_Pending b1 @ [sample_line ''B'' ''another line'' second]\<rparr>, tab)) = tab"
proof -
  let ?b = "fst one_line_stored" and ?tab = "snd one_line_stored" and ?e = "sample_line ''B'' ''boot'' second"
  let ?lane = "the (folds (stamp ?b ?e) (bf_Fold ?b))"
  have "folds (stamp ?b ?e) (bf_Fold ?b) \<noteq> None" by code_simp
  then have lane: "folds (stamp ?b ?e) (bf_Fold ?b) = Some ?lane" by simp
  have tab: "\<exists>r. ?tab = [r] \<and> lr_DeploymentID r = lg_DeploymentID ?e \<and> lr_Seq r = Some (fl_Seq ?lane) \<and> lr_RunID r = ''A''"
  proof -
    have "length ?tab = 1" "lr_DeploymentID (hd ?tab) = lg_DeploymentID ?e" "lr_Seq (hd ?tab) = Some (fl_Seq ?lane)"
      "lr_RunID (hd ?tab) = ''A''" by code_simp+
    then show ?thesis by (cases ?tab) auto
  qed
  then obtain r where r: "?tab = [r]" "lr_DeploymentID r = lg_DeploymentID ?e" "lr_Seq r = Some (fl_Seq ?lane)" "lr_RunID r = ''A''" by blast
  have rest: "bf_Pending ?b = []" "0 < fl_Seq ?lane" by code_simp+
  have "\<forall>q \<in> set ?tab. lr_FoldKey q = fl_FoldKey ?lane \<longrightarrow> lr_RunID q \<noteq> lg_RunID ?e"
    using r by (simp add: sample_line_def)
  from fold_across_runs_loses_batch [OF lane rest(1) prod.collapse [symmetric] _ r(2,3) rest(2) this,
      of "[sample_line ''B'' ''another line'' second]"] r(1)
  show ?thesis by (simp add: Let_def split_beta)
qed

end
