(* ===== verification/SourceRegistry.thy ===== *)
theory SourceRegistry
  imports ProvisionModel "HOL-Library.AList"
begin

text \<open>
  The registry of data sources (\<^verbatim>\<open>agent/dbprovision/registry.go\<close>): the entries in memory, by identifier,
  in the order a range over the map visits them, and the content of the credentials file. A data source is
  probed outside the lock; what happens under the lock is one step, so an update is two steps, reading the
  entry it replaces and committing.
\<close>

section \<open>State and file\<close>

type_synonym entries = "(string \<times> DataSource) list"

record FileRegistry =
  rg_Items :: entries
  rg_Stored :: entries
  rg_LeaseCounter :: "(string \<Rightarrow> int) option"

text \<open>
  Writing the file: it is replaced and its mode set, or it is left as it was, or it is replaced and setting
  its mode fails. Only the first is no error.
\<close>

datatype save_outcome = Saved | NotSaved | SavedModeFailed

definition saveLocked :: "save_outcome \<Rightarrow> FileRegistry \<Rightarrow> bool \<times> FileRegistry" where
  "saveLocked out r = (out = Saved, if out = NotSaved then r else r\<lparr>rg_Stored := rg_Items r\<rparr>)"

text \<open>The content of the file: none, unreadable or unparsable, or its entries; one without identifier is skipped.\<close>

definition NewFileRegistry :: "(prov_error + DataSource list) option \<Rightarrow> prov_error + FileRegistry" where
  "NewFileRegistry content =
     (case content of
        None \<Rightarrow> Inr \<lparr>rg_Items = [], rg_Stored = [], rg_LeaseCounter = None\<rparr>
      | Some (Inl e) \<Rightarrow> Inl FileError
      | Some (Inr items) \<Rightarrow>
          let es = foldl (\<lambda>es d. if ds_ID d = [] then es else AList.update (ds_ID d) d es) [] items
          in Inr \<lparr>rg_Items = es, rg_Stored = es, rg_LeaseCounter = None\<rparr>)"

definition SetActiveLeaseCounter :: "(string \<Rightarrow> int) option \<Rightarrow> FileRegistry \<Rightarrow> FileRegistry" where
  "SetActiveLeaseCounter fn r = r\<lparr>rg_LeaseCounter := fn\<rparr>"

section \<open>Operations\<close>

definition validateDataSource :: "DataSource \<Rightarrow> bool" where
  "validateDataSource ds \<longleftrightarrow> TrimSpace (ds_Kind ds) \<noteq> [] \<and> TrimSpace (ds_Name ds) \<noteq> [] \<and> TrimSpace (ds_Host ds) \<noteq> [] \<and>
     1 \<le> ds_Port ds \<and> ds_Port ds \<le> 65535"

text \<open>What the provisioner of a kind says of a data source, if there is one: its result and whether probing failed.\<close>

type_synonym probing = "(ProbeResult \<times> string option) option"

definition probed :: "probing \<Rightarrow> DataSource \<Rightarrow> prov_error + ProbeResult" where
  "probed probing ds =
     (case probing of
        None \<Rightarrow> Inl (UnsupportedKind (ds_Kind ds))
      | Some (p, err) \<Rightarrow>
          if err \<noteq> None \<or> \<not> pb_OK p then Inl (ProbeFailed (pb_Missing p) (pb_FixHint p) (case err of Some e \<Rightarrow> e | None \<Rightarrow> pb_Error p))
          else Inr p)"

definition name_taken :: "DataSource \<Rightarrow> string option \<Rightarrow> entries \<Rightarrow> bool" where
  "name_taken ds self es \<longleftrightarrow>
     list_ex (\<lambda>(i, d). self \<noteq> Some i \<and> ds_Kind d = ds_Kind ds \<and> ds_Name d = ds_Name ds) es"

definition AddSource ::
  "probing \<Rightarrow> string \<Rightarrow> time \<Rightarrow> save_outcome \<Rightarrow> DataSource \<Rightarrow> FileRegistry \<Rightarrow> (prov_error + DataSource) \<times> FileRegistry" where
  "AddSource probing uuid now out ds r =
     (if \<not> validateDataSource ds then (Inl InvalidDataSource, r)
      else case probed probing ds of Inl e \<Rightarrow> (Inl e, r)
      | Inr p \<Rightarrow>
          if name_taken ds None (rg_Items r) then (Inl (NameExists (ds_Name ds)), r)
          else let d = ds\<lparr>ds_ID := uuid, ds_Probe := p, ds_CreatedAt := now, ds_Source := ''manual''\<rparr>;
                   (ok, r1) = saveLocked out (r\<lparr>rg_Items := AList.update uuid d (rg_Items r)\<rparr>)
               in if ok then (Inr d, r1) else (Inl FileError, r1\<lparr>rg_Items := AList.delete uuid (rg_Items r1)\<rparr>))"

text \<open>An update: the entry \<open>old\<close> was read before; the rest happens later, the probing between the two.\<close>

definition update_commit ::
  "probing \<Rightarrow> save_outcome \<Rightarrow> string \<Rightarrow> DataSource \<Rightarrow> DataSource \<Rightarrow> FileRegistry \<Rightarrow> (prov_error + DataSource) \<times> FileRegistry" where
  "update_commit probing out i old ds0 r =
     (if \<not> validateDataSource ds0 then (Inl InvalidDataSource, r)
      else let ds = (if ds_Password ds0 = [] then ds0\<lparr>ds_Password := ds_Password old\<rparr> else ds0) in
      case probed probing ds of Inl e \<Rightarrow> (Inl e, r)
      | Inr p \<Rightarrow>
          if name_taken ds (Some i) (rg_Items r) then (Inl (NameExists (ds_Name ds)), r)
          else let d = ds\<lparr>ds_ID := ds_ID old, ds_CreatedAt := ds_CreatedAt old, ds_Source := ds_Source old, ds_Probe := p\<rparr>;
                   (ok, r1) = saveLocked out (r\<lparr>rg_Items := AList.update i d (rg_Items r)\<rparr>)
               in if ok then (Inr d, r1) else (Inl FileError, r1))"

definition UpdateSource ::
  "probing \<Rightarrow> save_outcome \<Rightarrow> string \<Rightarrow> DataSource \<Rightarrow> FileRegistry \<Rightarrow> (prov_error + DataSource) \<times> FileRegistry" where
  "UpdateSource probing out i ds r =
     (case map_of (rg_Items r) i of
        None \<Rightarrow> (Inl DataSourceNotFound, r)
      | Some old \<Rightarrow> update_commit probing out i old ds r)"

definition RemoveSource :: "save_outcome \<Rightarrow> string \<Rightarrow> bool \<Rightarrow> FileRegistry \<Rightarrow> prov_error option \<times> FileRegistry" where
  "RemoveSource out i force r =
     (case map_of (rg_Items r) i of
        None \<Rightarrow> (Some DataSourceNotFound, r)
      | Some item \<Rightarrow>
          let active = (case rg_LeaseCounter r of None \<Rightarrow> 0 | Some fn \<Rightarrow> fn i)
          in if \<not> force \<and> 0 < active then (Some (DataSourceInUse active), r)
             else let (ok, r1) = saveLocked out (r\<lparr>rg_Items := AList.delete i (rg_Items r)\<rparr>)
                  in if ok then (None, r1) else (Some FileError, r1\<lparr>rg_Items := AList.update i item (rg_Items r1)\<rparr>))"

definition GetSource :: "string \<Rightarrow> FileRegistry \<Rightarrow> prov_error + DataSource" where
  "GetSource i r = (case map_of (rg_Items r) i of None \<Rightarrow> Inl DataSourceNotFound | Some d \<Rightarrow> Inr d)"

definition GetByName :: "string \<Rightarrow> string \<Rightarrow> FileRegistry \<Rightarrow> prov_error + DataSource" where
  "GetByName kind name r =
     (case find (\<lambda>(i, d). ds_Kind d = kind \<and> ds_Name d = name) (rg_Items r) of
        None \<Rightarrow> Inl DataSourceNotFound | Some (i, d) \<Rightarrow> Inr d)"

definition ListSources :: "FileRegistry \<Rightarrow> DataSource list" where
  "ListSources r = map snd (rg_Items r)"

text \<open>Probing again: the entry may be gone when the probing returns.\<close>

definition probe_commit ::
  "probing \<Rightarrow> save_outcome \<Rightarrow> string \<Rightarrow> DataSource \<Rightarrow> FileRegistry \<Rightarrow> (prov_error + ProbeResult) \<times> FileRegistry" where
  "probe_commit probing out i ds r =
     (case probing of
        None \<Rightarrow> (Inl (UnsupportedKind (ds_Kind ds)), r)
      | Some (p, Some e) \<Rightarrow> (Inl (Outside e), r)
      | Some (p, None) \<Rightarrow>
          (case map_of (rg_Items r) i of
             None \<Rightarrow> (Inl DataSourceNotFound, r)
           | Some current \<Rightarrow>
               let (ok, r1) = saveLocked out (r\<lparr>rg_Items := AList.update i (current\<lparr>ds_Probe := p\<rparr>) (rg_Items r)\<rparr>)
               in if ok then (Inr p, r1) else (Inl FileError, r1)))"

definition ProbeSource :: "probing \<Rightarrow> save_outcome \<Rightarrow> string \<Rightarrow> FileRegistry \<Rightarrow> (prov_error + ProbeResult) \<times> FileRegistry" where
  "ProbeSource probing out i r =
     (case map_of (rg_Items r) i of
        None \<Rightarrow> (Inl DataSourceNotFound, r)
      | Some ds \<Rightarrow> probe_commit probing out i ds r)"

section \<open>Runs\<close>

text \<open>
  Operations interleave: the entries read for updates and probings that have not committed yet are kept
  beside the registry. A new identifier is one not in use.
\<close>

type_synonym registry_run = "FileRegistry \<times> (string \<times> DataSource) list"

inductive registry_step :: "registry_run \<Rightarrow> registry_run \<Rightarrow> bool" where
  added: "AddSource p uuid now out ds r = (res, r') \<Longrightarrow> uuid \<notin> fst ` set (rg_Items r) \<Longrightarrow> uuid \<notin> fst ` set us \<Longrightarrow>
    registry_step (r, us) (r', us)"
| read_entry: "map_of (rg_Items r) i = Some old \<Longrightarrow> registry_step (r, us) (r, (i, old) # us)"
| updated: "(i, old) \<in> set us \<Longrightarrow> update_commit p out i old ds r = (res, r') \<Longrightarrow> registry_step (r, us) (r', us)"
| removed: "RemoveSource out i force r = (err, r') \<Longrightarrow> registry_step (r, us) (r', us)"
| reprobed: "(i, old) \<in> set us \<Longrightarrow> probe_commit p out i old r = (pres, r') \<Longrightarrow> registry_step (r, us) (r', us)"
| counted: "registry_step (r, us) (SetActiveLeaseCounter fn r, us)"

inductive_cases registry_stepE: "registry_step (r, us) s"

definition entries_ok :: "entries \<Rightarrow> bool" where
  "entries_ok es \<longleftrightarrow> distinct (map fst es) \<and> (\<forall>i d. map_of es i = Some d \<longrightarrow> ds_ID d = i) \<and>
     (\<forall>i j d e. map_of es i = Some d \<longrightarrow> map_of es j = Some e \<longrightarrow> ds_Kind d = ds_Kind e \<longrightarrow> ds_Name d = ds_Name e \<longrightarrow> i = j)"

lemma entries_okD:
  assumes "entries_ok es"
  shows "distinct (map fst es)" "map_of es i = Some d \<Longrightarrow> ds_ID d = i"
    "map_of es i = Some d \<Longrightarrow> map_of es j = Some e \<Longrightarrow> ds_Kind d = ds_Kind e \<Longrightarrow> ds_Name d = ds_Name e \<Longrightarrow> i = j"
  using assms unfolding entries_ok_def by blast+

lemma name_free:
  assumes "\<not> name_taken ds self es" "map_of es j = Some d" "self \<noteq> Some j"
  shows "\<not> (ds_Kind d = ds_Kind ds \<and> ds_Name d = ds_Name ds)"
  using assms map_of_SomeD [OF assms(2)] by (auto simp: name_taken_def list_ex_iff)

lemma entries_ok_update:
  assumes ok: "entries_ok es" and i: "ds_ID d = i"
    and free: "\<And>j e. map_of es j = Some e \<Longrightarrow> j \<noteq> i \<Longrightarrow> \<not> (ds_Kind e = ds_Kind d \<and> ds_Name e = ds_Name d)"
  shows "entries_ok (AList.update i d es)"
  unfolding entries_ok_def update_conv'
proof (intro conjI allI impI)
  show "distinct (map fst (AList.update i d es))" by (rule distinct_update) (rule entries_okD(1) [OF ok])
next
  fix j e assume "((map_of es)(i \<mapsto> d)) j = Some e"
  then show "ds_ID e = j" using i entries_okD(2) [OF ok] by (cases "j = i") auto
next
  fix j k a b assume "((map_of es)(i \<mapsto> d)) j = Some a" "((map_of es)(i \<mapsto> d)) k = Some b" "ds_Kind a = ds_Kind b" "ds_Name a = ds_Name b"
  then show "j = k" using free entries_okD(3) [OF ok, of j a k b] by (cases "j = i"; cases "k = i") auto
qed

lemma entries_ok_delete: "entries_ok es \<Longrightarrow> entries_ok (AList.delete i es)"
  unfolding entries_ok_def delete_conv' by (auto simp: distinct_delete split: if_splits)

lemma save_items: "saveLocked out r = (ok, r') \<Longrightarrow> rg_Items r' = rg_Items r"
  by (auto simp: saveLocked_def)

lemma add_ok:
  assumes ok: "entries_ok (rg_Items r)" and a: "AddSource p uuid now out ds r = (res, r')"
  shows "entries_ok (rg_Items r')"
proof (cases "r' = r")
  case False
  then obtain q where q: "\<not> name_taken ds None (rg_Items r)"
    and r': "rg_Items r' = AList.update uuid (ds\<lparr>ds_ID := uuid, ds_Probe := q, ds_CreatedAt := now, ds_Source := ''manual''\<rparr>) (rg_Items r) \<or>
      (\<exists>d. rg_Items r' = AList.delete uuid (AList.update uuid d (rg_Items r)))"
    using a save_items by (auto simp: AddSource_def Let_def split: if_splits sum.splits prod.splits) metis+
  let ?d = "ds\<lparr>ds_ID := uuid, ds_Probe := q, ds_CreatedAt := now, ds_Source := ''manual''\<rparr>"
  have "entries_ok (AList.update uuid ?d (rg_Items r))"
    by (rule entries_ok_update [OF ok]) (use name_free [OF q] in auto)
  with r' ok show ?thesis by (auto simp: delete_update_same entries_ok_delete)
qed (use ok in simp)

lemma update_ok:
  assumes ok: "entries_ok (rg_Items r)" and a: "update_commit p out i old ds r = (res, r')" and i: "ds_ID old = i"
  shows "entries_ok (rg_Items r')"
proof (cases "r' = r")
  case False
  let ?ds = "if ds_Password ds = [] then ds\<lparr>ds_Password := ds_Password old\<rparr> else ds"
  from False a obtain q where q: "\<not> name_taken ?ds (Some i) (rg_Items r)"
    and r': "rg_Items r' = AList.update i (?ds\<lparr>ds_ID := ds_ID old, ds_CreatedAt := ds_CreatedAt old, ds_Source := ds_Source old, ds_Probe := q\<rparr>) (rg_Items r)"
    using save_items unfolding update_commit_def Let_def by (auto split: if_splits sum.splits prod.splits)
  show ?thesis unfolding r' by (rule entries_ok_update [OF ok]) (use i name_free [OF q] in auto)
qed (use ok in simp)

lemma remove_ok:
  assumes ok: "entries_ok (rg_Items r)" and a: "RemoveSource out i force r = (err, r')"
  shows "entries_ok (rg_Items r')"
proof (cases "map_of (rg_Items r) i")
  case (Some item)
  have "entries_ok (AList.update i item (AList.delete i (rg_Items r)))"
    by (rule entries_ok_update [OF entries_ok_delete [OF ok]])
      (use entries_okD(2,3) [OF ok] Some in \<open>auto simp: delete_conv' split: if_splits\<close>)
  with a Some ok save_items show ?thesis
    by (auto simp: RemoveSource_def Let_def entries_ok_delete split: if_splits prod.splits)
qed (use a ok in \<open>simp add: RemoveSource_def\<close>)

lemma probe_ok:
  assumes ok: "entries_ok (rg_Items r)" and a: "probe_commit p out i old r = (res, r')"
  shows "entries_ok (rg_Items r')"
proof (cases "r' = r")
  case False
  from False a obtain current q where c: "map_of (rg_Items r) i = Some current"
    and r': "rg_Items r' = AList.update i (current\<lparr>ds_Probe := q\<rparr>) (rg_Items r)"
    using save_items unfolding probe_commit_def Let_def by (auto split: option.splits if_splits prod.splits)
  show ?thesis unfolding r'
    by (rule entries_ok_update [OF ok]) (use entries_okD(2,3) [OF ok] c in \<open>auto split: if_splits\<close>)
qed (use ok in simp)

definition run_ok :: "registry_run \<Rightarrow> bool" where
  "run_ok = (\<lambda>(r, us). entries_ok (rg_Items r) \<and> (\<forall>(i, old) \<in> set us. ds_ID old = i))"

lemma step_ok: "registry_step s t \<Longrightarrow> run_ok s \<Longrightarrow> run_ok t"
proof (induction rule: registry_step.induct)
  case (added p uuid now out ds r res r' us)
  then show ?case using add_ok by (auto simp: run_ok_def)
next
  case (read_entry r i old us)
  then show ?case using entries_okD(2) by (auto simp: run_ok_def)
next
  case (updated i old us p out ds r res r')
  then show ?case using update_ok by (auto simp: run_ok_def)
next
  case (removed out i force r err r' us)
  then show ?case using remove_ok by (auto simp: run_ok_def)
next
  case (reprobed i old us p out r pres r')
  then show ?case using probe_ok by (auto simp: run_ok_def)
next
  case (counted r us fn)
  then show ?case by (simp add: run_ok_def SetActiveLeaseCounter_def)
qed

lemma run_keeps_ok: "registry_step\<^sup>*\<^sup>* s t \<Longrightarrow> run_ok s \<Longrightarrow> run_ok t"
  by (induction rule: rtranclp_induct) (use step_ok in blast)+

text \<open>
  C24: However adding, updating, removing and probing interleave and fail to write, an entry is found under its
  own identifier and under its kind and name, and no other has them.
\<close>

theorem registry_lookup_exact:
  assumes "registry_step\<^sup>*\<^sup>* (\<lparr>rg_Items = [], rg_Stored = [], rg_LeaseCounter = None\<rparr>, []) (r, us)" "d \<in> set (ListSources r)"
  shows "GetSource (ds_ID d) r = Inr d \<and> GetByName (ds_Kind d) (ds_Name d) r = Inr d"
proof -
  have "run_ok (\<lparr>rg_Items = [], rg_Stored = [], rg_LeaseCounter = None\<rparr>, [])" by (simp add: run_ok_def entries_ok_def)
  from run_keeps_ok [OF assms(1) this] have ok: "entries_ok (rg_Items r)" by (simp add: run_ok_def)
  from assms(2) obtain i where "(i, d) \<in> set (rg_Items r)" by (auto simp: ListSources_def)
  then have i: "map_of (rg_Items r) i = Some d" by (rule map_of_is_SomeI [OF entries_okD(1) [OF ok]])
  have "find (\<lambda>(j, e). ds_Kind e = ds_Kind d \<and> ds_Name e = ds_Name d) (rg_Items r) \<noteq> None"
    using map_of_SomeD [OF i] by (auto simp: find_None_iff)
  then obtain j e where f: "find (\<lambda>(j, e). ds_Kind e = ds_Kind d \<and> ds_Name e = ds_Name d) (rg_Items r) = Some (j, e)" by auto
  from f [unfolded find_Some_iff] obtain n where n: "n < length (rg_Items r)" "rg_Items r ! n = (j, e)"
    "case rg_Items r ! n of (j, e) \<Rightarrow> ds_Kind e = ds_Kind d \<and> ds_Name e = ds_Name d" by metis
  have "(j, e) \<in> set (rg_Items r)" using nth_mem [OF n(1)] unfolding n(2) .
  moreover have "ds_Kind e = ds_Kind d" "ds_Name e = ds_Name d" using n(3) unfolding n(2) by simp_all
  ultimately have je: "(j, e) \<in> set (rg_Items r)" "ds_Kind e = ds_Kind d" "ds_Name e = ds_Name d" .
  then have "map_of (rg_Items r) j = Some e" "j = i"
    using map_of_is_SomeI [OF entries_okD(1) [OF ok]] entries_okD(3) [OF ok, of j e i d] i by auto
  with f i entries_okD(2) [OF ok i] show ?thesis by (simp add: GetSource_def GetByName_def)
qed

definition sample_registered :: DataSource where
  "sample_registered = \<lparr>ds_ID = ''u1'', ds_Kind = ''redis'', ds_Name = ''main'', ds_Host = ''h'', ds_Port = 6379, ds_User = [], ds_Password = ''s'',
     ds_Extra = Map.empty, ds_Probe = \<lparr>pb_OK = True, pb_CheckedAt = 0, pb_ServerVer = [], pb_Capabilities = Map.empty, pb_Facts = Map.empty,
       pb_Missing = [], pb_FixHint = [], pb_Error = []\<rparr>, ds_Source = ''manual'', ds_CreatedAt = 0\<rparr>"

definition sample_registry :: FileRegistry where
  "sample_registry = \<lparr>rg_Items = [(''u1'', sample_registered)], rg_Stored = [(''u1'', sample_registered)], rg_LeaseCounter = None\<rparr>"

lemma sample_valid: "validateDataSource sample_registered"
  unfolding validateDataSource_def sample_registered_def by (simp, code_simp)

lemma sample_add:
  "AddSource (Some (ds_Probe sample_registered, None)) ''u1'' 0 Saved sample_registered \<lparr>rg_Items = [], rg_Stored = [], rg_LeaseCounter = None\<rparr> =
     (Inr sample_registered, sample_registry)"
  using sample_valid
  by (simp add: AddSource_def probed_def name_taken_def saveLocked_def sample_registry_def Let_def) (simp add: sample_registered_def)

theorem registry_lookup_exact_witness:
  "GetByName ''redis'' ''main'' sample_registry = Inr sample_registered"
proof -
  have "registry_step (\<lparr>rg_Items = [], rg_Stored = [], rg_LeaseCounter = None\<rparr>, []) (sample_registry, [])"
    by (rule registry_step.added [OF sample_add]) simp_all
  from registry_lookup_exact [OF r_into_rtranclp [where r = registry_step, OF this], of sample_registered]
  show ?thesis by (simp add: ListSources_def sample_registry_def sample_registered_def)
qed

text \<open>
  Registering and removing undo themselves: when one of them fails, whatever the reason, the entries in
  memory are those of before, and a failed write has at most replaced the file.
\<close>

theorem failed_registration_undone:
  assumes "uuid \<notin> fst ` set (rg_Items r)"
  shows "(AddSource p uuid now out ds r = (Inl e, r1) \<longrightarrow> rg_Items r1 = rg_Items r) \<and>
    (RemoveSource out i force r = (Some e, r2) \<longrightarrow> map_of (rg_Items r2) = map_of (rg_Items r))"
proof (intro conjI impI)
  assume "AddSource p uuid now out ds r = (Inl e, r1)"
  then show "rg_Items r1 = rg_Items r"
    using assms by (auto simp: AddSource_def Let_def saveLocked_def delete_update_same split: if_splits sum.splits)
next
  assume rm: "RemoveSource out i force r = (Some e, r2)"
  show "map_of (rg_Items r2) = map_of (rg_Items r)"
  proof (cases "r2 = r")
    case False
    with rm obtain item where item: "map_of (rg_Items r) i = Some item"
      "rg_Items r2 = AList.update i item (AList.delete i (rg_Items r))"
      by (auto simp: RemoveSource_def Let_def saveLocked_def split: option.splits if_splits)
    then have "map_of (rg_Items r2) = (map_of (rg_Items r))(i := Some item)" by (simp add: update_conv' delete_conv')
    also have "\<dots> = map_of (rg_Items r)" by (rule fun_upd_idem) (rule item(1))
    finally show ?thesis .
  qed simp
qed

theorem failed_registration_undone_witness:
  "\<exists>e r2. RemoveSource NotSaved ''u1'' False sample_registry = (Some e, r2) \<and> map_of (rg_Items r2) ''u1'' = Some sample_registered"
proof -
  have "''u2'' \<notin> fst ` set (rg_Items sample_registry)" by (simp add: sample_registry_def)
  moreover obtain r2 where "RemoveSource NotSaved ''u1'' False sample_registry = (Some FileError, r2)"
    by (simp add: RemoveSource_def sample_registry_def saveLocked_def)
  ultimately show ?thesis
    using failed_registration_undone [of "''u2''" sample_registry _ _ NotSaved _ FileError _ "''u1''" False r2]
    by (simp add: sample_registry_def)
qed

text \<open>
  An update does not: when writing the file fails, the caller gets an error and the file is as it was, and
  the changed entry is nevertheless served from memory until the process ends.
\<close>

theorem failed_update_stays:
  assumes "UpdateSource p NotSaved i ds r = (Inl FileError, r1)"
  shows "rg_Stored r1 = rg_Stored r \<and> (\<exists>d. map_of (rg_Items r1) i = Some d \<and> ds_Host d = ds_Host ds \<and> ds_Port d = ds_Port ds \<and>
    ds_Name d = ds_Name ds \<and> (ds_Password ds \<noteq> [] \<longrightarrow> ds_Password d = ds_Password ds))"
  using assms
  by (auto simp: UpdateSource_def update_commit_def probed_def Let_def saveLocked_def update_conv' split: if_splits sum.splits option.splits)

theorem failed_update_stays_witness:
  "\<exists>r1. UpdateSource (Some (ds_Probe sample_registered, None)) NotSaved ''u1'' (sample_registered\<lparr>ds_Port := 6380\<rparr>) sample_registry = (Inl FileError, r1) \<and>
     map_option ds_Port (map_of (rg_Stored r1) ''u1'') = Some 6379 \<and> map_option ds_Port (map_of (rg_Items r1) ''u1'') = Some 6380"
proof -
  let ?ds = "sample_registered\<lparr>ds_Port := 6380\<rparr>"
  have "validateDataSource ?ds" using sample_valid by (simp add: validateDataSource_def)
  moreover have "probed (Some (ds_Probe sample_registered, None)) d = Inr (ds_Probe sample_registered)" for d
    by (simp add: probed_def sample_registered_def)
  moreover have "ds_Password sample_registered \<noteq> []" by (simp add: sample_registered_def)
  ultimately obtain r1 where u: "UpdateSource (Some (ds_Probe sample_registered, None)) NotSaved ''u1'' ?ds sample_registry = (Inl FileError, r1)"
    by (simp add: UpdateSource_def update_commit_def name_taken_def saveLocked_def sample_registry_def Let_def)
  from failed_update_stays [OF u] have "rg_Stored r1 = rg_Stored sample_registry" "map_option ds_Port (map_of (rg_Items r1) ''u1'') = Some 6380"
    by auto
  with u show ?thesis by (intro exI [of _ r1]) (simp add: sample_registry_def sample_registered_def)
qed

text \<open>
  An update brings a removed entry back: it replaces the entry it read before probing without looking
  whether it is still there.
\<close>

theorem removed_source_returns:
  assumes "map_of (rg_Items r) i = Some old" "RemoveSource Saved i force r = (None, r1)" "update_commit p out i old ds r1 = (Inr d, r2)"
  shows "map_of (rg_Items r1) i = None \<and> map_of (rg_Items r2) i = Some d"
  using assms
  by (auto simp: RemoveSource_def update_commit_def Let_def saveLocked_def update_conv' delete_conv' split: if_splits sum.splits)

end
