(* ===== verification/CredentialStore.thy ===== *)
theory CredentialStore
  imports Sha256 GoText Prelude
begin

text \<open>
  The credentials of an agent (\<^verbatim>\<open>agent/security/store.go\<close>): the one-time bootstrap token of an
  installation, the long-term tokens of the control planes, the token of the local machine. The store keeps
  its state in memory and writes it to a file in place; a write that fails leaves anything in the file. The
  clock, the identifiers drawn, the TLS material and the outcome of a write are arguments.
\<close>

section \<open>State\<close>

definition ProvisionStateOpen :: string where "ProvisionStateOpen = ''open''"
definition ProvisionStatePendingBootstrap :: string where "ProvisionStatePendingBootstrap = ''pending-bootstrap''"
definition ProvisionStateProvisioned :: string where "ProvisionStateProvisioned = ''provisioned''"
definition TLSModeOff :: string where "TLSModeOff = ''off''"
definition TLSModeAuto :: string where "TLSModeAuto = ''auto''"

lemma provision_states [simp]:
  "ProvisionStateOpen \<noteq> ProvisionStateProvisioned" "ProvisionStateProvisioned \<noteq> ProvisionStateOpen"
  "ProvisionStatePendingBootstrap \<noteq> ProvisionStateProvisioned" "ProvisionStateProvisioned \<noteq> ProvisionStatePendingBootstrap"
  by (simp_all add: ProvisionStateOpen_def ProvisionStatePendingBootstrap_def ProvisionStateProvisioned_def)

definition defaultTokenRecordName :: string where
  "defaultTokenRecordName = utf8 [230, 142, 167, 229, 136, 182, 233, 157, 162]"

definition legacyTokenRecordID :: string where "legacyTokenRecordID = ''legacy''"

record TokenRecord =
  tr_ID :: string
  tr_Name :: string
  tr_Hash :: string
  tr_IssuedAt :: time

record SecState =
  sc_RequireAuth :: bool
  sc_ProvisionState :: string
  sc_BootstrapTokenHash :: string
  sc_ConsumedBootstrapHash :: string
  sc_TokenHash :: string
  sc_TokenRecords :: "TokenRecord list"
  sc_TLSMode :: string
  sc_CACert :: string
  sc_ServerCert :: string
  sc_ServerKey :: string

definition zero_state :: SecState where
  "zero_state = \<lparr>sc_RequireAuth = False, sc_ProvisionState = [], sc_BootstrapTokenHash = [], sc_ConsumedBootstrapHash = [],
     sc_TokenHash = [], sc_TokenRecords = [], sc_TLSMode = [], sc_CACert = [], sc_ServerCert = [], sc_ServerKey = []\<rparr>"

datatype sec_file = NoFile | Unreadable | Holds SecState

datatype file_write = Written | Broken sec_file

datatype sec_error =
    BootstrapRejected
  | TokenRequired
  | TokenRecordNotFound
  | TLSError string
  | RandFailed
  | SecFileError
  | AdoptionNotFound
  | AdoptionExpired
  | AdoptionRejected
  | AdoptionAlreadyDecided
  | AdoptionTokenInvalid
  | AdoptionTokenConsumed

record SecurityStore =
  sx_State :: SecState
  sx_File :: sec_file
  sx_LocalToken :: string

record ProvisionRequest =
  pq_Token :: string
  pq_TLSMode :: string
  pq_Hosts :: "string list"
  pq_Name :: string

record ProvisionResponse =
  pp_ProvisionState :: string
  pp_TLSMode :: string
  pp_CACert :: string
  pp_RestartRequired :: bool

section \<open>Hashes and the file\<close>

definition token_hash :: "string \<Rightarrow> string" where
  "token_hash token = hex (Sum256 (bytes_of token))"

lemma sha_primes_many: "8 \<le> length sha_primes"
proof -
  let ?p = "\<lambda>n. \<not> list_ex (\<lambda>d. n mod d = 0) [2..<n]"
  have "length (filter ?p [2..<20]) = 8" by code_simp
  moreover have "[2..<312 :: nat] = [2..<20] @ [20..<312]" using upt_add_eq_append [of 2 20 292] by simp
  ultimately show ?thesis by (simp only: sha_primes_def filter_append length_append)
qed

lemma sha_h0_length: "length sha_h0 = 8"
  using sha_primes_many by (simp add: sha_h0_def)

lemma sha_round_length: "length st = 8 \<Longrightarrow> length (sha_round st kw) = 8"
  by (cases "(st, kw)" rule: sha_round.cases) (simp_all add: Let_def)

lemma sha_rounds_length: "length st = 8 \<Longrightarrow> length (foldl sha_round st kws) = 8"
  by (induction kws arbitrary: st) (simp_all add: sha_round_length)

lemma sha_blocks_length: "length h = 8 \<Longrightarrow> length (sha_blocks n h ws) = 8"
  by (induction n h ws rule: sha_blocks.induct) (simp_all add: sha_block_def sha_rounds_length)

lemma concat_word_bytes_length: "length (concat (map word_bytes ws)) = 4 * length ws"
  by (induction ws) (simp_all add: word_bytes_def)

lemma Sum256_length: "length (Sum256 m) = 32"
  by (simp add: Sum256_def Let_def concat_word_bytes_length sha_blocks_length sha_h0_length)

lemma token_hash_length: "length (token_hash t) = 64"
  by (simp add: token_hash_def Sum256_length)

lemma token_hash_nonempty [simp]: "token_hash t \<noteq> []" "[] \<noteq> token_hash t"
  using token_hash_length [of t] by auto

definition verifyHash :: "string \<Rightarrow> string \<Rightarrow> bool" where
  "verifyHash expectedHash token \<longleftrightarrow> expectedHash \<noteq> [] \<and> token \<noteq> [] \<and> expectedHash = token_hash token"

definition GenerateToken :: "byte list option \<Rightarrow> sec_error + string" where
  "GenerateToken rand = (case rand of None \<Rightarrow> Inl RandFailed | Some bs \<Rightarrow> Inr (hex bs))"

definition save_state :: "file_write \<Rightarrow> SecurityStore \<Rightarrow> bool \<times> SecurityStore" where
  "save_state wr s = (case wr of
     Written \<Rightarrow> (True, s\<lparr>sx_File := Holds (sx_State s)\<rparr>)
   | Broken f \<Rightarrow> (False, s\<lparr>sx_File := f\<rparr>))"

section \<open>Starting\<close>

definition migrateLegacyTokenLocked :: "time \<Rightarrow> SecState \<Rightarrow> bool \<times> SecState" where
  "migrateLegacyTokenLocked now st =
     (if sc_TokenRecords st \<noteq> [] \<or> sc_TokenHash st = [] then (False, st)
      else (True, st\<lparr>sc_TokenRecords := [\<lparr>tr_ID = legacyTokenRecordID, tr_Name = defaultTokenRecordName,
              tr_Hash = sc_TokenHash st, tr_IssuedAt = now\<rparr>], sc_TokenHash := []\<rparr>))"

definition adoptBootstrapTokenLocked :: "string \<Rightarrow> SecState \<Rightarrow> bool \<times> SecState" where
  "adoptBootstrapTokenLocked token0 st =
     (let token = TrimSpace token0 in
      if token = [] then (False, st)
      else if verifyHash (sc_BootstrapTokenHash st) token \<or> verifyHash (sc_ConsumedBootstrapHash st) token then (False, st)
      else (True, st\<lparr>sc_RequireAuth := True, sc_ProvisionState := ProvisionStatePendingBootstrap,
             sc_BootstrapTokenHash := token_hash token, sc_ConsumedBootstrapHash := [], sc_TokenHash := [],
             sc_TokenRecords := [], sc_TLSMode := [], sc_CACert := [], sc_ServerCert := [], sc_ServerKey := []\<rparr>))"

definition initial_state :: "string \<Rightarrow> bool \<Rightarrow> SecState" where
  "initial_state bootstrap requireAuth =
     (if requireAuth \<or> TrimSpace bootstrap \<noteq> []
      then zero_state\<lparr>sc_RequireAuth := True, sc_ProvisionState := ProvisionStatePendingBootstrap,
             sc_BootstrapTokenHash := token_hash bootstrap\<rparr>
      else zero_state\<lparr>sc_RequireAuth := requireAuth, sc_ProvisionState := ProvisionStateOpen\<rparr>)"

definition NewStore :: "sec_file \<Rightarrow> string \<Rightarrow> bool \<Rightarrow> time \<Rightarrow> file_write \<Rightarrow> sec_error + SecurityStore" where
  "NewStore f bootstrap requireAuth now wr =
     (case f of
        Unreadable \<Rightarrow> Inl SecFileError
      | Holds st \<Rightarrow>
          let (migrated, st1) = migrateLegacyTokenLocked now st;
              (adopted, st2) = adoptBootstrapTokenLocked bootstrap st1;
              s = \<lparr>sx_State = st2, sx_File = f, sx_LocalToken = []\<rparr>
          in if migrated \<or> adopted
             then (case save_state wr s of (True, s) \<Rightarrow> Inr s | (False, s) \<Rightarrow> Inl SecFileError)
             else Inr s
      | NoFile \<Rightarrow>
          (case save_state wr \<lparr>sx_State = initial_state bootstrap requireAuth, sx_File = f, sx_LocalToken = []\<rparr> of
             (True, s) \<Rightarrow> Inr s | (False, s) \<Rightarrow> Inl SecFileError))"

section \<open>Checking tokens\<close>

definition AuthRequired :: "SecurityStore \<Rightarrow> bool" where
  "AuthRequired s \<longleftrightarrow> sc_RequireAuth (sx_State s) \<or> sc_ProvisionState (sx_State s) = ProvisionStatePendingBootstrap \<or>
     sc_ProvisionState (sx_State s) = ProvisionStateProvisioned"

definition VerifyBootstrap :: "string \<Rightarrow> SecurityStore \<Rightarrow> bool" where
  "VerifyBootstrap token s = verifyHash (sc_BootstrapTokenHash (sx_State s)) token"

definition VerifyTokenPrincipal :: "string \<Rightarrow> SecurityStore \<Rightarrow> TokenRecord option" where
  "VerifyTokenPrincipal token s = find (\<lambda>r. verifyHash (tr_Hash r) token) (sc_TokenRecords (sx_State s))"

definition VerifyToken :: "string \<Rightarrow> SecurityStore \<Rightarrow> bool" where
  "VerifyToken token s \<longleftrightarrow> VerifyTokenPrincipal token s \<noteq> None"

definition SetLocalToken :: "string \<Rightarrow> SecurityStore \<Rightarrow> SecurityStore" where
  "SetLocalToken token s = s\<lparr>sx_LocalToken := token\<rparr>"

definition VerifyLocalToken :: "string \<Rightarrow> SecurityStore \<Rightarrow> bool" where
  "VerifyLocalToken token s \<longleftrightarrow> sx_LocalToken s \<noteq> [] \<and> token \<noteq> [] \<and> sx_LocalToken s = token"

section \<open>Granting and revoking\<close>

definition appendTokenRecordLocked :: "string \<Rightarrow> time \<Rightarrow> string \<Rightarrow> string \<Rightarrow> SecurityStore \<Rightarrow> TokenRecord \<times> SecurityStore" where
  "appendTokenRecordLocked uuid now name0 token s =
     (let name = (if TrimSpace name0 = [] then defaultTokenRecordName else TrimSpace name0);
          r = \<lparr>tr_ID = uuid, tr_Name = name, tr_Hash = token_hash token, tr_IssuedAt = now\<rparr>
      in (r, s\<lparr>sx_State := (sx_State s)\<lparr>sc_TokenRecords := sc_TokenRecords (sx_State s) @ [r]\<rparr>\<rparr>))"

definition hasTokenHashLocked :: "string \<Rightarrow> SecurityStore \<Rightarrow> bool" where
  "hasTokenHashLocked h s \<longleftrightarrow> list_ex (\<lambda>r. tr_Hash r = h) (sc_TokenRecords (sx_State s))"

definition provisionResponseLocked :: "SecurityStore \<Rightarrow> ProvisionResponse" where
  "provisionResponseLocked s = \<lparr>pp_ProvisionState = sc_ProvisionState (sx_State s), pp_TLSMode = sc_TLSMode (sx_State s),
     pp_CACert = sc_CACert (sx_State s), pp_RestartRequired = (sc_TLSMode (sx_State s) = TLSModeAuto)\<rparr>"

text \<open>The TLS material for the hosts of a request: certificate, key and authority, or an error.\<close>

type_synonym tls_material = "string list \<Rightarrow> string + string \<times> string \<times> string"

definition burn_bootstrap :: "string \<Rightarrow> SecState \<Rightarrow> SecState" where
  "burn_bootstrap mode st = st\<lparr>sc_RequireAuth := True, sc_ProvisionState := ProvisionStateProvisioned,
     sc_ConsumedBootstrapHash := sc_BootstrapTokenHash st, sc_BootstrapTokenHash := [],
     sc_TLSMode := (if mode = [] then TLSModeOff else mode)\<rparr>"

definition Provision ::
  "string \<Rightarrow> time \<Rightarrow> tls_material \<Rightarrow> file_write \<Rightarrow> string \<Rightarrow> ProvisionRequest \<Rightarrow> SecurityStore \<Rightarrow> (sec_error + ProvisionResponse) \<times> SecurityStore" where
  "Provision uuid now tls wr bootstrap req s =
     (if TrimSpace (pq_Token req) = [] then (Inl TokenRequired, s)
      else if sc_ProvisionState (sx_State s) = ProvisionStateProvisioned \<and> hasTokenHashLocked (token_hash (pq_Token req)) s
      then (Inr (provisionResponseLocked s), s)
      else if \<not> verifyHash (sc_BootstrapTokenHash (sx_State s)) bootstrap then (Inl BootstrapRejected, s)
      else let (r, s1) = appendTokenRecordLocked uuid now (pq_Name req) (pq_Token req) s;
               s2 = s1\<lparr>sx_State := burn_bootstrap (pq_TLSMode req) (sx_State s1)\<rparr>;
               saved = (\<lambda>s3. case save_state wr s3 of (True, s4) \<Rightarrow> (Inr (provisionResponseLocked s4), s4) | (False, s4) \<Rightarrow> (Inl SecFileError, s4))
           in if pq_TLSMode req = TLSModeAuto
              then (case tls (pq_Hosts req) of
                      Inl e \<Rightarrow> (Inl (TLSError e), s2)
                    | Inr (cert, key, ca) \<Rightarrow> saved (s2\<lparr>sx_State := (sx_State s2)\<lparr>sc_ServerCert := cert, sc_ServerKey := key, sc_CACert := ca\<rparr>\<rparr>))
              else saved s2)"

definition AppendTokenRecord ::
  "string \<Rightarrow> time \<Rightarrow> file_write \<Rightarrow> string \<Rightarrow> string \<Rightarrow> SecurityStore \<Rightarrow> (sec_error + TokenRecord) \<times> SecurityStore" where
  "AppendTokenRecord uuid now wr name token s =
     (if TrimSpace token = [] then (Inl TokenRequired, s)
      else let (r, s1) = appendTokenRecordLocked uuid now name token s
           in case save_state wr s1 of (True, s2) \<Rightarrow> (Inr r, s2) | (False, s2) \<Rightarrow> (Inl SecFileError, s2))"

definition ListTokenRecords :: "SecurityStore \<Rightarrow> TokenRecord list" where
  "ListTokenRecords s = map (\<lambda>r. r\<lparr>tr_Hash := []\<rparr>) (sc_TokenRecords (sx_State s))"

definition RevokeToken :: "file_write \<Rightarrow> string \<Rightarrow> SecurityStore \<Rightarrow> sec_error option \<times> SecurityStore" where
  "RevokeToken wr i s =
     (let kept = filter (\<lambda>r. tr_ID r \<noteq> i) (sc_TokenRecords (sx_State s))
      in if length kept = length (sc_TokenRecords (sx_State s)) then (Some TokenRecordNotFound, s)
         else case save_state wr (s\<lparr>sx_State := (sx_State s)\<lparr>sc_TokenRecords := kept\<rparr>\<rparr>) of
                (True, s1) \<Rightarrow> (None, s1) | (False, s1) \<Rightarrow> (Some SecFileError, s1))"

section \<open>The gate of the API\<close>

text \<open>
  \<^verbatim>\<open>agent/api/security_handler.go\<close>: what the middleware reads of a request, and whether it forwards it and
  on whose behalf.
\<close>

record ApiRequest =
  ar_Path :: string
  ar_Authorization :: string
  ar_AccessToken :: string

record Principal =
  pr_Type :: string
  pr_ID :: string
  pr_Name :: string

definition PrincipalLocal :: string where "PrincipalLocal = ''local''"
definition PrincipalRemote :: string where "PrincipalRemote = ''remote''"

datatype gate_decision = Forward "Principal option" | Unauthorized

definition securityBypassPath :: "string \<Rightarrow> bool" where
  "securityBypassPath path \<longleftrightarrow>
     path = ''/api/security/health'' \<or> path = ''/api/security/provision'' \<or> path = ''/api/security/adoption-requests'' \<or>
     prefix ''/api/security/adoption-requests/'' path \<or> path = ''/api/agents/install.sh'' \<or> path = ''/api/agents/install-binary''"

definition bearerToken :: "ApiRequest \<Rightarrow> string" where
  "bearerToken rq =
     (let header = TrimSpace (ar_Authorization rq)
      in if \<not> prefix ''Bearer '' header then [] else TrimSpace (drop (length ''Bearer '') header))"

definition gate_token :: "ApiRequest \<Rightarrow> string" where
  "gate_token rq = (if bearerToken rq = [] \<and> prefix ''/ws/'' (ar_Path rq) then TrimSpace (ar_AccessToken rq) else bearerToken rq)"

definition withSecurity :: "SecurityStore option \<Rightarrow> ApiRequest \<Rightarrow> gate_decision" where
  "withSecurity store rq =
     (case store of
        None \<Rightarrow> Forward None
      | Some s \<Rightarrow>
          if securityBypassPath (ar_Path rq) then Forward None
          else let token = gate_token rq in
               if VerifyLocalToken token s
               then Forward (Some \<lparr>pr_Type = PrincipalLocal, pr_ID = ''local'', pr_Name = utf8 [230, 156, 172, 230, 156, 186]\<rparr>)
               else case VerifyTokenPrincipal token s of
                      Some r \<Rightarrow> Forward (Some \<lparr>pr_Type = PrincipalRemote, pr_ID = tr_ID r, pr_Name = tr_Name r\<rparr>)
                    | None \<Rightarrow> Unauthorized)"

text \<open>The handlers: the status of the answer, its body, and the store they leave.\<close>

definition provisionSecurity ::
  "string \<Rightarrow> time \<Rightarrow> tls_material \<Rightarrow> file_write \<Rightarrow> ApiRequest \<Rightarrow> ProvisionRequest option \<Rightarrow> SecurityStore \<Rightarrow>
     (nat \<times> ProvisionResponse option) \<times> SecurityStore" where
  "provisionSecurity uuid now tls wr rq body s =
     (case body of
        None \<Rightarrow> ((400, None), s)
      | Some req \<Rightarrow>
          (case Provision uuid now tls wr (bearerToken rq) req s of
             (Inr resp, s1) \<Rightarrow> ((200, Some resp), s1)
           | (Inl BootstrapRejected, s1) \<Rightarrow> ((401, None), s1)
           | (Inl TokenRequired, s1) \<Rightarrow> ((400, None), s1)
           | (Inl _, s1) \<Rightarrow> ((500, None), s1)))"

definition listSecurityTokens :: "SecurityStore \<Rightarrow> (string \<times> string \<times> time) list" where
  "listSecurityTokens s = map (\<lambda>r. (tr_ID r, tr_Name r, tr_IssuedAt r)) (ListTokenRecords s)"

definition revokeSecurityToken :: "file_write \<Rightarrow> string \<Rightarrow> SecurityStore \<Rightarrow> nat \<times> SecurityStore" where
  "revokeSecurityToken wr i s =
     (case RevokeToken wr i s of
        (None, s1) \<Rightarrow> (200, s1)
      | (Some TokenRecordNotFound, s1) \<Rightarrow> (404, s1)
      | (Some _, s1) \<Rightarrow> (500, s1))"

section \<open>Runs\<close>

text \<open>What happens to a running store, and its restart from what the file holds.\<close>

datatype cred_event =
    DoProvision string time tls_material file_write string ProvisionRequest
  | DoAppend string time file_write string string
  | DoRevoke file_write string
  | DoLocal string

fun cred_step :: "cred_event \<Rightarrow> SecurityStore \<Rightarrow> SecurityStore" where
  "cred_step (DoProvision uuid now tls wr b req) s = snd (Provision uuid now tls wr b req s)"
| "cred_step (DoAppend uuid now wr name token) s = snd (AppendTokenRecord uuid now wr name token s)"
| "cred_step (DoRevoke wr i) s = snd (RevokeToken wr i s)"
| "cred_step (DoLocal token) s = SetLocalToken token s"

definition cred_run :: "cred_event list \<Rightarrow> SecurityStore \<Rightarrow> SecurityStore" where
  "cred_run vs s = foldl (\<lambda>s v. cred_step v s) s vs"

lemma cred_run_simps [simp]: "cred_run [] s = s" "cred_run (v # vs) s = cred_run vs (cred_step v s)"
  by (simp_all add: cred_run_def)

end
