(* ===== verification/CredentialClaims.thy ===== *)
theory CredentialClaims
  imports CredentialStore
begin

text \<open>
  What the credential store promises: the records are only appended to by a grant and filtered by a
  revocation, the bootstrap hash of a store only ever disappears, and the state of a store that was written
  is the state a restart finds.
\<close>

section \<open>The ledger of records\<close>

text \<open>
  The interface a granting path relies on: a grant appends one record, that of the token it is given, or
  leaves the ledger alone.
\<close>

locale credential_ledger =
  fixes grant :: "string \<Rightarrow> time \<Rightarrow> file_write \<Rightarrow> string \<Rightarrow> string \<Rightarrow> 's \<Rightarrow> (sec_error + TokenRecord) \<times> 's"
    and holders :: "'s \<Rightarrow> TokenRecord list"
  assumes blank_refused: "TrimSpace token = [] \<Longrightarrow> grant u n w name token s = (Inl TokenRequired, s)"
    and appends: "TrimSpace token \<noteq> [] \<Longrightarrow> \<exists>r. tr_ID r = u \<and> tr_Hash r = token_hash token \<and> holders (snd (grant u n w name token s)) = holders s @ [r]"
    and announces: "grant u n w name token s = (Inr r, s') \<Longrightarrow> holders s' = holders s @ [r] \<and> tr_ID r = u \<and> tr_Hash r = token_hash token"
begin

definition accepted :: "string \<Rightarrow> 's \<Rightarrow> TokenRecord option" where
  "accepted t s = find (\<lambda>r. verifyHash (tr_Hash r) t) (holders s)"

lemma find_append_some: "find P xs = Some x \<Longrightarrow> find P (xs @ ys) = Some x"
  by (induction xs) (auto split: if_splits)

lemma keeps_accepted: "accepted t s = Some r \<Longrightarrow> accepted t (snd (grant u n w name token s)) = Some r"
  using blank_refused [of token u n w name s] appends [of token u n w name s]
  by (cases "TrimSpace token = []") (auto simp: accepted_def find_append_some)

lemma granted_accepted:
  assumes "grant u n w name token s = (Inr r, s')"
  shows "accepted token s' \<noteq> None"
proof -
  have "token \<noteq> []" using assms blank_refused [of token u n w name s] by auto
  with announces [OF assms] show ?thesis by (auto simp: accepted_def find_None_iff verifyHash_def)
qed

lemma grows: "\<exists>rs. holders (snd (grant u n w name token s)) = holders s @ rs \<and> (\<forall>r \<in> set rs. tr_ID r = u \<and> tr_Hash r = token_hash token)"
  using blank_refused [of token u n w name s] appends [of token u n w name s]
  by (cases "TrimSpace token = []") auto

end

definition records :: "SecurityStore \<Rightarrow> TokenRecord list" where
  "records s = sc_TokenRecords (sx_State s)"

lemma save_state_simps [simp]:
  "sx_State (snd (save_state wr s)) = sx_State s" "fst (save_state wr s) = (wr = Written)"
  "sx_LocalToken (snd (save_state wr s)) = sx_LocalToken s"
  "sx_File (snd (save_state wr s)) = (case wr of Written \<Rightarrow> Holds (sx_State s) | Broken f \<Rightarrow> f)"
  by (simp_all add: save_state_def split: file_write.split)

lemma save_state_cases: "save_state wr s = (b, s') \<Longrightarrow> sx_State s' = sx_State s \<and> b = (wr = Written) \<and>
    sx_File s' = (case wr of Written \<Rightarrow> Holds (sx_State s) | Broken f \<Rightarrow> f) \<and> sx_LocalToken s' = sx_LocalToken s"
  by (metis fst_conv save_state_simps snd_conv)

lemma append_record:
  obtains rec where "tr_ID rec = u" "tr_Hash rec = token_hash token"
    "appendTokenRecordLocked u n name token s = (rec, s\<lparr>sx_State := (sx_State s)\<lparr>sc_TokenRecords := sc_TokenRecords (sx_State s) @ [rec]\<rparr>\<rparr>)"
proof
  let ?rec = "fst (appendTokenRecordLocked u n name token s)"
  show "tr_ID ?rec = u" "tr_Hash ?rec = token_hash token"
    "appendTokenRecordLocked u n name token s = (?rec, s\<lparr>sx_State := (sx_State s)\<lparr>sc_TokenRecords := sc_TokenRecords (sx_State s) @ [?rec]\<rparr>\<rparr>)"
    by (simp_all add: appendTokenRecordLocked_def Let_def)
qed

lemma save_state_eq:
  "save_state w s = (w = Written, s\<lparr>sx_File := (case w of Written \<Rightarrow> Holds (sx_State s) | Broken f \<Rightarrow> f)\<rparr>)"
  by (simp add: save_state_def split: file_write.split)

lemma AppendTokenRecord_cases:
  assumes "AppendTokenRecord u n w name token s = (r, s')"
  obtains "TrimSpace token = []" "r = Inl TokenRequired" "s' = s"
  | rec where "TrimSpace token \<noteq> []" "tr_ID rec = u" "tr_Hash rec = token_hash token"
      "sx_State s' = (sx_State s)\<lparr>sc_TokenRecords := sc_TokenRecords (sx_State s) @ [rec]\<rparr>"
      "r = (if w = Written then Inr rec else Inl SecFileError)" "sx_LocalToken s' = sx_LocalToken s"
      "sx_File s' = (case w of Written \<Rightarrow> Holds (sx_State s') | Broken f \<Rightarrow> f)"
proof (cases "TrimSpace token = []")
  case True
  with assms that(1) show ?thesis by (simp add: AppendTokenRecord_def)
next
  case False
  obtain rec where rec: "tr_ID rec = u" "tr_Hash rec = token_hash token"
    "appendTokenRecordLocked u n name token s = (rec, s\<lparr>sx_State := (sx_State s)\<lparr>sc_TokenRecords := sc_TokenRecords (sx_State s) @ [rec]\<rparr>\<rparr>)"
    by (rule append_record)
  with False assms show ?thesis
    by (intro that(2) [of rec]) (auto simp: AppendTokenRecord_def dest!: save_state_cases split: prod.splits bool.splits file_write.splits)
qed

interpretation ledger: credential_ledger AppendTokenRecord records
proof
  fix token u n w name and s :: SecurityStore
  show "TrimSpace token = [] \<Longrightarrow> AppendTokenRecord u n w name token s = (Inl TokenRequired, s)"
    by (simp add: AppendTokenRecord_def)
  show "TrimSpace token \<noteq> [] \<Longrightarrow>
      \<exists>r. tr_ID r = u \<and> tr_Hash r = token_hash token \<and> records (snd (AppendTokenRecord u n w name token s)) = records s @ [r]"
    by (cases "AppendTokenRecord u n w name token s" rule: prod.exhaust) (auto simp: records_def elim!: AppendTokenRecord_cases)
  show "records s' = records s @ [r] \<and> tr_ID r = u \<and> tr_Hash r = token_hash token"
    if "AppendTokenRecord u n w name token s = (Inr r, s')" for r s'
    using that by (auto simp: records_def elim!: AppendTokenRecord_cases split: if_splits)
qed

lemma VerifyTokenPrincipal_accepted: "VerifyTokenPrincipal = ledger.accepted"
  by (intro ext) (simp add: VerifyTokenPrincipal_def ledger.accepted_def records_def)

section \<open>Every outcome of a provision\<close>

text \<open>A grant: one record more, and the bootstrap hash moved to the consumed one.\<close>

definition burnt :: "string \<Rightarrow> ProvisionRequest \<Rightarrow> SecurityStore \<Rightarrow> SecurityStore \<Rightarrow> bool" where
  "burnt u req s s' \<longleftrightarrow>
     (\<exists>rec. tr_ID rec = u \<and> tr_Hash rec = token_hash (pq_Token req) \<and> records s' = records s @ [rec]) \<and>
     sc_BootstrapTokenHash (sx_State s') = [] \<and> sc_ConsumedBootstrapHash (sx_State s') = sc_BootstrapTokenHash (sx_State s) \<and>
     sc_RequireAuth (sx_State s') \<and> sc_ProvisionState (sx_State s') = ProvisionStateProvisioned \<and>
     sc_TokenHash (sx_State s') = sc_TokenHash (sx_State s) \<and> sx_LocalToken s' = sx_LocalToken s"

lemma Provision_cases:
  assumes "Provision u n tls w b req s = (r, s')"
  obtains "TrimSpace (pq_Token req) = []" "r = Inl TokenRequired" "s' = s"
  | "sc_ProvisionState (sx_State s) = ProvisionStateProvisioned" "hasTokenHashLocked (token_hash (pq_Token req)) s"
      "r = Inr (provisionResponseLocked s)" "s' = s"
  | "\<not> verifyHash (sc_BootstrapTokenHash (sx_State s)) b" "r = Inl BootstrapRejected" "s' = s"
  | e where "TrimSpace (pq_Token req) \<noteq> []" "verifyHash (sc_BootstrapTokenHash (sx_State s)) b" "burnt u req s s'"
      "r = Inl (TLSError e)" "sx_File s' = sx_File s"
  | "TrimSpace (pq_Token req) \<noteq> []" "verifyHash (sc_BootstrapTokenHash (sx_State s)) b" "burnt u req s s'"
      "r = (if w = Written then Inr (provisionResponseLocked s') else Inl SecFileError)"
      "sx_File s' = (case w of Written \<Rightarrow> Holds (sx_State s') | Broken f \<Rightarrow> f)"
proof -
  obtain rec where rec: "tr_ID rec = u" "tr_Hash rec = token_hash (pq_Token req)"
    "appendTokenRecordLocked u n (pq_Name req) (pq_Token req) s =
       (rec, s\<lparr>sx_State := (sx_State s)\<lparr>sc_TokenRecords := sc_TokenRecords (sx_State s) @ [rec]\<rparr>\<rparr>)"
    by (rule append_record)
  let ?replay = "sc_ProvisionState (sx_State s) = ProvisionStateProvisioned \<and> hasTokenHashLocked (token_hash (pq_Token req)) s"
  let ?v = "verifyHash (sc_BootstrapTokenHash (sx_State s)) b"
  consider (blank) "TrimSpace (pq_Token req) = []" | (replay) "TrimSpace (pq_Token req) \<noteq> []" ?replay
    | (rejected) "TrimSpace (pq_Token req) \<noteq> []" "\<not> ?replay" "\<not> ?v"
    | (new) "TrimSpace (pq_Token req) \<noteq> []" "\<not> ?replay" ?v by blast
  then show ?thesis
  proof cases
    case blank
    have "(r, s') = (Inl TokenRequired, s)" unfolding assms [symmetric] using blank by (simp add: Provision_def)
    with blank show ?thesis by (intro that(1)) simp_all
  next
    case replay
    have "(r, s') = (Inr (provisionResponseLocked s), s)" unfolding assms [symmetric] using replay by (simp add: Provision_def)
    with replay show ?thesis by (intro that(2)) simp_all
  next
    case rejected
    have "(r, s') = (Inl BootstrapRejected, s)" unfolding assms [symmetric] using rejected by (simp add: Provision_def)
    with rejected show ?thesis by (intro that(3)) simp_all
  next
    case new
    show ?thesis
    proof (cases "pq_TLSMode req = TLSModeAuto \<and> (\<exists>e. tls (pq_Hosts req) = Inl e)")
      case True
      then obtain e where "pq_TLSMode req = TLSModeAuto" "tls (pq_Hosts req) = Inl e" by blast
      then have "Provision u n tls w b req s =
          (Inl (TLSError e), s\<lparr>sx_State := burn_bootstrap (pq_TLSMode req) ((sx_State s)\<lparr>sc_TokenRecords := sc_TokenRecords (sx_State s) @ [rec]\<rparr>)\<rparr>)"
        using new rec(3) by (auto simp: Provision_def Let_def)
      with assms have rs: "r = Inl (TLSError e)"
        "s' = s\<lparr>sx_State := burn_bootstrap (pq_TLSMode req) ((sx_State s)\<lparr>sc_TokenRecords := sc_TokenRecords (sx_State s) @ [rec]\<rparr>)\<rparr>" by simp_all
      have burnt: "burnt u req s s'" unfolding rs(2) using rec(1,2) by (simp add: burnt_def burn_bootstrap_def records_def)
      show ?thesis by (rule that(4) [OF new(1) new(3) burnt rs(1)]) (simp add: rs(2))
    next
      case False
      let ?s1 = "s\<lparr>sx_State := burn_bootstrap (pq_TLSMode req) ((sx_State s)\<lparr>sc_TokenRecords := sc_TokenRecords (sx_State s) @ [rec]\<rparr>)\<rparr>"
      have s1: "burnt u req s ?s1" using rec by (simp add: burnt_def burn_bootstrap_def records_def)
      have "\<exists>st. Provision u n tls w b req s =
          (if w = Written then Inr (provisionResponseLocked (snd (save_state w st))) else Inl SecFileError, snd (save_state w st)) \<and>
        burnt u req s st"
      proof (cases "pq_TLSMode req = TLSModeAuto")
        case True
        with False obtain cert key ca where tls: "tls (pq_Hosts req) = Inr (cert, key, ca)" by (metis obj_sumE prod.exhaust)
        let ?s2 = "?s1\<lparr>sx_State := (sx_State ?s1)\<lparr>sc_ServerCert := cert, sc_ServerKey := key, sc_CACert := ca\<rparr>\<rparr>"
        have "burnt u req s ?s2" using s1 by (simp add: burnt_def records_def)
        moreover have "Provision u n tls w b req s =
            (if w = Written then Inr (provisionResponseLocked (snd (save_state w ?s2))) else Inl SecFileError, snd (save_state w ?s2))"
          using True new rec(3) tls by (cases w) (auto simp: Provision_def Let_def save_state_eq)
        ultimately show ?thesis by blast
      next
        case False
        have "Provision u n tls w b req s =
            (if w = Written then Inr (provisionResponseLocked (snd (save_state w ?s1))) else Inl SecFileError, snd (save_state w ?s1))"
          using False new rec(3) by (cases w) (auto simp: Provision_def Let_def save_state_eq)
        with s1 show ?thesis by blast
      qed
      then obtain st where st: "Provision u n tls w b req s =
          (if w = Written then Inr (provisionResponseLocked (snd (save_state w st))) else Inl SecFileError, snd (save_state w st))"
        "burnt u req s st" by blast
      show ?thesis
      proof (rule that(5))
        have rs: "r = (if w = Written then Inr (provisionResponseLocked (snd (save_state w st))) else Inl SecFileError)"
          "s' = snd (save_state w st)" using st(1) assms by simp_all
        show "burnt u req s s'" using st(2) by (simp add: rs(2) burnt_def records_def)
        show "r = (if w = Written then Inr (provisionResponseLocked s') else Inl SecFileError)" by (simp only: rs)
        show "sx_File s' = (case w of Written \<Rightarrow> Holds (sx_State s') | Broken f \<Rightarrow> f)" by (simp add: rs(2) split: file_write.split)
      qed (use new in simp_all)
    qed
  qed
qed

lemma RevokeToken_cases:
  assumes "RevokeToken w i s = (r, s')"
  obtains "i \<notin> tr_ID ` set (records s)" "r = Some TokenRecordNotFound" "s' = s"
  | "i \<in> tr_ID ` set (records s)" "sx_State s' = (sx_State s)\<lparr>sc_TokenRecords := filter (\<lambda>r. tr_ID r \<noteq> i) (records s)\<rparr>"
      "r = (if w = Written then None else Some SecFileError)" "sx_LocalToken s' = sx_LocalToken s"
      "sx_File s' = (case w of Written \<Rightarrow> Holds (sx_State s') | Broken f \<Rightarrow> f)"
proof -
  have "length (filter P xs) = length xs \<longleftrightarrow> (\<forall>x \<in> set xs. P x)" for P and xs :: "TokenRecord list"
    by (metis filter_True length_filter_less nat_less_le)
  then have kept: "length (filter (\<lambda>r. tr_ID r \<noteq> i) (records s)) = length (records s) \<longleftrightarrow> i \<notin> tr_ID ` set (records s)" by auto
  show ?thesis
  proof (cases "i \<in> tr_ID ` set (records s)")
    case False
    with assms kept show ?thesis by (intro that(1)) (simp_all add: RevokeToken_def records_def Let_def)
  next
    case True
    with assms kept have "(r, s') = (if w = Written then None else Some SecFileError,
        snd (save_state w (s\<lparr>sx_State := (sx_State s)\<lparr>sc_TokenRecords := filter (\<lambda>r. tr_ID r \<noteq> i) (records s)\<rparr>\<rparr>)))"
      by (cases w) (simp_all add: RevokeToken_def records_def Let_def save_state_eq)
    then have rs: "r = (if w = Written then None else Some SecFileError)"
      "s' = snd (save_state w (s\<lparr>sx_State := (sx_State s)\<lparr>sc_TokenRecords := filter (\<lambda>r. tr_ID r \<noteq> i) (records s)\<rparr>\<rparr>))" by simp_all
    show ?thesis by (rule that(2) [OF True _ rs(1)]) (simp_all add: rs(2) split: file_write.split)
  qed
qed

section \<open>Properties\<close>

lemma hash_found: "verifyHash h t \<Longrightarrow> h = token_hash t \<and> t \<noteq> []"
  by (simp add: verifyHash_def)

lemma hashless [simp]: "\<not> verifyHash [] t" "\<not> verifyHash h []"
  by (simp_all add: verifyHash_def)

lemma revoked_keeps_burnt:
  assumes "sc_BootstrapTokenHash (sx_State s) = []"
  shows "sc_BootstrapTokenHash (sx_State (cred_step v s)) = []"
proof (cases v)
  case (DoProvision u n tls w b req)
  with assms show ?thesis
    by (cases "Provision u n tls w b req s" rule: prod.exhaust) (auto elim!: Provision_cases simp: burnt_def)
next
  case (DoAppend u n w name token)
  with assms show ?thesis
    by (cases "AppendTokenRecord u n w name token s" rule: prod.exhaust) (auto elim!: AppendTokenRecord_cases)
next
  case (DoRevoke w i)
  with assms show ?thesis
    by (cases "RevokeToken w i s" rule: prod.exhaust) (auto elim!: RevokeToken_cases)
qed (use assms in \<open>simp add: SetLocalToken_def\<close>)

lemma run_keeps_burnt: "sc_BootstrapTokenHash (sx_State s) = [] \<Longrightarrow> sc_BootstrapTokenHash (sx_State (cred_run vs s)) = []"
  by (induction vs arbitrary: s) (simp_all add: revoked_keeps_burnt)

text \<open>
  C22: A bootstrap token grants one record. After a provision that granted one, even one that then failed to
  make certificates or to write the file, no provision with any bootstrap token, whatever ran in between, grants
  another: it is refused or, for a token on record, answered without a change.
\<close>

theorem bootstrap_single_use:
  assumes "Provision u n tls w b req s = (r, s1)" "records s1 \<noteq> records s"
    and "Provision u' n' tls' w' b' req' (cred_run vs s1) = (r', s2)"
  shows "s2 = cred_run vs s1 \<and> (r' = Inl BootstrapRejected \<or> r' = Inl TokenRequired \<or>
    r' = Inr (provisionResponseLocked s2) \<and> (\<exists>rec. rec \<in> set (records s2) \<and> tr_Hash rec = token_hash (pq_Token req')))"
proof -
  have "burnt u req s s1" using assms(1,2) by (auto elim: Provision_cases)
  then have "sc_BootstrapTokenHash (sx_State (cred_run vs s1)) = []" by (intro run_keeps_burnt) (simp add: burnt_def)
  with assms(3) show ?thesis
    by (auto elim!: Provision_cases simp: hasTokenHashLocked_def list_ex_iff records_def)
qed

definition sample_request :: ProvisionRequest where
  "sample_request = \<lparr>pq_Token = ''tok'', pq_TLSMode = ''off'', pq_Hosts = [], pq_Name = ''desk''\<rparr>"

definition sample_installed :: SecurityStore where
  "sample_installed = \<lparr>sx_State = zero_state\<lparr>sc_RequireAuth := True, sc_ProvisionState := ProvisionStatePendingBootstrap,
     sc_BootstrapTokenHash := token_hash ''boot''\<rparr>, sx_File = NoFile, sx_LocalToken = []\<rparr>"

lemma trim_samples [simp]: "TrimSpace ''tok'' = ''tok''" "TrimSpace ''desk'' = ''desk''" "TrimSpace ''boot'' = ''boot''"
  by (simp_all add: TrimSpace_ascii no_blank_ends_def)

definition sample_record :: TokenRecord where
  "sample_record = \<lparr>tr_ID = ''u1'', tr_Name = ''desk'', tr_Hash = token_hash ''tok'', tr_IssuedAt = 7\<rparr>"

lemma sample_provision:
  "Provision ''u1'' 7 tls Written ''boot'' sample_request sample_installed =
     (Inr \<lparr>pp_ProvisionState = ProvisionStateProvisioned, pp_TLSMode = ''off'', pp_CACert = [], pp_RestartRequired = False\<rparr>,
      \<lparr>sx_State = (burn_bootstrap ''off'' (sx_State sample_installed))\<lparr>sc_TokenRecords := [sample_record]\<rparr>,
       sx_File = Holds ((burn_bootstrap ''off'' (sx_State sample_installed))\<lparr>sc_TokenRecords := [sample_record]\<rparr>), sx_LocalToken = []\<rparr>)"
  by (simp add: Provision_def sample_request_def sample_installed_def verifyHash_def appendTokenRecordLocked_def Let_def
      save_state_eq zero_state_def burn_bootstrap_def provisionResponseLocked_def TLSModeAuto_def TLSModeOff_def sample_record_def)

theorem bootstrap_single_use_witness:
  "snd (Provision ''u2'' 9 (\<lambda>_. Inl []) Written ''boot'' (sample_request\<lparr>pq_Token := ''other''\<rparr>)
     (snd (Provision ''u1'' 7 (\<lambda>_. Inl []) Written ''boot'' sample_request sample_installed))) =
   snd (Provision ''u1'' 7 (\<lambda>_. Inl []) Written ''boot'' sample_request sample_installed)"
proof -
  let ?p = "Provision ''u1'' 7 (\<lambda>_. Inl []) Written ''boot'' sample_request sample_installed"
  let ?q = "Provision ''u2'' 9 (\<lambda>_. Inl []) Written ''boot'' (sample_request\<lparr>pq_Token := ''other''\<rparr>) (cred_run [] (snd ?p))"
  have "records (snd ?p) = [sample_record]" by (simp add: sample_provision records_def)
  moreover have "records sample_installed = []" by (simp add: records_def sample_installed_def zero_state_def)
  ultimately have "records (snd ?p) \<noteq> records sample_installed" by simp
  have "snd ?q = cred_run [] (snd ?p)"
    by (rule conjunct1 [OF bootstrap_single_use [OF prod.collapse [symmetric] \<open>records (snd ?p) \<noteq> records sample_installed\<close> prod.collapse [symmetric]]])
  then show ?thesis by simp
qed

text \<open>Who granted a record: the event with its identifier and its token, and for a provision the right bootstrap token.\<close>

fun grants :: "string \<Rightarrow> cred_event \<Rightarrow> TokenRecord \<Rightarrow> bool" where
  "grants h (DoProvision u n tls w b req) r \<longleftrightarrow> verifyHash h b \<and> tr_ID r = u \<and> tr_Hash r = token_hash (pq_Token req)"
| "grants h (DoAppend u n w name token) r \<longleftrightarrow> tr_ID r = u \<and> tr_Hash r = token_hash token"
| "grants h _ r \<longleftrightarrow> False"

fun revokes :: "string \<Rightarrow> cred_event \<Rightarrow> bool" where
  "revokes i (DoRevoke w j) \<longleftrightarrow> j = i"
| "revokes i _ \<longleftrightarrow> False"

lemma step_bootstrap: "sc_BootstrapTokenHash (sx_State (cred_step v s)) \<in> {[], sc_BootstrapTokenHash (sx_State s)}"
proof (cases v)
  case (DoProvision u n tls w b req)
  then show ?thesis by (cases "Provision u n tls w b req s" rule: prod.exhaust) (auto elim!: Provision_cases simp: burnt_def)
next
  case (DoAppend u n w name token)
  then show ?thesis by (cases "AppendTokenRecord u n w name token s" rule: prod.exhaust) (auto elim!: AppendTokenRecord_cases)
next
  case (DoRevoke w i)
  then show ?thesis by (cases "RevokeToken w i s" rule: prod.exhaust) (auto elim!: RevokeToken_cases)
qed (simp add: SetLocalToken_def)

lemma step_records:
  assumes "r \<in> set (records (cred_step v s))"
  shows "r \<in> set (records s) \<and> \<not> revokes (tr_ID r) v \<or> grants (sc_BootstrapTokenHash (sx_State s)) v r"
proof (cases v)
  case (DoProvision u n tls w b req)
  with assms show ?thesis
    by (cases "Provision u n tls w b req s" rule: prod.exhaust) (auto elim!: Provision_cases simp: burnt_def)
next
  case (DoAppend u n w name token)
  with assms show ?thesis
    by (cases "AppendTokenRecord u n w name token s" rule: prod.exhaust) (auto elim!: AppendTokenRecord_cases simp: records_def)
next
  case (DoRevoke w i)
  with assms show ?thesis
    by (cases "RevokeToken w i s" rule: prod.exhaust) (auto elim!: RevokeToken_cases simp: records_def)
qed (use assms in \<open>simp add: SetLocalToken_def records_def\<close>)

lemma cred_run_snoc: "cred_run (vs @ [v]) s = cred_step v (cred_run vs s)"
  by (simp add: cred_run_def)

lemma run_bootstrap: "sc_BootstrapTokenHash (sx_State (cred_run vs s)) \<in> {[], sc_BootstrapTokenHash (sx_State s)}"
  by (induction vs rule: rev_induct) (use step_bootstrap in \<open>fastforce simp: cred_run_snoc\<close>)+

lemma grants_empty: "grants [] v r \<Longrightarrow> grants h v r"
  by (cases v) simp_all

lemma record_origin:
  "r \<in> set (records (cred_run vs s)) \<Longrightarrow>
     r \<in> set (records s) \<and> list_all (\<lambda>v. \<not> revokes (tr_ID r) v) vs \<or>
     (\<exists>before v after. vs = before @ v # after \<and> grants (sc_BootstrapTokenHash (sx_State s)) v r \<and>
        list_all (\<lambda>v. \<not> revokes (tr_ID r) v) after)"
proof (induction vs rule: rev_induct)
  case (snoc v vs)
  from step_records [OF snoc.prems [unfolded cred_run_snoc]] show ?case
  proof (elim disjE conjE)
    assume "r \<in> set (records (cred_run vs s))" and v: "\<not> revokes (tr_ID r) v"
    from snoc.IH [OF this(1)] show ?thesis
    proof (elim disjE exE conjE)
      fix before w after
      assume "vs = before @ w # after" "grants (sc_BootstrapTokenHash (sx_State s)) w r" "list_all (\<lambda>v. \<not> revokes (tr_ID r) v) after"
      with v show ?thesis by (intro disjI2 exI [of _ before] exI [of _ w] exI [of _ "after @ [v]"]) simp
    qed (use v in simp)
  next
    assume "grants (sc_BootstrapTokenHash (sx_State (cred_run vs s))) v r"
    with run_bootstrap [of vs s] have "grants (sc_BootstrapTokenHash (sx_State s)) v r" by (auto dest: grants_empty)
    then show ?thesis by (intro disjI2 exI [of _ vs] exI [of _ v] exI [of _ "[]"]) simp
  qed
qed simp

text \<open>
  C6: Behind the gate stands a grant. A request forwarded on behalf of a control plane carries a token whose
  record was there at the start, or was granted since, by an append or by a provision with the bootstrap token
  the store started with; and it has not been revoked after that.
\<close>

theorem access_needs_grant:
  assumes "withSecurity (Some (cred_run vs s)) rq = Forward (Some p)" "pr_Type p = PrincipalRemote"
  shows "\<exists>t r. t \<noteq> [] \<and> (t = bearerToken rq \<or> prefix ''/ws/'' (ar_Path rq) \<and> t = TrimSpace (ar_AccessToken rq)) \<and>
    tr_ID r = pr_ID p \<and> tr_Name r = pr_Name p \<and> tr_Hash r = token_hash t \<and>
    (r \<in> set (records s) \<and> list_all (\<lambda>v. \<not> revokes (pr_ID p) v) vs \<or>
     (\<exists>before v after. vs = before @ v # after \<and> grants (sc_BootstrapTokenHash (sx_State s)) v r \<and>
        list_all (\<lambda>v. \<not> revokes (pr_ID p) v) after))"
proof -
  from assms obtain r where f: "VerifyTokenPrincipal (gate_token rq) (cred_run vs s) = Some r" and p: "tr_ID r = pr_ID p" "tr_Name r = pr_Name p"
    by (auto simp: withSecurity_def Let_def PrincipalLocal_def PrincipalRemote_def split: if_splits option.splits)
  from f have r: "r \<in> set (records (cred_run vs s))" "verifyHash (tr_Hash r) (gate_token rq)"
    by (auto simp: VerifyTokenPrincipal_def records_def find_Some_iff)
  show ?thesis
  proof (intro exI [of _ "gate_token rq"] exI [of _ r] conjI)
    show "gate_token rq = bearerToken rq \<or> prefix ''/ws/'' (ar_Path rq) \<and> gate_token rq = TrimSpace (ar_AccessToken rq)"
      by (simp add: gate_token_def)
  qed (use p hash_found [OF r(2)] record_origin [OF r(1)] in simp_all)
qed

definition sample_api :: ApiRequest where
  "sample_api = \<lparr>ar_Path = ''/api/projects'', ar_Authorization = ''Bearer tok'', ar_AccessToken = []\<rparr>"

lemma sample_bearer: "bearerToken sample_api = ''tok''"
proof -
  have "TrimSpace ''Bearer tok'' = ''Bearer tok''" by (simp add: TrimSpace_ascii no_blank_ends_def)
  then show ?thesis by (simp add: bearerToken_def sample_api_def Let_def)
qed

definition sample_provisioned :: SecurityStore where
  "sample_provisioned = snd (Provision ''u1'' 7 (\<lambda>_. Inl []) Written ''boot'' sample_request sample_installed)"

lemma sample_provisioned_state:
  "sx_State sample_provisioned = (burn_bootstrap ''off'' (sx_State sample_installed))\<lparr>sc_TokenRecords := [sample_record]\<rparr>"
  "sx_File sample_provisioned = Holds (sx_State sample_provisioned)" "sx_LocalToken sample_provisioned = []"
  by (simp_all add: sample_provisioned_def sample_provision)

lemma sample_forward:
  "withSecurity (Some sample_provisioned) sample_api = Forward (Some \<lparr>pr_Type = PrincipalRemote, pr_ID = ''u1'', pr_Name = ''desk''\<rparr>)"
proof -
  have "\<not> securityBypassPath (ar_Path sample_api)" by (simp add: securityBypassPath_def sample_api_def)
  moreover have "gate_token sample_api = ''tok''" by (simp add: gate_token_def sample_bearer)
  moreover have "VerifyTokenPrincipal ''tok'' sample_provisioned = Some sample_record"
    by (simp add: VerifyTokenPrincipal_def sample_provisioned_state verifyHash_def) (simp add: sample_record_def)
  ultimately show ?thesis
    by (simp add: withSecurity_def VerifyLocalToken_def sample_provisioned_state sample_record_def)
qed

theorem access_needs_grant_witness:
  "\<exists>r. tr_ID r = ''u1'' \<and> grants (token_hash ''boot'') (DoProvision ''u1'' 7 (\<lambda>_. Inl []) Written ''boot'' sample_request) r"
proof -
  let ?v = "DoProvision ''u1'' 7 (\<lambda>_. Inl []) Written ''boot'' sample_request"
  have "withSecurity (Some (cred_run [?v] sample_installed)) sample_api = Forward (Some \<lparr>pr_Type = PrincipalRemote, pr_ID = ''u1'', pr_Name = ''desk''\<rparr>)"
    using sample_forward by (simp add: sample_provisioned_def)
  from access_needs_grant [OF this] obtain r where "tr_ID r = ''u1''" and
    "r \<in> set (records sample_installed) \<or>
      (\<exists>before v after. [?v] = before @ v # after \<and> grants (sc_BootstrapTokenHash (sx_State sample_installed)) v r)" by auto
  moreover have "records sample_installed = []" "sc_BootstrapTokenHash (sx_State sample_installed) = token_hash ''boot''"
    by (simp_all add: records_def sample_installed_def zero_state_def)
  ultimately show ?thesis by (auto simp: Cons_eq_append_conv)
qed

section \<open>Restarts\<close>

text \<open>An event whose writes and certificates succeed.\<close>

fun settled :: "cred_event \<Rightarrow> bool" where
  "settled (DoProvision u n tls w b req) \<longleftrightarrow> w = Written \<and> \<not> isl (tls (pq_Hosts req))"
| "settled (DoAppend u n w name token) \<longleftrightarrow> w = Written"
| "settled (DoRevoke w i) \<longleftrightarrow> w = Written"
| "settled (DoLocal token) \<longleftrightarrow> True"

text \<open>The file holds the state, which remembers the bootstrap token of the installation.\<close>

definition installed_with :: "string \<Rightarrow> SecurityStore \<Rightarrow> bool" where
  "installed_with b s \<longleftrightarrow> sx_File s = Holds (sx_State s) \<and> sc_TokenHash (sx_State s) = [] \<and>
     (b = [] \<or> sc_BootstrapTokenHash (sx_State s) = token_hash b \<or>
      sc_BootstrapTokenHash (sx_State s) = [] \<and> sc_ConsumedBootstrapHash (sx_State s) = token_hash b)"

lemma settled_tls:
  assumes "Provision u n tls w b req s = (Inl (TLSError e), s')"
  shows "isl (tls (pq_Hosts req))"
  using assms by (auto simp: Provision_def Let_def save_state_def split: if_splits sum.splits prod.splits file_write.splits)

lemma step_installed:
  assumes "installed_with b s" "settled v"
  shows "installed_with b (cred_step v s)"
proof (cases v)
  case (DoProvision u n tls w b' req)
  obtain r s' where p: "Provision u n tls w b' req s = (r, s')" by fastforce
  have "r \<noteq> Inl (TLSError e)" for e using settled_tls [of u n tls w b' req s e s'] p assms(2) DoProvision by auto
  with p assms DoProvision have "installed_with b s'"
    by (cases rule: Provision_cases) (auto simp: installed_with_def burnt_def)
  with p DoProvision show ?thesis by simp
next
  case (DoAppend u n w name token)
  obtain r s' where p: "AppendTokenRecord u n w name token s = (r, s')" by fastforce
  from p assms DoAppend have "installed_with b s'"
    by (cases rule: AppendTokenRecord_cases) (auto simp: installed_with_def)
  with p DoAppend show ?thesis by simp
next
  case (DoRevoke w i)
  obtain r s' where p: "RevokeToken w i s = (r, s')" by fastforce
  from p assms DoRevoke have "installed_with b s'"
    by (cases rule: RevokeToken_cases) (auto simp: installed_with_def)
  with p DoRevoke show ?thesis by simp
qed (use assms in \<open>simp add: installed_with_def SetLocalToken_def\<close>)

lemma run_installed: "installed_with b s \<Longrightarrow> list_all settled vs \<Longrightarrow> installed_with b (cred_run vs s)"
  by (induction vs arbitrary: s) (simp_all add: step_installed)

lemma NewStore_fresh: "NewStore NoFile b ra now Written = Inr s \<Longrightarrow> TrimSpace b = b \<Longrightarrow> installed_with b s"
  by (auto simp: NewStore_def save_state_eq installed_with_def initial_state_def zero_state_def)

lemma NewStore_again:
  assumes "installed_with b s" "TrimSpace b' = [] \<or> TrimSpace b' = b"
  shows "NewStore (sx_File s) b' ra now w = Inr \<lparr>sx_State = sx_State s, sx_File = sx_File s, sx_LocalToken = []\<rparr>"
proof -
  have "migrateLegacyTokenLocked now (sx_State s) = (False, sx_State s)"
    using assms(1) by (simp add: migrateLegacyTokenLocked_def installed_with_def)
  moreover have "adoptBootstrapTokenLocked b' (sx_State s) = (False, sx_State s)"
    using assms by (auto simp: adoptBootstrapTokenLocked_def installed_with_def Let_def verifyHash_def)
  ultimately show ?thesis using assms(1) by (simp add: NewStore_def installed_with_def Let_def)
qed


lemma sample_start:
  "NewStore NoFile ''boot'' False 0 Written = Inr (sample_installed\<lparr>sx_File := Holds (sx_State sample_installed)\<rparr>)"
  by (simp add: NewStore_def save_state_eq sample_installed_def initial_state_def)


text \<open>
  A reinstallation revokes everything. Started with a bootstrap token that is neither the one waiting nor the one
  consumed, the agent drops every credential and all certificate material, writes that, and waits for this token
  alone; when the write fails it does not start.
\<close>

theorem reinstall_revokes_all:
  assumes "TrimSpace b \<noteq> []" "token_hash (TrimSpace b) \<notin> {sc_BootstrapTokenHash st, sc_ConsumedBootstrapHash st}"
  shows "(w \<noteq> Written \<longrightarrow> NewStore (Holds st) b ra now w = Inl SecFileError) \<and>
    (\<exists>s. NewStore (Holds st) b ra now Written = Inr s \<and> (\<forall>t. \<not> VerifyToken t s) \<and> VerifyBootstrap (TrimSpace b) s \<and>
       AuthRequired s \<and> sx_File s = Holds (sx_State s) \<and>
       sc_ServerCert (sx_State s) = [] \<and> sc_ServerKey (sx_State s) = [] \<and> sc_CACert (sx_State s) = [])"
proof -
  have m: "sc_BootstrapTokenHash (snd (migrateLegacyTokenLocked now st)) = sc_BootstrapTokenHash st"
    "sc_ConsumedBootstrapHash (snd (migrateLegacyTokenLocked now st)) = sc_ConsumedBootstrapHash st"
    by (simp_all add: migrateLegacyTokenLocked_def)
  obtain mg st1 where mig: "migrateLegacyTokenLocked now st = (mg, st1)" by fastforce
  with m assms have "adoptBootstrapTokenLocked b st1 = (True, st1\<lparr>sc_RequireAuth := True,
      sc_ProvisionState := ProvisionStatePendingBootstrap, sc_BootstrapTokenHash := token_hash (TrimSpace b),
      sc_ConsumedBootstrapHash := [], sc_TokenHash := [], sc_TokenRecords := [], sc_TLSMode := [], sc_CACert := [],
      sc_ServerCert := [], sc_ServerKey := []\<rparr>)"
    by (auto simp: adoptBootstrapTokenLocked_def Let_def verifyHash_def)
  with mig assms(1) show ?thesis
    by (auto simp: NewStore_def Let_def save_state_eq VerifyToken_def VerifyTokenPrincipal_def VerifyBootstrap_def AuthRequired_def verifyHash_def)
qed

theorem reinstall_revokes_all_witness:
  "\<exists>s. NewStore (Holds (zero_state\<lparr>sc_TokenRecords := [sample_record]\<rparr>)) ''boot'' False 0 Written = Inr s \<and> \<not> VerifyToken ''tok'' s"
  using reinstall_revokes_all [of "''boot''" "zero_state\<lparr>sc_TokenRecords := [sample_record]\<rparr>" Written False 0]
  by (auto simp: zero_state_def)

section \<open>Revoking, and failures\<close>

lemma find_filter_keeps: "find P xs = Some x \<Longrightarrow> Q x \<Longrightarrow> find P (filter Q xs) = Some x"
  by (induction xs) (auto split: if_splits)

lemma find_filter_some: "find P (filter Q xs) = Some x \<Longrightarrow> Q x \<and> P x \<and> x \<in> set xs"
  by (auto simp: find_Some_iff dest: nth_mem)

text \<open>
  Revoking is exact. After a revocation that succeeded the record cannot be used, in this process or after a
  restart; a token that stood for another record stands for the same one as before; and no token is accepted that
  was not.
\<close>

theorem revoke_exact:
  assumes "RevokeToken w i s = (None, s1)" "sc_TokenHash (sx_State s) = []" "TrimSpace b = []"
  shows "\<exists>s2. NewStore (sx_File s1) b ra now w' = Inr s2 \<and> VerifyTokenPrincipal t s2 = VerifyTokenPrincipal t s1 \<and>
    (\<forall>r. VerifyTokenPrincipal t s = Some r \<and> tr_ID r \<noteq> i \<longrightarrow> VerifyTokenPrincipal t s1 = Some r) \<and>
    (\<forall>r. VerifyTokenPrincipal t s1 = Some r \<longrightarrow> tr_ID r \<noteq> i \<and> r \<in> set (records s) \<and> VerifyToken t s)"
proof -
  from assms(1) have rv: "sx_State s1 = (sx_State s)\<lparr>sc_TokenRecords := filter (\<lambda>r. tr_ID r \<noteq> i) (records s)\<rparr>"
    "sx_File s1 = Holds (sx_State s1)"
    by (cases rule: RevokeToken_cases; auto split: if_splits)+
  have "installed_with [] s1" using rv assms(2) by (simp add: installed_with_def)
  from NewStore_again [OF this, of b ra now w'] assms(3)
  have n: "NewStore (sx_File s1) b ra now w' = Inr \<lparr>sx_State = sx_State s1, sx_File = sx_File s1, sx_LocalToken = []\<rparr>" by simp
  show ?thesis
  proof (intro exI conjI allI impI)
    show "NewStore (sx_File s1) b ra now w' = Inr \<lparr>sx_State = sx_State s1, sx_File = sx_File s1, sx_LocalToken = []\<rparr>" by (rule n)
    show "VerifyTokenPrincipal t \<lparr>sx_State = sx_State s1, sx_File = sx_File s1, sx_LocalToken = []\<rparr> = VerifyTokenPrincipal t s1"
      by (simp add: VerifyTokenPrincipal_def)
    fix r
    show "VerifyTokenPrincipal t s1 = Some r" if "VerifyTokenPrincipal t s = Some r \<and> tr_ID r \<noteq> i"
      using that find_filter_keeps [of _ "records s" r "\<lambda>r. tr_ID r \<noteq> i"] by (simp add: VerifyTokenPrincipal_def rv records_def)
    assume "VerifyTokenPrincipal t s1 = Some r"
    then have f: "find (\<lambda>r. verifyHash (tr_Hash r) t) (filter (\<lambda>r. tr_ID r \<noteq> i) (records s)) = Some r"
      by (simp add: VerifyTokenPrincipal_def rv)
    from find_filter_some [OF f] show "tr_ID r \<noteq> i" "r \<in> set (records s)" by simp_all
    from find_filter_some [OF f] show "VerifyToken t s"
      by (auto simp: VerifyToken_def VerifyTokenPrincipal_def records_def find_None_iff)
  qed
qed

theorem revoke_exact_witness:
  "\<exists>s1. RevokeToken Written ''u1'' sample_provisioned = (None, s1) \<and> \<not> VerifyToken ''tok'' s1"
proof -
  let ?s1 = "snd (RevokeToken Written ''u1'' sample_provisioned)"
  have rv: "RevokeToken Written ''u1'' sample_provisioned = (None, ?s1)"
    by (simp add: RevokeToken_def sample_provisioned_state save_state_eq sample_record_def)
  have "sc_TokenHash (sx_State sample_provisioned) = []"
    by (simp add: sample_provisioned_state burn_bootstrap_def sample_installed_def zero_state_def)
  from revoke_exact [OF rv this TrimSpace_Nil, of False 0 Written "''tok''"]
  have "VerifyTokenPrincipal ''tok'' ?s1 \<noteq> Some r" for r
    by (auto simp: records_def sample_provisioned_state sample_record_def)
  with rv show ?thesis by (intro exI [of _ ?s1]) (simp add: VerifyToken_def)
qed

text \<open>
  A provision that could not be written is reported as done when it is tried again. The first answer is an error, the
  file is what the failed write left and the bootstrap token is spent in memory; the same request again, with any
  bootstrap token, is answered with success and still writes nothing.
\<close>

theorem provision_retry_unwritten:
  assumes "Provision u n tls w b req s = (Inl e, s1)" "e = SecFileError \<or> (\<exists>m. e = TLSError m)"
  shows "Provision u' n' tls' w' b' req s1 = (Inr (provisionResponseLocked s1), s1) \<and>
    sx_File s1 = (case e of TLSError m \<Rightarrow> sx_File s | _ \<Rightarrow> (case w of Written \<Rightarrow> Holds (sx_State s1) | Broken f \<Rightarrow> f)) \<and> \<not> VerifyBootstrap b s1"
proof -
  from assms have s1: "burnt u req s s1" "TrimSpace (pq_Token req) \<noteq> []"
    "sx_File s1 = (case e of TLSError m \<Rightarrow> sx_File s | _ \<Rightarrow> (case w of Written \<Rightarrow> Holds (sx_State s1) | Broken f \<Rightarrow> f))"
    by (cases rule: Provision_cases; auto split: if_splits file_write.splits)+
  from s1(1) have "hasTokenHashLocked (token_hash (pq_Token req)) s1"
    by (auto simp: burnt_def hasTokenHashLocked_def records_def)
  with s1(1,2) have "Provision u' n' tls' w' b' req s1 = (Inr (provisionResponseLocked s1), s1)"
    by (simp add: Provision_def burnt_def)
  with s1 show ?thesis by (simp add: burnt_def VerifyBootstrap_def)
qed

theorem provision_retry_unwritten_witness:
  "\<exists>s1. Provision ''u1'' 7 (\<lambda>_. Inl []) (Broken NoFile) ''boot'' sample_request sample_installed = (Inl SecFileError, s1) \<and>
     Provision ''u1'' 7 (\<lambda>_. Inl []) Written ''boot'' sample_request s1 = (Inr (provisionResponseLocked s1), s1) \<and> sx_File s1 = NoFile"
proof -
  let ?s1 = "snd (Provision ''u1'' 7 (\<lambda>_. Inl []) (Broken NoFile) ''boot'' sample_request sample_installed)"
  have p: "Provision ''u1'' 7 (\<lambda>_. Inl []) (Broken NoFile) ''boot'' sample_request sample_installed = (Inl SecFileError, ?s1)"
    by (simp add: Provision_def sample_request_def sample_installed_def verifyHash_def appendTokenRecordLocked_def Let_def
        save_state_eq zero_state_def burn_bootstrap_def TLSModeAuto_def TLSModeOff_def)
  from provision_retry_unwritten [OF p, of "''u1''" 7 "\<lambda>_. Inl []" Written "''boot''"] p show ?thesis
    by (intro exI [of _ ?s1]) simp
qed

end
