(* ===== verification/Adoption.thy ===== *)
theory Adoption
  imports CredentialClaims GoJson "HOL-Library.AList"
begin

text \<open>
  Joining without a credential (\<^verbatim>\<open>agent/security/adoption.go\<close>): requests kept in memory, decided by a
  control plane, whose one-time token is exchanged for a long-term credential of the store. The clock and the
  identifiers and random bytes drawn are arguments. The code takes the UTC wall clock of every reading, which
  drops nothing of what it compares; its times are far from the limits of a duration.
\<close>

section \<open>Names and codes\<close>

definition AdoptionStatePending :: string where "AdoptionStatePending = ''pending''"
definition AdoptionStateApproved :: string where "AdoptionStateApproved = ''approved''"
definition AdoptionStateRejected :: string where "AdoptionStateRejected = ''rejected''"
definition AdoptionStateExpired :: string where "AdoptionStateExpired = ''expired''"

lemma adoption_states [simp]:
  "AdoptionStatePending \<noteq> AdoptionStateApproved" "AdoptionStateApproved \<noteq> AdoptionStatePending"
  "AdoptionStatePending \<noteq> AdoptionStateRejected" "AdoptionStateRejected \<noteq> AdoptionStatePending"
  "AdoptionStatePending \<noteq> AdoptionStateExpired" "AdoptionStateExpired \<noteq> AdoptionStatePending"
  "AdoptionStateApproved \<noteq> AdoptionStateRejected" "AdoptionStateRejected \<noteq> AdoptionStateApproved"
  "AdoptionStateApproved \<noteq> AdoptionStateExpired" "AdoptionStateExpired \<noteq> AdoptionStateApproved"
  "AdoptionStateRejected \<noteq> AdoptionStateExpired" "AdoptionStateExpired \<noteq> AdoptionStateRejected"
  by (simp_all add: AdoptionStatePending_def AdoptionStateApproved_def AdoptionStateRejected_def AdoptionStateExpired_def)

definition AdoptionRequestTTL :: duration where "AdoptionRequestTTL = 10 * minute"
definition AdoptionRateLimitWindow :: duration where "AdoptionRateLimitWindow = 30 * second"
definition AdoptionRateLimitMax :: nat where "AdoptionRateLimitMax = 3"
definition AdoptionNameMaxRunes :: nat where "AdoptionNameMaxRunes = 64"
definition AdoptionPairingCodeLength :: nat where "AdoptionPairingCodeLength = 6"
definition adoptionPairingCodeAlphabet :: string where
  "adoptionPairingCodeAlphabet = ''ABCDEFGHJKLMNPQRSTUVWXYZ23456789''"

definition PairingCode :: "string \<Rightarrow> string" where
  "PairingCode requestID =
     (let sum = Sum256 (bytes_of (TrimSpace requestID))
      in map (\<lambda>i. adoptionPairingCodeAlphabet ! (unat (sum ! i) mod length adoptionPairingCodeAlphabet)) [0..<AdoptionPairingCodeLength])"

text \<open>\<^verbatim>\<open>strings.Map\<close> writes an invalid byte as the replacement rune.\<close>

definition clean_rune :: "string \<Rightarrow> string" where
  "clean_rune u = (if length u = 1 \<and> (code (hd u) < 0x20 \<or> code (hd u) = 0x7f) then '' ''
     else if valid_rune u then u else [CHR 0xEF, CHR 0xBF, CHR 0xBD])"

definition sanitizeAdoptionName :: "string \<Rightarrow> string" where
  "sanitizeAdoptionName name =
     (let replaced = concat (map clean_rune (runes name));
          trimmed = TrimSpace replaced
      in if trimmed = [] then defaultTokenRecordName
         else let rs = runes trimmed;
                  short = (if length rs > AdoptionNameMaxRunes then TrimSpace (concat (take AdoptionNameMaxRunes rs)) else trimmed)
              in if short = [] then defaultTokenRecordName else short)"

section \<open>Requests\<close>

record AdoptionRequest =
  aq_ID :: string
  aq_Name :: string
  aq_PairingCode :: string
  aq_State :: string
  aq_CreatedAt :: time
  aq_ExpiresAt :: time

record adoptionRecord =
  ad_request :: AdoptionRequest
  ad_plaintextToken :: string
  ad_tokenIssued :: bool
  ad_adoptionHash :: string
  ad_exchanged :: bool

record AdoptionManager =
  am_store :: SecurityStore
  am_requests :: "(string \<times> adoptionRecord) list"

definition NewAdoptionManager :: "SecurityStore \<Rightarrow> AdoptionManager" where
  "NewAdoptionManager store = \<lparr>am_store = store, am_requests = []\<rparr>"

definition set_state :: "string \<Rightarrow> adoptionRecord \<Rightarrow> adoptionRecord" where
  "set_state st rec = rec\<lparr>ad_request := (ad_request rec)\<lparr>aq_State := st\<rparr>\<rparr>"

definition put_record :: "string \<Rightarrow> adoptionRecord \<Rightarrow> AdoptionManager \<Rightarrow> AdoptionManager" where
  "put_record i rec m = m\<lparr>am_requests := AList.update i rec (am_requests m)\<rparr>"

definition expired :: "time \<Rightarrow> adoptionRecord \<Rightarrow> bool" where
  "expired now rec \<longleftrightarrow> now > aq_ExpiresAt (ad_request rec)"

definition in_window :: "time \<Rightarrow> adoptionRecord \<Rightarrow> bool" where
  "in_window now rec \<longleftrightarrow> aq_State (ad_request rec) = AdoptionStatePending \<and> \<not> expired now rec \<and>
     time_sub now (aq_CreatedAt (ad_request rec)) \<le> AdoptionRateLimitWindow"

definition pendingCountWithinWindowLocked :: "time \<Rightarrow> AdoptionManager \<Rightarrow> nat" where
  "pendingCountWithinWindowLocked now m = length (filter (\<lambda>(i, rec). in_window now rec) (am_requests m))"

definition evictExpiredLocked :: "time \<Rightarrow> AdoptionManager \<Rightarrow> AdoptionManager" where
  "evictExpiredLocked now m = m\<lparr>am_requests := filter (\<lambda>(i, rec). \<not> expired now rec) (am_requests m)\<rparr>"

definition TryCreate :: "string \<Rightarrow> time \<Rightarrow> string \<Rightarrow> AdoptionManager \<Rightarrow> AdoptionRequest option \<times> AdoptionManager" where
  "TryCreate uuid now name0 m0 =
     (let name = sanitizeAdoptionName name0; m = evictExpiredLocked now m0 in
      if pendingCountWithinWindowLocked now m \<ge> AdoptionRateLimitMax then (None, m)
      else let req = \<lparr>aq_ID = uuid, aq_Name = name, aq_PairingCode = PairingCode uuid, aq_State = AdoptionStatePending,
                      aq_CreatedAt = now, aq_ExpiresAt = now + AdoptionRequestTTL\<rparr>
           in (Some req, put_record uuid \<lparr>ad_request = req, ad_plaintextToken = [], ad_tokenIssued = False, ad_adoptionHash = [], ad_exchanged = False\<rparr> m))"

text \<open>What deciding a request checks first: the record to decide, or the error and the manager it leaves.\<close>

definition decidable_record :: "time \<Rightarrow> string \<Rightarrow> AdoptionManager \<Rightarrow> sec_error \<times> AdoptionManager + adoptionRecord" where
  "decidable_record now i m =
     (case map_of (am_requests m) (TrimSpace i) of
        None \<Rightarrow> Inl (AdoptionNotFound, m)
      | Some rec \<Rightarrow>
          if expired now rec then Inl (AdoptionExpired, put_record (TrimSpace i) (set_state AdoptionStateExpired rec) m)
          else if aq_State (ad_request rec) = AdoptionStatePending then Inr rec
          else if aq_State (ad_request rec) = AdoptionStateApproved then Inl (AdoptionAlreadyDecided, m)
          else if aq_State (ad_request rec) = AdoptionStateRejected then Inl (AdoptionRejected, m)
          else Inl (AdoptionExpired, m))"

definition ApproveAdoption :: "byte list option \<Rightarrow> time \<Rightarrow> string \<Rightarrow> AdoptionManager \<Rightarrow> (sec_error + string) \<times> AdoptionManager" where
  "ApproveAdoption rand now i m =
     (case decidable_record now i m of
        Inl (e, m1) \<Rightarrow> (Inl e, m1)
      | Inr rec \<Rightarrow>
          (case GenerateToken rand of
             Inl e \<Rightarrow> (Inl e, m)
           | Inr token \<Rightarrow> (Inr token, put_record (TrimSpace i)
               ((set_state AdoptionStateApproved rec)\<lparr>ad_plaintextToken := token, ad_adoptionHash := token_hash token\<rparr>) m)))"

definition RejectAdoption :: "time \<Rightarrow> string \<Rightarrow> AdoptionManager \<Rightarrow> sec_error option \<times> AdoptionManager" where
  "RejectAdoption now i m =
     (case decidable_record now i m of
        Inl (e, m1) \<Rightarrow> (Some e, m1)
      | Inr rec \<Rightarrow> (None, put_record (TrimSpace i) (set_state AdoptionStateRejected rec) m))"

definition GetAdoption :: "time \<Rightarrow> string \<Rightarrow> AdoptionManager \<Rightarrow> (sec_error + AdoptionRequest \<times> string) \<times> AdoptionManager" where
  "GetAdoption now i m =
     (case map_of (am_requests m) (TrimSpace i) of
        None \<Rightarrow> (Inl AdoptionNotFound, m)
      | Some rec0 \<Rightarrow>
          let rec = (if (aq_State (ad_request rec0) = AdoptionStatePending \<or> aq_State (ad_request rec0) = AdoptionStateApproved) \<and> expired now rec0
                     then set_state AdoptionStateExpired rec0 else rec0)
          in if aq_State (ad_request rec) \<noteq> AdoptionStateApproved \<or> ad_tokenIssued rec
             then (Inr (ad_request rec, []), put_record (TrimSpace i) rec m)
             else (Inr (ad_request rec, ad_plaintextToken rec),
                   put_record (TrimSpace i) (rec\<lparr>ad_plaintextToken := [], ad_tokenIssued := True\<rparr>) m))"

text \<open>\<open>visit\<close> is the order in which the range over the map visits the requests.\<close>

definition exchange_target :: "string list \<Rightarrow> string \<Rightarrow> AdoptionManager \<Rightarrow> (string \<times> adoptionRecord) option" where
  "exchange_target visit token m =
     (case find (\<lambda>i. case map_of (am_requests m) i of None \<Rightarrow> False | Some rec \<Rightarrow> verifyHash (ad_adoptionHash rec) token) visit of
        None \<Rightarrow> None
      | Some i \<Rightarrow> map_option (Pair i) (map_of (am_requests m) i))"

definition Exchange ::
  "string list \<Rightarrow> byte list option \<Rightarrow> string \<Rightarrow> time \<Rightarrow> time \<Rightarrow> file_write \<Rightarrow> string \<Rightarrow> AdoptionManager \<Rightarrow>
     (sec_error + string \<times> TokenRecord) \<times> AdoptionManager" where
  "Exchange visit rand uuid now issued wr adoptionToken m =
     (let token = TrimSpace adoptionToken in
      if token = [] then (Inl AdoptionTokenInvalid, m)
      else case exchange_target visit token m of
             None \<Rightarrow> (Inl AdoptionTokenInvalid, m)
           | Some (i, rec) \<Rightarrow>
               if expired now rec then (Inl AdoptionExpired, put_record i (set_state AdoptionStateExpired rec) m)
               else if ad_exchanged rec then (Inl AdoptionTokenConsumed, m)
               else let m1 = put_record i (rec\<lparr>ad_exchanged := True\<rparr>) m in
                    case GenerateToken rand of
                      Inl e \<Rightarrow> (Inl e, m1)
                    | Inr longToken \<Rightarrow>
                        (case AppendTokenRecord uuid issued wr (aq_Name (ad_request rec)) longToken (am_store m1) of
                           (Inl e, store) \<Rightarrow> (Inl e, m1\<lparr>am_store := store\<rparr>)
                         | (Inr r, store) \<Rightarrow> (Inr (longToken, r), m1\<lparr>am_store := store\<rparr>)))"

end
