(* ===== verification/AdoptionClaims.thy ===== *)
theory AdoptionClaims
  imports Adoption
begin

text \<open>
  What happens to the requests, as a list of occurrences, and what it pays for: an exchange for an approval, a
  delivery for an approval, a decision for a creation. Each is an instance of one argument, a number of
  records that only the paying occurrence raises and the paid one lowers.
\<close>

section \<open>Runs\<close>

datatype adoption_event =
    Create string time string
  | Grant "byte list option" time string
  | Refuse time string
  | Poll time string
  | Redeem "string list" "byte list option" string time time file_write string

datatype occurrence =
    Nothing
  | Created string time
  | Approved string string
  | Rejected string
  | Delivered string string
  | Exchanged string time string TokenRecord

fun adopt_step :: "adoption_event \<Rightarrow> AdoptionManager \<Rightarrow> occurrence \<times> AdoptionManager" where
  "adopt_step (Create uuid now name) m =
     (case TryCreate uuid now name m of (None, m1) \<Rightarrow> (Nothing, m1) | (Some req, m1) \<Rightarrow> (Created (aq_ID req) now, m1))"
| "adopt_step (Grant rand now i) m =
     (case ApproveAdoption rand now i m of (Inl e, m1) \<Rightarrow> (Nothing, m1) | (Inr token, m1) \<Rightarrow> (Approved (TrimSpace i) token, m1))"
| "adopt_step (Refuse now i) m =
     (case RejectAdoption now i m of (Some e, m1) \<Rightarrow> (Nothing, m1) | (None, m1) \<Rightarrow> (Rejected (TrimSpace i), m1))"
| "adopt_step (Poll now i) m =
     (case GetAdoption now i m of
        (Inl e, m1) \<Rightarrow> (Nothing, m1)
      | (Inr (req, token), m1) \<Rightarrow> (if token = [] then Nothing else Delivered (TrimSpace i) token, m1))"
| "adopt_step (Redeem visit rand uuid now issued wr t) m =
     (case Exchange visit rand uuid now issued wr t m of
        (Inl e, m1) \<Rightarrow> (Nothing, m1)
      | (Inr (longToken, r), m1) \<Rightarrow> (Exchanged (TrimSpace t) now longToken r, m1))"

fun adopt_run :: "adoption_event list \<Rightarrow> AdoptionManager \<Rightarrow> occurrence list \<times> AdoptionManager" where
  "adopt_run [] m = ([], m)"
| "adopt_run (v # vs) m = (let (c, m1) = adopt_step v m; (cs, m2) = adopt_run vs m1 in (c # cs, m2))"

lemma adopt_run_append:
  "adopt_run (vs @ ws) m = (let (cs, m1) = adopt_run vs m; (ds, m2) = adopt_run ws m1 in (cs @ ds, m2))"
  by (induction vs arbitrary: m) (simp_all add: Let_def split: prod.split)

section \<open>Counting records\<close>

definition holding :: "(string \<Rightarrow> adoptionRecord \<Rightarrow> bool) \<Rightarrow> AdoptionManager \<Rightarrow> nat" where
  "holding Q m = length (filter (\<lambda>(i, rec). Q i rec) (am_requests m))"

lemma filter_update:
  "length (filter (\<lambda>(i, rec). Q i rec) (AList.update i rec' al)) + (case map_of al i of None \<Rightarrow> 0 | Some rec \<Rightarrow> of_bool (Q i rec)) =
     length (filter (\<lambda>(i, rec). Q i rec) al) + of_bool (Q i rec')"
  by (induction al) (auto split: option.splits)

lemma holding_put:
  "map_of (am_requests m) i = Some rec \<Longrightarrow> holding Q (put_record i rec' m) + of_bool (Q i rec) = holding Q m + of_bool (Q i rec')"
  using filter_update [of Q i rec' "am_requests m"] by (simp add: holding_def put_record_def)

lemma holding_put_any: "holding Q (put_record i rec' m) \<le> holding Q m + of_bool (Q i rec')"
  using filter_update [of Q i rec' "am_requests m"] by (simp add: holding_def put_record_def)

lemma holding_less: "(\<And>i rec. Q i rec \<Longrightarrow> P i rec) \<Longrightarrow> holding Q m \<le> holding P m"
proof -
  assume Q: "\<And>i rec. Q i rec \<Longrightarrow> P i rec"
  have "length (filter (\<lambda>(i, rec). Q i rec) al) \<le> length (filter (\<lambda>(i, rec). P i rec) al)" for al
    by (induction al) (auto dest: Q)
  then show ?thesis by (simp add: holding_def)
qed

lemma holding_evict: "holding Q (evictExpiredLocked now m) \<le> holding Q m"
proof -
  have "length (filter P (filter R al)) \<le> length (filter P al)" for P R and al :: "(string \<times> adoptionRecord) list"
    by (induction al) auto
  then show ?thesis by (simp add: holding_def evictExpiredLocked_def)
qed

lemma holding_store [simp]: "holding Q (m\<lparr>am_store := s\<rparr>) = holding Q m"
  by (simp add: holding_def)

section \<open>What an operation can do\<close>

text \<open>A record only loses: it keeps its hash and dates, is not pending again, not unexchanged again, and its token goes.\<close>

definition winds_down :: "adoptionRecord \<Rightarrow> adoptionRecord \<Rightarrow> bool" where
  "winds_down rec rec' \<longleftrightarrow> ad_adoptionHash rec' = ad_adoptionHash rec \<and> (ad_exchanged rec \<longrightarrow> ad_exchanged rec') \<and>
     ad_plaintextToken rec' \<in> {[], ad_plaintextToken rec} \<and>
     aq_CreatedAt (ad_request rec') = aq_CreatedAt (ad_request rec) \<and> aq_ExpiresAt (ad_request rec') = aq_ExpiresAt (ad_request rec) \<and>
     (aq_State (ad_request rec') = AdoptionStatePending \<longrightarrow> aq_State (ad_request rec) = AdoptionStatePending)"

definition fresh_record :: "string \<Rightarrow> time \<Rightarrow> string \<Rightarrow> adoptionRecord" where
  "fresh_record u now name =
     \<lparr>ad_request = \<lparr>aq_ID = u, aq_Name = sanitizeAdoptionName name, aq_PairingCode = PairingCode u, aq_State = AdoptionStatePending,
        aq_CreatedAt = now, aq_ExpiresAt = now + AdoptionRequestTTL\<rparr>,
      ad_plaintextToken = [], ad_tokenIssued = False, ad_adoptionHash = [], ad_exchanged = False\<rparr>"

text \<open>The abstract transitions of the manager; every operation of the code takes one of them.\<close>

inductive effect :: "AdoptionManager \<Rightarrow> occurrence \<Rightarrow> AdoptionManager \<Rightarrow> bool" where
  same: "effect m Nothing m"
| evicted: "effect m Nothing (evictExpiredLocked now m)"
| created: "pendingCountWithinWindowLocked now (evictExpiredLocked now m) < AdoptionRateLimitMax \<Longrightarrow>
    effect m (Created u now) (put_record u (fresh_record u now name) (evictExpiredLocked now m))"
| marked: "map_of (am_requests m) i = Some rec \<Longrightarrow> winds_down rec rec' \<Longrightarrow> effect m Nothing (put_record i rec' m)"
| spent: "map_of (am_requests m) i = Some rec \<Longrightarrow> effect m Nothing ((put_record i (rec\<lparr>ad_exchanged := True\<rparr>) m)\<lparr>am_store := st\<rparr>)"
| rejected: "map_of (am_requests m) i = Some rec \<Longrightarrow> aq_State (ad_request rec) = AdoptionStatePending \<Longrightarrow>
    effect m (Rejected i) (put_record i (set_state AdoptionStateRejected rec) m)"
| approved: "map_of (am_requests m) i = Some rec \<Longrightarrow> aq_State (ad_request rec) = AdoptionStatePending \<Longrightarrow>
    effect m (Approved i token) (put_record i
      ((set_state AdoptionStateApproved rec)\<lparr>ad_plaintextToken := token, ad_adoptionHash := token_hash token\<rparr>) m)"
| delivered: "map_of (am_requests m) i = Some rec \<Longrightarrow> aq_State (ad_request rec) = AdoptionStateApproved \<Longrightarrow> ad_plaintextToken rec = token \<Longrightarrow>
    token \<noteq> [] \<Longrightarrow> effect m (Delivered i token) (put_record i (rec\<lparr>ad_plaintextToken := [], ad_tokenIssued := True\<rparr>) m)"
| exchanged: "map_of (am_requests m) i = Some rec \<Longrightarrow> ad_adoptionHash rec = token_hash t \<Longrightarrow> \<not> ad_exchanged rec \<Longrightarrow> \<not> expired now rec \<Longrightarrow>
    effect m (Exchanged t now token r) ((put_record i (rec\<lparr>ad_exchanged := True\<rparr>) m)\<lparr>am_store := st\<rparr>)"

lemma put_same_store: "am_store (put_record i rec m) = am_store m"
  by (simp add: put_record_def)

lemma winds_down_marks:
  "winds_down rec (set_state AdoptionStateExpired rec)" "winds_down rec rec"
  "winds_down rec (rec\<lparr>ad_plaintextToken := [], ad_tokenIssued := True\<rparr>)"
  by (simp_all add: winds_down_def set_state_def)

lemma create_effect: "TryCreate u now name m = (r, m') \<Longrightarrow>
    effect m (case r of None \<Rightarrow> Nothing | Some req \<Rightarrow> Created (aq_ID req) now) m'"
  using effect.created [of now m u name] effect.evicted [of m now]
  by (auto simp: TryCreate_def Let_def fresh_record_def not_le split: if_splits)

lemma decidable_effect:
  "decidable_record now i m = Inl (e, m') \<Longrightarrow> effect m Nothing m'"
  "decidable_record now i m = Inr rec \<Longrightarrow> map_of (am_requests m) (TrimSpace i) = Some rec \<and> aq_State (ad_request rec) = AdoptionStatePending"
  by (auto simp: decidable_record_def split: option.splits if_splits intro: effect.same effect.marked winds_down_marks)

lemma approve_effect: "ApproveAdoption rand now i m = (r, m') \<Longrightarrow>
    effect m (case r of Inl e \<Rightarrow> Nothing | Inr token \<Rightarrow> Approved (TrimSpace i) token) m'"
  by (auto simp: ApproveAdoption_def dest!: decidable_effect split: sum.splits intro: effect.same effect.approved)

lemma reject_effect: "RejectAdoption now i m = (r, m') \<Longrightarrow>
    effect m (case r of Some e \<Rightarrow> Nothing | None \<Rightarrow> Rejected (TrimSpace i)) m'"
  by (auto simp: RejectAdoption_def dest!: decidable_effect split: sum.splits intro: effect.rejected)

lemma get_effect:
  assumes "GetAdoption now i m = (r, m')"
  shows "effect m (case r of Inl e \<Rightarrow> Nothing | Inr (req, token) \<Rightarrow> if token = [] then Nothing else Delivered (TrimSpace i) token) m'"
proof (cases "map_of (am_requests m) (TrimSpace i)")
  case None
  with assms show ?thesis by (auto simp: GetAdoption_def intro: effect.same)
next
  case (Some rec)
  show ?thesis
  proof (cases "aq_State (ad_request rec) = AdoptionStateApproved \<and> \<not> expired now rec \<and> \<not> ad_tokenIssued rec")
    case True
    with assms Some have "r = Inr (ad_request rec, ad_plaintextToken rec)"
      "m' = put_record (TrimSpace i) (rec\<lparr>ad_plaintextToken := [], ad_tokenIssued := True\<rparr>) m"
      by (simp_all add: GetAdoption_def Let_def)
    with True show ?thesis
      using effect.delivered [OF Some] effect.marked [OF Some winds_down_marks(3)] by simp
  next
    case False
    then have "\<exists>rec'. winds_down rec rec' \<and> r = Inr (ad_request rec', []) \<and> m' = put_record (TrimSpace i) rec' m"
      using assms Some winds_down_marks(1,2) [of rec] by (auto simp: GetAdoption_def Let_def set_state_def split: if_splits)
    then show ?thesis using effect.marked [OF Some] by auto
  qed
qed

lemma exchange_target_found:
  assumes "exchange_target visit token m = Some (i, rec)"
  shows "map_of (am_requests m) i = Some rec \<and> ad_adoptionHash rec = token_hash token"
  using assms by (auto simp: exchange_target_def find_Some_iff dest!: hash_found split: option.splits)

lemma exchange_effect:
  assumes "Exchange visit rand u now issued wr t m = (r, m')"
  shows "effect m (case r of Inl e \<Rightarrow> Nothing | Inr (token, rec) \<Rightarrow> Exchanged (TrimSpace t) now token rec) m'"
proof (cases "if TrimSpace t = [] then None else exchange_target visit (TrimSpace t) m")
  case None
  with assms show ?thesis by (auto simp: Exchange_def Let_def intro: effect.same split: if_splits)
next
  case (Some x)
  then obtain i rec where t: "TrimSpace t \<noteq> []" "exchange_target visit (TrimSpace t) m = Some (i, rec)"
    by (cases x) (auto split: if_splits)
  note found = exchange_target_found [OF t(2)]
  show ?thesis
  proof (cases "expired now rec \<or> ad_exchanged rec")
    case True
    with assms t found show ?thesis
      using effect.marked [of m i rec "set_state AdoptionStateExpired rec"] winds_down_marks(1)
      by (auto simp: Exchange_def Let_def intro: effect.same split: if_splits)
  next
    case False
    let ?m1 = "put_record i (rec\<lparr>ad_exchanged := True\<rparr>) m"
    show ?thesis
    proof (cases rand)
      case None
      have "m' = ?m1\<lparr>am_store := am_store m\<rparr>" "r = Inl RandFailed"
        using assms t False None by (auto simp: Exchange_def GenerateToken_def Let_def put_record_def)
      then show ?thesis using effect.spent [of m i rec "am_store m"] found by simp
    next
      case (Some bs)
      let ?a = "AppendTokenRecord u issued wr (aq_Name (ad_request rec)) (hex bs) (am_store m)"
      have "m' = ?m1\<lparr>am_store := snd ?a\<rparr>" "r = (case fst ?a of Inl e \<Rightarrow> Inl e | Inr rc \<Rightarrow> Inr (hex bs, rc))"
        using assms t False Some
        by (simp_all add: Exchange_def GenerateToken_def Let_def put_same_store split: sum.splits prod.splits)
      then show ?thesis
        using effect.spent [of m i rec "snd ?a"] effect.exchanged [of m i rec "TrimSpace t" now "hex bs" _ "snd ?a"] found False
        by (simp split: sum.split)
    qed
  qed
qed

lemma step_effect:
  assumes "adopt_step v m = (c, m')"
  shows "effect m c m'"
proof (cases v)
  case (Create u now name)
  with assms create_effect [of u now name m] show ?thesis by (fastforce split: prod.splits option.splits)
next
  case (Grant rand now i)
  with assms approve_effect [of rand now i m] show ?thesis by (fastforce split: prod.splits sum.splits)
next
  case (Refuse now i)
  with assms reject_effect [of now i m] show ?thesis by (fastforce split: prod.splits option.splits)
next
  case (Poll now i)
  with assms get_effect [of now i m] show ?thesis by (fastforce split: prod.splits sum.splits)
next
  case (Redeem visit rand u now issued wr t)
  with assms exchange_effect [of visit rand u now issued wr t m] show ?thesis by (fastforce split: prod.splits sum.splits)
qed

section \<open>Paying for it\<close>

text \<open>
  \<open>Q\<close> holds of a record from the occurrence that pays to the one paid for: then there are never more of
  these than of those.
\<close>

locale paid_for =
  fixes Q :: "string \<Rightarrow> adoptionRecord \<Rightarrow> bool"
    and gain spend :: "occurrence \<Rightarrow> bool"
  assumes step_pays: "effect m c m' \<Longrightarrow> holding Q m' + of_bool (spend c) \<le> holding Q m + of_bool (gain c)"
begin

lemma run_pays:
  "adopt_run vs m = (cs, m') \<Longrightarrow> holding Q m' + length (filter spend cs) \<le> holding Q m + length (filter gain cs)"
proof (induction vs arbitrary: m cs)
  case (Cons v vs)
  from Cons.prems obtain c m1 ds where
    run: "adopt_step v m = (c, m1)" "adopt_run vs m1 = (ds, m')" "cs = c # ds"
    by (auto simp: Let_def split: prod.splits)
  from Cons.IH [OF run(2)] step_pays [OF step_effect [OF run(1)]] run(3) show ?case by auto
qed simp

lemma paid: "adopt_run vs (NewAdoptionManager s) = (cs, m) \<Longrightarrow> length (filter spend cs) \<le> length (filter gain cs)"
  using run_pays [of vs "NewAdoptionManager s" cs m] by (simp add: holding_def NewAdoptionManager_def)

end

lemma holding_put_down:
  "map_of (am_requests m) i = Some rec \<Longrightarrow> (Q i rec' \<Longrightarrow> Q i rec) \<Longrightarrow> holding Q (put_record i rec' m) \<le> holding Q m"
  using holding_put [of m i rec Q rec'] by (auto simp: of_bool_def split: if_splits)

lemma holding_created:
  "\<not> Q i rec \<Longrightarrow> holding Q (put_record i rec (evictExpiredLocked now m)) \<le> holding Q m"
  using holding_put_any [of Q i rec "evictExpiredLocked now m"] holding_evict [of Q now m] by simp

definition approval_of :: "string \<Rightarrow> occurrence \<Rightarrow> bool" where
  "approval_of h c = (case c of Approved i token \<Rightarrow> token_hash token = h | _ \<Rightarrow> False)"

definition exchange_of :: "string \<Rightarrow> occurrence \<Rightarrow> bool" where
  "exchange_of h c = (case c of Exchanged t now token r \<Rightarrow> token_hash t = h | _ \<Rightarrow> False)"

definition handed_out :: "string \<Rightarrow> occurrence \<Rightarrow> bool" where
  "handed_out token c = (case c of Delivered i t \<Rightarrow> t = token | _ \<Rightarrow> False)"

definition issue_of :: "string \<Rightarrow> occurrence \<Rightarrow> bool" where
  "issue_of token c = (case c of Approved i t \<Rightarrow> t = token | _ \<Rightarrow> False)"

definition creation_of :: "string \<Rightarrow> occurrence \<Rightarrow> bool" where
  "creation_of i c = (case c of Created j now \<Rightarrow> j = i | _ \<Rightarrow> False)"

definition decision_on :: "string \<Rightarrow> occurrence \<Rightarrow> bool" where
  "decision_on i c = (case c of Approved j token \<Rightarrow> j = i | Rejected j \<Rightarrow> j = i | _ \<Rightarrow> False)"

lemmas occurrence_kinds = approval_of_def exchange_of_def handed_out_def issue_of_def creation_of_def decision_on_def

interpretation exchanges: paid_for "\<lambda>i rec. ad_adoptionHash rec = h \<and> h \<noteq> [] \<and> \<not> ad_exchanged rec" "approval_of h" "exchange_of h" for h
proof
  let ?Q = "\<lambda>i rec. ad_adoptionHash rec = h \<and> h \<noteq> [] \<and> \<not> ad_exchanged rec"
  fix m c m'
  assume "effect m c m'"
  then show "holding ?Q m' + of_bool (exchange_of h c) \<le> holding ?Q m + of_bool (approval_of h c)"
  proof cases
    case (evicted now)
    then show ?thesis by (simp add: occurrence_kinds holding_evict)
  next
    case (created now u name)
    then show ?thesis by (simp add: occurrence_kinds holding_created fresh_record_def)
  next
    case (marked i rec rec')
    then show ?thesis by (auto simp: occurrence_kinds winds_down_def intro: holding_put_down)
  next
    case (spent i rec st)
    then show ?thesis by (auto simp: occurrence_kinds intro: holding_put_down)
  next
    case (rejected i rec)
    then show ?thesis by (auto simp: occurrence_kinds set_state_def intro: holding_put_down)
  next
    case (approved i rec token)
    then show ?thesis
      using holding_put_any [of ?Q i "(set_state AdoptionStateApproved rec)\<lparr>ad_plaintextToken := token, ad_adoptionHash := token_hash token\<rparr>" m]
      by (auto simp: occurrence_kinds of_bool_def split: if_splits)
  next
    case (delivered i rec token)
    then show ?thesis by (auto simp: occurrence_kinds intro: holding_put_down)
  next
    case (exchanged i rec t now token r st)
    then show ?thesis
      using holding_put [of m i rec ?Q "rec\<lparr>ad_exchanged := True\<rparr>"] by (auto simp: occurrence_kinds)
  qed (simp add: occurrence_kinds)
qed

interpretation deliveries: paid_for "\<lambda>i rec. ad_plaintextToken rec = token \<and> token \<noteq> []" "issue_of token" "handed_out token" for token
proof
  let ?Q = "\<lambda>i rec. ad_plaintextToken rec = token \<and> token \<noteq> []"
  fix m c m'
  assume "effect m c m'"
  then show "holding ?Q m' + of_bool (handed_out token c) \<le> holding ?Q m + of_bool (issue_of token c)"
  proof cases
    case (evicted now)
    then show ?thesis by (simp add: occurrence_kinds holding_evict)
  next
    case (created now u name)
    then show ?thesis by (simp add: occurrence_kinds holding_created fresh_record_def)
  next
    case (marked i rec rec')
    then show ?thesis by (auto simp: occurrence_kinds winds_down_def intro: holding_put_down)
  next
    case (spent i rec st)
    then show ?thesis by (auto simp: occurrence_kinds intro: holding_put_down)
  next
    case (rejected i rec)
    then show ?thesis by (auto simp: occurrence_kinds set_state_def intro: holding_put_down)
  next
    case (approved i rec t)
    then show ?thesis
      using holding_put_any [of ?Q i "(set_state AdoptionStateApproved rec)\<lparr>ad_plaintextToken := t, ad_adoptionHash := token_hash t\<rparr>" m]
      by (auto simp: occurrence_kinds of_bool_def split: if_splits)
  next
    case (delivered i rec t)
    then show ?thesis
      using holding_put [of m i rec ?Q "rec\<lparr>ad_plaintextToken := [], ad_tokenIssued := True\<rparr>"] by (auto simp: occurrence_kinds)
  next
    case (exchanged i rec t now l r st)
    then show ?thesis by (auto simp: occurrence_kinds intro: holding_put_down)
  qed (simp add: occurrence_kinds)
qed

interpretation decisions: paid_for "\<lambda>j rec. j = i \<and> aq_State (ad_request rec) = AdoptionStatePending" "creation_of i" "decision_on i" for i
proof
  let ?Q = "\<lambda>j rec. j = i \<and> aq_State (ad_request rec) = AdoptionStatePending"
  fix m c m'
  assume "effect m c m'"
  then show "holding ?Q m' + of_bool (decision_on i c) \<le> holding ?Q m + of_bool (creation_of i c)"
  proof cases
    case (evicted now)
    then show ?thesis by (simp add: occurrence_kinds holding_evict)
  next
    case (created now u name)
    then show ?thesis
      using holding_put_any [of ?Q u "fresh_record u now name" "evictExpiredLocked now m"] holding_evict [of ?Q now m]
      by (auto simp: occurrence_kinds of_bool_def split: if_splits)
  next
    case (marked j rec rec')
    then show ?thesis by (auto simp: occurrence_kinds winds_down_def intro: holding_put_down)
  next
    case (spent j rec st)
    then show ?thesis by (auto simp: occurrence_kinds intro: holding_put_down)
  next
    case (rejected j rec)
    then show ?thesis
      using holding_put [of m j rec ?Q "set_state AdoptionStateRejected rec"] by (auto simp: occurrence_kinds set_state_def)
  next
    case (approved j rec token)
    then show ?thesis
      using holding_put [of m j rec ?Q "(set_state AdoptionStateApproved rec)\<lparr>ad_plaintextToken := token, ad_adoptionHash := token_hash token\<rparr>"]
      by (auto simp: occurrence_kinds set_state_def)
  next
    case (delivered j rec token)
    then show ?thesis by (auto simp: occurrence_kinds intro: holding_put_down)
  next
    case (exchanged j rec t now token r st)
    then show ?thesis by (auto simp: occurrence_kinds intro: holding_put_down)
  qed (simp add: occurrence_kinds)
qed

section \<open>Properties of adoption\<close>

text \<open>
  C8: Every step of an adoption happens once. In any run from an empty manager, whatever the order of calls, the
  identifiers and the random bytes, a request is decided at most as often as one was created under its identifier, a
  token is handed out at most as often as an approval issued it, and exchanged at most as often as an approval
  issued a token of its hash: with identifiers and tokens that do not repeat, once each, and only after approval.
\<close>

theorem adoption_one_shot:
  assumes "adopt_run vs (NewAdoptionManager s) = (cs, m)"
  shows "length (filter (decision_on i) cs) \<le> length (filter (creation_of i) cs) \<and>
    length (filter (handed_out token) cs) \<le> length (filter (issue_of token) cs) \<and>
    length (filter (exchange_of (token_hash t)) cs) \<le> length (filter (approval_of (token_hash t)) cs)"
  using decisions.paid [OF assms, of i] deliveries.paid [OF assms, of token] exchanges.paid [OF assms, of "token_hash t"]
  by simp

definition sample_created :: AdoptionManager where
  "sample_created = put_record ''r1'' (fresh_record ''r1'' 0 ''desk'') (NewAdoptionManager sample_provisioned)"

lemma sample_request_created: "TryCreate ''r1'' 0 ''desk'' (NewAdoptionManager sample_provisioned) = (Some (ad_request (fresh_record ''r1'' 0 ''desk'')), sample_created)"
  by (simp add: TryCreate_def Let_def evictExpiredLocked_def NewAdoptionManager_def pendingCountWithinWindowLocked_def
      AdoptionRateLimitMax_def sample_created_def fresh_record_def)

lemma trim_r1 [simp]: "TrimSpace ''r1'' = ''r1''"
  by (simp add: TrimSpace_ascii no_blank_ends_def)

lemma sample_not_expired [simp]: "\<not> expired 5 (fresh_record u 0 name)"
  by (simp add: expired_def fresh_record_def AdoptionRequestTTL_def time_units)

lemma sample_approve:
  "ApproveAdoption (Some [1]) 5 ''r1'' sample_created =
     (Inr (hex [1]), put_record ''r1'' ((set_state AdoptionStateApproved (fresh_record ''r1'' 0 ''desk''))
        \<lparr>ad_plaintextToken := hex [1], ad_adoptionHash := token_hash (hex [1])\<rparr>) sample_created)"
  by (simp add: ApproveAdoption_def decidable_record_def sample_created_def put_record_def NewAdoptionManager_def GenerateToken_def)
    (simp add: fresh_record_def)

theorem adoption_one_shot_witness:
  "\<exists>cs. fst (adopt_run [Create ''r1'' 0 ''desk'', Grant (Some [1]) 5 ''r1'', Refuse 5 ''r1''] (NewAdoptionManager sample_provisioned)) = cs \<and>
     length (filter (decision_on ''r1'') cs) \<le> 1 \<and> length (filter (creation_of ''r1'') cs) = 1 \<and> cs ! 1 = Approved ''r1'' (hex [1])"
proof -
  let ?run = "adopt_run [Create ''r1'' 0 ''desk'', Grant (Some [1]) 5 ''r1'', Refuse 5 ''r1''] (NewAdoptionManager sample_provisioned)"
  let ?m2 = "snd (ApproveAdoption (Some [1]) 5 ''r1'' sample_created)"
  obtain c m where st: "adopt_step (Refuse 5 ''r1'') ?m2 = (c, m)" by fastforce
  then have c: "\<not> creation_of ''r1'' c" by (auto simp: creation_of_def split: prod.splits option.splits)
  have "adopt_step (Create ''r1'' 0 ''desk'') (NewAdoptionManager sample_provisioned) = (Created ''r1'' 0, sample_created)"
    by (simp add: sample_request_created) (simp add: fresh_record_def)
  moreover have "adopt_step (Grant (Some [1]) 5 ''r1'') sample_created = (Approved ''r1'' (hex [1]), ?m2)"
    by (simp add: sample_approve)
  ultimately have r: "?run = ([Created ''r1'' 0, Approved ''r1'' (hex [1]), c], m)"
    using st by (simp del: adopt_step.simps)
  from adoption_one_shot [OF r, of "''r1''"] r c show ?thesis by (simp add: creation_of_def)
qed

lemma set_update_subset: "set (AList.update k v al) \<subseteq> insert (k, v) (set al)"
  by (induction al) auto

text \<open>Each record has the dates of a creation under its identifier.\<close>

definition dated_entry :: "occurrence list \<Rightarrow> string \<times> adoptionRecord \<Rightarrow> bool" where
  "dated_entry cs x \<longleftrightarrow> Created (fst x) (aq_CreatedAt (ad_request (snd x))) \<in> set cs \<and>
     aq_ExpiresAt (ad_request (snd x)) = aq_CreatedAt (ad_request (snd x)) + AdoptionRequestTTL"

definition dated :: "occurrence list \<Rightarrow> AdoptionManager \<Rightarrow> bool" where
  "dated cs m \<longleftrightarrow> (\<forall>x \<in> set (am_requests m). dated_entry cs x)"

lemma dated_more: "dated_entry cs x \<Longrightarrow> set cs \<subseteq> set ds \<Longrightarrow> dated_entry ds x"
  by (auto simp: dated_entry_def)

lemma dated_new: "dated cs m \<Longrightarrow> set cs \<subseteq> set ds \<Longrightarrow> dated_entry ds (i, rec') \<Longrightarrow> dated ds (put_record i rec' m)"
  unfolding dated_def put_record_def by (auto dest!: subsetD [OF set_update_subset] intro: dated_more)

lemma dated_put:
  assumes "dated cs m" "map_of (am_requests m) i = Some rec" "set cs \<subseteq> set ds"
    and "aq_CreatedAt (ad_request rec') = aq_CreatedAt (ad_request rec)" "aq_ExpiresAt (ad_request rec') = aq_ExpiresAt (ad_request rec)"
  shows "dated ds (put_record i rec' m)"
proof (rule dated_new [OF assms(1,3)])
  have "dated_entry cs (i, rec)" using assms(1) map_of_SomeD [OF assms(2)] by (simp add: dated_def)
  with assms(3-) show "dated_entry ds (i, rec')" by (auto simp: dated_entry_def)
qed

lemma dated_store [simp]: "dated cs (m\<lparr>am_store := st\<rparr>) = dated cs m"
  by (simp add: dated_def)

lemma effect_dated:
  assumes "effect m c m'" "dated cs m"
  shows "dated (cs @ [c]) m'"
  using assms(1)
proof cases
  case same
  with assms(2) show ?thesis by (auto simp: dated_def intro: dated_more)
next
  case (evicted now)
  with assms(2) show ?thesis by (auto simp: dated_def evictExpiredLocked_def intro: dated_more)
next
  case (created now u name)
  from assms(2) have "dated cs (evictExpiredLocked now m)" by (auto simp: dated_def evictExpiredLocked_def)
  then have "dated (cs @ [c]) (put_record u (fresh_record u now name) (evictExpiredLocked now m))"
    by (rule dated_new) (use created in \<open>auto simp: dated_entry_def fresh_record_def\<close>)
  with created show ?thesis by simp
next
  case (marked i rec rec')
  with dated_put [OF assms(2) marked(3), of "cs @ [c]" rec'] show ?thesis by (auto simp: winds_down_def)
next
  case (spent i rec st)
  with dated_put [OF assms(2) spent(3), of "cs @ [c]" "rec\<lparr>ad_exchanged := True\<rparr>"] show ?thesis by auto
next
  case (rejected i rec)
  with dated_put [OF assms(2) rejected(3), of "cs @ [c]" "set_state AdoptionStateRejected rec"] show ?thesis by (auto simp: set_state_def)
next
  case (approved i rec token)
  with dated_put [OF assms(2) approved(3), of "cs @ [c]"
      "(set_state AdoptionStateApproved rec)\<lparr>ad_plaintextToken := token, ad_adoptionHash := token_hash token\<rparr>"]
  show ?thesis by (auto simp: set_state_def)
next
  case (delivered i rec token)
  with dated_put [OF assms(2) delivered(3), of "cs @ [c]" "rec\<lparr>ad_plaintextToken := [], ad_tokenIssued := True\<rparr>"] show ?thesis by auto
next
  case (exchanged i rec t now token r st)
  with dated_put [OF assms(2) exchanged(3), of "cs @ [c]" "rec\<lparr>ad_exchanged := True\<rparr>"] show ?thesis by auto
qed

lemma run_dated:
  assumes "adopt_run vs m = (cs, m')" "dated bs m"
  shows "dated (bs @ cs) m' \<and> (\<forall>t now token r. Exchanged t now token r \<in> set cs \<longrightarrow>
    (\<exists>i created. Created i created \<in> set (bs @ cs) \<and> now \<le> created + AdoptionRequestTTL))"
  using assms
proof (induction vs arbitrary: m bs cs)
  case (Cons v vs)
  from Cons.prems(1) obtain c m1 ds where
    run: "adopt_step v m = (c, m1)" "adopt_run vs m1 = (ds, m')" "cs = c # ds"
    by (auto simp: Let_def split: prod.splits)
  note e = step_effect [OF run(1)]
  note ih = Cons.IH [OF run(2) effect_dated [OF e Cons.prems(2)]]
  have first: "\<exists>i created. Created i created \<in> set bs \<and> now \<le> created + AdoptionRequestTTL" if "c = Exchanged t now token r" for t now token r
  proof -
    from e that obtain i rec where rec: "map_of (am_requests m) i = Some rec" "\<not> expired now rec" by (auto elim: effect.cases)
    have "dated_entry bs (i, rec)" using Cons.prems(2) map_of_SomeD [OF rec(1)] by (simp add: dated_def)
    with rec(2) show ?thesis by (intro exI [of _ i] exI [of _ "aq_CreatedAt (ad_request rec)"]) (simp add: dated_entry_def expired_def)
  qed
  show ?case
  proof (intro conjI allI impI)
    show "dated (bs @ cs) m'" using ih by (simp add: run(3))
    fix t now token r
    assume "Exchanged t now token r \<in> set cs"
    then consider "c = Exchanged t now token r" | "Exchanged t now token r \<in> set ds" by (auto simp: run(3))
    then show "\<exists>i created. Created i created \<in> set (bs @ cs) \<and> now \<le> created + AdoptionRequestTTL"
    proof cases
      case 1
      from first [OF this] show ?thesis by auto
    next
      case 2
      with ih obtain i created where "Created i created \<in> set ((bs @ [c]) @ ds)" "now \<le> created + AdoptionRequestTTL" by blast
      then show ?thesis by (intro exI [of _ i] exI [of _ created]) (simp add: run(3))
    qed
  qed
qed simp

text \<open>
  A token is exchanged only while its request lives: within the ten minutes after a creation, however late it was
  approved and handed out.
\<close>

theorem exchange_in_time:
  assumes "adopt_run vs (NewAdoptionManager s) = (cs, m)" "Exchanged t now token r \<in> set cs"
  shows "\<exists>i created. Created i created \<in> set cs \<and> now \<le> created + 10 * minute"
proof -
  have "dated [] (NewAdoptionManager s)" by (simp add: dated_def NewAdoptionManager_def)
  from conjunct2 [OF run_dated [OF assms(1) this]] assms(2) show ?thesis unfolding AdoptionRequestTTL_def append_Nil by blast
qed

theorem exchange_in_time_witness:
  "\<exists>i created now. Created i created \<in> set (fst (adopt_run [Create ''r1'' 0 ''desk'', Grant (Some [1]) 5 ''r1'',
      Redeem [''r1''] (Some [2]) ''u9'' 8 8 Written (hex [1])] (NewAdoptionManager sample_provisioned))) \<and> 8 \<le> created + 10 * minute"
proof -
  let ?m2 = "snd (ApproveAdoption (Some [1]) 5 ''r1'' sample_created)"
  let ?v = "Redeem [''r1''] (Some [2]) ''u9'' 8 8 Written (hex [1])"
  let ?run = "adopt_run [Create ''r1'' 0 ''desk'', Grant (Some [1]) 5 ''r1'', ?v] (NewAdoptionManager sample_provisioned)"
  have t: "TrimSpace (hex [1]) = hex [1]" "TrimSpace (hex [2]) = hex [2]" "hex [1] \<noteq> []" "hex [2] \<noteq> []"
    by (code_simp, code_simp, code_simp, code_simp)
  have m2: "?m2 = \<lparr>am_store = sample_provisioned, am_requests = [(''r1'', (set_state AdoptionStateApproved (fresh_record ''r1'' 0 ''desk''))
      \<lparr>ad_plaintextToken := hex [1], ad_adoptionHash := token_hash (hex [1])\<rparr>)]\<rparr>"
    by (simp only: sample_approve snd_conv) (simp add: sample_created_def put_record_def NewAdoptionManager_def)
  have "\<exists>token r m. adopt_step ?v ?m2 = (Exchanged (hex [1]) 8 token r, m)"
    unfolding m2 using t by (simp add: Exchange_def exchange_target_def put_record_def
        verifyHash_def expired_def set_state_def fresh_record_def AdoptionRequestTTL_def time_units GenerateToken_def AppendTokenRecord_def
        appendTokenRecordLocked_def Let_def save_state_eq)
  then obtain token r m where st: "adopt_step ?v ?m2 = (Exchanged (hex [1]) 8 token r, m)" by blast
  have "adopt_step (Create ''r1'' 0 ''desk'') (NewAdoptionManager sample_provisioned) = (Created ''r1'' 0, sample_created)"
    by (simp add: sample_request_created) (simp add: fresh_record_def)
  moreover have "adopt_step (Grant (Some [1]) 5 ''r1'') sample_created = (Approved ''r1'' (hex [1]), ?m2)"
    by (simp add: sample_approve)
  ultimately have r: "?run = ([Created ''r1'' 0, Approved ''r1'' (hex [1]), Exchanged (hex [1]) 8 token r], m)"
    using st by (simp del: adopt_step.simps)
  from exchange_in_time [OF r, of "hex [1]" 8 token r] r show ?thesis by auto
qed

section \<open>The rate of requests\<close>

fun event_time :: "adoption_event \<Rightarrow> time" where
  "event_time (Create uuid now name) = now"
| "event_time (Grant rand now i) = now"
| "event_time (Refuse now i) = now"
| "event_time (Poll now i) = now"
| "event_time (Redeem visit rand uuid now issued wr t) = now"

lemma created_time: "adopt_step v m = (Created u now, m') \<Longrightarrow> event_time v = now"
  by (cases v) (auto split: prod.splits option.splits sum.splits if_splits)

lemma in_window_earlier: "in_window t' rec \<Longrightarrow> t \<le> t' \<Longrightarrow> in_window t rec"
  by (auto simp: in_window_def expired_def time_sub_def)

lemma in_window_put_down:
  "map_of (am_requests m) i = Some rec \<Longrightarrow> (in_window t rec' \<Longrightarrow> in_window t rec) \<Longrightarrow>
     holding (\<lambda>_. in_window t) (put_record i rec' m) \<le> holding (\<lambda>_. in_window t) m"
  by (rule holding_put_down)

lemma effect_rate:
  assumes "effect m c m'" "\<And>u now. c = Created u now \<Longrightarrow> now \<le> t" "holding (\<lambda>_. in_window t) m \<le> AdoptionRateLimitMax"
  shows "holding (\<lambda>_. in_window t) m' \<le> AdoptionRateLimitMax"
  using assms(1)
proof cases
  case (evicted now)
  with assms(3) holding_evict show ?thesis by (metis le_trans)
next
  case (created now u name)
  with assms(2) have "now \<le> t" by simp
  have "holding (\<lambda>_. in_window t) m' \<le> holding (\<lambda>_. in_window t) (evictExpiredLocked now m) + 1"
    using holding_put_any [of "\<lambda>_. in_window t" u "fresh_record u now name" "evictExpiredLocked now m"] created by (simp add: of_bool_def split: if_splits)
  also have "\<dots> \<le> holding (\<lambda>_. in_window now) (evictExpiredLocked now m) + 1"
    using in_window_earlier \<open>now \<le> t\<close> by (intro add_right_mono holding_less)
  finally show ?thesis using created(3) by (simp add: pendingCountWithinWindowLocked_def holding_def)
next
  case (marked i rec rec')
  then have "in_window t rec' \<longrightarrow> in_window t rec" by (auto simp: in_window_def winds_down_def expired_def)
  with in_window_put_down [OF marked(3), of t rec'] marked(2) assms(3) show ?thesis by simp
next
  case (spent i rec st)
  with in_window_put_down [OF spent(3), of t "rec\<lparr>ad_exchanged := True\<rparr>"] assms(3) show ?thesis by (simp add: in_window_def expired_def)
next
  case (rejected i rec)
  with in_window_put_down [OF rejected(3), of t "set_state AdoptionStateRejected rec"] assms(3) show ?thesis
    by (simp add: in_window_def expired_def set_state_def)
next
  case (approved i rec token)
  with in_window_put_down [OF approved(3), of t "(set_state AdoptionStateApproved rec)\<lparr>ad_plaintextToken := token, ad_adoptionHash := token_hash token\<rparr>"]
    assms(3) show ?thesis by (simp add: in_window_def expired_def set_state_def)
next
  case (delivered i rec token)
  with in_window_put_down [OF delivered(3), of t "rec\<lparr>ad_plaintextToken := [], ad_tokenIssued := True\<rparr>"] assms(3) show ?thesis
    by (simp add: in_window_def expired_def)
next
  case (exchanged i rec u now token r st)
  with in_window_put_down [OF exchanged(3), of t "rec\<lparr>ad_exchanged := True\<rparr>"] assms(3) show ?thesis by (simp add: in_window_def expired_def)
qed (use assms(3) in simp)

lemma run_rate:
  "adopt_run vs m = (cs, m') \<Longrightarrow> list_all (\<lambda>v. event_time v \<le> t) vs \<Longrightarrow> holding (\<lambda>_. in_window t) m \<le> AdoptionRateLimitMax \<Longrightarrow>
     holding (\<lambda>_. in_window t) m' \<le> AdoptionRateLimitMax"
proof (induction vs arbitrary: m cs)
  case (Cons v vs)
  from Cons.prems(1) obtain c m1 ds where run: "adopt_step v m = (c, m1)" "adopt_run vs m1 = (ds, m')"
    by (auto simp: Let_def split: prod.splits)
  have "holding (\<lambda>_. in_window t) m1 \<le> AdoptionRateLimitMax"
    using effect_rate [OF step_effect [OF run(1)] _ Cons.prems(3)] created_time run(1) Cons.prems(2) by fastforce
  with Cons.IH [OF run(2)] Cons.prems(2) show ?case by simp
qed simp

text \<open>
  The rate limit holds. At a time no call of the run is later than, at most three requests are pending that are
  not older than thirty seconds, however the calls of the run interleave.
\<close>

theorem adoption_rate_bounded:
  assumes "adopt_run vs (NewAdoptionManager s) = (cs, m)" "list_all (\<lambda>v. event_time v \<le> t) vs"
  shows "pendingCountWithinWindowLocked t m \<le> 3"
  using run_rate [OF assms, simplified AdoptionRateLimitMax_def]
  by (simp add: holding_def NewAdoptionManager_def pendingCountWithinWindowLocked_def)

theorem adoption_rate_bounded_witness:
  "pendingCountWithinWindowLocked 9 (snd (adopt_run [Create ''a'' 0 [], Create ''b'' 1 [], Create ''c'' 2 [], Create ''d'' 3 []]
     (NewAdoptionManager sample_provisioned))) \<le> 3"
  by (rule adoption_rate_bounded [OF prod.collapse [symmetric]]) simp

section \<open>The credentials of the others\<close>

lemma exchange_store:
  assumes "Exchange visit rand u now issued wr t m = (r, m')"
  shows "am_store m' = am_store m \<and> isl r \<or>
    (\<exists>name token. am_store m' = snd (AppendTokenRecord u issued wr name token (am_store m)) \<and>
      (\<forall>l rc. r = Inr (l, rc) \<longrightarrow> l = token \<and> fst (AppendTokenRecord u issued wr name token (am_store m)) = Inr rc))"
  using assms
  by (auto simp: Exchange_def Let_def put_same_store split: if_splits option.splits sum.splits prod.splits) (metis fst_conv snd_conv sum.inject(2) Inl_Inr_False)+

lemma other_stores:
  "am_store (snd (TryCreate u now name m)) = am_store m"
  "am_store (snd (ApproveAdoption rand now i m)) = am_store m"
  "am_store (snd (RejectAdoption now i m)) = am_store m"
  "am_store (snd (GetAdoption now i m)) = am_store m"
  by (auto simp: TryCreate_def evictExpiredLocked_def ApproveAdoption_def RejectAdoption_def GetAdoption_def decidable_record_def
      put_same_store Let_def split: option.splits sum.splits prod.splits if_splits)

lemma step_store:
  assumes "adopt_step v m = (c, m')"
  shows "am_store m' = am_store m \<and> (\<forall>t now l rc. c \<noteq> Exchanged t now l rc) \<or>
    (\<exists>u n w name token. am_store m' = snd (AppendTokenRecord u n w name token (am_store m)) \<and>
      (\<forall>t now l rc. c = Exchanged t now l rc \<longrightarrow> l = token \<and> fst (AppendTokenRecord u n w name token (am_store m)) = Inr rc))"
proof (cases v)
  case (Create u now name)
  with assms other_stores(1) [of u now name m] show ?thesis by (auto split: prod.splits option.splits)
next
  case (Grant rand now i)
  with assms other_stores(2) [of rand now i m] show ?thesis by (auto split: prod.splits sum.splits)
next
  case (Refuse now i)
  with assms other_stores(3) [of now i m] show ?thesis by (auto split: prod.splits option.splits)
next
  case (Poll now i)
  with assms other_stores(4) [of now i m] show ?thesis by (auto split: prod.splits sum.splits if_splits)
next
  case (Redeem visit rand u now issued wr t)
  obtain r m1 where x: "Exchange visit rand u now issued wr t m = (r, m1)" by fastforce
  from exchange_store [OF x] show ?thesis
  proof
    assume "am_store m1 = am_store m \<and> isl r"
    with assms Redeem x show ?thesis by (auto simp: isl_def)
  next
    assume "\<exists>name token. am_store m1 = snd (AppendTokenRecord u issued wr name token (am_store m)) \<and>
      (\<forall>l rc. r = Inr (l, rc) \<longrightarrow> l = token \<and> fst (AppendTokenRecord u issued wr name token (am_store m)) = Inr rc)"
    then obtain name token where a: "am_store m1 = snd (AppendTokenRecord u issued wr name token (am_store m))"
      "\<And>l rc. r = Inr (l, rc) \<Longrightarrow> l = token \<and> fst (AppendTokenRecord u issued wr name token (am_store m)) = Inr rc" by blast
    have m1: "m' = m1" "c = Exchanged t' now' l rc \<Longrightarrow> r = Inr (l, rc)" for t' now' l rc
      using assms Redeem x by (auto split: sum.splits)
    show ?thesis
      by (intro disjI2 exI [of _ u] exI [of _ issued] exI [of _ wr] exI [of _ name] exI [of _ token]) (use a m1 in blast)
  qed
qed

lemma run_accepted:
  "adopt_run vs m = (cs, m') \<Longrightarrow> ledger.accepted t (am_store m) = Some r \<Longrightarrow> ledger.accepted t (am_store m') = Some r"
proof (induction vs arbitrary: m cs)
  case (Cons v vs)
  from Cons.prems(1) obtain c m1 ds where run: "adopt_step v m = (c, m1)" "adopt_run vs m1 = (ds, m')"
    by (auto simp: Let_def split: prod.splits)
  have "ledger.accepted t (am_store m1) = Some r"
    using step_store [OF run(1)] Cons.prems(2) by (auto intro: ledger.keeps_accepted)
  from Cons.IH [OF run(2) this] show ?case .
qed simp

lemma run_exchanged:
  "adopt_run vs m = (cs, m') \<Longrightarrow> Exchanged t now l rc \<in> set cs \<Longrightarrow> ledger.accepted l (am_store m') \<noteq> None"
proof (induction vs arbitrary: m cs)
  case (Cons v vs)
  from Cons.prems(1) obtain c m1 ds where run: "adopt_step v m = (c, m1)" "adopt_run vs m1 = (ds, m')" "cs = c # ds"
    by (auto simp: Let_def split: prod.splits)
  show ?case
  proof (cases "c = Exchanged t now l rc")
    case True
    with step_store [OF run(1)] obtain u n w name where
      "AppendTokenRecord u n w name l (am_store m) = (Inr rc, am_store m1)" by (metis prod.collapse)
    from ledger.granted_accepted [OF this] run_accepted [OF run(2)] show ?thesis by auto
  next
    case False
    with Cons.prems(2) run(3) Cons.IH [OF run(2)] show ?thesis by auto
  qed
qed simp

text \<open>
  Adoption only adds. Whatever requests are made, decided, polled and exchanged, a token that was accepted is
  accepted for the same control plane afterwards, and the credential of every exchange of the run is.
\<close>

theorem adoption_keeps_credentials:
  assumes "adopt_run vs m = (cs, m')"
  shows "(VerifyTokenPrincipal t (am_store m) = Some r \<longrightarrow> VerifyTokenPrincipal t (am_store m') = Some r) \<and>
    (Exchanged t' now l rc \<in> set cs \<longrightarrow> VerifyToken l (am_store m'))"
  using run_accepted [OF assms, of t r] run_exchanged [OF assms, of t' now l rc]
  by (simp add: VerifyTokenPrincipal_accepted VerifyToken_def)

theorem adoption_keeps_credentials_witness:
  "VerifyTokenPrincipal ''tok'' (am_store (snd (adopt_run [Create ''r1'' 0 ''desk'', Grant (Some [1]) 5 ''r1'',
      Redeem [''r1''] (Some [2]) ''u9'' 8 8 (Broken NoFile) (hex [1])] (NewAdoptionManager sample_provisioned)))) = Some sample_record"
proof -
  have "VerifyTokenPrincipal ''tok'' (am_store (NewAdoptionManager sample_provisioned)) = Some sample_record"
    by (simp add: NewAdoptionManager_def VerifyTokenPrincipal_def sample_provisioned_state verifyHash_def) (simp add: sample_record_def)
  then show ?thesis using adoption_keeps_credentials [OF prod.collapse [symmetric]] by blast
qed

section \<open>Names\<close>

lemma strip_set: "set (strip ws s) \<subseteq> set s"
  using strip_suffix [of ws s] by (rule set_mono_suffix)

lemma TrimSpace_set: "set (TrimSpace s) \<subseteq> set s"
  using strip_set [of "map rev white_runes" "rev (strip white_runes s)"] strip_set [of white_runes s] by (simp add: TrimSpace_def)

lemma TrimSpace_all: "list_all P s \<Longrightarrow> list_all P (TrimSpace s)"
  using TrimSpace_set [of s] by (auto simp: list_all_iff)

lemma TrimSpace_length: "length (TrimSpace s) \<le> length s"
  using suffix_length_le [OF strip_suffix [of "map rev white_runes" "rev (strip white_runes s)"]] suffix_length_le [OF strip_suffix [of white_runes s]]
  by (simp add: TrimSpace_def)

definition printable :: "char \<Rightarrow> bool" where
  "printable c \<longleftrightarrow> 0x20 \<le> code c \<and> code c \<noteq> 0x7f"

lemma high_printable: "0x80 \<le> code c \<Longrightarrow> printable c"
  by (simp add: printable_def)

lemma valid_rune_printable:
  assumes "valid_rune u" "\<not> (length u = 1 \<and> (code (hd u) < 0x20 \<or> code (hd u) = 0x7f))"
  shows "list_all printable u"
proof -
  from assms(1) obtain c r where u: "u = c # r" and len: "rune_len (c # r) = Suc (length r)"
    by (auto simp: valid_rune_def neq_Nil_conv)
  have need: "rune_need (code c) = Suc (length r)" using rune_len_hd [of c r] len by simp
  show ?thesis
  proof (cases r)
    case Nil
    with assms(2) u show ?thesis by (simp add: printable_def)
  next
    case (Cons d r')
    with need have "0x80 \<le> code c" by (auto simp: rune_need_def split: if_splits)
    moreover from len need Cons have "rune_second (code c) d" "list_all (cont 0x80 0xBF) r'" by (auto simp: Let_def split: if_splits)
    then have "0x80 \<le> code d" "list_all (\<lambda>c. 0x80 \<le> code c) r'"
      by (auto simp: rune_second_def cont_def list_all_iff split: if_splits)
    ultimately show ?thesis using u Cons by (auto simp: list_all_iff intro: high_printable)
  qed
qed

lemma clean_rune_printable: "list_all printable (clean_rune u)"
  using valid_rune_printable [of u] by (auto simp: clean_rune_def printable_def)

lemma rune_len_bound: "rune_len s \<le> 4"
  by (cases s) (auto simp: Let_def rune_need_def)

lemma runes_short: "u \<in> set (runes s) \<Longrightarrow> length u \<le> 4"
proof (induction s rule: runes.induct)
  case (2 c s)
  have "max 1 (rune_len (c # s)) \<le> 4" using rune_len_bound [of "c # s"] by simp
  then show ?case using 2 by (auto simp: runes.simps(2) Let_def simp del: rune_len.simps)
qed simp

lemma concat_short: "(\<And>u. u \<in> set us \<Longrightarrow> length u \<le> 4) \<Longrightarrow> length (concat us) \<le> 4 * length us"
proof (induction us)
  case (Cons u us)
  then have "length u \<le> 4" "length (concat us) \<le> 4 * length us" by simp_all
  then show ?case by simp
qed simp

lemma default_name_safe: "defaultTokenRecordName \<noteq> []" "length defaultTokenRecordName \<le> 256" "list_all printable defaultTokenRecordName"
  by (simp_all add: defaultTokenRecordName_def utf8_def printable_def)

text \<open>
  The name an anonymous caller reports is harmless to store and to log: whatever its bytes, what is kept of it is not
  empty, has no control byte, so no line break, and at most 256 bytes, those of 64 runes.
\<close>

theorem adoption_name_safe:
  "sanitizeAdoptionName name \<noteq> [] \<and> length (sanitizeAdoptionName name) \<le> 256 \<and> list_all printable (sanitizeAdoptionName name)"
proof -
  let ?t = "TrimSpace (concat (map clean_rune (runes name)))"
  let ?s = "if length (runes ?t) > 64 then TrimSpace (concat (take 64 (runes ?t))) else ?t"
  have "list_all printable (concat (map clean_rune (runes name)))"
    using clean_rune_printable by (auto simp: list_all_iff)
  then have t: "list_all printable ?t" by (rule TrimSpace_all)
  have sub: "set (concat (take 64 (runes ?t))) \<subseteq> set ?t"
    by (metis concat_append append_take_drop_id concat_runes set_append sup_ge1)
  then have "list_all printable (concat (take 64 (runes ?t)))" using t by (auto simp: list_all_iff)
  then have "list_all printable (TrimSpace (concat (take 64 (runes ?t))))" by (rule TrimSpace_all)
  with t have p: "list_all printable ?s" by simp
  have short: "length (concat us) \<le> 256" if "set us \<subseteq> set (runes ?t)" "length us \<le> 64" for us
    using concat_short [of us] runes_short [of _ ?t] that by fastforce
  have "length (TrimSpace (concat (take 64 (runes ?t)))) \<le> 256"
    using short [of "take 64 (runes ?t)"] TrimSpace_length [of "concat (take 64 (runes ?t))"] by (simp add: set_take_subset)
  then have l: "length ?s \<le> 256" using short [of "runes ?t"] by (simp add: concat_runes)
  have "sanitizeAdoptionName name = (if ?t = [] \<or> ?s = [] then defaultTokenRecordName else ?s)"
    by (simp add: sanitizeAdoptionName_def Let_def AdoptionNameMaxRunes_def)
  with p l default_name_safe show ?thesis by presburger
qed

end
