(* ===== verification/HostKeys.thy ===== *)
theory HostKeys
  imports Sha256
begin

text \<open>
  Pins of SSH host keys (\<^verbatim>\<open>agent/tunnel/tunnel.go\<close>): the raw base64 of \<^verbatim>\<open>encoding/base64\<close>, the
  canonical form of a fingerprint, the verifier the SSH handshake calls back, the client configuration and
  the production dialer. The SSH library is not part of the repository: what it computes (the fingerprint of
  a key, the parsed private key, the outcome of a handshake) is an argument.
\<close>

section \<open>Base64 without padding\<close>

definition b64_alphabet :: string where
  "b64_alphabet = ''ABCDEFGHIJKLMNOPQRSTUVWXYZabcdefghijklmnopqrstuvwxyz0123456789+/''"

definition b64_char :: "nat \<Rightarrow> char" where
  "b64_char n = b64_alphabet ! n"

definition b64_digit :: "char \<Rightarrow> nat option" where
  "b64_digit c = find_index (\<lambda>x. x = c) b64_alphabet"

text \<open>\<^verbatim>\<open>RawStdEncoding.EncodeToString\<close>, three bytes at a time.\<close>

fun b64_encode :: "byte list \<Rightarrow> string" where
  "b64_encode [] = []"
| "b64_encode [a] = (let n = unat a * 16 in [b64_char (n div 64), b64_char (n mod 64)])"
| "b64_encode [a, b] =
     (let n = (unat a * 256 + unat b) * 4 in [b64_char (n div 4096), b64_char (n div 64 mod 64), b64_char (n mod 64)])"
| "b64_encode (a # b # c # r) =
     (let n = unat a * 65536 + unat b * 256 + unat c
      in [b64_char (n div 262144), b64_char (n div 4096 mod 64), b64_char (n div 64 mod 64), b64_char (n mod 64)]) @ b64_encode r"

text \<open>
  \<^verbatim>\<open>RawStdEncoding.Strict().DecodeString\<close>: line breaks are skipped, every other character has to be of
  the alphabet (a padding character is not), and the bits left over at the end have to be zero.
\<close>

fun b64_groups :: "nat list \<Rightarrow> byte list option" where
  "b64_groups [] = Some []"
| "b64_groups [p] = None"
| "b64_groups [p, q] = (let n = p * 64 + q in if n mod 16 = 0 then Some [of_nat (n div 16)] else None)"
| "b64_groups [p, q, r] =
     (let n = p * 4096 + q * 64 + r in if n mod 4 = 0 then Some [of_nat (n div 1024), of_nat (n div 4 mod 256)] else None)"
| "b64_groups (p # q # r # t # rest) =
     (let n = p * 262144 + q * 4096 + r * 64 + t
      in map_option (\<lambda>bs. [of_nat (n div 65536), of_nat (n div 256 mod 256), of_nat (n mod 256)] @ bs) (b64_groups rest))"

definition b64_decode :: "string \<Rightarrow> byte list option" where
  "b64_decode s =
     (let digits = map b64_digit (filter (\<lambda>c. c \<noteq> CHR 0x0A \<and> c \<noteq> CHR 0x0D) s)
      in if None \<in> set digits then None else b64_groups (map the digits))"

lemma b64_table:
  "list_all (\<lambda>n. b64_digit (b64_char n) = Some n \<and> b64_char n \<noteq> CHR 0x0A \<and> b64_char n \<noteq> CHR 0x0D \<and>
     0x20 < (of_char (b64_char n) :: nat) \<and> (of_char (b64_char n) :: nat) < 0x80) [0..<64]"
  by code_simp

lemma b64_char [simp]:
  assumes "n < 64"
  shows "b64_digit (b64_char n) = Some n" "b64_char n \<noteq> CHR 0x0A" "b64_char n \<noteq> CHR 0x0D"
    "0x20 < (of_char (b64_char n) :: nat)" "(of_char (b64_char n) :: nat) < 0x80"
  using b64_table assms by (auto simp: list_all_iff)

fun b64_digits :: "byte list \<Rightarrow> nat list" where
  "b64_digits [] = []"
| "b64_digits [a] = (let n = unat a * 16 in [n div 64, n mod 64])"
| "b64_digits [a, b] = (let n = (unat a * 256 + unat b) * 4 in [n div 4096, n div 64 mod 64, n mod 64])"
| "b64_digits (a # b # c # r) =
     (let n = unat a * 65536 + unat b * 256 + unat c
      in [n div 262144, n div 4096 mod 64, n div 64 mod 64, n mod 64]) @ b64_digits r"

lemma b64_encode_digits: "b64_encode bs = map b64_char (b64_digits bs)"
  by (induction bs rule: b64_encode.induct) (simp_all add: Let_def)

lemma b64_digits_bound: "list_all (\<lambda>n. n < 64) (b64_digits bs)"
proof (induction bs rule: b64_encode.induct)
  case (2 a)
  then show ?case using unat_byte [of a] by (simp add: Let_def)
next
  case (3 a b)
  then show ?case using unat_byte [of a] unat_byte [of b] by (simp add: Let_def)
next
  case (4 a b c r)
  then show ?case using unat_byte [of a] unat_byte [of b] unat_byte [of c] by (simp add: Let_def)
qed simp

lemma b64_join:
  fixes n :: nat
  shows "n div 4096 * 4096 + n div 64 mod 64 * 64 + n mod 64 = n"
    and "n div 262144 * 262144 + n div 4096 mod 64 * 4096 + n div 64 mod 64 * 64 + n mod 64 = n"
proof -
  let ?m = "n div 64" and ?l = "n div 64 div 64"
  have d: "n div 4096 = ?l" "n div 262144 = ?l div 64" by (simp_all add: div_mult2_eq [symmetric])
  have n: "?m * 64 + n mod 64 = n" "?l * 64 + ?m mod 64 = ?m" "?l div 64 * 64 + ?l mod 64 = ?l"
    by (rule div_mult_mod_eq)+
  from n(1,2) show "n div 4096 * 4096 + n div 64 mod 64 * 64 + n mod 64 = n"
    unfolding d by linarith
  from n show "n div 262144 * 262144 + n div 4096 mod 64 * 4096 + n div 64 mod 64 * 64 + n mod 64 = n"
    unfolding d by linarith
qed

lemma b64_split:
  fixes a b c :: nat
  assumes "b < 256" "c < 256"
  shows "(a * 256 + b) * 4 div 1024 = a" "(a * 256 + b) * 4 div 4 mod 256 = b" "(a * 256 + b) * 4 mod 4 = 0"
    and "(a * 65536 + b * 256 + c) div 65536 = a" "(a * 65536 + b * 256 + c) div 256 mod 256 = b"
    and "(a * 65536 + b * 256 + c) mod 256 = c"
proof -
  have "(a * 256 + b) * 4 div 1024 = (a * 256 + b) * 4 div 4 div 256" by (simp only: div_mult2_eq [symmetric]) simp
  with assms show "(a * 256 + b) * 4 div 1024 = a" by simp
  show "(a * 256 + b) * 4 div 4 mod 256 = b" "(a * 256 + b) * 4 mod 4 = 0" using assms by simp_all
  let ?n = "a * 65536 + b * 256 + c"
  have n: "?n = (a * 256 + b) * 256 + c" by simp
  have m: "?n mod 256 = c" unfolding n using assms(2) by (simp only: mod_mult_self3 mod_less)
  have d: "?n div 256 = a * 256 + b" unfolding n using assms(2) by simp
  have "?n div 65536 = ?n div 256 div 256" by (simp only: div_mult2_eq [symmetric]) simp
  with d assms show "?n div 65536 = a" by simp
  from d assms show "?n div 256 mod 256 = b" by simp
  from m show "?n mod 256 = c" .
qed

lemma b64_groups_digits: "b64_groups (b64_digits bs) = Some bs"
proof (induction bs rule: b64_encode.induct)
  case (2 a)
  have n: "unat a * 16 div 64 * 64 + unat a * 16 mod 64 = unat a * 16" by (rule div_mult_mod_eq)
  show ?case unfolding b64_digits.simps Let_def b64_groups.simps n by simp
next
  case (3 a b)
  note sp = b64_split(1-3) [OF unat_byte [of b] unat_byte [of b], of "unat a"]
  show ?case unfolding b64_digits.simps Let_def b64_groups.simps b64_join sp by simp
next
  case (4 a b c r)
  note sp = b64_split(4-6) [OF unat_byte [of b] unat_byte [of c], of "unat a"]
  show ?case unfolding b64_digits.simps Let_def append_Cons append_Nil b64_groups.simps b64_join sp 4 by simp
qed simp

lemma b64_decode_encode: "b64_decode (b64_encode bs) = Some bs"
proof -
  have k: "filter (\<lambda>c. c \<noteq> CHR 0x0A \<and> c \<noteq> CHR 0x0D) (map b64_char ds) = map b64_char ds"
    "map b64_digit (map b64_char ds) = map Some ds" if "list_all (\<lambda>n. n < 64) ds" for ds
    using that by (induction ds) simp_all
  note d = k [OF b64_digits_bound [of bs]]
  have "None \<notin> set (map Some (b64_digits bs))" by auto
  then show ?thesis unfolding b64_decode_def b64_encode_digits Let_def d
    by (simp add: b64_groups_digits comp_def)
qed

lemma b64_encode_chars: "c \<in> set (b64_encode bs) \<Longrightarrow> 0x20 < (of_char c :: nat) \<and> (of_char c :: nat) < 0x80"
  using b64_digits_bound [of bs] by (auto simp: b64_encode_digits list_all_iff)

section \<open>Errors\<close>

text \<open>
  \<open>SSHConnection\<close> is \<^verbatim>\<open>sshConnectionError\<close> and \<open>ListenFailed\<close> the error of \<^verbatim>\<open>net.Listen\<close> as it is
  wrapped with \<^verbatim>\<open>%w\<close>; \<open>OtherError\<close> stands for the errors nothing is ever compared with.
\<close>

datatype tunnel_error =
    HostKeyFingerprintRequired | HostKeyFingerprintInvalid | HostKeyMismatch | LocalPortBusy | TunnelClosed
  | ManagerClosed | AttemptInvalidated | DialFailed | NotConnected string
  | SSHConnection tunnel_error | ListenFailed int tunnel_error | ParseKeyFailed tunnel_error | OtherError string

text \<open>\<^verbatim>\<open>errors.Is\<close>: the error itself or one it wraps.\<close>

fun error_is :: "tunnel_error \<Rightarrow> tunnel_error \<Rightarrow> bool" where
  "error_is (SSHConnection e) t \<longleftrightarrow> SSHConnection e = t \<or> error_is e t"
| "error_is (ListenFailed p e) t \<longleftrightarrow> ListenFailed p e = t \<or> error_is e t"
| "error_is (ParseKeyFailed e) t \<longleftrightarrow> ParseKeyFailed e = t \<or> error_is e t"
| "error_is e t \<longleftrightarrow> e = t"

definition PublicError :: "tunnel_error \<Rightarrow> string" where
  "PublicError e =
     (if error_is e HostKeyFingerprintRequired then ''ssh_host_key_pin_required''
      else if error_is e HostKeyFingerprintInvalid then ''ssh_host_key_pin_invalid''
      else if error_is e HostKeyMismatch then ''ssh_host_key_mismatch''
      else ''ssh_connection_failed'')"

lemma PublicError_nonempty [simp]: "PublicError e \<noteq> []"
  by (simp add: PublicError_def)

section \<open>Fingerprints\<close>

definition CanonicalHostKeyFingerprint :: "string \<Rightarrow> tunnel_error + string" where
  "CanonicalHostKeyFingerprint raw =
     (let fingerprint = TrimSpace raw in
      if fingerprint = [] then Inl HostKeyFingerprintRequired
      else if fingerprint \<noteq> raw then Inl HostKeyFingerprintInvalid
      else if \<not> prefix ''SHA256:'' fingerprint then Inl HostKeyFingerprintInvalid
      else let encoded = drop (length ''SHA256:'') fingerprint in
           case b64_decode encoded of
             None \<Rightarrow> Inl HostKeyFingerprintInvalid
           | Some digest \<Rightarrow>
               if length digest \<noteq> 32 \<or> b64_encode digest \<noteq> encoded then Inl HostKeyFingerprintInvalid else Inr fingerprint)"

definition HostKeyIdentitySHA256 :: "string \<Rightarrow> tunnel_error + string" where
  "HostKeyIdentitySHA256 fingerprint =
     (case CanonicalHostKeyFingerprint fingerprint of
        Inl e \<Rightarrow> Inl e
      | Inr canonical \<Rightarrow> Inr (hex (Sum256 (bytes_of canonical))))"

section \<open>The verifier and the client configuration\<close>

record HostKeyEvidence =
  hk_Verified :: bool
  hk_IdentitySHA256 :: string

definition no_evidence :: HostKeyEvidence where
  "no_evidence = \<lparr>hk_Verified = False, hk_IdentitySHA256 = []\<rparr>"

record HostKeyVerifier =
  hv_expected :: string
  hv_evidence :: HostKeyEvidence

text \<open>\<open>actual\<close> is the fingerprint the SSH library computes of the key it presents.\<close>

definition verify :: "string \<Rightarrow> HostKeyVerifier \<Rightarrow> tunnel_error option \<times> HostKeyVerifier" where
  "verify actual v =
     (case HostKeyIdentitySHA256 actual of
        Inl _ \<Rightarrow> (Some HostKeyFingerprintInvalid, v)
      | Inr identity \<Rightarrow>
          if actual \<noteq> hv_expected v then (Some HostKeyMismatch, v)
          else (None, v\<lparr>hv_evidence := \<lparr>hk_Verified = True, hk_IdentitySHA256 = identity\<rparr>\<rparr>))"

definition Evidence :: "HostKeyVerifier option \<Rightarrow> HostKeyEvidence" where
  "Evidence v = (case v of None \<Rightarrow> no_evidence | Some v' \<Rightarrow> hv_evidence v')"

record Credentials =
  cr_User :: string
  cr_Password :: string
  cr_PrivateKey :: string
  cr_HostKeyFingerprint :: string

record TunnelTarget =
  tt_HostID :: string
  tt_SSHHost :: string
  tt_SSHPort :: int
  tt_SSHUser :: string
  tt_SSHPassword :: string
  tt_SSHPrivateKey :: string
  tt_SSHHostKeyFingerprint :: string
  tt_RemoteAgentPort :: int
  tt_LocalPort :: int

definition CredentialsFromTarget :: "TunnelTarget \<Rightarrow> Credentials" where
  "CredentialsFromTarget t =
     \<lparr>cr_User = tt_SSHUser t, cr_Password = tt_SSHPassword t, cr_PrivateKey = TrimSpace (tt_SSHPrivateKey t),
      cr_HostKeyFingerprint = tt_SSHHostKeyFingerprint t\<rparr>"

datatype 'k auth_method = PublicKeys 'k | Password string

record 'k ClientConfig =
  cc_User :: string
  cc_Auth :: "'k auth_method list"
  cc_Timeout :: duration

text \<open>\<open>parse\<close> is \<^verbatim>\<open>ssh.ParsePrivateKey\<close>. The callback of the configuration is \<open>verify\<close> of the verifier.\<close>

definition BuildClientConfigWithHostKeyEvidence ::
  "(string \<Rightarrow> tunnel_error + 'k) \<Rightarrow> Credentials \<Rightarrow> tunnel_error + 'k ClientConfig \<times> HostKeyVerifier" where
  "BuildClientConfigWithHostKeyEvidence parse c =
     (case CanonicalHostKeyFingerprint (cr_HostKeyFingerprint c) of
        Inl e \<Rightarrow> Inl e
      | Inr fingerprint \<Rightarrow>
          if cr_User c = [] then Inl (OtherError ''user is required'')
          else case (if cr_PrivateKey c \<noteq> []
                     then (case parse (cr_PrivateKey c) of Inl e \<Rightarrow> Inl (ParseKeyFailed e) | Inr signer \<Rightarrow> Inr [PublicKeys signer])
                     else Inr (if cr_Password c \<noteq> [] then [Password (cr_Password c)] else [])) of
                 Inl e \<Rightarrow> Inl e
               | Inr auth \<Rightarrow>
                   if auth = [] then Inl (OtherError ''at least one of PrivateKey or Password is required'')
                   else Inr (\<lparr>cc_User = cr_User c, cc_Auth = auth, cc_Timeout = 15 * second\<rparr>,
                             \<lparr>hv_expected = fingerprint, hv_evidence = no_evidence\<rparr>))"

definition BuildClientConfig :: "(string \<Rightarrow> tunnel_error + 'k) \<Rightarrow> Credentials \<Rightarrow> tunnel_error + 'k ClientConfig" where
  "BuildClientConfig parse c = map_sum id fst (BuildClientConfigWithHostKeyEvidence parse c)"

section \<open>The production dialer\<close>

definition DefaultSSHPort :: int where "DefaultSSHPort = 22"
definition DefaultRemoteAgentPort :: int where "DefaultRemoteAgentPort = 57017"

text \<open>\<^verbatim>\<open>net.JoinHostPort\<close>.\<close>

definition JoinHostPort :: "string \<Rightarrow> string \<Rightarrow> string" where
  "JoinHostPort host port = (if CHR '':'' \<in> set host then ''['' @ host @ '']:'' @ port else host @ '':'' @ port)"

text \<open>
  What the outside does while a client connects: \<open>handshake\<close> says which keys (their fingerprints, in order) the
  SSH library presents to the callback for an address and a configuration, and the error it ends with;
  \<open>listen_on\<close> is the error of listening on a local port or the port that is bound.
\<close>

record 'k network =
  nw_handshake :: "string \<Rightarrow> 'k ClientConfig \<Rightarrow> string list \<times> tunnel_error option"
  nw_listen_on :: "int \<Rightarrow> tunnel_error + int"

definition DialSSHClient :: "'k network \<Rightarrow> string \<Rightarrow> 'k ClientConfig \<Rightarrow> HostKeyVerifier \<Rightarrow> tunnel_error option \<times> HostKeyVerifier" where
  "DialSSHClient nw address cfg v =
     (let (keys, err) = nw_handshake nw address cfg; v' = foldl (\<lambda>w k. snd (verify k w)) v keys
      in (map_option SSHConnection err, v'))"

text \<open>\<^verbatim>\<open>Dial\<close>: the port of the tunnel that is up, or the error with nothing left open.\<close>

definition Dial :: "'k network \<Rightarrow> string \<Rightarrow> 'k ClientConfig \<Rightarrow> int \<Rightarrow> string \<Rightarrow> HostKeyVerifier \<Rightarrow> (tunnel_error + int) \<times> HostKeyVerifier" where
  "Dial nw sshAddr cfg localPort remoteAddr v =
     (case DialSSHClient nw sshAddr cfg v of
        (Some e, v') \<Rightarrow> (Inl e, v')
      | (None, v') \<Rightarrow> (case nw_listen_on nw localPort of
            Inl e \<Rightarrow> (Inl (ListenFailed localPort e), v')
          | Inr actualPort \<Rightarrow> (Inr actualPort, v')))"

definition SSHDial :: "'k network \<Rightarrow> (string \<Rightarrow> tunnel_error + 'k) \<Rightarrow> TunnelTarget \<Rightarrow> tunnel_error + int \<times> HostKeyEvidence" where
  "SSHDial nw parse target =
     (if tt_HostID target = [] then Inl (OtherError ''host id is required'')
      else if tt_SSHHost target = [] then Inl (OtherError (''host '' @ tt_HostID target @ '' ssh host is required''))
      else case BuildClientConfigWithHostKeyEvidence parse (CredentialsFromTarget target) of
             Inl e \<Rightarrow> Inl e
           | Inr (cfg, verifier) \<Rightarrow>
               let sshPort = (if tt_SSHPort target = 0 then DefaultSSHPort else tt_SSHPort target);
                   remoteAgentPort = (if tt_RemoteAgentPort target = 0 then DefaultRemoteAgentPort else tt_RemoteAgentPort target)
               in case Dial nw (JoinHostPort (tt_SSHHost target) (int_text sshPort)) cfg (tt_LocalPort target)
                         (JoinHostPort ''127.0.0.1'' (int_text remoteAgentPort)) verifier of
                    (Inl e, _) \<Rightarrow> Inl e
                  | (Inr actualPort, v') \<Rightarrow>
                      if \<not> hk_Verified (Evidence (Some v')) then Inl HostKeyMismatch else Inr (actualPort, Evidence (Some v')))"

section \<open>What the pins promise\<close>

lemma canonical_some: "CanonicalHostKeyFingerprint raw = Inr f \<Longrightarrow>
    f = raw \<and> (\<exists>d. length d = 32 \<and> raw = ''SHA256:'' @ b64_encode d)"
  unfolding CanonicalHostKeyFingerprint_def Let_def
  by (auto simp: prefix_def split: if_splits option.splits)

lemma b64_encode_nonempty: "b64_encode bs = [] \<longleftrightarrow> bs = []"
  by (cases bs rule: b64_encode.cases) (simp_all add: Let_def)

lemma canonical_encode:
  assumes "length d = 32"
  shows "CanonicalHostKeyFingerprint (''SHA256:'' @ b64_encode d) = Inr (''SHA256:'' @ b64_encode d)"
proof -
  let ?f = "''SHA256:'' @ b64_encode d"
  have "b64_encode d \<noteq> []" using assms by (auto simp: b64_encode_nonempty)
  then have "last ?f \<in> set (b64_encode d)" by simp
  then have "no_blank_ends ?f" using b64_encode_chars [of "last ?f" d] by (simp add: no_blank_ends_def)
  then have t: "TrimSpace ?f = ?f" by (rule TrimSpace_ascii)
  have p: "prefix ''SHA256:'' ?f" "?f \<noteq> []" "drop (length ''SHA256:'') ?f = b64_encode d" by simp_all
  show ?thesis unfolding CanonicalHostKeyFingerprint_def Let_def t p(3)
    using assms p(1,2) by (simp add: b64_decode_encode del: append_Cons)
qed

abbreviation presented :: "string list \<Rightarrow> HostKeyVerifier \<Rightarrow> HostKeyVerifier" where
  "presented keys v \<equiv> foldl (\<lambda>w k. snd (verify k w)) v keys"

definition attested :: "string list \<Rightarrow> HostKeyVerifier \<Rightarrow> bool" where
  "attested keys v \<longleftrightarrow> hv_expected v \<in> set keys \<and> HostKeyIdentitySHA256 (hv_expected v) = Inr (hk_IdentitySHA256 (hv_evidence v))"

lemma verify_expected [simp]: "hv_expected (snd (verify k v)) = hv_expected v"
  by (simp add: verify_def split: sum.splits)

lemma verify_cases: "snd (verify k v) = v \<or> attested [k] (snd (verify k v))"
  by (auto simp: verify_def attested_def split: sum.splits)

lemma presented_expected [simp]: "hv_expected (presented keys v) = hv_expected v"
  by (induction keys arbitrary: v) simp_all

lemma handshake_verified:
  assumes "\<not> hk_Verified (hv_evidence v)"
  shows "hk_Verified (hv_evidence (presented keys v)) \<Longrightarrow> attested keys (presented keys v)"
proof (induction keys rule: rev_induct)
  case Nil
  with assms show ?case by simp
next
  case (snoc k keys)
  show ?case
  proof (cases "snd (verify k (presented keys v)) = presented keys v")
    case True
    with snoc have "attested keys (presented keys v)" by simp
    with True show ?thesis by (simp add: attested_def)
  next
    case False
    with verify_cases [of k "presented keys v"] show ?thesis by (auto simp: attested_def)
  qed
qed

lemma build_verifier:
  "BuildClientConfigWithHostKeyEvidence parse c = Inr (cfg, v) \<Longrightarrow>
     hv_expected v = cr_HostKeyFingerprint c \<and> hv_evidence v = no_evidence"
  by (auto simp: BuildClientConfigWithHostKeyEvidence_def dest!: canonical_some split: sum.splits if_splits)

end
