(* ===== verification/Tunnels.thy ===== *)
theory Tunnels
  imports HostKeys "HOL-Library.AList"
begin

text \<open>
  SSH tunnels (\<^verbatim>\<open>agent/tunnel/tunnel.go\<close>, \<^verbatim>\<open>manager.go\<close>): the forwards of one tunnel, and the manager that
  keeps one connection for each host. Tunnels are shared objects, so they live in a list and a connection
  holds the position of its tunnel. A call of \<^verbatim>\<open>EnsureConnected\<close> is cut where it releases the lock: it
  enters, and then finishes the dial it started or wakes up after the dial of another call; what the dialer
  returns is an argument. A connection taken out of the manager is closed just after the lock is released;
  here this is part of the step. The byte copying of the forwards is not modelled.
\<close>

section \<open>Forwards of a tunnel\<close>

record Tunnel =
  tn_closed :: bool
  tn_forwards :: "int list"

text \<open>What \<^verbatim>\<open>net.Listen\<close> answers for a local port.\<close>

datatype listen_result = Listening | PortInUse | ListenFails string

definition AddForward :: "listen_result \<Rightarrow> int \<Rightarrow> Tunnel \<Rightarrow> tunnel_error option \<times> Tunnel" where
  "AddForward lr port t =
     (if tn_closed t then (Some TunnelClosed, t)
      else if port \<in> set (tn_forwards t) then (None, t)
      else case lr of
             PortInUse \<Rightarrow> (Some (ListenFailed port LocalPortBusy), t)
           | ListenFails e \<Rightarrow> (Some (ListenFailed port (OtherError e)), t)
           | Listening \<Rightarrow> (None, t\<lparr>tn_forwards := tn_forwards t @ [port]\<rparr>))"

definition RemoveForward :: "int \<Rightarrow> Tunnel \<Rightarrow> bool \<times> Tunnel" where
  "RemoveForward port t =
     (if port \<in> set (tn_forwards t) then (True, t\<lparr>tn_forwards := filter (\<lambda>p. p \<noteq> port) (tn_forwards t)\<rparr>) else (False, t))"

definition TunnelForwardPorts :: "Tunnel \<Rightarrow> int list" where
  "TunnelForwardPorts t = sort (tn_forwards t)"

definition CloseTunnel :: "Tunnel \<Rightarrow> Tunnel" where
  "CloseTunnel t = (if tn_closed t then t else \<lparr>tn_closed = True, tn_forwards = []\<rparr>)"

section \<open>The state of the manager\<close>

record Conn =
  cn_port :: int
  cn_hostKey :: HostKeyEvidence
  cn_tunnel :: "nat option"

definition StatusDisconnected :: string where "StatusDisconnected = ''disconnected''"
definition StatusConnecting :: string where "StatusConnecting = ''connecting''"
definition StatusConnected :: string where "StatusConnected = ''connected''"
definition StatusFailed :: string where "StatusFailed = ''failed''"

lemma tunnel_status_distinct [simp]:
  "StatusDisconnected \<noteq> StatusConnected" "StatusConnecting \<noteq> StatusConnected" "StatusFailed \<noteq> StatusConnected"
  "StatusConnected \<noteq> StatusDisconnected" "StatusConnected \<noteq> StatusConnecting" "StatusConnected \<noteq> StatusFailed"
  by (simp_all add: StatusDisconnected_def StatusConnecting_def StatusConnected_def StatusFailed_def)

record Event =
  ev_HostID :: string
  ev_Status :: string
  ev_Err :: string

record connectAttempt =
  at_id :: nat
  at_generation :: "64 word"

record TunnelManager =
  tm_conns :: "(string \<times> Conn) list"
  tm_status :: "string \<rightharpoonup> string"
  tm_errors :: "string \<rightharpoonup> string"
  tm_hostKeys :: "string \<rightharpoonup> HostKeyEvidence"
  tm_subs :: "string \<rightharpoonup> Event list"
  tm_connecting :: "string \<rightharpoonup> connectAttempt"
  tm_generation :: "string \<Rightarrow> 64 word"
  tm_closed :: bool

text \<open>The calls that are dialling, with their local variables.\<close>

record Dialing =
  dl_target :: TunnelTarget
  dl_desired :: string
  dl_attempt :: connectAttempt

record TunnelWorld =
  tw_m :: TunnelManager
  tw_tunnels :: "Tunnel list"
  tw_dialing :: "Dialing list"
  tw_attempts :: nat

definition NewManager :: TunnelManager where
  "NewManager = \<lparr>tm_conns = [], tm_status = Map.empty, tm_errors = Map.empty, tm_hostKeys = Map.empty, tm_subs = Map.empty,
     tm_connecting = Map.empty, tm_generation = (\<lambda>h. 0), tm_closed = False\<rparr>"

definition new_world :: TunnelWorld where
  "new_world = \<lparr>tw_m = NewManager, tw_tunnels = [], tw_dialing = [], tw_attempts = 0\<rparr>"

abbreviation conn_of :: "TunnelWorld \<Rightarrow> string \<rightharpoonup> Conn" where
  "conn_of w \<equiv> map_of (tm_conns (tw_m w))"

definition closeConn :: "Conn \<Rightarrow> TunnelWorld \<Rightarrow> TunnelWorld" where
  "closeConn c w = (case cn_tunnel c of None \<Rightarrow> w | Some i \<Rightarrow> w\<lparr>tw_tunnels := update_at (tw_tunnels w) i CloseTunnel\<rparr>)"

definition close_found :: "Conn option \<Rightarrow> TunnelWorld \<Rightarrow> TunnelWorld" where
  "close_found r w = (case r of None \<Rightarrow> w | Some c \<Rightarrow> closeConn c w)"

definition emitLocked :: "string \<Rightarrow> string \<Rightarrow> string \<Rightarrow> TunnelManager \<Rightarrow> TunnelManager" where
  "emitLocked h st err m =
     m\<lparr>tm_subs := (\<lambda>s. map_option (\<lambda>q. if length q < 64 then q @ [\<lparr>ev_HostID = h, ev_Status = st, ev_Err = err\<rparr>] else q) (tm_subs m s))\<rparr>"

definition bump :: "string \<Rightarrow> TunnelManager \<Rightarrow> TunnelManager" where
  "bump h m = m\<lparr>tm_generation := (tm_generation m)(h := tm_generation m h + 1)\<rparr>"

section \<open>Disconnecting, failing, closing\<close>

definition Disconnect :: "string \<Rightarrow> TunnelWorld \<Rightarrow> TunnelWorld" where
  "Disconnect h w =
     (let m = tw_m w in
      if tm_closed m then w
      else close_found (conn_of w h)
             (w\<lparr>tw_m := emitLocked h StatusDisconnected []
                ((bump h m)\<lparr>tm_conns := AList.delete h (tm_conns m), tm_errors := (tm_errors m)(h := None),
                   tm_hostKeys := (tm_hostKeys m)(h := None), tm_status := (tm_status m)(h \<mapsto> StatusDisconnected)\<rparr>)\<rparr>))"

definition MarkFailed :: "string \<Rightarrow> tunnel_error option \<Rightarrow> TunnelWorld \<Rightarrow> TunnelWorld" where
  "MarkFailed h err w =
     (let m = tw_m w; errMsg = (case err of None \<Rightarrow> [] | Some e \<Rightarrow> PublicError e) in
      if tm_closed m then w
      else close_found (conn_of w h)
             (w\<lparr>tw_m := emitLocked h StatusFailed errMsg
                ((bump h m)\<lparr>tm_conns := AList.delete h (tm_conns m), tm_hostKeys := (tm_hostKeys m)(h := None),
                   tm_errors := (tm_errors m)(h := (if errMsg = [] then None else Some errMsg)),
                   tm_status := (tm_status m)(h \<mapsto> StatusFailed)\<rparr>)\<rparr>))"

definition CloseManager :: "TunnelWorld \<Rightarrow> TunnelWorld" where
  "CloseManager w =
     (let m = tw_m w in
      if tm_closed m then w
      else fold (\<lambda>(h, c). closeConn c) (tm_conns m)
             (w\<lparr>tw_m := m\<lparr>tm_closed := True,
                tm_generation := (\<lambda>h. if tm_connecting m h = None then tm_generation m h else tm_generation m h + 1),
                tm_conns := [], tm_status := Map.empty, tm_errors := Map.empty, tm_hostKeys := Map.empty, tm_subs := Map.empty\<rparr>\<rparr>))"

section \<open>Connecting\<close>

datatype answer =
    Returned "tunnel_error + int"
  | Waiting connectAttempt
  | Started Dialing
  | Again
  | Quiet
  | Forwarded "tunnel_error option"

text \<open>The caller waits for the dial in flight, or claims the host and dials itself.\<close>

definition ec_claim :: "TunnelTarget \<Rightarrow> string \<Rightarrow> TunnelWorld \<Rightarrow> answer \<times> TunnelWorld" where
  "ec_claim target desired w =
     (let m = tw_m w; h = tt_HostID target in
      case tm_connecting m h of
        Some a \<Rightarrow> (Waiting a, w)
      | None \<Rightarrow>
          let a = \<lparr>at_id = tw_attempts w, at_generation = tm_generation m h\<rparr>;
              d = \<lparr>dl_target = target, dl_desired = desired, dl_attempt = a\<rparr>
          in (Started d, w\<lparr>tw_m := emitLocked h StatusConnecting []
                  (m\<lparr>tm_connecting := (tm_connecting m)(h \<mapsto> a), tm_status := (tm_status m)(h \<mapsto> StatusConnecting)\<rparr>),
                tw_dialing := d # tw_dialing w, tw_attempts := Suc (tw_attempts w)\<rparr>))"

definition ec_enter :: "TunnelTarget \<Rightarrow> string \<Rightarrow> TunnelWorld \<Rightarrow> answer \<times> TunnelWorld" where
  "ec_enter target desired w =
     (let m = tw_m w; h = tt_HostID target in
      if tm_closed m then (Returned (Inl ManagerClosed), w)
      else case conn_of w h of
             Some c \<Rightarrow>
               if hk_Verified (cn_hostKey c) \<and> hk_IdentitySHA256 (cn_hostKey c) = desired then (Returned (Inr (cn_port c)), w)
               else ec_claim target desired
                      (closeConn c (w\<lparr>tw_m := bump h (m\<lparr>tm_conns := AList.delete h (tm_conns m),
                         tm_hostKeys := (tm_hostKeys m)(h := None), tm_errors := (tm_errors m)(h := None)\<rparr>)\<rparr>))
           | None \<Rightarrow> ec_claim target desired w)"

text \<open>The start of a call: the pin is checked before anything is dialled.\<close>

definition ec_start :: "TunnelTarget \<Rightarrow> TunnelWorld \<Rightarrow> answer \<times> TunnelWorld" where
  "ec_start target w =
     (case HostKeyIdentitySHA256 (tt_SSHHostKeyFingerprint target) of
        Inl e \<Rightarrow> (Returned (Inl e), MarkFailed (tt_HostID target) (Some e) w)
      | Inr desired \<Rightarrow> ec_enter target desired w)"

type_synonym dial_result = "tunnel_error + (int \<times> HostKeyEvidence) option"

definition open_conn :: "int \<Rightarrow> HostKeyEvidence \<Rightarrow> TunnelWorld \<Rightarrow> Conn \<times> TunnelWorld" where
  "open_conn port ev w =
     (\<lparr>cn_port = port, cn_hostKey = ev, cn_tunnel = Some (length (tw_tunnels w))\<rparr>,
      w\<lparr>tw_tunnels := tw_tunnels w @ [\<lparr>tn_closed = False, tn_forwards = []\<rparr>]\<rparr>)"

definition dial_checked :: "string \<Rightarrow> dial_result \<Rightarrow> TunnelWorld \<Rightarrow> (tunnel_error + Conn) \<times> TunnelWorld" where
  "dial_checked desired r w =
     (case r of
        Inl e \<Rightarrow> (Inl e, w)
      | Inr None \<Rightarrow> (Inl HostKeyMismatch, w)
      | Inr (Some (port, ev)) \<Rightarrow>
          let (c, w1) = open_conn port ev w in
          if \<not> hk_Verified ev \<or> hk_IdentitySHA256 ev \<noteq> desired then (Inl HostKeyMismatch, closeConn c w1) else (Inr c, w1))"

definition ec_publish :: "string \<Rightarrow> tunnel_error + Conn \<Rightarrow> TunnelManager \<Rightarrow> TunnelManager" where
  "ec_publish h r m =
     (case r of
        Inl e \<Rightarrow> emitLocked h StatusFailed (PublicError e)
          (m\<lparr>tm_status := (tm_status m)(h \<mapsto> StatusFailed), tm_errors := (tm_errors m)(h \<mapsto> PublicError e),
             tm_hostKeys := (tm_hostKeys m)(h := None)\<rparr>)
      | Inr c \<Rightarrow> emitLocked h StatusConnected []
          (m\<lparr>tm_conns := AList.update h c (tm_conns m), tm_status := (tm_status m)(h \<mapsto> StatusConnected),
             tm_errors := (tm_errors m)(h := None), tm_hostKeys := (tm_hostKeys m)(h \<mapsto> cn_hostKey c)\<rparr>))"

definition ec_finish :: "Dialing \<Rightarrow> dial_result \<Rightarrow> TunnelWorld \<Rightarrow> answer \<times> TunnelWorld" where
  "ec_finish d dialled w =
     (let h = tt_HostID (dl_target d);
          (r, w1) = dial_checked (dl_desired d) dialled w;
          m = tw_m w1;
          m1 = (if tm_connecting m h = Some (dl_attempt d) then m\<lparr>tm_connecting := (tm_connecting m)(h := None)\<rparr> else m);
          w2 = w1\<lparr>tw_m := m1, tw_dialing := remove1 d (tw_dialing w1)\<rparr>
      in if tm_closed m1 \<or> tm_generation m1 h \<noteq> at_generation (dl_attempt d)
         then (Returned (Inl (if tm_closed m1 then ManagerClosed else AttemptInvalidated)),
               (case r of Inl e \<Rightarrow> w2 | Inr c \<Rightarrow> closeConn c w2))
         else (Returned (map_sum id cn_port r), w2\<lparr>tw_m := ec_publish h r m1\<rparr>))"

text \<open>A call that waited, after the dial it waited for is over.\<close>

definition ec_woken :: "connectAttempt \<Rightarrow> TunnelTarget \<Rightarrow> string \<Rightarrow> TunnelManager \<Rightarrow> answer" where
  "ec_woken a target desired m =
     (let h = tt_HostID target in
      if tm_closed m then Returned (Inl ManagerClosed)
      else if at_generation a \<noteq> tm_generation m h then Returned (Inl AttemptInvalidated)
      else case map_of (tm_conns m) h of
             None \<Rightarrow> Returned (Inl DialFailed)
           | Some c \<Rightarrow> if hk_Verified (cn_hostKey c) \<and> hk_IdentitySHA256 (cn_hostKey c) = desired then Returned (Inr (cn_port c)) else Again)"

section \<open>Reading, forwards and subscriptions\<close>

definition StatusOf :: "string \<Rightarrow> TunnelManager \<Rightarrow> string" where
  "StatusOf h m = (case tm_status m h of None \<Rightarrow> StatusDisconnected | Some s \<Rightarrow> s)"

definition ErrorOf :: "string \<Rightarrow> TunnelManager \<Rightarrow> string" where
  "ErrorOf h m = (case tm_errors m h of None \<Rightarrow> [] | Some e \<Rightarrow> e)"

definition LocalPort :: "string \<Rightarrow> TunnelManager \<Rightarrow> int" where
  "LocalPort h m = (case map_of (tm_conns m) h of None \<Rightarrow> 0 | Some c \<Rightarrow> cn_port c)"

definition HostKeyEvidenceOf :: "string \<Rightarrow> TunnelManager \<Rightarrow> HostKeyEvidence" where
  "HostKeyEvidenceOf h m = (case tm_hostKeys m h of None \<Rightarrow> no_evidence | Some e \<Rightarrow> e)"

text \<open>The tunnel of a host, when it has one.\<close>

definition tunnel_of :: "TunnelWorld \<Rightarrow> string \<Rightarrow> nat option" where
  "tunnel_of w h = (case conn_of w h of None \<Rightarrow> None | Some c \<Rightarrow> cn_tunnel c)"

definition EnsureForward :: "listen_result \<Rightarrow> string \<Rightarrow> int \<Rightarrow> TunnelWorld \<Rightarrow> tunnel_error option \<times> TunnelWorld" where
  "EnsureForward lr h port w =
     (case tunnel_of w h of
        None \<Rightarrow> (Some (NotConnected h), w)
      | Some i \<Rightarrow> (case AddForward lr port (tw_tunnels w ! i) of (e, t) \<Rightarrow> (e, w\<lparr>tw_tunnels := (tw_tunnels w)[i := t]\<rparr>)))"

definition DropForward :: "string \<Rightarrow> int \<Rightarrow> TunnelWorld \<Rightarrow> TunnelWorld" where
  "DropForward h port w =
     (case tunnel_of w h of
        None \<Rightarrow> w
      | Some i \<Rightarrow> w\<lparr>tw_tunnels := (tw_tunnels w)[i := snd (RemoveForward port (tw_tunnels w ! i))]\<rparr>)"

definition ForwardPorts :: "string \<Rightarrow> TunnelWorld \<Rightarrow> int list" where
  "ForwardPorts h w = (case tunnel_of w h of None \<Rightarrow> [] | Some i \<Rightarrow> TunnelForwardPorts (tw_tunnels w ! i))"

definition TunnelSubscribe :: "string \<Rightarrow> TunnelManager \<Rightarrow> TunnelManager" where
  "TunnelSubscribe s m = (if tm_closed m then m else m\<lparr>tm_subs := (tm_subs m)(s \<mapsto> [])\<rparr>)"

definition TunnelUnsubscribe :: "string \<Rightarrow> TunnelManager \<Rightarrow> TunnelManager" where
  "TunnelUnsubscribe s m = m\<lparr>tm_subs := (tm_subs m)(s := None)\<rparr>"

section \<open>Runs\<close>

text \<open>
  The steps of the calls in any interleaving. \<open>Finish k\<close> is the end of the \<open>k\<close>-th dial in flight.
\<close>

datatype tunnel_event =
    Enter TunnelTarget | Finish nat dial_result | Wake connectAttempt TunnelTarget
  | Cut string | Fail string "tunnel_error option" | Shut
  | Mirror listen_result string int | Unmirror string int | Listen string | LeaveSub string

fun tunnel_step :: "tunnel_event \<Rightarrow> TunnelWorld \<Rightarrow> answer \<times> TunnelWorld" where
  "tunnel_step (Enter target) w = ec_start target w"
| "tunnel_step (Finish k r) w = (if k < length (tw_dialing w) then ec_finish (tw_dialing w ! k) r w else (Quiet, w))"
| "tunnel_step (Wake a target) w =
     (case HostKeyIdentitySHA256 (tt_SSHHostKeyFingerprint target) of
        Inl e \<Rightarrow> (Quiet, w) | Inr desired \<Rightarrow> (ec_woken a target desired (tw_m w), w))"
| "tunnel_step (Cut h) w = (Quiet, Disconnect h w)"
| "tunnel_step (Fail h e) w = (Quiet, MarkFailed h e w)"
| "tunnel_step Shut w = (Quiet, CloseManager w)"
| "tunnel_step (Mirror lr h p) w = map_prod Forwarded id (EnsureForward lr h p w)"
| "tunnel_step (Unmirror h p) w = (Quiet, DropForward h p w)"
| "tunnel_step (Listen s) w = (Quiet, w\<lparr>tw_m := TunnelSubscribe s (tw_m w)\<rparr>)"
| "tunnel_step (LeaveSub s) w = (Quiet, w\<lparr>tw_m := TunnelUnsubscribe s (tw_m w)\<rparr>)"

definition tunnel_run :: "tunnel_event list \<Rightarrow> TunnelWorld \<Rightarrow> TunnelWorld" where
  "tunnel_run es w = fold (\<lambda>e w. snd (tunnel_step e w)) es w"

section \<open>A whole call\<close>

text \<open>
  \<^verbatim>\<open>EnsureConnected\<close> from its start to its return. \<open>others\<close> lists what the other callers do at each point where
  the call is outside the lock: while it dials, or while it waits for the dial of another call. They do not use
  forwards, and they cannot end the dial of this call. \<open>None\<close> is a call that has not returned.
\<close>

definition others_only :: "tunnel_event list \<Rightarrow> tunnel_event list" where
  "others_only es = filter (\<lambda>e. case e of Mirror lr h p \<Rightarrow> False | Unmirror h p \<Rightarrow> False | _ \<Rightarrow> True) es"

definition ec_dial :: "Dialing \<Rightarrow> dial_result \<Rightarrow> TunnelWorld \<Rightarrow> ((tunnel_error + int) \<times> TunnelWorld) option" where
  "ec_dial d r w =
     (if d \<in> set (tw_dialing w) then (case ec_finish d r w of (Returned q, w') \<Rightarrow> Some (q, w') | _ \<Rightarrow> None) else None)"

fun EnsureConnected ::
  "tunnel_event list list \<Rightarrow> (TunnelTarget \<Rightarrow> dial_result) \<Rightarrow> TunnelTarget \<Rightarrow> TunnelWorld \<Rightarrow> ((tunnel_error + int) \<times> TunnelWorld) option" where
  "EnsureConnected [] dial t w =
     (if tm_closed (tw_m w) then Some (Inl ManagerClosed, w)
      else case ec_start t w of
             (Returned r, w1) \<Rightarrow> Some (r, w1)
           | (Started d, w1) \<Rightarrow> ec_dial d (dial t) w1
           | _ \<Rightarrow> None)"
| "EnsureConnected (es # others) dial t w =
     (if tm_closed (tw_m w) then Some (Inl ManagerClosed, w)
      else case ec_start t w of
             (Returned r, w1) \<Rightarrow> Some (r, w1)
           | (Started d, w1) \<Rightarrow> ec_dial d (dial t) (tunnel_run (others_only es) w1)
           | (Waiting a, w1) \<Rightarrow>
               (let w2 = tunnel_run (others_only es) w1 in
                case tunnel_step (Wake a t) w2 of
                  (Returned r, w3) \<Rightarrow> Some (r, w3)
                | (Again, w3) \<Rightarrow> EnsureConnected others dial t w3
                | _ \<Rightarrow> None)
           | _ \<Rightarrow> None)"

end
