(* ===== verification/PortMirror.thy ===== *)
theory PortMirror
  imports Tunnels "HOL-Library.List_Lexorder" "HOL-Library.Char_ord"
begin

text \<open>
  Mirrored ports (\<^verbatim>\<open>agent/portmirror/manager.go\<close>): the ports that instances on development machines declare are
  forwarded from the local machine. One goroutine reconciles: from the latest frame it computes which forwards
  should exist, takes down the others, and brings the expected ones up through the tunnel controller, a
  parameter here as it is in the code. The Go maps are association lists; where the code ranges over one, the
  model goes through it in the order of the keys, which the code also uses where the order can be seen.
\<close>

section \<open>Data\<close>

datatype MirrorState = MirrorStatePending | MirrorStateActive | MirrorStateConflict | MirrorStateFailed

definition errCodeConflict :: string where "errCodeConflict = ''port_mirror_conflict''"
definition errCodeDuplicate :: string where "errCodeDuplicate = ''duplicate_port_declaration''"
definition errCodeTargetUnavailable :: string where "errCodeTargetUnavailable = ''mirror_target_unavailable''"
definition defaultCooldown :: duration where "defaultCooldown = 30 * second"

record Occupier =
  oc_PID :: int
  oc_Name :: string
  oc_StartedAt :: time
  oc_ManagedDeploymentID :: string

record MirrorStatus =
  ms_HostID :: string
  ms_HostName :: string
  ms_DeploymentID :: string
  ms_ServiceName :: string
  ms_Port :: int
  ms_State :: MirrorState
  ms_Error :: string
  ms_Occupier :: "Occupier option"
  ms_UpdatedAt :: time

text \<open>The fields the mirror reads of hosts and of the frames of nodes.\<close>

record MirrorHost =
  ho_ID :: string
  ho_Name :: string
  ho_DevMachineMode :: bool

record InstanceStatus =
  in_DeploymentID :: string
  in_ServiceName :: string
  in_Ports :: "int list"
  in_Health :: string

record NodeStatus =
  nd_HostID :: string
  nd_Name :: string
  nd_Deployments :: "InstanceStatus list"

definition HealthRunning :: string where "HealthRunning = ''running''"
definition HealthHealthy :: string where "HealthHealthy = ''healthy''"
definition HealthRestarting :: string where "HealthRestarting = ''restarting''"

datatype fwdKey = FwdKey (fk_hostID: string) (fk_port: int)

datatype mirrorKey = MirrorKey (mk_hostID: string) (mk_deploymentID: string) (mk_port: int)

definition fwd :: "mirrorKey \<Rightarrow> fwdKey" where
  "fwd k = FwdKey (mk_hostID k) (mk_port k)"

definition lessKey :: "mirrorKey \<Rightarrow> mirrorKey \<Rightarrow> bool" where
  "lessKey a b \<longleftrightarrow>
     (if mk_hostID a \<noteq> mk_hostID b then mk_hostID a < mk_hostID b
      else if mk_port a \<noteq> mk_port b then mk_port a < mk_port b
      else mk_deploymentID a < mk_deploymentID b)"

text \<open>Sorting by \<^verbatim>\<open>lessKey\<close> is sorting in this linear order.\<close>

instantiation mirrorKey :: linorder
begin

definition less_mirrorKey :: "mirrorKey \<Rightarrow> mirrorKey \<Rightarrow> bool" where
  "less_mirrorKey a b \<longleftrightarrow> lessKey a b"

definition less_eq_mirrorKey :: "mirrorKey \<Rightarrow> mirrorKey \<Rightarrow> bool" where
  "less_eq_mirrorKey a b \<longleftrightarrow> a = b \<or> lessKey a b"

instance
proof
  fix a b c :: mirrorKey
  show "a < b \<longleftrightarrow> a \<le> b \<and> \<not> b \<le> a"
    by (cases a; cases b) (auto simp: less_mirrorKey_def less_eq_mirrorKey_def lessKey_def split: if_splits)
  show "a \<le> a" by (simp add: less_eq_mirrorKey_def)
  show "a \<le> b \<Longrightarrow> b \<le> c \<Longrightarrow> a \<le> c"
    by (cases a; cases b; cases c) (auto simp: less_eq_mirrorKey_def lessKey_def split: if_splits)
  show "a \<le> b \<Longrightarrow> b \<le> a \<Longrightarrow> a = b"
    by (cases a; cases b) (auto simp: less_eq_mirrorKey_def lessKey_def split: if_splits)
  show "a \<le> b \<or> b \<le> a"
    by (cases a; cases b) (auto simp: less_eq_mirrorKey_def lessKey_def)
qed

end

record mirrorEntry =
  me_hostID :: string
  me_hostName :: string
  me_deploymentID :: string
  me_serviceName :: string
  me_port :: int
  me_state :: MirrorState
  me_errCode :: string
  me_occupier :: "Occupier option"
  me_lastAttempt :: time
  me_forwardUp :: bool
  me_updatedAt :: time

record expInfo =
  ex_hostName :: string
  ex_serviceName :: string
  ex_duplicate :: bool

text \<open>
  What a round finds outside: the hosts, the targets, the known deployments, the process on a port, and the tunnel
  controller over a state \<open>'w\<close> of its own. A call of \<open>connect\<close> that does not return is \<open>None\<close>.
\<close>

record 'w Deps =
  dp_Hosts :: "MirrorHost list"
  dp_Target :: "string \<Rightarrow> TunnelTarget option"
  dp_EnsureConnected :: "TunnelTarget \<Rightarrow> 'w \<Rightarrow> ((tunnel_error + int) \<times> 'w) option"
  dp_EnsureForward :: "string \<Rightarrow> int \<Rightarrow> 'w \<Rightarrow> tunnel_error option \<times> 'w"
  dp_DropForward :: "string \<Rightarrow> int \<Rightarrow> 'w \<Rightarrow> 'w"
  dp_Occupier :: "int \<Rightarrow> Occupier option"
  dp_KnownDeployments :: "string list option"

record MirrorManager =
  mm_latestFrame :: "NodeStatus list"
  mm_retryReqs :: "fwdKey list"
  mm_wake :: bool
  mm_closed :: bool
  mm_entries :: "(mirrorKey \<times> mirrorEntry) list"
  mm_lastBroadcast :: "MirrorStatus list"
  mm_filteredOnce :: "string list"
  mm_snapshot :: "MirrorStatus list"
  mm_subs :: "nat \<rightharpoonup> MirrorStatus list list"
  mm_subSeq :: nat
  mm_subClosed :: bool

definition NewMirror :: MirrorManager where
  "NewMirror = \<lparr>mm_latestFrame = [], mm_retryReqs = [], mm_wake = False, mm_closed = False, mm_entries = [], mm_lastBroadcast = [],
     mm_filteredOnce = [], mm_snapshot = [], mm_subs = Map.empty, mm_subSeq = 0, mm_subClosed = False\<rparr>"

section \<open>Requests from outside\<close>

definition signalWake :: "MirrorManager \<Rightarrow> MirrorManager" where
  "signalWake m = m\<lparr>mm_wake := True\<rparr>"

definition ApplyNodes :: "NodeStatus list \<Rightarrow> MirrorManager \<Rightarrow> MirrorManager" where
  "ApplyNodes nodes m = (if mm_closed m then m else signalWake (m\<lparr>mm_latestFrame := nodes\<rparr>))"

definition ReconcileNow :: "MirrorManager \<Rightarrow> MirrorManager" where
  "ReconcileNow m = (if mm_closed m then m else signalWake m)"

definition Retry :: "string \<Rightarrow> int \<Rightarrow> MirrorManager \<Rightarrow> MirrorManager" where
  "Retry h port m = (if mm_closed m then m else signalWake (m\<lparr>mm_retryReqs := List.insert (FwdKey h port) (mm_retryReqs m)\<rparr>))"

definition Statuses :: "MirrorManager \<Rightarrow> MirrorStatus list" where
  "Statuses m = mm_snapshot m"

text \<open>A subscription gets the snapshot at once; \<open>None\<close> is a channel that is already closed.\<close>

definition SubscribeMirror :: "MirrorManager \<Rightarrow> nat option \<times> MirrorManager" where
  "SubscribeMirror m =
     (if mm_subClosed m then (None, m)
      else (Some (mm_subSeq m), m\<lparr>mm_subSeq := Suc (mm_subSeq m), mm_subs := (mm_subs m)(mm_subSeq m \<mapsto> [mm_snapshot m])\<rparr>))"

definition UnsubscribeMirror :: "nat \<Rightarrow> MirrorManager \<Rightarrow> MirrorManager" where
  "UnsubscribeMirror i m = m\<lparr>mm_subs := (mm_subs m)(i := None)\<rparr>"

section \<open>The expected forwards\<close>

definition isRunningHealth :: "string \<Rightarrow> bool" where
  "isRunningHealth h \<longleftrightarrow> h = HealthRunning \<or> h = HealthHealthy \<or> h = HealthRestarting"

definition hostDisplayName :: "MirrorHost \<Rightarrow> NodeStatus \<Rightarrow> string" where
  "hostDisplayName h n = (if ho_Name h \<noteq> [] then ho_Name h else nd_Name n)"

text \<open>\<^verbatim>\<open>hosts[h.ID] = h\<close> for each host: the last one with an identifier stays.\<close>

definition host_map :: "MirrorHost list \<Rightarrow> string \<rightharpoonup> MirrorHost" where
  "host_map hs = map_of (rev (map (\<lambda>h. (ho_ID h, h)) hs))"

definition is_known :: "string list option \<Rightarrow> string \<Rightarrow> bool" where
  "is_known known d \<longleftrightarrow> (case known of None \<Rightarrow> True | Some ds \<Rightarrow> d \<in> set ds)"

record cand =
  ca_key :: mirrorKey
  ca_hostName :: string
  ca_serviceName :: string

definition instance_cands :: "MirrorHost \<Rightarrow> NodeStatus \<Rightarrow> string list option \<Rightarrow> InstanceStatus \<Rightarrow> cand list" where
  "instance_cands h n known inst =
     (if \<not> is_known known (in_DeploymentID inst) \<or> \<not> isRunningHealth (in_Health inst) then []
      else map (\<lambda>p. \<lparr>ca_key = MirrorKey (nd_HostID n) (in_DeploymentID inst) p, ca_hostName = hostDisplayName h n, ca_serviceName = in_ServiceName inst\<rparr>)
             (filter (\<lambda>p. p > 0) (in_Ports inst)))"

definition node_cands :: "(string \<rightharpoonup> MirrorHost) \<Rightarrow> string list option \<Rightarrow> NodeStatus \<Rightarrow> cand list" where
  "node_cands hosts known n =
     (case hosts (nd_HostID n) of
        None \<Rightarrow> []
      | Some h \<Rightarrow> if ho_DevMachineMode h then concat (map (instance_cands h n known) (nd_Deployments n)) else [])"

text \<open>The deployments left out for the first time because they are not known here; each is logged once.\<close>

definition left_out :: "NodeStatus list \<Rightarrow> (string \<rightharpoonup> MirrorHost) \<Rightarrow> string list option \<Rightarrow> string list" where
  "left_out frame hosts known =
     filter (\<lambda>d. \<not> is_known known d)
       (concat (map (\<lambda>n. case hosts (nd_HostID n) of None \<Rightarrow> []
          | Some h \<Rightarrow> if ho_DevMachineMode h then map in_DeploymentID (nd_Deployments n) else []) frame))"

text \<open>
  The candidates in order, each (host, port) claimed by the first. \<^verbatim>\<open>sort.Slice\<close> is not stable, but
  candidates with equal keys differ at most in the names they show, and only the first is kept.
\<close>

definition expect :: "cand \<Rightarrow> (mirrorKey \<times> expInfo) list \<times> fwdKey list \<Rightarrow> (mirrorKey \<times> expInfo) list \<times> fwdKey list" where
  "expect c = (\<lambda>(expected, claimed).
     let k = ca_key c in
     if map_of expected k \<noteq> None then (expected, claimed)
     else let taken = fwd k \<in> set claimed in
          (expected @ [(k, \<lparr>ex_hostName = ca_hostName c, ex_serviceName = ca_serviceName c, ex_duplicate = taken\<rparr>)],
           if taken then claimed else fwd k # claimed))"

definition computeExpected ::
  "NodeStatus list \<Rightarrow> (string \<rightharpoonup> MirrorHost) \<Rightarrow> string list option \<Rightarrow> string list \<Rightarrow> (mirrorKey \<times> expInfo) list \<times> string list" where
  "computeExpected frame hosts known filteredOnce =
     (let cands = sort_key ca_key (concat (map (node_cands hosts known) frame))
      in (fst (fold expect cands ([], [])), fold List.insert (left_out frame hosts known) filteredOnce))"

section \<open>One entry\<close>

definition isDue :: "mirrorEntry option \<Rightarrow> time \<Rightarrow> bool" where
  "isDue e now = (case e of None \<Rightarrow> True
     | Some e \<Rightarrow> (case me_state e of
         MirrorStateActive \<Rightarrow> True
       | MirrorStatePending \<Rightarrow> True
       | MirrorStateConflict \<Rightarrow> time_sub now (me_lastAttempt e) \<ge> defaultCooldown
       | MirrorStateFailed \<Rightarrow> time_sub now (me_lastAttempt e) \<ge> defaultCooldown))"

definition ensureEntry :: "mirrorKey \<Rightarrow> expInfo \<Rightarrow> time \<Rightarrow> (mirrorKey \<times> mirrorEntry) list \<Rightarrow> mirrorEntry" where
  "ensureEntry k info now entries =
     (case map_of entries k of
        None \<Rightarrow> \<lparr>me_hostID = mk_hostID k, me_hostName = ex_hostName info, me_deploymentID = mk_deploymentID k, me_serviceName = ex_serviceName info,
                me_port = mk_port k, me_state = MirrorStatePending, me_errCode = [], me_occupier = None, me_lastAttempt = 0,
                me_forwardUp = False, me_updatedAt = now\<rparr>
      | Some e \<Rightarrow> e\<lparr>me_hostName := ex_hostName info, me_serviceName := ex_serviceName info\<rparr>)"

text \<open>\<^verbatim>\<open>if e.forwardUp { DropForward }; e.forwardUp = false\<close>.\<close>

definition drop_up :: "'w Deps \<Rightarrow> mirrorEntry \<Rightarrow> 'w \<Rightarrow> 'w" where
  "drop_up deps e w = (if me_forwardUp e then dp_DropForward deps (me_hostID e) (me_port e) w else w)"

definition markDuplicate :: "'w Deps \<Rightarrow> time \<Rightarrow> mirrorEntry \<times> 'w \<Rightarrow> mirrorEntry \<times> 'w" where
  "markDuplicate deps now = (\<lambda>(e, w).
     let w' = drop_up deps e w; e1 = e\<lparr>me_forwardUp := False\<rparr> in
     if me_state e = MirrorStateFailed \<and> me_errCode e = errCodeDuplicate then (e1, w')
     else (e1\<lparr>me_state := MirrorStateFailed, me_errCode := errCodeDuplicate, me_occupier := None, me_lastAttempt := now, me_updatedAt := now\<rparr>, w'))"

definition markConnectFailed :: "'w Deps \<Rightarrow> string \<Rightarrow> time \<Rightarrow> mirrorEntry \<times> 'w \<Rightarrow> mirrorEntry \<times> 'w" where
  "markConnectFailed deps code now = (\<lambda>(e, w).
     (e\<lparr>me_forwardUp := False, me_state := MirrorStateFailed, me_errCode := code, me_occupier := None, me_lastAttempt := now, me_updatedAt := now\<rparr>,
      drop_up deps e w))"

definition attemptForward :: "'w Deps \<Rightarrow> time \<Rightarrow> mirrorEntry \<times> 'w \<Rightarrow> mirrorEntry \<times> 'w" where
  "attemptForward deps now = (\<lambda>(e0, w).
     let prevState = me_state e0; e = e0\<lparr>me_lastAttempt := now\<rparr> in
     case dp_EnsureForward deps (me_hostID e) (me_port e) w of
       (None, w') \<Rightarrow>
         let e1 = e\<lparr>me_forwardUp := True, me_occupier := None, me_errCode := []\<rparr>
         in ((if prevState \<noteq> MirrorStateActive then e1\<lparr>me_state := MirrorStateActive, me_updatedAt := now\<rparr> else e1), w')
     | (Some err, w') \<Rightarrow>
         if error_is err LocalPortBusy
         then let e1 = e\<lparr>me_forwardUp := False, me_errCode := errCodeConflict, me_occupier := dp_Occupier deps (me_port e)\<rparr>
              in ((if prevState \<noteq> MirrorStateConflict then e1\<lparr>me_state := MirrorStateConflict, me_updatedAt := now\<rparr> else e1), w')
         else let code = PublicError err;
                  e1 = e\<lparr>me_forwardUp := False, me_occupier := None, me_state := MirrorStateFailed, me_errCode := code\<rparr>
              in ((if me_state e \<noteq> MirrorStateFailed \<or> me_errCode e \<noteq> code then e1\<lparr>me_updatedAt := now\<rparr> else e1), w'))"

section \<open>A round\<close>

definition retried :: "fwdKey list \<Rightarrow> mirrorKey \<Rightarrow> mirrorEntry \<Rightarrow> mirrorEntry" where
  "retried retries k e =
     (if fwd k \<in> set retries
      then (if me_state e = MirrorStateConflict \<or> me_state e = MirrorStateFailed
            then e\<lparr>me_lastAttempt := 0, me_state := MirrorStatePending, me_errCode := [], me_occupier := None\<rparr>
            else e\<lparr>me_lastAttempt := 0\<rparr>)
      else e)"

definition applyRetries :: "fwdKey list \<Rightarrow> (mirrorKey \<times> mirrorEntry) list \<Rightarrow> (mirrorKey \<times> mirrorEntry) list" where
  "applyRetries retries entries = map (\<lambda>(k, e). (k, retried retries k e)) entries"

definition teardownUnexpected ::
  "'w Deps \<Rightarrow> (mirrorKey \<times> expInfo) list \<Rightarrow> (mirrorKey \<times> mirrorEntry) list \<Rightarrow> 'w \<Rightarrow> (mirrorKey \<times> mirrorEntry) list \<times> 'w" where
  "teardownUnexpected deps expected entries w =
     (filter (\<lambda>(k, e). map_of expected k \<noteq> None) entries,
      fold (\<lambda>(k, e). drop_up deps e) (filter (\<lambda>(k, e). map_of expected k = None) entries) w)"

definition hostDue :: "(mirrorKey \<times> expInfo) list \<Rightarrow> (mirrorKey \<times> mirrorEntry) list \<Rightarrow> time \<Rightarrow> string list" where
  "hostDue expected entries now =
     remdups (map (\<lambda>(k, info). mk_hostID k) (filter (\<lambda>(k, info). \<not> ex_duplicate info \<and> isDue (map_of entries k) now) expected))"

text \<open>The code of each host that was due, empty when it is connected.\<close>

fun connect_hosts :: "'w Deps \<Rightarrow> string list \<Rightarrow> 'w \<Rightarrow> ((string \<times> string) list \<times> 'w) option" where
  "connect_hosts deps [] w = Some ([], w)"
| "connect_hosts deps (h # hs) w =
     (case dp_Target deps h of
        None \<Rightarrow> map_option (\<lambda>(codes, w'). ((h, errCodeTargetUnavailable) # codes, w')) (connect_hosts deps hs w)
      | Some target \<Rightarrow>
          (case dp_EnsureConnected deps target w of
             None \<Rightarrow> None
           | Some (r, w1) \<Rightarrow>
               map_option (\<lambda>(codes, w'). ((h, case r of Inl e \<Rightarrow> PublicError e | Inr _ \<Rightarrow> []) # codes, w')) (connect_hosts deps hs w1)))"

definition converge_entry ::
  "'w Deps \<Rightarrow> (string \<times> string) list \<Rightarrow> time \<Rightarrow> mirrorKey \<times> expInfo \<Rightarrow> mirrorEntry \<times> 'w \<Rightarrow> mirrorEntry \<times> 'w" where
  "converge_entry deps connCode now = (\<lambda>(k, info) (e, w).
     if ex_duplicate info then markDuplicate deps now (e, w)
     else if \<not> isDue (Some e) now then (e, w)
     else case map_of connCode (mk_hostID k) of
            Some code \<Rightarrow> if code \<noteq> [] then markConnectFailed deps code now (e, w) else attemptForward deps now (e, w)
          | None \<Rightarrow> attemptForward deps now (e, w))"

definition converge_key ::
  "'w Deps \<Rightarrow> (string \<times> string) list \<Rightarrow> time \<Rightarrow> mirrorKey \<times> expInfo \<Rightarrow> (mirrorKey \<times> mirrorEntry) list \<times> 'w \<Rightarrow> (mirrorKey \<times> mirrorEntry) list \<times> 'w" where
  "converge_key deps connCode now ki = (\<lambda>(entries, w).
     let (e, w') = converge_entry deps connCode now ki (ensureEntry (fst ki) (snd ki) now entries, w)
     in (AList.update (fst ki) e entries, w'))"

definition converge ::
  "'w Deps \<Rightarrow> (mirrorKey \<times> expInfo) list \<Rightarrow> time \<Rightarrow> (mirrorKey \<times> mirrorEntry) list \<Rightarrow> 'w \<Rightarrow> ((mirrorKey \<times> mirrorEntry) list \<times> 'w) option" where
  "converge deps expected now entries w =
     (case connect_hosts deps (hostDue expected entries now) w of
        None \<Rightarrow> None
      | Some (connCode, w1) \<Rightarrow> Some (fold (converge_key deps connCode now) (sort_key fst expected) (entries, w1)))"

definition buildSnapshot :: "(mirrorKey \<times> mirrorEntry) list \<Rightarrow> MirrorStatus list" where
  "buildSnapshot entries =
     sort_key (\<lambda>s. MirrorKey (ms_HostID s) (ms_DeploymentID s) (ms_Port s))
       (map (\<lambda>(k, e). \<lparr>ms_HostID = me_hostID e, ms_HostName = me_hostName e, ms_DeploymentID = me_deploymentID e, ms_ServiceName = me_serviceName e,
          ms_Port = me_port e, ms_State = me_state e, ms_Error = me_errCode e, ms_Occupier = me_occupier e, ms_UpdatedAt = me_updatedAt e\<rparr>) entries)"

definition publishIfChanged :: "MirrorManager \<Rightarrow> MirrorManager" where
  "publishIfChanged m =
     (let snap = buildSnapshot (mm_entries m) in
      if snap = mm_lastBroadcast m then m
      else m\<lparr>mm_lastBroadcast := snap, mm_snapshot := snap,
             mm_subs := (\<lambda>i. map_option (\<lambda>q. if length q < 8 then q @ [snap] else q) (mm_subs m i))\<rparr>)"

definition expected_now :: "'w Deps \<Rightarrow> MirrorManager \<Rightarrow> (mirrorKey \<times> expInfo) list \<times> string list" where
  "expected_now deps m = computeExpected (mm_latestFrame m) (host_map (dp_Hosts deps)) (dp_KnownDeployments deps) (mm_filteredOnce m)"

definition reconcile :: "'w Deps \<Rightarrow> time \<Rightarrow> MirrorManager \<times> 'w \<Rightarrow> (MirrorManager \<times> 'w) option" where
  "reconcile deps now = (\<lambda>(m, w).
     let entries0 = applyRetries (mm_retryReqs m) (mm_entries m);
         (expected, filtered) = expected_now deps m;
         (entries1, w1) = teardownUnexpected deps expected entries0 w
     in map_option (\<lambda>(entries2, w2).
          (publishIfChanged (m\<lparr>mm_retryReqs := [], mm_filteredOnce := filtered, mm_entries := entries2\<rparr>), w2))
        (converge deps expected now entries1 w1))"

section \<open>The loop and closing\<close>

text \<open>One turn of the loop: a round when the loop was woken. \<open>None\<close> is a round that does not end.\<close>

definition loop_turn :: "'w Deps \<Rightarrow> time \<Rightarrow> MirrorManager \<times> 'w \<Rightarrow> (MirrorManager \<times> 'w) option" where
  "loop_turn deps now = (\<lambda>(m, w).
     if mm_closed m \<or> \<not> mm_wake m then Some (m, w) else reconcile deps now (m\<lparr>mm_wake := False\<rparr>, w))"

definition teardownAll :: "'w Deps \<Rightarrow> MirrorManager \<times> 'w \<Rightarrow> MirrorManager \<times> 'w" where
  "teardownAll deps = (\<lambda>(m, w). (m\<lparr>mm_entries := []\<rparr>, fold (\<lambda>(k, e). drop_up deps e) (mm_entries m) w))"

definition CloseMirror :: "'w Deps \<Rightarrow> MirrorManager \<times> 'w \<Rightarrow> MirrorManager \<times> 'w" where
  "CloseMirror deps = (\<lambda>(m, w).
     if mm_closed m then (m, w)
     else let (m1, w1) = teardownAll deps (m\<lparr>mm_closed := True\<rparr>, w)
          in (m1\<lparr>mm_subClosed := True, mm_subs := Map.empty\<rparr>, w1))"

end
