(* ===== verification/MirrorRounds.thy ===== *)
theory MirrorRounds
  imports PortMirror
begin

text \<open>
  One round of the mirror. First which forwards a frame asks for; then the round over any tunnel controller: the
  controller is an interface, a locale with the laws a round relies on, and the round is analysed once inside it.
\<close>

section \<open>Which forwards are expected\<close>

definition declared :: "NodeStatus list \<Rightarrow> (string \<rightharpoonup> MirrorHost) \<Rightarrow> string list option \<Rightarrow> mirrorKey \<Rightarrow> bool" where
  "declared frame hosts known k \<longleftrightarrow>
     (\<exists>n \<in> set frame. \<exists>inst \<in> set (nd_Deployments n). \<exists>h.
        hosts (nd_HostID n) = Some h \<and> ho_DevMachineMode h \<and> is_known known (in_DeploymentID inst) \<and> isRunningHealth (in_Health inst) \<and>
        0 < mk_port k \<and> mk_port k \<in> set (in_Ports inst) \<and> k = MirrorKey (nd_HostID n) (in_DeploymentID inst) (mk_port k))"

lemma cands_declared:
  "k \<in> ca_key ` set (concat (map (node_cands hosts known) frame)) \<longleftrightarrow> declared frame hosts known k"
proof
  assume "k \<in> ca_key ` set (concat (map (node_cands hosts known) frame))"
  then obtain n c where n: "n \<in> set frame" "c \<in> set (node_cands hosts known n)" "k = ca_key c" by auto
  then obtain h inst where h: "hosts (nd_HostID n) = Some h" "ho_DevMachineMode h" "inst \<in> set (nd_Deployments n)" "c \<in> set (instance_cands h n known inst)"
    by (cases "hosts (nd_HostID n)") (auto simp: node_cands_def split: if_splits)
  from h(4) have "is_known known (in_DeploymentID inst)" "isRunningHealth (in_Health inst)" "0 < mk_port (ca_key c)" "mk_port (ca_key c) \<in> set (in_Ports inst)"
    "ca_key c = MirrorKey (nd_HostID n) (in_DeploymentID inst) (mk_port (ca_key c))"
    by (auto simp: instance_cands_def split: if_splits)
  with n h show "declared frame hosts known k" unfolding declared_def by blast
next
  assume "declared frame hosts known k"
  then obtain n inst h where "n \<in> set frame" "inst \<in> set (nd_Deployments n)" "hosts (nd_HostID n) = Some h" "ho_DevMachineMode h"
    "is_known known (in_DeploymentID inst)" "isRunningHealth (in_Health inst)" "0 < mk_port k" "mk_port k \<in> set (in_Ports inst)"
    and k: "k = MirrorKey (nd_HostID n) (in_DeploymentID inst) (mk_port k)" unfolding declared_def by blast
  then have "\<lparr>ca_key = MirrorKey (nd_HostID n) (in_DeploymentID inst) (mk_port k), ca_hostName = hostDisplayName h n, ca_serviceName = in_ServiceName inst\<rparr>
      \<in> set (concat (map (node_cands hosts known) frame))"
    by (force simp: node_cands_def instance_cands_def)
  with k show "k \<in> ca_key ` set (concat (map (node_cands hosts known) frame))" by (metis cand.select_convs(1) image_eqI)
qed

text \<open>The state of the loop over the candidates, whose keys come in order.\<close>

definition expect_inv :: "mirrorKey list \<Rightarrow> (mirrorKey \<times> expInfo) list \<Rightarrow> fwdKey list \<Rightarrow> bool" where
  "expect_inv ks expected claimed \<longleftrightarrow>
     distinct (map fst expected) \<and> set (map fst expected) = set ks \<and> set claimed = fwd ` set ks \<and>
     (\<forall>k info. (k, info) \<in> set expected \<longrightarrow> ex_duplicate info = (\<exists>k' \<in> set ks. fwd k' = fwd k \<and> mk_deploymentID k' < mk_deploymentID k))"

lemma expect_invD:
  assumes "expect_inv ks expected claimed"
  shows "distinct (map fst expected)" "set (map fst expected) = set ks" "set claimed = fwd ` set ks"
    "(k, info) \<in> set expected \<Longrightarrow> ex_duplicate info \<longleftrightarrow> (\<exists>k' \<in> set ks. fwd k' = fwd k \<and> mk_deploymentID k' < mk_deploymentID k)"
  using assms unfolding expect_inv_def by blast+

lemma key_less: "(a :: mirrorKey) \<le> b \<Longrightarrow> a \<noteq> b \<Longrightarrow> fwd a = fwd b \<Longrightarrow> mk_deploymentID a < mk_deploymentID b"
  by (cases a; cases b) (simp add: less_eq_mirrorKey_def lessKey_def fwd_def)

lemma expect_step:
  assumes "expect_inv ks expected claimed" "\<forall>k \<in> set ks. k \<le> ca_key c" "expect c (expected, claimed) = (expected', claimed')"
  shows "expect_inv (ks @ [ca_key c]) expected' claimed'"
proof (cases "map_of expected (ca_key c)")
  case None
  let ?k = "ca_key c"
  note inv = expect_invD [OF assms(1)]
  from None inv(2) have new: "?k \<notin> set ks" by (metis map_of_eq_None_iff set_map)
  have less: "\<not> mk_deploymentID ?k < mk_deploymentID k" if "k \<in> set ks" "fwd k = fwd ?k" for k
    using that assms(2) new key_less [of k ?k] by (metis less_asym)
  have dup: "fwd ?k \<in> set claimed \<longleftrightarrow> (\<exists>k' \<in> set ks. fwd k' = fwd ?k \<and> mk_deploymentID k' < mk_deploymentID ?k)"
  proof
    assume "fwd ?k \<in> set claimed"
    with inv(3) obtain k' where "k' \<in> set ks" "fwd k' = fwd ?k" by (metis imageE)
    with assms(2) new key_less [of k' ?k] show "\<exists>k' \<in> set ks. fwd k' = fwd ?k \<and> mk_deploymentID k' < mk_deploymentID ?k" by metis
  next
    assume "\<exists>k' \<in> set ks. fwd k' = fwd ?k \<and> mk_deploymentID k' < mk_deploymentID ?k"
    then obtain k' where "k' \<in> set ks" "fwd ?k = fwd k'" by metis
    then show "fwd ?k \<in> set claimed" unfolding inv(3) by (rule rev_image_eqI)
  qed
  have e: "expected' = expected @ [(?k, \<lparr>ex_hostName = ca_hostName c, ex_serviceName = ca_serviceName c, ex_duplicate = fwd ?k \<in> set claimed\<rparr>)]"
    "set claimed' = insert (fwd ?k) (set claimed)"
    using assms(3) None by (auto simp: expect_def Let_def split: if_splits)
  have "distinct (map fst expected')" "set (map fst expected') = set (ks @ [?k])"
    using inv(1,2) new by (auto simp: e(1))
  moreover have "set claimed' = fwd ` set (ks @ [?k])" using inv(3) by (simp add: e(2))
  moreover have "ex_duplicate info \<longleftrightarrow> (\<exists>k' \<in> set (ks @ [?k]). fwd k' = fwd k \<and> mk_deploymentID k' < mk_deploymentID k)" if "(k, info) \<in> set expected'" for k info
  proof (cases "(k, info) \<in> set expected")
    case True
    then have "k \<in> set (map fst expected)" by force
    then have k: "k \<in> set ks" by (simp only: inv(2))
    note k = k inv(4) [OF True]
    with less [of k] show ?thesis by auto
  next
    case False
    with that e have "k = ?k" "ex_duplicate info = (fwd ?k \<in> set claimed)" by auto
    with dup show ?thesis by auto
  qed
  ultimately show ?thesis unfolding expect_inv_def by blast
next
  case (Some i)
  then have "ca_key c \<in> set (map fst expected)" by (force dest: map_of_SomeD)
  then have "ca_key c \<in> set ks" by (simp only: expect_invD(2) [OF assms(1)])
  then have s: "set (ks @ [ca_key c]) = set ks" by auto
  from Some assms(3) have "expected' = expected" "claimed' = claimed" by (auto simp: expect_def Let_def)
  with assms(1) show ?thesis unfolding expect_inv_def s by simp
qed

lemma expect_all:
  "sorted (map ca_key cs) \<Longrightarrow> fold expect cs ([], []) = (expected, claimed) \<Longrightarrow> expect_inv (map ca_key cs) expected claimed"
proof (induction cs arbitrary: expected claimed rule: rev_induct)
  case Nil
  then show ?case by (simp add: expect_inv_def)
next
  case (snoc c cs)
  obtain ex cl where p: "fold expect cs ([], []) = (ex, cl)" by fastforce
  from snoc.prems(1) have s: "sorted (map ca_key cs)" "\<forall>k \<in> set (map ca_key cs). k \<le> ca_key c" by (auto simp: sorted_append)
  from expect_step [OF snoc.IH [OF s(1) p] s(2)] snoc.prems(2) p show ?case by simp
qed

lemma expected_inv:
  "\<exists>claimed ks. set ks = Collect (declared frame hosts known) \<and> expect_inv ks (fst (computeExpected frame hosts known fo)) claimed"
proof -
  let ?cs = "sort_key ca_key (concat (map (node_cands hosts known) frame))"
  obtain ex cl where p: "fold expect ?cs ([], []) = (ex, cl)" by fastforce
  have "expect_inv (map ca_key ?cs) ex cl" by (rule expect_all [OF _ p]) simp
  moreover have "set (map ca_key ?cs) = ca_key ` set (concat (map (node_cands hosts known) frame))" by simp
  then have "set (map ca_key ?cs) = Collect (declared frame hosts known)"
    by (intro set_eqI) (simp only: cands_declared mem_Collect_eq)
  moreover have "fst (computeExpected frame hosts known fo) = ex" using p by (simp add: computeExpected_def Let_def)
  ultimately show ?thesis by blast
qed

text \<open>
  C30: The expected mirrors are exactly the positive ports that a running, known instance declares on a development
  machine, and for every host and port exactly the deployment with the least identifier gets the forward; the
  others are duplicates.
\<close>

theorem expected_exact:
  "(map_of (fst (computeExpected frame hosts known fo)) k \<noteq> None) = declared frame hosts known k \<and>
   (case map_of (fst (computeExpected frame hosts known fo)) k of None \<Rightarrow> True | Some i \<Rightarrow>
      ex_duplicate i = (\<exists>d. declared frame hosts known (MirrorKey (mk_hostID k) d (mk_port k)) \<and> d < mk_deploymentID k))"
proof -
  obtain claimed ks where i: "set ks = Collect (declared frame hosts known)" "expect_inv ks (fst (computeExpected frame hosts known fo)) claimed"
    using expected_inv by blast
  have "(map_of (fst (computeExpected frame hosts known fo)) k \<noteq> None) = declared frame hosts known k"
    using i(1) expect_invD(2) [OF i(2)] by (metis list.set_map map_of_eq_None_iff mem_Collect_eq)
  moreover have "ex_duplicate x = (\<exists>d. declared frame hosts known (MirrorKey (mk_hostID k) d (mk_port k)) \<and> d < mk_deploymentID k)" if "map_of (fst (computeExpected frame hosts known fo)) k = Some x" for x
  proof -
    from that have "(k, x) \<in> set (fst (computeExpected frame hosts known fo))" by (simp add: map_of_SomeD)
    then have "ex_duplicate x \<longleftrightarrow> (\<exists>k' \<in> set ks. fwd k' = fwd k \<and> mk_deploymentID k' < mk_deploymentID k)" by (rule expect_invD(4) [OF i(2)])
    also have "\<dots> \<longleftrightarrow> (\<exists>d. declared frame hosts known (MirrorKey (mk_hostID k) d (mk_port k)) \<and> d < mk_deploymentID k)"
      unfolding i(1) mem_Collect_eq
    proof
      assume "\<exists>k' \<in> Collect (declared frame hosts known). fwd k' = fwd k \<and> mk_deploymentID k' < mk_deploymentID k"
      then obtain k' where "declared frame hosts known k'" "fwd k' = fwd k" "mk_deploymentID k' < mk_deploymentID k" by blast
      then show "\<exists>d. declared frame hosts known (MirrorKey (mk_hostID k) d (mk_port k)) \<and> d < mk_deploymentID k"
        by (intro exI [of _ "mk_deploymentID k'"]) (cases k', simp add: fwd_def)
    next
      assume "\<exists>d. declared frame hosts known (MirrorKey (mk_hostID k) d (mk_port k)) \<and> d < mk_deploymentID k"
      then obtain d where "declared frame hosts known (MirrorKey (mk_hostID k) d (mk_port k))" "d < mk_deploymentID k" by blast
      then show "\<exists>k' \<in> Collect (declared frame hosts known). fwd k' = fwd k \<and> mk_deploymentID k' < mk_deploymentID k"
        by (intro bexI [of _ "MirrorKey (mk_hostID k) d (mk_port k)"]) (simp_all add: fwd_def)
    qed
    finally show ?thesis .
  qed
  ultimately show ?thesis by (auto split: option.split)
qed

section \<open>The tunnel controller\<close>

text \<open>
  What a round relies on: \<open>up\<close> are the forwards that exist, \<open>good\<close> is the invariant of the controller.
  Connecting may lose forwards (a connection is replaced when its pin changed) but makes none.
\<close>

locale tunnel_controller =
  fixes good :: "'w \<Rightarrow> bool" and up :: "'w \<Rightarrow> fwdKey set" and deps :: "'w Deps"
  assumes connect: "good w \<Longrightarrow> dp_EnsureConnected deps t w = Some (r, w') \<Longrightarrow> good w' \<and> up w' \<subseteq> up w"
    and ensure_ok: "good w \<Longrightarrow> dp_EnsureForward deps h p w = (None, w') \<Longrightarrow> good w' \<and> up w' = insert (FwdKey h p) (up w)"
    and ensure_err: "good w \<Longrightarrow> dp_EnsureForward deps h p w = (Some e, w') \<Longrightarrow> good w' \<and> up w' = up w \<and> FwdKey h p \<notin> up w"
    and drop_exact: "good w \<Longrightarrow> good (dp_DropForward deps h p w) \<and> up (dp_DropForward deps h p w) = up w - {FwdKey h p}"

text \<open>Entries carry their key, and one whose forward is up is active.\<close>

definition entry_ok :: "mirrorKey \<Rightarrow> mirrorEntry \<Rightarrow> bool" where
  "entry_ok k e \<longleftrightarrow> me_hostID e = mk_hostID k \<and> me_port e = mk_port k \<and> (me_forwardUp e = (me_state e = MirrorStateActive))"

definition mirror_entries_ok :: "(mirrorKey \<times> mirrorEntry) list \<Rightarrow> bool" where
  "mirror_entries_ok es \<longleftrightarrow> distinct (map fst es) \<and> (\<forall>(k, e) \<in> set es. entry_ok k e)"

text \<open>The forwards the entries hold.\<close>

definition held :: "(mirrorKey \<times> mirrorEntry) list \<Rightarrow> fwdKey set" where
  "held es = {fwd k | k e. map_of es k = Some e \<and> me_forwardUp e}"

lemma heldI: "map_of es k = Some e \<Longrightarrow> me_forwardUp e \<Longrightarrow> fwd k \<in> held es"
  unfolding held_def by blast

lemma heldE: "x \<in> held es \<Longrightarrow> (\<And>k e. map_of es k = Some e \<Longrightarrow> me_forwardUp e \<Longrightarrow> x = fwd k \<Longrightarrow> P) \<Longrightarrow> P"
  unfolding held_def by blast

lemma mirror_entries_okD: "mirror_entries_ok es \<Longrightarrow> map_of es k = Some e \<Longrightarrow> entry_ok k e"
  by (auto simp: mirror_entries_ok_def dest: map_of_SomeD)

lemma retried_props [simp]:
  "me_forwardUp (retried rs k e) = me_forwardUp e" "entry_ok k e \<Longrightarrow> entry_ok k (retried rs k e)"
  by (auto simp: retried_def entry_ok_def)

lemma applyRetries_props:
  shows "map fst (applyRetries rs es) = map fst es" "map_of (applyRetries rs es) k = map_option (retried rs k) (map_of es k)"
    "mirror_entries_ok es \<Longrightarrow> mirror_entries_ok (applyRetries rs es)"
proof -
  show m: "map fst (applyRetries rs es) = map fst es" by (simp add: applyRetries_def comp_def case_prod_beta)
  show "map_of (applyRetries rs es) k = map_option (retried rs k) (map_of es k)" by (induction es) (auto simp: applyRetries_def)
  show "mirror_entries_ok es \<Longrightarrow> mirror_entries_ok (applyRetries rs es)" unfolding mirror_entries_ok_def m by (auto simp: applyRetries_def)
qed

lemma held_applyRetries [simp]: "held (applyRetries rs es) = held es"
proof (intro equalityI subsetI)
  fix x assume "x \<in> held (applyRetries rs es)"
  then obtain k e where "map_of (applyRetries rs es) k = Some e" "me_forwardUp e" "x = fwd k" by (rule heldE)
  then obtain e' where "map_of es k = Some e'" "me_forwardUp e'" "x = fwd k" by (auto simp: applyRetries_props(2))
  then show "x \<in> held es" by (auto intro: heldI)
next
  fix x assume "x \<in> held es"
  then obtain k e where "map_of es k = Some e" "me_forwardUp e" "x = fwd k" by (rule heldE)
  then show "x \<in> held (applyRetries rs es)" using heldI [of "applyRetries rs es" k "retried rs k e"] by (simp add: applyRetries_props(2))
qed

context tunnel_controller
begin

lemma drop_up_exact:
  assumes "good w" "entry_ok k e"
  shows "good (drop_up deps e w)" "up (drop_up deps e w) = (if me_forwardUp e then up w - {fwd k} else up w)"
  using assms drop_exact by (simp_all add: drop_up_def entry_ok_def fwd_def)

lemma drop_all:
  assumes "good w" "\<forall>(k, e) \<in> set es. entry_ok k e"
  shows "good (fold (\<lambda>(k, e). drop_up deps e) es w) \<and>
    up (fold (\<lambda>(k, e). drop_up deps e) es w) = up w - {fwd k | k e. (k, e) \<in> set es \<and> me_forwardUp e}"
  using assms
proof (induction es arbitrary: w)
  case (Cons x es)
  obtain k e where x: "x = (k, e)" by fastforce
  with Cons.prems drop_up_exact [of w k e] have g: "good (drop_up deps e w)"
    "up (drop_up deps e w) = (if me_forwardUp e then up w - {fwd k} else up w)" by auto
  from Cons.IH [OF g(1)] Cons.prems(2) g(2) show ?case by (auto simp: x)
qed simp

lemma teardown_covers:
  assumes "good w" "mirror_entries_ok es" "up w \<subseteq> held es" "teardownUnexpected deps expected es w = (es', w')"
  shows "good w' \<and> mirror_entries_ok es' \<and> up w' \<subseteq> held es' \<and> (\<forall>k \<in> fst ` set es'. map_of expected k \<noteq> None) \<and>
    (\<forall>k. map_of expected k \<noteq> None \<longrightarrow> map_of es' k = map_of es k)"
proof -
  let ?gone = "filter (\<lambda>(k, e). map_of expected k = None) es"
  have es': "es' = filter (\<lambda>(k, e). map_of expected k \<noteq> None) es" and w': "w' = fold (\<lambda>(k, e). drop_up deps e) ?gone w"
    using assms(4) by (simp_all add: teardownUnexpected_def)
  have d: "good w'" "up w' = up w - {fwd k | k e. (k, e) \<in> set ?gone \<and> me_forwardUp e}"
    using drop_all [of w ?gone] assms(1,2) unfolding w' mirror_entries_ok_def by auto
  have dist: "distinct (map fst es)" using assms(2) by (simp add: mirror_entries_ok_def)
  have ok: "mirror_entries_ok es'" using assms(2) unfolding mirror_entries_ok_def es' by (auto intro: distinct_map_filter)
  have same: "map_of es' k = map_of es k" if "map_of expected k \<noteq> None" for k
    unfolding es' using that by (induction es) auto
  have "x \<in> held es'" if x: "x \<in> up w'" for x
  proof -
    from x d assms(3) have "x \<in> held es" by auto
    then obtain k e where k: "map_of es k = Some e" "me_forwardUp e" "x = fwd k" by (rule heldE)
    have "map_of expected k \<noteq> None"
    proof
      assume "map_of expected k = None"
      with k have "(k, e) \<in> set ?gone" by (auto dest: map_of_SomeD)
      with x d(2) k show False by blast
    qed
    with same k show ?thesis by (auto intro: heldI)
  qed
  moreover have "\<forall>k \<in> fst ` set es'. map_of expected k \<noteq> None" unfolding es' by auto
  ultimately show ?thesis using d(1) ok same by blast
qed

lemma connect_hosts_shrink:
  "good w \<Longrightarrow> connect_hosts deps hs w = Some (codes, w') \<Longrightarrow> good w' \<and> up w' \<subseteq> up w"
proof (induction hs arbitrary: w codes)
  case (Cons h hs)
  show ?case
  proof (cases "dp_Target deps h")
    case None
    with Cons show ?thesis by (auto simp: map_option_case split: option.splits)
  next
    case (Some t)
    with Cons.prems(2) obtain r w1 codes' where c: "dp_EnsureConnected deps t w = Some (r, w1)" "connect_hosts deps hs w1 = Some (codes', w')"
      by (auto split: option.splits)
    from connect [OF Cons.prems(1) c(1)] Cons.IH [OF _ c(2)] show ?thesis by auto
  qed
qed simp

end

lemma ensureEntry_props:
  "mirror_entries_ok es \<Longrightarrow> entry_ok k (ensureEntry k info now es)"
  "me_forwardUp (ensureEntry k info now es) = (case map_of es k of None \<Rightarrow> False | Some e \<Rightarrow> me_forwardUp e)"
  by (auto simp: ensureEntry_def entry_ok_def dest: mirror_entries_okD split: option.splits)

context tunnel_controller
begin

lemma attempt_props:
  assumes "good w" "entry_ok k e" "attemptForward deps now (e, w) = (e', w')"
  shows "good w' \<and> entry_ok k e' \<and> up w' - {fwd k} = up w - {fwd k} \<and> (fwd k \<in> up w' \<longleftrightarrow> me_forwardUp e') \<and> up w \<subseteq> up w'"
proof -
  obtain r v where v: "dp_EnsureForward deps (mk_hostID k) (mk_port k) w = (r, v)" by fastforce
  have key: "me_hostID e = mk_hostID k" "me_port e = mk_port k" using assms(2) by (simp_all add: entry_ok_def)
  show ?thesis
  proof (cases r)
    case None
    with v ensure_ok [OF assms(1), of "mk_hostID k" "mk_port k" v] have "good v" "up v = insert (fwd k) (up w)" by (auto simp: fwd_def)
    moreover have "w' = v" "me_forwardUp e'" "me_state e' = MirrorStateActive" "me_hostID e' = mk_hostID k" "me_port e' = mk_port k"
      using assms(3) v None key by (auto simp: attemptForward_def Let_def split: if_splits)
    ultimately show ?thesis by (auto simp: entry_ok_def)
  next
    case (Some err)
    with v ensure_err [OF assms(1), of "mk_hostID k" "mk_port k" err v] have g: "good v" "up v = up w" "fwd k \<notin> up w" by (auto simp: fwd_def)
    have "w' = v" "\<not> me_forwardUp e'" "me_state e' \<noteq> MirrorStateActive" "me_hostID e' = mk_hostID k" "me_port e' = mk_port k"
      using assms(3) v Some key by (auto simp: attemptForward_def Let_def split: if_splits)
    with g show ?thesis by (auto simp: entry_ok_def)
  qed
qed

lemma converge_entry_props:
  assumes "good w" "entry_ok k e" "converge_entry deps codes now (k, info) (e, w) = (e', w')"
  shows "good w'" "entry_ok k e'" "up w' - {fwd k} = up w - {fwd k}"
    "fwd k \<in> up w' \<Longrightarrow> me_forwardUp e' \<or> fwd k \<in> up w \<and> \<not> me_forwardUp e"
    "ex_duplicate info \<Longrightarrow> \<not> me_forwardUp e'"
    "me_forwardUp e' \<Longrightarrow> fwd k \<in> up w'"
    "\<not> me_forwardUp e \<Longrightarrow> up w \<subseteq> up w'"
proof -
  note drop = drop_up_exact [OF assms(1,2)]
  consider "ex_duplicate info" | "\<not> ex_duplicate info" "\<not> isDue (Some e) now"
    | code where "\<not> ex_duplicate info" "isDue (Some e) now" "map_of codes (mk_hostID k) = Some code" "code \<noteq> []"
    | "\<not> ex_duplicate info" "attemptForward deps now (e, w) = (e', w')"
    using assms(3) by (auto simp: converge_entry_def split: if_splits option.splits)
  then have "good w' \<and> entry_ok k e' \<and> up w' - {fwd k} = up w - {fwd k} \<and>
    (fwd k \<in> up w' \<longrightarrow> me_forwardUp e' \<or> fwd k \<in> up w \<and> \<not> me_forwardUp e) \<and> (ex_duplicate info \<longrightarrow> \<not> me_forwardUp e') \<and>
    (me_forwardUp e' \<longrightarrow> fwd k \<in> up w') \<and> (\<not> me_forwardUp e \<longrightarrow> up w \<subseteq> up w')"
  proof cases
    case 1
    with assms(3) have r: "w' = drop_up deps e w" "\<not> me_forwardUp e'" "me_state e' \<noteq> MirrorStateActive" "me_hostID e' = me_hostID e" "me_port e' = me_port e"
      by (auto simp: converge_entry_def markDuplicate_def Let_def split: if_splits)
    with assms(2) drop show ?thesis by (auto simp: entry_ok_def split: if_splits)
  next
    case 2
    with assms(3) have "e' = e" "w' = w" by (simp_all add: converge_entry_def)
    moreover have "\<not> me_forwardUp e" using 2(2) assms(2) by (auto simp: isDue_def entry_ok_def)
    ultimately show ?thesis using 2 assms(1,2) by auto
  next
    case 3
    with assms(3) have r: "w' = drop_up deps e w" "\<not> me_forwardUp e'" "me_state e' \<noteq> MirrorStateActive" "me_hostID e' = me_hostID e" "me_port e' = me_port e"
      by (auto simp: converge_entry_def markConnectFailed_def)
    with 3 assms(2) drop show ?thesis by (auto simp: entry_ok_def split: if_splits)
  next
    case 4
    with attempt_props [OF assms(1,2) 4(2)] show ?thesis by auto
  qed
  then show "good w'" "entry_ok k e'" "up w' - {fwd k} = up w - {fwd k}"
    "fwd k \<in> up w' \<Longrightarrow> me_forwardUp e' \<or> fwd k \<in> up w \<and> \<not> me_forwardUp e"
    "ex_duplicate info \<Longrightarrow> \<not> me_forwardUp e'" "me_forwardUp e' \<Longrightarrow> fwd k \<in> up w'" "\<not> me_forwardUp e \<Longrightarrow> up w \<subseteq> up w'" by blast+
qed

text \<open>One key: the other entries stay, and the forwards stay covered.\<close>

lemma converge_key_covers:
  assumes "good w" "mirror_entries_ok es" "up w \<subseteq> held es" "converge_key deps codes now (k, info) (es, w) = (es', w')"
  shows "\<exists>e'. good w' \<and> mirror_entries_ok es' \<and> up w' \<subseteq> held es' \<and> map_of es' = (map_of es)(k \<mapsto> e') \<and>
    (ex_duplicate info \<longrightarrow> \<not> me_forwardUp e') \<and> (me_forwardUp e' \<longrightarrow> fwd k \<in> up w') \<and>
    up w' - {fwd k} = up w - {fwd k} \<and> ((\<forall>e. map_of es k = Some e \<longrightarrow> \<not> me_forwardUp e) \<longrightarrow> up w \<subseteq> up w')"
proof -
  let ?e = "ensureEntry k info now es"
  obtain e' where c: "converge_entry deps codes now (k, info) (?e, w) = (e', w')" and es': "es' = AList.update k e' es"
    using assms(4) by (auto simp: converge_key_def split: prod.splits)
  note ee = ensureEntry_props(1) [OF assms(2)] ensureEntry_props(2)
  note p = converge_entry_props [OF assms(1) ee(1) c]
  have m: "map_of es' = (map_of es)(k \<mapsto> e')" unfolding es' by (simp add: update_conv')
  have ok: "mirror_entries_ok es'"
    using assms(2) p(2) m unfolding mirror_entries_ok_def es' by (auto simp: distinct_update dest!: map_of_is_SomeI [rotated] split: if_splits)
  have "x \<in> held es'" if x: "x \<in> up w'" for x
  proof (cases "x = fwd k \<and> me_forwardUp e'")
    case True
    with m show ?thesis by (auto intro: heldI [of _ k e'])
  next
    case False
    with x p(3,4) have "x \<in> up w \<and> (x = fwd k \<longrightarrow> \<not> me_forwardUp ?e)" by blast
    then have x': "x \<in> held es" "x = fwd k \<longrightarrow> \<not> me_forwardUp ?e" using assms(3) by blast+
    from x'(1) obtain k2 e2 where k2: "map_of es k2 = Some e2" "me_forwardUp e2" "x = fwd k2" by (rule heldE)
    note k2 = k2 x'(2)
    with ee(2) [of k info now es] have "k2 \<noteq> k" by auto
    with m k2 show ?thesis by (auto intro: heldI [of _ k2 e2])
  qed
  moreover have "\<not> me_forwardUp ?e" if "\<forall>e. map_of es k = Some e \<longrightarrow> \<not> me_forwardUp e"
    using that ee(2) [of k info now es] by (auto split: option.splits)
  ultimately show ?thesis using p ok m by blast
qed

end

definition losers_down :: "(mirrorKey \<times> expInfo) list \<Rightarrow> (mirrorKey \<times> mirrorEntry) list \<Rightarrow> bool" where
  "losers_down kis es \<longleftrightarrow> (\<forall>k i e. (k, i) \<in> set kis \<longrightarrow> ex_duplicate i \<longrightarrow> map_of es k = Some e \<longrightarrow> \<not> me_forwardUp e)"

definition truthful :: "(mirrorKey \<times> expInfo) list \<Rightarrow> (mirrorKey \<times> mirrorEntry) list \<Rightarrow> fwdKey set \<Rightarrow> bool" where
  "truthful kis es up \<longleftrightarrow> (\<forall>k i e. (k, i) \<in> set kis \<longrightarrow> map_of es k = Some e \<longrightarrow> me_forwardUp e \<longrightarrow> fwd k \<in> up)"

context tunnel_controller
begin

text \<open>All keys of a round: what is expected of the entries and forwards after it.\<close>

lemma converge_keys:
  assumes "good w" "mirror_entries_ok es" "up w \<subseteq> held es" "distinct (map fst kis)"
    and "fold (converge_key deps codes now) kis (es, w) = (es', w')"
  shows "good w' \<and> mirror_entries_ok es' \<and> up w' \<subseteq> held es' \<and> dom (map_of es') = dom (map_of es) \<union> fst ` set kis \<and> losers_down kis es' \<and>
    (losers_down kis es \<longrightarrow>
       (\<forall>k1 k2 i1 i2. (k1, i1) \<in> set kis \<longrightarrow> (k2, i2) \<in> set kis \<longrightarrow> fwd k1 = fwd k2 \<longrightarrow> \<not> ex_duplicate i1 \<longrightarrow> \<not> ex_duplicate i2 \<longrightarrow> k1 = k2) \<longrightarrow>
       truthful kis es' (up w'))"
  using assms(4,5)
proof (induction kis arbitrary: es' w' rule: rev_induct)
  case Nil
  with assms show ?case by (auto simp: losers_down_def truthful_def)
next
  case (snoc ki kis)
  obtain k i where ki: "ki = (k, i)" by fastforce
  obtain es1 w1 where s: "fold (converge_key deps codes now) kis (es, w) = (es1, w1)" by fastforce
  from snoc.prems(1) have dist: "distinct (map fst kis)" and new: "k \<notin> fst ` set kis" by (auto simp: ki)
  note ih = snoc.IH [OF dist s]
  from snoc.prems(2) s ki have step: "converge_key deps codes now (k, i) (es1, w1) = (es', w')" by simp
  from ih have ih': "good w1" "mirror_entries_ok es1" "up w1 \<subseteq> held es1" by blast+
  obtain e' where e': "good w'" "mirror_entries_ok es'" "up w' \<subseteq> held es'" "map_of es' = (map_of es1)(k \<mapsto> e')"
    "ex_duplicate i \<longrightarrow> \<not> me_forwardUp e'" "me_forwardUp e' \<longrightarrow> fwd k \<in> up w'"
    "up w' - {fwd k} = up w1 - {fwd k}" "(\<forall>e. map_of es1 k = Some e \<longrightarrow> \<not> me_forwardUp e) \<longrightarrow> up w1 \<subseteq> up w'"
    using converge_key_covers [OF ih' step] by blast
  have other: "map_of es' k2 = map_of es1 k2" "k2 \<noteq> k" if "(k2, i2) \<in> set kis" for k2 i2
  proof -
    from that have "k2 \<in> fst ` set kis" by (metis fst_conv image_eqI)
    with new show "k2 \<noteq> k" by blast
    then show "map_of es' k2 = map_of es1 k2" by (simp add: e'(4))
  qed
  have "losers_down (kis @ [ki]) es'"
    using ih e'(4,5) other unfolding losers_down_def ki by auto
  moreover have "dom (map_of es') = dom (map_of es) \<union> fst ` set (kis @ [ki])" using ih by (auto simp: e'(4) ki)
  moreover have "truthful (kis @ [ki]) es' (up w')"
    if set: "losers_down (kis @ [ki]) es" and one: "\<forall>k1 k2 i1 i2. (k1, i1) \<in> set (kis @ [ki]) \<longrightarrow> (k2, i2) \<in> set (kis @ [ki]) \<longrightarrow>
       fwd k1 = fwd k2 \<longrightarrow> \<not> ex_duplicate i1 \<longrightarrow> \<not> ex_duplicate i2 \<longrightarrow> k1 = k2"
  proof -
    have same: "map_of es1 k = map_of es k"
    proof -
      have "map_of es1 k = map_of es k" if "k \<notin> fst ` set kis" "fold (converge_key deps codes now) kis (es, w) = (es1, w1)" for kis es1 w1
        using that
      proof (induction kis arbitrary: es1 w1 rule: rev_induct)
        case (snoc x xs)
        obtain es0 w0 where "fold (converge_key deps codes now) xs (es, w) = (es0, w0)" by fastforce
        with snoc show ?case by (auto simp: converge_key_def update_conv' split: prod.splits)
      qed simp
      with new s show ?thesis by blast
    qed
    have tr: "truthful kis es1 (up w1)" using ih set one unfolding losers_down_def by auto
    have "fwd k2 \<in> up w'" if k2: "(k2, i2) \<in> set kis" "map_of es' k2 = Some e2" "me_forwardUp e2" for k2 i2 e2
    proof -
      from tr k2 other(1) [OF k2(1)] have in1: "fwd k2 \<in> up w1" unfolding truthful_def by auto
      show ?thesis
      proof (cases "fwd k2 = fwd k")
        case False
        with in1 e'(7) show ?thesis by blast
      next
        case True
        have "\<not> ex_duplicate i2" using ih k2 other(1) [OF k2(1)] unfolding losers_down_def by auto
        with one k2(1) other(2) [OF k2(1)] True have "ex_duplicate i" unfolding ki by auto
        with set have "\<forall>e. map_of es1 k = Some e \<longrightarrow> \<not> me_forwardUp e" using same unfolding losers_down_def ki by auto
        with e'(8) in1 show ?thesis by blast
      qed
    qed
    then show ?thesis using e'(4,6) unfolding truthful_def ki by auto
  qed
  ultimately show ?case using e'(1-3) by blast
qed

end

definition winner_of :: "(mirrorKey \<times> expInfo) list \<Rightarrow> fwdKey set" where
  "winner_of expected = {fwd k | k i. map_of expected k = Some i \<and> \<not> ex_duplicate i}"

lemma expected_distinct: "distinct (map fst (fst (expected_now deps m)))"
  using expected_inv expect_invD(1) unfolding expected_now_def by blast

lemma one_winner:
  assumes "(k1, i1) \<in> set (fst (expected_now deps m))" "(k2, i2) \<in> set (fst (expected_now deps m))"
    "fwd k1 = fwd k2" "\<not> ex_duplicate i1" "\<not> ex_duplicate i2"
  shows "k1 = k2"
proof -
  obtain claimed ks where i: "expect_inv ks (fst (expected_now deps m)) claimed"
    using expected_inv unfolding expected_now_def by blast
  have "k1 \<in> set (map fst (fst (expected_now deps m)))" "k2 \<in> set (map fst (fst (expected_now deps m)))"
    using assms(1,2) by force+
  then have "k1 \<in> set ks" "k2 \<in> set ks" by (simp_all only: expect_invD(2) [OF i])
  with expect_invD(4) [OF i assms(1)] expect_invD(4) [OF i assms(2)] assms(3-5)
  have "mk_deploymentID k1 = mk_deploymentID k2" by (metis not_less_iff_gr_or_eq)
  with assms(3) show ?thesis by (cases k1; cases k2) (simp add: fwd_def)
qed

context tunnel_controller
begin

text \<open>A whole round.\<close>

lemma reconcile_covers:
  assumes "good w" "mirror_entries_ok (mm_entries m)" "up w \<subseteq> held (mm_entries m)" "reconcile deps now (m, w) = Some (m', w')"
  shows "good w'" "mirror_entries_ok (mm_entries m')" "up w' \<subseteq> held (mm_entries m')"
    "dom (map_of (mm_entries m')) = dom (map_of (fst (expected_now deps m)))" "losers_down (fst (expected_now deps m)) (mm_entries m')"
    "losers_down (fst (expected_now deps m)) (mm_entries m) \<Longrightarrow> up w' = held (mm_entries m')"
proof -
  let ?x = "fst (expected_now deps m)" and ?es0 = "applyRetries (mm_retryReqs m) (mm_entries m)"
  let ?kis = "sort_key fst ?x"
  obtain es1 w1 where t: "teardownUnexpected deps ?x ?es0 w = (es1, w1)" by fastforce
  obtain codes w2 where c: "connect_hosts deps (hostDue ?x es1 now) w1 = Some (codes, w2)"
    and r: "(mm_entries m', w') = fold (converge_key deps codes now) ?kis (es1, w2)"
    using assms(4) t by (auto simp: reconcile_def converge_def publishIfChanged_def Let_def case_prod_beta split: option.splits if_splits)
  have t1: "good w1" "mirror_entries_ok es1" "up w1 \<subseteq> held es1" "\<forall>k \<in> fst ` set es1. map_of ?x k \<noteq> None"
    "\<forall>k. map_of ?x k \<noteq> None \<longrightarrow> map_of es1 k = map_of ?es0 k"
    using teardown_covers [OF assms(1) _ _ t] assms(2,3) by (simp_all add: applyRetries_props)
  have w2: "good w2" "up w2 \<subseteq> held es1" using connect_hosts_shrink [OF t1(1) c] t1(3) by auto
  have "distinct (map fst ?kis)" using expected_distinct [of deps m] by (simp add: distinct_map)
  note f = converge_keys [OF w2(1) t1(2) w2(2) this r [symmetric]]
  have s: "losers_down ?kis es = losers_down ?x es" for es by (simp add: losers_down_def)
  show "good w'" "mirror_entries_ok (mm_entries m')" and cov: "up w' \<subseteq> held (mm_entries m')" and set: "losers_down ?x (mm_entries m')"
    using f unfolding s by blast+
  have "dom (map_of es1) \<subseteq> dom (map_of ?x)"
  proof
    fix k assume "k \<in> dom (map_of es1)"
    then have "k \<in> fst ` set es1" by (simp add: dom_map_of_conv_image_fst)
    with t1(4) show "k \<in> dom (map_of ?x)" by (simp only: domIff not_False_eq_True)
  qed
  moreover have "fst ` set ?kis = dom (map_of ?x)" by (simp add: dom_map_of_conv_image_fst)
  moreover have "dom (map_of (mm_entries m')) = dom (map_of es1) \<union> fst ` set ?kis" using f by (elim conjE)
  ultimately show dom: "dom (map_of (mm_entries m')) = dom (map_of ?x)" by (simp only: Un_absorb1)
  show "up w' = held (mm_entries m')" if old: "losers_down ?x (mm_entries m)"
  proof -
    have "losers_down ?x es1"
      unfolding losers_down_def
    proof (intro allI impI)
      fix k i e assume k: "(k, i) \<in> set ?x" "ex_duplicate i" "map_of es1 k = Some e"
      then have "map_of ?x k \<noteq> None" by (metis map_of_eq_None_iff fst_conv image_eqI)
      with k(3) t1(5) have "map_of ?es0 k = Some e" by simp
      then obtain e' where "map_of (mm_entries m) k = Some e'" "e = retried (mm_retryReqs m) k e'" by (auto simp: applyRetries_props(2))
      with old k show "\<not> me_forwardUp e" unfolding losers_down_def by simp
    qed
    then have "losers_down ?kis es1" by (simp only: s)
    moreover have "\<forall>k1 k2 i1 i2. (k1, i1) \<in> set ?kis \<longrightarrow> (k2, i2) \<in> set ?kis \<longrightarrow> fwd k1 = fwd k2 \<longrightarrow>
        \<not> ex_duplicate i1 \<longrightarrow> \<not> ex_duplicate i2 \<longrightarrow> k1 = k2"
      unfolding set_sort using one_winner by blast
    ultimately have "truthful ?kis (mm_entries m') (up w')" using f by (elim conjE) (drule (1) mp, drule (1) mp)
    have "x \<in> up w'" if "x \<in> held (mm_entries m')" for x
    proof -
      from that obtain k e where k: "map_of (mm_entries m') k = Some e" "me_forwardUp e" "x = fwd k" by (rule heldE)
      then have "map_of ?x k \<noteq> None" using dom by (auto simp: domIff)
      then obtain i where "(k, i) \<in> set ?kis" by (auto dest: map_of_SomeD)
      with k \<open>truthful ?kis (mm_entries m') (up w')\<close> show ?thesis unfolding truthful_def by blast
    qed
    with cov show ?thesis by blast
  qed
qed

lemma winners_only:
  assumes "dom (map_of es) = dom (map_of x)" "losers_down x es"
  shows "held es \<subseteq> winner_of x"
proof
  fix y assume "y \<in> held es"
  then obtain k e where k: "map_of es k = Some e" "me_forwardUp e" "y = fwd k" by (rule heldE)
  then obtain i where i: "map_of x k = Some i" using assms(1) by (metis domI domD)
  then have "\<not> ex_duplicate i" using assms(2) k by (auto simp: losers_down_def dest: map_of_SomeD)
  with i k(3) show "y \<in> winner_of x" unfolding winner_of_def by blast
qed

lemma closing_clears:
  assumes "good w" "mirror_entries_ok (mm_entries m)" "up w \<subseteq> held (mm_entries m)" "CloseMirror deps (m, w) = (m', w')" "\<not> mm_closed m"
  shows "good w' \<and> up w' = {} \<and> mm_entries m' = [] \<and> mm_closed m'"
proof -
  have w': "w' = fold (\<lambda>(k, e). drop_up deps e) (mm_entries m) w" "mm_entries m' = []" "mm_closed m'"
    using assms(4,5) by (auto simp: CloseMirror_def teardownAll_def)
  have d: "good w'" "up w' = up w - {fwd k | k e. (k, e) \<in> set (mm_entries m) \<and> me_forwardUp e}"
    using drop_all [OF assms(1), of "mm_entries m"] assms(2) unfolding w' mirror_entries_ok_def by auto
  have "x \<notin> up w'" for x
  proof
    assume x: "x \<in> up w'"
    with d assms(3) have "x \<in> held (mm_entries m)" by blast
    then obtain k e where "map_of (mm_entries m) k = Some e" "me_forwardUp e" "x = fwd k" by (rule heldE)
    with x d(2) show False by (auto dest: map_of_SomeD)
  qed
  with d(1) w' show ?thesis by blast
qed

end

end
