(* ===== verification/TunnelClaims.thy ===== *)
theory TunnelClaims
  imports Tunnels
begin

text \<open>
  What the tunnels promise: connections only to hosts that showed the pinned key, tunnels open exactly for the
  connections the manager has, and dials that were overtaken by a disconnection never published.
\<close>

section \<open>The invariant of the manager\<close>

definition conns_ok :: "TunnelWorld \<Rightarrow> bool" where
  "conns_ok w \<longleftrightarrow>
     (\<forall>h c. conn_of w h = Some c \<longrightarrow> hk_Verified (cn_hostKey c) \<and> tm_hostKeys (tw_m w) h = Some (cn_hostKey c) \<and>
        tm_status (tw_m w) h = Some StatusConnected \<and> tm_connecting (tw_m w) h = None) \<and>
     (\<forall>h. conn_of w h = None \<longrightarrow> tm_hostKeys (tw_m w) h = None \<and> tm_status (tw_m w) h \<noteq> Some StatusConnected) \<and>
     (tm_closed (tw_m w) \<longrightarrow> tm_conns (tw_m w) = [])"

definition tunnels_ok :: "TunnelWorld \<Rightarrow> bool" where
  "tunnels_ok w \<longleftrightarrow>
     (\<forall>h c. conn_of w h = Some c \<longrightarrow> (\<exists>i. cn_tunnel c = Some i \<and> i < length (tw_tunnels w) \<and> \<not> tn_closed (tw_tunnels w ! i))) \<and>
     (\<forall>i < length (tw_tunnels w). \<not> tn_closed (tw_tunnels w ! i) \<longrightarrow> (\<exists>h. tunnel_of w h = Some i)) \<and>
     (\<forall>h h' i. tunnel_of w h = Some i \<longrightarrow> tunnel_of w h' = Some i \<longrightarrow> h = h') \<and>
     (\<forall>t \<in> set (tw_tunnels w). tn_closed t \<longrightarrow> tn_forwards t = [])"

definition dials_ok :: "TunnelWorld \<Rightarrow> bool" where
  "dials_ok w \<longleftrightarrow>
     (\<forall>d \<in> set (tw_dialing w). tm_connecting (tw_m w) (tt_HostID (dl_target d)) = Some (dl_attempt d) \<and>
        HostKeyIdentitySHA256 (tt_SSHHostKeyFingerprint (dl_target d)) = Inr (dl_desired d) \<and> at_id (dl_attempt d) < tw_attempts w) \<and>
     distinct (map (\<lambda>d. at_id (dl_attempt d)) (tw_dialing w)) \<and>
     (\<forall>h a. tm_connecting (tw_m w) h = Some a \<longrightarrow> (\<exists>d \<in> set (tw_dialing w). tt_HostID (dl_target d) = h \<and> dl_attempt d = a))"

definition world_ok :: "TunnelWorld \<Rightarrow> bool" where
  "world_ok w \<longleftrightarrow> conns_ok w \<and> tunnels_ok w \<and> dials_ok w"

lemma world_okI: "conns_ok w \<Longrightarrow> tunnels_ok w \<Longrightarrow> dials_ok w \<Longrightarrow> world_ok w"
  by (simp add: world_ok_def)

lemma tunnels_okI:
  assumes "\<And>h c. conn_of w h = Some c \<Longrightarrow> \<exists>i. cn_tunnel c = Some i \<and> i < length (tw_tunnels w) \<and> \<not> tn_closed (tw_tunnels w ! i)"
    and "\<And>i. i < length (tw_tunnels w) \<Longrightarrow> \<not> tn_closed (tw_tunnels w ! i) \<Longrightarrow> \<exists>h. tunnel_of w h = Some i"
    and "\<And>h h' i. tunnel_of w h = Some i \<Longrightarrow> tunnel_of w h' = Some i \<Longrightarrow> h = h'"
    and "\<And>t. t \<in> set (tw_tunnels w) \<Longrightarrow> tn_closed t \<Longrightarrow> tn_forwards t = []"
  shows "tunnels_ok w"
  using assms unfolding tunnels_ok_def by blast

lemma tunnels_okD:
  assumes "tunnels_ok w"
  shows "conn_of w h = Some c \<Longrightarrow> \<exists>i. cn_tunnel c = Some i \<and> i < length (tw_tunnels w) \<and> \<not> tn_closed (tw_tunnels w ! i)"
    and "i < length (tw_tunnels w) \<Longrightarrow> \<not> tn_closed (tw_tunnels w ! i) \<Longrightarrow> \<exists>h. tunnel_of w h = Some i"
    and "tunnel_of w h = Some i \<Longrightarrow> tunnel_of w h' = Some i \<Longrightarrow> h = h'"
    and "t \<in> set (tw_tunnels w) \<Longrightarrow> tn_closed t \<Longrightarrow> tn_forwards t = []"
  using assms unfolding tunnels_ok_def by blast+

lemma emitLocked_fields [simp]:
  "tm_conns (emitLocked h s e m) = tm_conns m" "tm_status (emitLocked h s e m) = tm_status m"
  "tm_hostKeys (emitLocked h s e m) = tm_hostKeys m" "tm_connecting (emitLocked h s e m) = tm_connecting m"
  "tm_generation (emitLocked h s e m) = tm_generation m" "tm_closed (emitLocked h s e m) = tm_closed m"
  by (simp_all add: emitLocked_def)

lemma bump_fields [simp]:
  "tm_conns (bump h m) = tm_conns m" "tm_status (bump h m) = tm_status m" "tm_hostKeys (bump h m) = tm_hostKeys m"
  "tm_connecting (bump h m) = tm_connecting m" "tm_closed (bump h m) = tm_closed m"
  "tm_generation (bump h m) = (tm_generation m)(h := tm_generation m h + 1)"
  by (simp_all add: bump_def)

lemma closeConn_fields [simp]:
  "tw_m (closeConn c w) = tw_m w" "tw_dialing (closeConn c w) = tw_dialing w" "tw_attempts (closeConn c w) = tw_attempts w"
  by (simp_all add: closeConn_def split: option.splits)

lemma close_found_fields [simp]:
  "tw_m (close_found r w) = tw_m w" "tw_dialing (close_found r w) = tw_dialing w" "tw_attempts (close_found r w) = tw_attempts w"
  by (simp_all add: close_found_def split: option.splits)

lemma CloseTunnel_fields [simp]: "tn_closed (CloseTunnel t)" "tn_closed t \<Longrightarrow> CloseTunnel t = t" "\<not> tn_closed t \<Longrightarrow> tn_forwards (CloseTunnel t) = []"
  by (simp_all add: CloseTunnel_def)

lemma fresh_ok: "world_ok new_world"
  by (simp add: world_ok_def conns_ok_def tunnels_ok_def dials_ok_def new_world_def NewManager_def tunnel_of_def)

text \<open>Only the manager and the dials matter to two of the three parts, only the connections and tunnels to the other.\<close>

lemma ok_congs:
  "tm_conns (tw_m w') = tm_conns (tw_m w) \<Longrightarrow> tm_hostKeys (tw_m w') = tm_hostKeys (tw_m w) \<Longrightarrow> tm_status (tw_m w') = tm_status (tw_m w) \<Longrightarrow>
     tm_connecting (tw_m w') = tm_connecting (tw_m w) \<Longrightarrow> tm_closed (tw_m w') = tm_closed (tw_m w) \<Longrightarrow> conns_ok w \<Longrightarrow> conns_ok w'"
  "tm_conns (tw_m w') = tm_conns (tw_m w) \<Longrightarrow> tw_tunnels w' = tw_tunnels w \<Longrightarrow> tunnels_ok w \<Longrightarrow> tunnels_ok w'"
  "tm_connecting (tw_m w') = tm_connecting (tw_m w) \<Longrightarrow> tw_dialing w' = tw_dialing w \<Longrightarrow> tw_attempts w' = tw_attempts w \<Longrightarrow> dials_ok w \<Longrightarrow> dials_ok w'"
  by (simp_all add: conns_ok_def tunnels_ok_def dials_ok_def tunnel_of_def)

section \<open>Taking a connection out\<close>

text \<open>\<open>w'\<close> is \<open>w\<close> without the connection of \<open>h\<close>, whose tunnel is closed.\<close>

definition unpublished :: "string \<Rightarrow> string \<Rightarrow> TunnelWorld \<Rightarrow> TunnelWorld \<Rightarrow> bool" where
  "unpublished h s w w' \<longleftrightarrow>
     tm_conns (tw_m w') = AList.delete h (tm_conns (tw_m w)) \<and> tm_hostKeys (tw_m w') = (tm_hostKeys (tw_m w))(h := None) \<and>
     tm_status (tw_m w') = (tm_status (tw_m w))(h \<mapsto> s) \<and> tm_connecting (tw_m w') = tm_connecting (tw_m w) \<and>
     tm_closed (tw_m w') = tm_closed (tw_m w) \<and> tw_dialing w' = tw_dialing w \<and> tw_attempts w' = tw_attempts w \<and>
     tw_tunnels w' = (case tunnel_of w h of None \<Rightarrow> tw_tunnels w | Some i \<Rightarrow> update_at (tw_tunnels w) i CloseTunnel)"

lemma unpublished_tunnels:
  assumes "unpublished h s w w'"
  shows "length (tw_tunnels w') = length (tw_tunnels w)"
    "i < length (tw_tunnels w) \<Longrightarrow> tw_tunnels w' ! i = (if tunnel_of w h = Some i then CloseTunnel (tw_tunnels w ! i) else tw_tunnels w ! i)"
    "tunnel_of w' h' = (if h' = h then None else tunnel_of w h')"
  using assms by (auto simp: unpublished_def nth_update_at tunnel_of_def delete_conv' split: option.splits)

lemma unpublish_tunnels_ok:
  assumes "unpublished h s w w'" "tunnels_ok w"
  shows "tunnels_ok w'"
proof -
  note t = unpublished_tunnels [OF assms(1)]
  have c: "conn_of w' = (conn_of w)(h := None)" using assms(1) by (simp add: unpublished_def delete_conv')
  have "\<exists>i. cn_tunnel c = Some i \<and> i < length (tw_tunnels w') \<and> \<not> tn_closed (tw_tunnels w' ! i)" if "conn_of w' h' = Some c" for h' c
  proof -
    from that c have h': "h' \<noteq> h" "conn_of w h' = Some c" by (auto split: if_splits)
    with assms(2) obtain i where i: "cn_tunnel c = Some i" "i < length (tw_tunnels w)" "\<not> tn_closed (tw_tunnels w ! i)"
      unfolding tunnels_ok_def by blast
    with h' have "tunnel_of w h' = Some i" by (simp add: tunnel_of_def)
    with h'(1) assms(2) have "tunnel_of w h \<noteq> Some i" unfolding tunnels_ok_def by blast
    with i t show ?thesis by simp
  qed
  moreover have "\<exists>h'. tunnel_of w' h' = Some i" if "i < length (tw_tunnels w')" "\<not> tn_closed (tw_tunnels w' ! i)" for i
  proof -
    from that t have "\<not> tn_closed (tw_tunnels w ! i)" "tunnel_of w h \<noteq> Some i" "i < length (tw_tunnels w)" by (auto split: if_splits)
    with assms(2) obtain h' where "tunnel_of w h' = Some i" unfolding tunnels_ok_def by blast
    with t(3) \<open>tunnel_of w h \<noteq> Some i\<close> show ?thesis by (metis)
  qed
  moreover have "h1 = h2" if "tunnel_of w' h1 = Some i" "tunnel_of w' h2 = Some i" for h1 h2 i
    using that t(3) assms(2) unfolding tunnels_ok_def by (metis option.distinct(1))
  moreover have "tn_forwards (tw_tunnels w' ! i) = []" if "i < length (tw_tunnels w')" "tn_closed (tw_tunnels w' ! i)" for i
  proof -
    have old: "tn_closed (tw_tunnels w ! i) \<longrightarrow> tn_forwards (tw_tunnels w ! i) = []"
      using assms(2) that(1) t(1) unfolding tunnels_ok_def by (metis nth_mem)
    from that t show ?thesis by (cases "tn_closed (tw_tunnels w ! i)") (use old in \<open>auto split: if_splits\<close>)
  qed
  ultimately show ?thesis unfolding tunnels_ok_def by (metis in_set_conv_nth)
qed

lemma unpublish_ok:
  assumes "unpublished h s w w'" "s \<noteq> StatusConnected" "world_ok w"
  shows "world_ok w'"
proof (rule world_okI)
  from assms(3) have ok: "conns_ok w" "tunnels_ok w" "dials_ok w" by (simp_all add: world_ok_def)
  show "tunnels_ok w'" by (rule unpublish_tunnels_ok [OF assms(1) ok(2)])
  show "conns_ok w'" using ok(1) assms(1,2) unfolding conns_ok_def unpublished_def
    by (auto simp: delete_conv')
  show "dials_ok w'" by (rule ok_congs(3) [OF _ _ _ ok(3)]) (use assms(1) in \<open>simp_all add: unpublished_def\<close>)
qed

lemma Disconnect_unpublishes: "\<not> tm_closed (tw_m w) \<Longrightarrow> unpublished h StatusDisconnected w (Disconnect h w)"
  by (auto simp: Disconnect_def unpublished_def Let_def close_found_def closeConn_def tunnel_of_def split: option.splits)

lemma MarkFailed_unpublishes: "\<not> tm_closed (tw_m w) \<Longrightarrow> unpublished h StatusFailed w (MarkFailed h e w)"
  by (auto simp: MarkFailed_def unpublished_def Let_def close_found_def closeConn_def tunnel_of_def split: option.splits)

lemma Disconnect_ok: "world_ok w \<Longrightarrow> world_ok (Disconnect h w)"
  using unpublish_ok [OF Disconnect_unpublishes] by (cases "tm_closed (tw_m w)") (simp_all add: Disconnect_def)

lemma MarkFailed_ok: "world_ok w \<Longrightarrow> world_ok (MarkFailed h e w)"
  using unpublish_ok [OF MarkFailed_unpublishes] by (cases "tm_closed (tw_m w)") (simp_all add: MarkFailed_def)

section \<open>Claiming a host and publishing its connection\<close>

lemma ec_claim_waits: "tm_connecting (tw_m w) (tt_HostID t) = Some a \<Longrightarrow> ec_claim t d w = (Waiting a, w)"
  by (simp add: ec_claim_def)

lemma ec_claim_ok:
  assumes "world_ok w" "conn_of w (tt_HostID t) = None" "HostKeyIdentitySHA256 (tt_SSHHostKeyFingerprint t) = Inr d"
  shows "world_ok (snd (ec_claim t d w))"
proof (cases "tm_connecting (tw_m w) (tt_HostID t)")
  case (Some a)
  with assms(1) show ?thesis by (simp add: ec_claim_waits)
next
  case None
  let ?w = "snd (ec_claim t d w)"
  from assms(1) have ok: "conns_ok w" "tunnels_ok w" "dials_ok w" by (simp_all add: world_ok_def)
  show ?thesis
  proof (rule world_okI)
    show "conns_ok ?w" using ok(1) None assms(2) by (auto simp: conns_ok_def ec_claim_def Let_def)
    show "tunnels_ok ?w" by (rule ok_congs(2) [OF _ _ ok(2)]) (simp_all add: ec_claim_def Let_def None)
    have "at_id (dl_attempt x) \<noteq> tw_attempts w \<and> tt_HostID (dl_target x) \<noteq> tt_HostID t" if "x \<in> set (tw_dialing w)" for x
      using that ok(3) None unfolding dials_ok_def by force
    with ok(3) None assms(3) show "dials_ok ?w"
      unfolding dials_ok_def ec_claim_def Let_def by (auto simp: less_SucI)
  qed
qed

lemma ec_enter_ok:
  assumes "world_ok w" "HostKeyIdentitySHA256 (tt_SSHHostKeyFingerprint t) = Inr d"
  shows "world_ok (snd (ec_enter t d w))"
proof -
  let ?h = "tt_HostID t" and ?m = "tw_m w"
  consider "tm_closed ?m" | "\<not> tm_closed ?m" "conn_of w ?h = None" | c where "\<not> tm_closed ?m" "conn_of w ?h = Some c" by fastforce
  then show ?thesis
  proof cases
    case 3
    show ?thesis
    proof (cases "hk_Verified (cn_hostKey c) \<and> hk_IdentitySHA256 (cn_hostKey c) = d")
      case False
      let ?w = "closeConn c (w\<lparr>tw_m := bump ?h (?m\<lparr>tm_conns := AList.delete ?h (tm_conns ?m),
                   tm_hostKeys := (tm_hostKeys ?m)(?h := None), tm_errors := (tm_errors ?m)(?h := None)\<rparr>)\<rparr>)"
      let ?v = "?w\<lparr>tw_m := (tw_m ?w)\<lparr>tm_status := (tm_status ?m)(?h \<mapsto> StatusConnecting)\<rparr>\<rparr>"
      have n: "tm_connecting ?m ?h = None" using assms(1) 3(2) by (simp add: world_ok_def conns_ok_def)
      have "unpublished ?h StatusConnecting w ?v"
        using 3(2) by (auto simp: unpublished_def closeConn_def tunnel_of_def split: option.splits)
      then have v: "world_ok ?v" by (rule unpublish_ok) (use assms(1) in simp_all)
      have "world_ok (snd (ec_claim t d ?v))"
        by (rule ec_claim_ok [OF v _ assms(2)]) (simp add: delete_conv')
      moreover have "snd (ec_claim t d ?v) = snd (ec_claim t d ?w)"
        using n by (simp add: ec_claim_def Let_def bump_def emitLocked_def closeConn_def split: option.splits)
      moreover have "ec_enter t d w = ec_claim t d ?w" using 3 False by (auto simp: ec_enter_def Let_def)
      ultimately show ?thesis by simp
    qed (use 3 assms in \<open>simp add: ec_enter_def Let_def\<close>)
  qed (use assms ec_claim_ok in \<open>auto simp: ec_enter_def Let_def\<close>)
qed

lemma ec_start_ok: "world_ok w \<Longrightarrow> world_ok (snd (ec_start t w))"
  by (auto simp: ec_start_def intro: ec_enter_ok MarkFailed_ok split: sum.splits)

text \<open>The result of a dial is a new tunnel at the end of the list: open for a connection, closed for an error.\<close>

lemma dial_checked_cases:
  assumes "dial_checked desired r w = (q, w1)"
  obtains e ts where "q = Inl e" "w1 = w\<lparr>tw_tunnels := tw_tunnels w @ ts\<rparr>" "ts = [] \<or> ts = [\<lparr>tn_closed = True, tn_forwards = []\<rparr>]"
  | c where "q = Inr c" "w1 = w\<lparr>tw_tunnels := tw_tunnels w @ [\<lparr>tn_closed = False, tn_forwards = []\<rparr>]\<rparr>"
      "cn_tunnel c = Some (length (tw_tunnels w))" "hk_Verified (cn_hostKey c)" "hk_IdentitySHA256 (cn_hostKey c) = desired"
proof -
  have up: "update_at (xs @ [\<lparr>tn_closed = False, tn_forwards = []\<rparr>]) (length xs) CloseTunnel = xs @ [\<lparr>tn_closed = True, tn_forwards = []\<rparr>]"
    for xs :: "Tunnel list" by (simp add: update_at_def CloseTunnel_def)
  consider e where "r = Inl e" | "r = Inr None" | p ev where "r = Inr (Some (p, ev))" by (metis old.sum.exhaust option.exhaust prod.exhaust)
  then show ?thesis
  proof cases
    case 3
    show ?thesis
    proof (cases "\<not> hk_Verified ev \<or> hk_IdentitySHA256 ev \<noteq> desired")
      case True
      with 3 assms have "q = Inl HostKeyMismatch" "w1 = w\<lparr>tw_tunnels := tw_tunnels w @ [\<lparr>tn_closed = True, tn_forwards = []\<rparr>]\<rparr>"
        by (auto simp: dial_checked_def open_conn_def closeConn_def up)
      then show ?thesis using that(1) by blast
    next
      case False
      with 3 assms show ?thesis by (intro that(2)) (auto simp: dial_checked_def open_conn_def)
    qed
  qed (use assms that(1) [of _ "[]"] in \<open>auto simp: dial_checked_def\<close>)
qed

lemma append_closed_ok:
  assumes "tunnels_ok w" "tm_conns (tw_m w') = tm_conns (tw_m w)" "tw_tunnels w' = tw_tunnels w @ ts"
    "ts = [] \<or> ts = [\<lparr>tn_closed = True, tn_forwards = []\<rparr>]"
  shows "tunnels_ok w'"
proof -
  have t: "tunnel_of w' = tunnel_of w" using assms(2) by (intro ext) (simp add: tunnel_of_def)
  have n: "tw_tunnels w' ! i = tw_tunnels w ! i" if "i < length (tw_tunnels w)" for i
    using that assms(3) by (simp add: nth_append)
  have new: "tn_closed x \<and> tn_forwards x = []" if "x \<in> set ts" for x using that assms(4) by auto
  have "\<exists>i. cn_tunnel c = Some i \<and> i < length (tw_tunnels w') \<and> \<not> tn_closed (tw_tunnels w' ! i)" if "conn_of w' h = Some c" for h c
  proof -
    from that assms(1,2) obtain i where i: "cn_tunnel c = Some i" "i < length (tw_tunnels w)" "\<not> tn_closed (tw_tunnels w ! i)"
      unfolding tunnels_ok_def by (metis)
    with n assms(3) show ?thesis by auto
  qed
  moreover have "\<exists>h. tunnel_of w h = Some i" if "i < length (tw_tunnels w')" "\<not> tn_closed (tw_tunnels w' ! i)" for i
  proof (cases "i < length (tw_tunnels w)")
    case True
    with that n assms(1) show ?thesis unfolding tunnels_ok_def by metis
  next
    case False
    with that(1) assms(3) have "tw_tunnels w' ! i \<in> set ts" by (simp add: nth_append)
    with new that(2) show ?thesis by blast
  qed
  moreover have "tn_forwards x = []" if "x \<in> set (tw_tunnels w')" "tn_closed x" for x
    using that assms(1,3) new unfolding tunnels_ok_def by auto
  moreover have "\<forall>h h' i. tunnel_of w h = Some i \<longrightarrow> tunnel_of w h' = Some i \<longrightarrow> h = h'"
    using assms(1) unfolding tunnels_ok_def by blast
  ultimately show ?thesis unfolding tunnels_ok_def t by blast
qed

text \<open>Changing the forwards of an open tunnel, or of a closed one to none.\<close>

lemma set_forwards_ok:
  assumes "tunnels_ok w" "tm_conns (tw_m w') = tm_conns (tw_m w)" "tw_tunnels w' = (tw_tunnels w)[i := x]"
    "i < length (tw_tunnels w)" "\<not> tn_closed (tw_tunnels w ! i)" "\<not> tn_closed x"
  shows "tunnels_ok w'"
proof -
  have t: "tunnel_of w' = tunnel_of w" using assms(2) by (intro ext) (simp add: tunnel_of_def)
  have l: "length (tw_tunnels w') = length (tw_tunnels w)" by (simp add: assms(3))
  have c: "tn_closed (tw_tunnels w' ! j) = tn_closed (tw_tunnels w ! j)" if "j < length (tw_tunnels w)" for j
    using that assms(3,5,6) by (cases "j = i") simp_all
  have "tn_forwards y = []" if "y \<in> set (tw_tunnels w')" "tn_closed y" for y
  proof -
    from that assms(3,6) have "y \<in> set (tw_tunnels w)" using set_update_subset_insert [of "tw_tunnels w" i x] by auto
    with that(2) assms(1) show ?thesis unfolding tunnels_ok_def by blast
  qed
  then show ?thesis
  proof (intro tunnels_okI)
    fix h d assume "conn_of w' h = Some d"
    with assms(2) tunnels_okD(1) [OF assms(1), of h d] c l
    show "\<exists>i. cn_tunnel d = Some i \<and> i < length (tw_tunnels w') \<and> \<not> tn_closed (tw_tunnels w' ! i)" by auto
  next
    fix j assume "j < length (tw_tunnels w')" "\<not> tn_closed (tw_tunnels w' ! j)"
    with c l t tunnels_okD(2) [OF assms(1), of j] show "\<exists>h. tunnel_of w' h = Some j" by simp
  qed (simp_all add: t tunnels_okD(3) [OF assms(1)])
qed

lemma tunnel_of_open:
  assumes "tunnels_ok w" "tunnel_of w h = Some i"
  shows "i < length (tw_tunnels w)" "\<not> tn_closed (tw_tunnels w ! i)"
proof -
  from assms(2) obtain c where c: "conn_of w h = Some c" "cn_tunnel c = Some i" by (auto simp: tunnel_of_def split: option.splits)
  from tunnels_okD(1) [OF assms(1) c(1)] c(2)
  show "i < length (tw_tunnels w)" "\<not> tn_closed (tw_tunnels w ! i)" by auto
qed

lemma EnsureForward_ok: "world_ok w \<Longrightarrow> world_ok (snd (EnsureForward lr h p w))"
proof -
  assume ok: "world_ok w"
  show ?thesis
  proof (cases "tunnel_of w h")
    case None
    with ok show ?thesis by (simp add: EnsureForward_def)
  next
    case (Some i)
    let ?w = "snd (EnsureForward lr h p w)"
    from ok have t: "tunnels_ok w" by (simp add: world_ok_def)
    note i = tunnel_of_open [OF t Some]
    have "\<not> tn_closed (snd (AddForward lr p (tw_tunnels w ! i)))"
      using i by (simp add: AddForward_def split: listen_result.splits)
    from set_forwards_ok [OF t _ _ i this, of ?w] Some have "tunnels_ok ?w" by (simp add: EnsureForward_def case_prod_beta)
    with ok Some show ?thesis
      by (simp add: world_ok_def EnsureForward_def case_prod_beta conns_ok_def dials_ok_def)
  qed
qed

lemma DropForward_ok: "world_ok w \<Longrightarrow> world_ok (DropForward h p w)"
proof -
  assume ok: "world_ok w"
  show ?thesis
  proof (cases "tunnel_of w h")
    case None
    with ok show ?thesis by (simp add: DropForward_def)
  next
    case (Some i)
    from ok have t: "tunnels_ok w" by (simp add: world_ok_def)
    note i = tunnel_of_open [OF t Some]
    have "\<not> tn_closed (snd (RemoveForward p (tw_tunnels w ! i)))"
      using i by (simp add: RemoveForward_def)
    from set_forwards_ok [OF t _ _ i this, of "DropForward h p w"] Some have "tunnels_ok (DropForward h p w)" by (simp add: DropForward_def)
    with ok Some show ?thesis
      by (simp add: world_ok_def DropForward_def conns_ok_def dials_ok_def)
  qed
qed

lemma append_open_ok:
  assumes "tunnels_ok w" "conn_of w h = None" "conn_of w' = (conn_of w)(h \<mapsto> c)" "cn_tunnel c = Some (length (tw_tunnels w))"
    "tw_tunnels w' = tw_tunnels w @ [\<lparr>tn_closed = False, tn_forwards = []\<rparr>]"
  shows "tunnels_ok w'"
proof -
  let ?n = "length (tw_tunnels w)"
  have t: "tunnel_of w' h' = (if h' = h then Some ?n else tunnel_of w h')" for h'
    using assms(3,4) by (simp add: tunnel_of_def)
  have old: "i < ?n" if "tunnel_of w h' = Some i" for h' i
    using tunnel_of_open(1) [OF assms(1) that] .
  have n: "tw_tunnels w' ! i = tw_tunnels w ! i" if "i < ?n" for i using that assms(5) by (simp add: nth_append)
  have "\<exists>i. cn_tunnel c' = Some i \<and> i < length (tw_tunnels w') \<and> \<not> tn_closed (tw_tunnels w' ! i)" if c': "conn_of w' h' = Some c'" for h' c'
  proof (cases "h' = h")
    case True
    with c' assms(3,4,5) show ?thesis by simp
  next
    case False
    with c' assms(1,3) obtain i where i: "cn_tunnel c' = Some i" "i < ?n" "\<not> tn_closed (tw_tunnels w ! i)"
      unfolding tunnels_ok_def by (metis fun_upd_apply)
    with n assms(5) show ?thesis by auto
  qed
  moreover have "\<exists>h'. tunnel_of w' h' = Some i" if i: "i < length (tw_tunnels w')" "\<not> tn_closed (tw_tunnels w' ! i)" for i
  proof (cases "i < ?n")
    case True
    with i n assms(1) obtain h' where h': "tunnel_of w h' = Some i" unfolding tunnels_ok_def by metis
    moreover have "tunnel_of w h = None" using assms(2) by (simp add: tunnel_of_def)
    ultimately have "tunnel_of w' h' = Some i" using t [of h'] by (cases "h' = h") simp_all
    then show ?thesis by blast
  next
    case False
    with i(1) assms(5) have "i = ?n" by simp
    then show ?thesis using t [of h] by auto
  qed
  moreover have "h1 = h2" if "tunnel_of w' h1 = Some i" "tunnel_of w' h2 = Some i" for h1 h2 i
  proof (cases "i = ?n")
    case True
    with that t [of h1] t [of h2] old show ?thesis by (metis less_irrefl)
  next
    case False
    with that t [of h1] t [of h2] have "tunnel_of w h1 = Some i" "tunnel_of w h2 = Some i" by (auto split: if_splits)
    with assms(1) show ?thesis unfolding tunnels_ok_def by blast
  qed
  moreover have "tn_forwards x = []" if "x \<in> set (tw_tunnels w')" "tn_closed x" for x
    using that assms(1,5) unfolding tunnels_ok_def by auto
  ultimately show ?thesis unfolding tunnels_ok_def by blast
qed

text \<open>The end of a dial takes it off the list, whatever it came to.\<close>

lemma dial_removed_ok:
  assumes "dials_ok w" "d \<in> set (tw_dialing w)" "tw_dialing w' = remove1 d (tw_dialing w)" "tw_attempts w' = tw_attempts w"
    "tm_connecting (tw_m w') = (tm_connecting (tw_m w))(tt_HostID (dl_target d) := None)"
  shows "dials_ok w'"
proof -
  let ?h = "tt_HostID (dl_target d)"
  have dist: "distinct (map (\<lambda>d. at_id (dl_attempt d)) (tw_dialing w))" using assms(1) by (simp add: dials_ok_def)
  then have dd: "distinct (tw_dialing w)" by (simp add: distinct_map)
  have other: "tt_HostID (dl_target x) \<noteq> ?h" if "x \<in> set (tw_dialing w)" "x \<noteq> d" for x
  proof
    assume "tt_HostID (dl_target x) = ?h"
    with that assms(1,2) have "dl_attempt x = dl_attempt d" unfolding dials_ok_def by (metis option.inject)
    with dist that assms(2) show False by (auto simp: distinct_map inj_on_def)
  qed
  have s: "set (tw_dialing w') = set (tw_dialing w) - {d}" using dd assms(3) by simp
  have "distinct (map (\<lambda>d. at_id (dl_attempt d)) (tw_dialing w'))"
    using dist assms(3) by (simp add: distinct_map distinct_remove1 s inj_on_def)
  moreover have "\<exists>x \<in> set (tw_dialing w'). tt_HostID (dl_target x) = h \<and> dl_attempt x = a"
    if "tm_connecting (tw_m w') h = Some a" for h a
  proof -
    from that assms(5) have h: "h \<noteq> ?h" "tm_connecting (tw_m w) h = Some a" by (auto split: if_splits)
    with assms(1) obtain x where "x \<in> set (tw_dialing w)" "tt_HostID (dl_target x) = h" "dl_attempt x = a" unfolding dials_ok_def by blast
    with h(1) s show ?thesis by blast
  qed
  moreover have "tm_connecting (tw_m w') (tt_HostID (dl_target x)) = Some (dl_attempt x) \<and>
      HostKeyIdentitySHA256 (tt_SSHHostKeyFingerprint (dl_target x)) = Inr (dl_desired x) \<and> at_id (dl_attempt x) < tw_attempts w'"
    if "x \<in> set (tw_dialing w')" for x
    using that s other [of x] assms(1,4,5) unfolding dials_ok_def by auto
  ultimately show ?thesis unfolding dials_ok_def by blast
qed

lemma ec_publish_fields [simp]:
  "tm_connecting (ec_publish h r m) = tm_connecting m" "tm_closed (ec_publish h r m) = tm_closed m"
  "tm_generation (ec_publish h r m) = tm_generation m"
  by (simp_all add: ec_publish_def split: sum.splits)

lemma ec_finish_ok:
  assumes "world_ok w" "d \<in> set (tw_dialing w)"
  shows "world_ok (snd (ec_finish d r w))"
proof -
  let ?h = "tt_HostID (dl_target d)" and ?m = "tw_m w"
  let ?m1 = "?m\<lparr>tm_connecting := (tm_connecting ?m)(?h := None)\<rparr>"
  let ?f = "ec_finish d r w"
  from assms(1) have ok: "conns_ok w" "tunnels_ok w" "dials_ok w" by (simp_all add: world_ok_def)
  with assms(2) have at: "tm_connecting ?m ?h = Some (dl_attempt d)" unfolding dials_ok_def by blast
  have none: "conn_of w ?h = None" using ok(1) at unfolding conns_ok_def by (cases "conn_of w ?h") auto
  obtain q w1 where q: "dial_checked (dl_desired d) r w = (q, w1)" by fastforce
  let ?valid = "\<not> (tm_closed ?m \<or> tm_generation ?m ?h \<noteq> at_generation (dl_attempt d))"
  have conns1: "conns_ok w'" if "tw_m w' = ?m1" for w'
    using ok(1) that unfolding conns_ok_def by auto
  have published: "conns_ok w'" if "tw_m w' = ec_publish ?h q ?m1" "?valid" "\<And>c. q = Inr c \<Longrightarrow> hk_Verified (cn_hostKey c)" for w'
    using ok(1) none that unfolding conns_ok_def ec_publish_def
    by (cases q) (auto simp: update_conv')
  show ?thesis using q
  proof (cases rule: dial_checked_cases)
    case (1 e ts)
    let ?w2 = "w\<lparr>tw_m := (if ?valid then ec_publish ?h q ?m1 else ?m1), tw_tunnels := tw_tunnels w @ ts, tw_dialing := remove1 d (tw_dialing w)\<rparr>"
    have f: "snd ?f = ?w2" using q at 1 by (auto simp: ec_finish_def Let_def)
    have "conns_ok ?w2"
    proof (cases ?valid)
      case True
      then show ?thesis using 1(1) by (intro published) simp_all
    next
      case False
      then show ?thesis by (intro conns1) auto
    qed
    moreover have "tunnels_ok ?w2" by (rule append_closed_ok [OF ok(2) _ _ 1(3)]) (simp_all add: 1 ec_publish_def)
    moreover have "dials_ok ?w2" by (rule dial_removed_ok [OF ok(3) assms(2)]) simp_all
    ultimately show ?thesis unfolding f by (rule world_okI)
  next
    case (2 c)
    show ?thesis
    proof (cases ?valid)
      case True
      let ?w2 = "w\<lparr>tw_m := ec_publish ?h q ?m1, tw_tunnels := tw_tunnels w @ [\<lparr>tn_closed = False, tn_forwards = []\<rparr>], tw_dialing := remove1 d (tw_dialing w)\<rparr>"
      have f: "snd ?f = ?w2" using q at 2 True by (auto simp: ec_finish_def Let_def)
      have "conns_ok ?w2" using published [of ?w2] True 2 by simp
      moreover have "tunnels_ok ?w2" by (rule append_open_ok [OF ok(2) none _ 2(3)]) (simp_all add: 2 ec_publish_def update_conv')
      moreover have "dials_ok ?w2" by (rule dial_removed_ok [OF ok(3) assms(2)]) simp_all
      ultimately show ?thesis unfolding f by (rule world_okI)
    next
      case False
      let ?w2 = "w\<lparr>tw_m := ?m1, tw_tunnels := tw_tunnels w @ [\<lparr>tn_closed = True, tn_forwards = []\<rparr>], tw_dialing := remove1 d (tw_dialing w)\<rparr>"
      have f: "snd ?f = ?w2" using q at 2 False by (auto simp: ec_finish_def Let_def closeConn_def update_at_def CloseTunnel_def)
      have "conns_ok ?w2" by (rule conns1) simp
      moreover have "tunnels_ok ?w2" by (rule append_closed_ok [OF ok(2), where ts = "[\<lparr>tn_closed = True, tn_forwards = []\<rparr>]"]) simp_all
      moreover have "dials_ok ?w2" by (rule dial_removed_ok [OF ok(3) assms(2)]) simp_all
      ultimately show ?thesis unfolding f by (rule world_okI)
    qed
  qed
qed

section \<open>Closing everything\<close>

lemma close_all:
  "tw_m (fold (\<lambda>(h, c). closeConn c) cs w) = tw_m w" "tw_dialing (fold (\<lambda>(h, c). closeConn c) cs w) = tw_dialing w"
  "tw_attempts (fold (\<lambda>(h, c). closeConn c) cs w) = tw_attempts w"
  "length (tw_tunnels (fold (\<lambda>(h, c). closeConn c) cs w)) = length (tw_tunnels w)"
  "i < length (tw_tunnels w) \<Longrightarrow> tw_tunnels (fold (\<lambda>(h, c). closeConn c) cs w) ! i =
     (if \<exists>(h, c) \<in> set cs. cn_tunnel c = Some i then CloseTunnel (tw_tunnels w ! i) else tw_tunnels w ! i)"
  by (induction cs arbitrary: w) (auto simp: closeConn_def nth_update_at split: option.splits)

lemma CloseManager_ok:
  assumes "world_ok w"
  shows "world_ok (CloseManager w)" "\<forall>t \<in> set (tw_tunnels (CloseManager w)). tn_closed t \<and> tn_forwards t = []"
proof -
  from assms have ok: "conns_ok w" "tunnels_ok w" "dials_ok w" by (simp_all add: world_ok_def)
  let ?w = "CloseManager w"
  have all: "tn_closed (tw_tunnels ?w ! i) \<and> tn_forwards (tw_tunnels ?w ! i) = []" if i: "i < length (tw_tunnels ?w)" for i
  proof (cases "tm_closed (tw_m w)")
    case True
    then have "tm_conns (tw_m w) = []" using ok(1) by (simp add: conns_ok_def)
    then have "tn_closed (tw_tunnels w ! i)" using ok(2) i True
      unfolding tunnels_ok_def tunnel_of_def by (auto simp: CloseManager_def Let_def)
    with True i ok(2) show ?thesis by (auto simp: CloseManager_def Let_def tunnels_ok_def)
  next
    case False
    with i have i': "i < length (tw_tunnels w)" by (simp add: CloseManager_def Let_def close_all)
    have fw: "tn_closed (tw_tunnels w ! i) \<longrightarrow> tn_forwards (tw_tunnels w ! i) = []"
      using ok(2) i' unfolding tunnels_ok_def by (metis nth_mem)
    have "\<exists>(h, c) \<in> set (tm_conns (tw_m w)). cn_tunnel c = Some i" if "\<not> tn_closed (tw_tunnels w ! i)"
    proof -
      from that i' ok(2) obtain h where "tunnel_of w h = Some i" unfolding tunnels_ok_def by blast
      then obtain c where "conn_of w h = Some c" "cn_tunnel c = Some i" by (auto simp: tunnel_of_def split: option.splits)
      then show ?thesis by (auto dest: map_of_SomeD)
    qed
    with False i' fw show ?thesis
      by (cases "tn_closed (tw_tunnels w ! i)") (auto simp: CloseManager_def Let_def close_all)
  qed
  then show closed: "\<forall>t \<in> set (tw_tunnels ?w). tn_closed t \<and> tn_forwards t = []" by (metis in_set_conv_nth)
  show "world_ok ?w"
  proof (cases "tm_closed (tw_m w)")
    case True
    with assms show ?thesis by (simp add: CloseManager_def Let_def)
  next
    case False
    then have m: "tm_conns (tw_m ?w) = []" "tm_hostKeys (tw_m ?w) = Map.empty" "tm_status (tw_m ?w) = Map.empty"
      "tm_connecting (tw_m ?w) = tm_connecting (tw_m w)" "tw_dialing ?w = tw_dialing w" "tw_attempts ?w = tw_attempts w"
      by (simp_all add: CloseManager_def Let_def close_all)
    have "tunnels_ok ?w" using closed by (auto simp: tunnels_ok_def tunnel_of_def m)
    moreover have "conns_ok ?w" by (simp add: conns_ok_def m)
    moreover have "dials_ok ?w" by (rule ok_congs(3) [OF _ _ _ ok(3)]) (simp_all add: m)
    ultimately show ?thesis by (intro world_okI)
  qed
qed

lemma tunnel_step_ok:
  assumes "world_ok w"
  shows "world_ok (snd (tunnel_step e w))"
proof (cases e)
  case (Finish k r)
  with assms ec_finish_ok [of w "tw_dialing w ! k" r] show ?thesis by simp
next
  case (Listen s)
  with assms show ?thesis unfolding world_ok_def
    by (auto simp: TunnelSubscribe_def intro: ok_congs(1) [of _ w] ok_congs(2) [of _ w] ok_congs(3) [of _ w])
next
  case (LeaveSub s)
  with assms show ?thesis unfolding world_ok_def
    by (auto simp: TunnelUnsubscribe_def intro: ok_congs(1) [of _ w] ok_congs(2) [of _ w] ok_congs(3) [of _ w])
qed (use assms in \<open>simp_all add: ec_start_ok Disconnect_ok MarkFailed_ok CloseManager_ok EnsureForward_ok DropForward_ok split: sum.split\<close>)

lemma tunnel_run_ok: "world_ok w \<Longrightarrow> world_ok (tunnel_run es w)"
  unfolding tunnel_run_def by (induction es arbitrary: w) (simp_all add: tunnel_step_ok)

section \<open>Pins\<close>

text \<open>
  A fingerprint is accepted exactly when it is, character for character, \<^verbatim>\<open>SHA256:\<close> followed by the raw
  base64 of 32 bytes, and it is then returned unchanged. So no two accepted spellings name the same digest:
  padding, blanks around it, line breaks inside it, and stray bits in its last character are all refused.
\<close>

theorem canonical_fingerprint_exact:
  "CanonicalHostKeyFingerprint raw = Inr f \<longleftrightarrow> f = raw \<and> (\<exists>d. length d = 32 \<and> raw = ''SHA256:'' @ b64_encode d)"
  using canonical_some [of raw f] canonical_encode by blast

definition sample_pin :: string where
  "sample_pin = ''SHA256:'' @ b64_encode (replicate 32 0)"

definition sample_identity :: string where
  "sample_identity = hex (Sum256 (bytes_of sample_pin))"

lemma sample_pin_identity: "HostKeyIdentitySHA256 sample_pin = Inr sample_identity"
  using canonical_encode [of "replicate 32 0"]
  by (simp add: HostKeyIdentitySHA256_def sample_identity_def sample_pin_def)

definition ssh_address :: "TunnelTarget \<Rightarrow> string" where
  "ssh_address t = JoinHostPort (tt_SSHHost t) (int_text (if tt_SSHPort t = 0 then DefaultSSHPort else tt_SSHPort t))"

lemma Dial_verifier: "snd (Dial nw address cfg p ra v) = presented (fst (nw_handshake nw address cfg)) v"
  by (auto simp: Dial_def DialSSHClient_def case_prod_beta Let_def split: option.splits sum.splits)

text \<open>
  The production dialer returns a connection only when, during the handshake, the server presented the very key
  that is pinned for the target; the evidence it returns is the digest of this pin. This holds whatever the
  SSH library does with the answers of the callback.
\<close>

theorem dial_needs_pinned_key:
  assumes "SSHDial nw parse target = Inr (port, ev)"
  shows "\<exists>cfg. tt_SSHHostKeyFingerprint target \<in> set (fst (nw_handshake nw (ssh_address target) cfg)) \<and>
    hk_Verified ev \<and> HostKeyIdentitySHA256 (tt_SSHHostKeyFingerprint target) = Inr (hk_IdentitySHA256 ev)"
proof -
  from assms obtain cfg v where b: "BuildClientConfigWithHostKeyEvidence parse (CredentialsFromTarget target) = Inr (cfg, v)"
    unfolding SSHDial_def by (auto split: if_splits sum.splits)
  let ?keys = "fst (nw_handshake nw (ssh_address target) cfg)"
  have d: "hk_Verified (hv_evidence (presented ?keys v))" "ev = hv_evidence (presented ?keys v)"
    using assms b unfolding SSHDial_def Let_def Evidence_def ssh_address_def
    by (auto simp: Dial_verifier [symmetric] split: if_splits sum.splits prod.splits) (metis snd_conv Dial_verifier)+
  note v = build_verifier [OF b]
  then have "\<not> hk_Verified (hv_evidence v)" by (simp add: no_evidence_def)
  then have "attested ?keys (presented ?keys v)" using handshake_verified d(1) by blast
  then show ?thesis using d v by (auto simp: attested_def CredentialsFromTarget_def)
qed

definition sample_target :: TunnelTarget where
  "sample_target = \<lparr>tt_HostID = ''h1'', tt_SSHHost = ''host'', tt_SSHPort = 0, tt_SSHUser = ''dev'', tt_SSHPassword = ''pw'',
     tt_SSHPrivateKey = [], tt_SSHHostKeyFingerprint = sample_pin, tt_RemoteAgentPort = 0, tt_LocalPort = 0\<rparr>"

definition sample_network :: "unit network" where
  "sample_network = \<lparr>nw_handshake = (\<lambda>address cfg. ([sample_pin], None)), nw_listen_on = (\<lambda>p. Inr 4000)\<rparr>"

theorem dial_needs_pinned_key_witness:
  "SSHDial sample_network (\<lambda>k. Inr ()) sample_target = Inr (4000, \<lparr>hk_Verified = True, hk_IdentitySHA256 = sample_identity\<rparr>) \<and>
   HostKeyIdentitySHA256 (tt_SSHHostKeyFingerprint sample_target) = Inr sample_identity"
proof -
  have c: "CanonicalHostKeyFingerprint sample_pin = Inr sample_pin"
    using canonical_encode [of "replicate 32 0"] by (simp add: sample_pin_def)
  have "SSHDial sample_network (\<lambda>k. Inr ()) sample_target = Inr (4000, \<lparr>hk_Verified = True, hk_IdentitySHA256 = sample_identity\<rparr>)"
    by (simp add: SSHDial_def sample_target_def sample_network_def CredentialsFromTarget_def BuildClientConfigWithHostKeyEvidence_def c
        Dial_def DialSSHClient_def verify_def sample_pin_identity Evidence_def no_evidence_def)
  from this dial_needs_pinned_key [OF this] show ?thesis by simp
qed

section \<open>Connections\<close>

abbreviation reached :: "tunnel_event list \<Rightarrow> TunnelWorld" where
  "reached es \<equiv> tunnel_run es new_world"

text \<open>The target of the call an event belongs to.\<close>

definition target_of :: "tunnel_event \<Rightarrow> TunnelWorld \<Rightarrow> TunnelTarget option" where
  "target_of e w =
     (case e of
        Enter t \<Rightarrow> Some t
      | Finish k r \<Rightarrow> if k < length (tw_dialing w) then Some (dl_target (tw_dialing w ! k)) else None
      | Wake a t \<Rightarrow> Some t
      | _ \<Rightarrow> None)"

lemma ec_finish_published:
  assumes "ec_finish d r w = (Returned (Inr port), w')"
  obtains c where "conn_of w' (tt_HostID (dl_target d)) = Some c" "cn_port c = port" "hk_Verified (cn_hostKey c)" "hk_IdentitySHA256 (cn_hostKey c) = dl_desired d"
proof -
  obtain q w1 where q: "dial_checked (dl_desired d) r w = (q, w1)" by fastforce
  from q show thesis
  proof (cases rule: dial_checked_cases)
    case (1 e ts)
    with assms q show thesis by (auto simp: ec_finish_def Let_def split: if_splits)
  next
    case (2 c)
    with assms q that show thesis
      by (auto simp: ec_finish_def Let_def ec_publish_def update_conv' split: if_splits)
  qed
qed

lemma ec_enter_port:
  assumes "ec_enter t d w = (Returned (Inr port), w')"
  obtains c where "w' = w" "conn_of w (tt_HostID t) = Some c" "cn_port c = port" "hk_IdentitySHA256 (cn_hostKey c) = d"
  using assms by (auto simp: ec_enter_def ec_claim_def Let_def split: if_splits option.splits)

lemma ec_woken_port:
  assumes "ec_woken a t d m = Returned (Inr port)"
  obtains c where "map_of (tm_conns m) (tt_HostID t) = Some c" "cn_port c = port" "hk_IdentitySHA256 (cn_hostKey c) = d"
  using assms by (auto simp: ec_woken_def Let_def split: if_splits option.splits)

text \<open>
  C10: In any interleaving of calls, a local port is returned only for a connection that is published for the host of
  the target, whose tunnel is open, and whose host key was verified against the pin the target has now.
\<close>

theorem port_only_for_pinned_host:
  assumes "tunnel_step e (tunnel_run es new_world) = (Returned (Inr port), w')"
    and "target_of e (tunnel_run es new_world) = Some t"
  shows "\<exists>c i. conn_of w' (tt_HostID t) = Some c \<and> cn_port c = port \<and> hk_Verified (cn_hostKey c) \<and>
    HostKeyIdentitySHA256 (tt_SSHHostKeyFingerprint t) = Inr (hk_IdentitySHA256 (cn_hostKey c)) \<and>
    cn_tunnel c = Some i \<and> i < length (tw_tunnels w') \<and> \<not> tn_closed (tw_tunnels w' ! i)"
proof -
  let ?w = "tunnel_run es new_world"
  have ok: "world_ok ?w" by (rule tunnel_run_ok [OF fresh_ok])
  with tunnel_step_ok [of ?w e] assms(1) have ok': "world_ok w'" by simp
  obtain c where c: "conn_of w' (tt_HostID t) = Some c" "cn_port c = port"
    "HostKeyIdentitySHA256 (tt_SSHHostKeyFingerprint t) = Inr (hk_IdentitySHA256 (cn_hostKey c))"
  proof (cases e)
    case (Enter t')
    with assms obtain d where d: "HostKeyIdentitySHA256 (tt_SSHHostKeyFingerprint t) = Inr d" "ec_enter t d ?w = (Returned (Inr port), w')"
      by (auto simp: target_of_def ec_start_def split: sum.splits)
    from d(2) show thesis by (rule ec_enter_port) (use d(1) that in auto)
  next
    case (Finish k r)
    let ?d = "tw_dialing ?w ! k"
    from Finish assms have k: "k < length (tw_dialing ?w)" "dl_target ?d = t" "ec_finish ?d r ?w = (Returned (Inr port), w')"
      by (auto simp: target_of_def split: if_splits)
    then have "HostKeyIdentitySHA256 (tt_SSHHostKeyFingerprint t) = Inr (dl_desired ?d)"
      using ok nth_mem [OF k(1)] unfolding world_ok_def dials_ok_def by blast
    with k show thesis by (elim ec_finish_published) (use that in auto)
  next
    case (Wake a t')
    with assms obtain d where d: "HostKeyIdentitySHA256 (tt_SSHHostKeyFingerprint t) = Inr d" "w' = ?w" "ec_woken a t d (tw_m ?w) = Returned (Inr port)"
      by (auto simp: target_of_def split: sum.splits)
    from d(3) show thesis by (rule ec_woken_port) (use d(1,2) that in auto)
  qed (use assms in \<open>simp_all add: target_of_def\<close>)
  from ok' c(1) have "hk_Verified (cn_hostKey c)" unfolding world_ok_def conns_ok_def by blast
  moreover from ok' have "tunnels_ok w'" by (simp add: world_ok_def)
  from tunnels_okD(1) [OF this c(1)] obtain i where "cn_tunnel c = Some i" "i < length (tw_tunnels w')" "\<not> tn_closed (tw_tunnels w' ! i)" by blast
  ultimately show ?thesis using c by blast
qed

definition sample_dial :: dial_result where
  "sample_dial = Inr (Some (4000, \<lparr>hk_Verified = True, hk_IdentitySHA256 = sample_identity\<rparr>))"

definition sample_dialing :: Dialing where
  "sample_dialing = \<lparr>dl_target = sample_target, dl_desired = sample_identity, dl_attempt = \<lparr>at_id = 0, at_generation = 0\<rparr>\<rparr>"

lemma sample_started:
  "ec_start sample_target new_world = (Started sample_dialing, tunnel_run [Enter sample_target] new_world)"
  "tw_dialing (tunnel_run [Enter sample_target] new_world) = [sample_dialing]"
  "tm_closed (tw_m (tunnel_run [Enter sample_target] new_world)) = False"
  "tm_generation (tw_m (tunnel_run [Enter sample_target] new_world)) = (\<lambda>h. 0)"
  by (simp_all add: tunnel_run_def ec_start_def sample_target_def sample_pin_identity ec_enter_def ec_claim_def new_world_def NewManager_def sample_dialing_def Let_def)

lemma sample_finished:
  "fst (ec_finish sample_dialing sample_dial (tunnel_run [Enter sample_target] new_world)) = Returned (Inr 4000)"
  using sample_started
  by (simp add: ec_finish_def dial_checked_def sample_dial_def open_conn_def Let_def sample_dialing_def)

theorem port_only_for_pinned_host_witness:
  "fst (tunnel_step (Finish 0 sample_dial) (tunnel_run [Enter sample_target] new_world)) = Returned (Inr 4000) \<and>
   (\<exists>c. conn_of (snd (tunnel_step (Finish 0 sample_dial) (tunnel_run [Enter sample_target] new_world))) (tt_HostID sample_target) = Some c \<and> cn_port c = 4000)"
proof -
  let ?w = "tunnel_run [Enter sample_target] new_world"
  have a: "fst (tunnel_step (Finish 0 sample_dial) ?w) = Returned (Inr 4000)"
    using sample_started(2) sample_finished by simp
  have "target_of (Finish 0 sample_dial) ?w = Some sample_target"
    using sample_started(2) by (simp add: target_of_def sample_dialing_def)
  from port_only_for_pinned_host [OF _ this] a show ?thesis by (metis prod.collapse)
qed

text \<open>
  C17: In any interleaving, the open tunnels are exactly those of the published connections, one for each connected
  host, and a closed tunnel has no forward left; after the manager is closed every tunnel ever
  opened is closed, those whose dial ends later included. No connection is leaked.
\<close>

theorem open_tunnels_exact:
  "(i < length (tw_tunnels (reached es)) \<and> \<not> tn_closed (tw_tunnels (reached es) ! i)) = (\<exists>!h. tunnel_of (reached es) h = Some i) \<and>
   list_all (\<lambda>t. (tn_closed t \<or> tm_closed (tw_m (reached es))) = (tn_closed t \<and> tn_forwards t = [])) (tw_tunnels (reached es))"
proof (rule conjI)
  let ?w = "reached es"
  have ok: "world_ok ?w" by (rule tunnel_run_ok [OF fresh_ok])
  then have t: "tunnels_ok ?w" by (simp add: world_ok_def)
  have exact: "(i < length (tw_tunnels ?w) \<and> \<not> tn_closed (tw_tunnels ?w ! i)) = (\<exists>!h. tunnel_of ?w h = Some i)" for i
    using tunnels_okD(2,3) [OF t] tunnel_of_open [OF t] by blast
  show "(i < length (tw_tunnels ?w) \<and> \<not> tn_closed (tw_tunnels ?w ! i)) = (\<exists>!h. tunnel_of ?w h = Some i)" by (rule exact)
  have "tn_closed x" if "tm_closed (tw_m ?w)" "x \<in> set (tw_tunnels ?w)" for x
  proof -
    from that(1) ok have "tm_conns (tw_m ?w) = []" by (simp add: world_ok_def conns_ok_def)
    then have "tunnel_of ?w h = None" for h by (simp add: tunnel_of_def)
    with that(2) exact show ?thesis by (auto simp: in_set_conv_nth)
  qed
  with tunnels_okD(4) [OF t] show "list_all (\<lambda>t. (tn_closed t \<or> tm_closed (tw_m ?w)) = (tn_closed t \<and> tn_forwards t = [])) (tw_tunnels ?w)"
    unfolding list_all_iff by blast
qed

text \<open>
  What the manager says of a host is true: in any interleaving its status is connected exactly when a connection is
  published, and exactly then it shows host-key evidence, which is the verified evidence of that connection.
\<close>

theorem status_truthful:
  "(StatusOf h (tw_m (reached es)) = StatusConnected) = (conn_of (reached es) h \<noteq> None) \<and>
   hk_Verified (HostKeyEvidenceOf h (tw_m (reached es))) = (conn_of (reached es) h \<noteq> None) \<and>
   HostKeyEvidenceOf h (tw_m (reached es)) = (case conn_of (reached es) h of None \<Rightarrow> no_evidence | Some c \<Rightarrow> cn_hostKey c)"
proof -
  have "conns_ok (reached es)" using tunnel_run_ok [OF fresh_ok] by (simp add: world_ok_def)
  then show ?thesis unfolding conns_ok_def StatusOf_def HostKeyEvidenceOf_def no_evidence_def
    by (cases "conn_of (reached es) h") (auto split: option.splits)
qed

section \<open>Overtaken dials\<close>

definition cuts :: "string \<Rightarrow> tunnel_event \<Rightarrow> bool" where
  "cuts h e = (case e of Cut h' \<Rightarrow> h' = h | Fail h' _ \<Rightarrow> h' = h | Shut \<Rightarrow> True | _ \<Rightarrow> False)"

text \<open>A step raises the generation of a host by at most one, a disconnection by exactly one.\<close>

definition raised :: "string \<Rightarrow> nat \<Rightarrow> nat \<Rightarrow> TunnelWorld \<Rightarrow> TunnelWorld \<Rightarrow> bool" where
  "raised h lo hi w w' \<longleftrightarrow> tm_closed (tw_m w') \<or>
     (\<not> tm_closed (tw_m w) \<and> (\<exists>k. lo \<le> k \<and> k \<le> hi \<and> tm_generation (tw_m w') h = tm_generation (tw_m w) h + of_nat k))"

lemma raised_same: "tm_closed (tw_m w') = tm_closed (tw_m w) \<Longrightarrow> tm_generation (tw_m w') = tm_generation (tw_m w) \<Longrightarrow> raised h 0 hi w w'"
  unfolding raised_def by (auto intro!: exI [of _ "0::nat"])

lemma raised_bump:
  "tm_closed (tw_m w') = tm_closed (tw_m w) \<Longrightarrow>
     tm_generation (tw_m w') = (tm_generation (tw_m w))(h' := tm_generation (tw_m w) h' + 1) \<Longrightarrow>
     raised h (if h' = h then 1 else 0) 1 w w'"
  unfolding raised_def by (cases "h' = h") (auto intro!: exI [of _ "if h' = h then 1 else (0::nat)"])

lemma raised_closed: "tm_closed (tw_m w) \<Longrightarrow> w' = w \<Longrightarrow> raised h lo hi w w'"
  by (simp add: raised_def)

lemma raised_weaken: "raised h lo hi w w' \<Longrightarrow> lo' \<le> lo \<Longrightarrow> raised h lo' hi w w'"
  unfolding raised_def by (meson order_trans)

lemma raised_trans: "raised h lo hi w w' \<Longrightarrow> raised h lo' hi' w' w'' \<Longrightarrow> raised h (lo + lo') (hi + hi') w w''"
  unfolding raised_def by (metis (no_types, lifting) add.assoc add_mono of_nat_add)

lemma raised_ec_claim: "raised h 0 1 w (snd (ec_claim t d w))"
  by (rule raised_same) (simp_all add: ec_claim_def Let_def split: option.splits)

lemma raised_MarkFailed: "raised h (if h' = h then 1 else 0) 1 w (MarkFailed h' e w)"
proof (cases "tm_closed (tw_m w)")
  case True
  then show ?thesis by (intro raised_closed) (simp_all add: MarkFailed_def)
next
  case False
  then show ?thesis by (intro raised_bump) (simp_all add: MarkFailed_def Let_def)
qed

lemma raised_Disconnect: "raised h (if h' = h then 1 else 0) 1 w (Disconnect h' w)"
proof (cases "tm_closed (tw_m w)")
  case True
  then show ?thesis by (intro raised_closed) (simp_all add: Disconnect_def)
next
  case False
  then show ?thesis by (intro raised_bump) (simp_all add: Disconnect_def Let_def)
qed

lemma ec_claim_keeps: "tm_closed (tw_m (snd (ec_claim t d w))) = tm_closed (tw_m w)"
  "tm_generation (tw_m (snd (ec_claim t d w))) = tm_generation (tw_m w)"
  by (simp_all add: ec_claim_def Let_def split: option.splits)

lemma raised_ec_start: "raised h 0 1 w (snd (ec_start t w))"
proof (cases "HostKeyIdentitySHA256 (tt_SSHHostKeyFingerprint t)")
  case (Inl e)
  then show ?thesis using raised_weaken [OF raised_MarkFailed [of h "tt_HostID t" w "Some e"], of 0] by (simp add: ec_start_def)
next
  case (Inr d)
  show ?thesis
  proof (cases "tm_closed (tw_m w) \<or> conn_of w (tt_HostID t) = None \<or>
      (\<exists>c. conn_of w (tt_HostID t) = Some c \<and> hk_Verified (cn_hostKey c) \<and> hk_IdentitySHA256 (cn_hostKey c) = d)")
    case True
    then have "snd (ec_start t w) = w \<or> snd (ec_start t w) = snd (ec_claim t d w)"
      using Inr by (auto simp: ec_start_def ec_enter_def Let_def split: option.splits)
    then show ?thesis using raised_ec_claim raised_same [of w w h 1] by auto
  next
    case False
    then obtain c where c: "\<not> tm_closed (tw_m w)" "conn_of w (tt_HostID t) = Some c"
      "\<not> (hk_Verified (cn_hostKey c) \<and> hk_IdentitySHA256 (cn_hostKey c) = d)" by auto
    have "raised h (if tt_HostID t = h then 1 else 0) 1 w (snd (ec_start t w))"
      by (rule raised_bump) (use c Inr in \<open>auto simp: ec_start_def ec_enter_def Let_def ec_claim_keeps\<close>)
    then show ?thesis by (rule raised_weaken) simp
  qed
qed

lemma ec_finish_keeps: "tm_closed (tw_m (snd (ec_finish d r w))) = tm_closed (tw_m w)"
  "tm_generation (tw_m (snd (ec_finish d r w))) = tm_generation (tw_m w)"
proof -
  obtain q w1 where q: "dial_checked (dl_desired d) r w = (q, w1)" by fastforce
  then have "tw_m w1 = tw_m w" by (cases rule: dial_checked_cases) simp_all
  with q show "tm_closed (tw_m (snd (ec_finish d r w))) = tm_closed (tw_m w)"
    "tm_generation (tw_m (snd (ec_finish d r w))) = tm_generation (tw_m w)"
    by (auto simp: ec_finish_def Let_def split: sum.splits)
qed

lemma raised_step: "raised h (if cuts h e then 1 else 0) 1 w (snd (tunnel_step e w))"
proof (cases e)
  case (Enter t)
  then show ?thesis using raised_ec_start by (simp add: cuts_def)
next
  case (Finish k r)
  then show ?thesis by (auto simp: cuts_def ec_finish_keeps intro: raised_same)
next
  case (Cut h')
  then show ?thesis using raised_Disconnect [of h h' w] by (simp add: cuts_def)
next
  case (Fail h' err)
  then show ?thesis using raised_MarkFailed [of h h' w err] by (simp add: cuts_def)
next
  case Shut
  have "tm_closed (tw_m (CloseManager w))" by (simp add: CloseManager_def Let_def close_all)
  with Shut show ?thesis by (simp add: raised_def)
next
  case (Mirror lr h' p)
  then show ?thesis by (auto simp: cuts_def EnsureForward_def case_prod_beta intro!: raised_same split: option.splits)
next
  case (Unmirror h' p)
  then show ?thesis by (auto simp: cuts_def DropForward_def intro!: raised_same split: option.splits)
next
  case (Wake a t)
  then show ?thesis by (auto simp: cuts_def intro!: raised_same split: sum.splits)
qed (auto simp: cuts_def TunnelSubscribe_def TunnelUnsubscribe_def intro!: raised_same)

lemma raised_run: "raised h (length (filter (cuts h) es)) (length es) w (tunnel_run es w)"
proof (induction es arbitrary: w)
  case Nil
  show ?case by (simp add: tunnel_run_def raised_same)
next
  case (Cons e es)
  have r: "tunnel_run (e # es) w = tunnel_run es (snd (tunnel_step e w))" by (simp add: tunnel_run_def)
  from raised_trans [OF raised_step [of h e w] Cons.IH] show ?case unfolding r by (simp split: if_splits)
qed

text \<open>
  C12: A dial that was started before its host is disconnected, marked failed, or the manager is closed is never
  published, however the other calls interleave until it ends, as long as fewer than \<open>2 ^ 64\<close> of them do (the
  generation has 64 bits). It returns an error, leaves the connections as they are, and closes the tunnel it made.
\<close>

theorem overtaken_dial_dropped:
  assumes "ec_start t w = (Started d, w1)" "length es < 2 ^ 64" "\<exists>e \<in> set es. cuts (tt_HostID t) e"
  shows "fst (ec_finish d r (tunnel_run es w1)) \<in> {Returned (Inl ManagerClosed), Returned (Inl AttemptInvalidated)} \<and>
    tm_conns (tw_m (snd (ec_finish d r (tunnel_run es w1)))) = tm_conns (tw_m (tunnel_run es w1)) \<and>
    list_all tn_closed (drop (length (tw_tunnels (tunnel_run es w1))) (tw_tunnels (snd (ec_finish d r (tunnel_run es w1)))))"
proof -
  let ?h = "tt_HostID t" and ?v = "tunnel_run es w1"
  have d: "tt_HostID (dl_target d) = ?h" "at_generation (dl_attempt d) = tm_generation (tw_m w1) ?h"
    using assms(1) by (auto simp: ec_start_def ec_enter_def ec_claim_def Let_def split: sum.splits if_splits option.splits)
  have stale: "tm_closed (tw_m ?v) \<or> tm_generation (tw_m ?v) ?h \<noteq> at_generation (dl_attempt d)"
  proof (rule disjCI)
    assume "\<not> tm_generation (tw_m ?v) ?h \<noteq> at_generation (dl_attempt d)"
    with d have g: "tm_generation (tw_m ?v) ?h = tm_generation (tw_m w1) ?h" by simp
    have "0 < length (filter (cuts ?h) es)" using assms(3) by (auto simp: filter_empty_conv)
    moreover have False if "0 < k" "k \<le> length es" "tm_generation (tw_m w1) ?h = tm_generation (tw_m w1) ?h + of_nat k" for k
    proof -
      from that(3) have "unat (of_nat k :: 64 word) = 0" by simp
      then have "k mod 2 ^ 64 = 0" by (simp add: unat_of_nat)
      with that(1,2) assms(2) show False by simp
    qed
    ultimately show "tm_closed (tw_m ?v)" using raised_run [of ?h es w1] g unfolding raised_def by (metis less_le_trans)
  qed
  obtain q w2 where q: "dial_checked (dl_desired d) r ?v = (q, w2)" by fastforce
  have up: "update_at (xs @ [\<lparr>tn_closed = False, tn_forwards = []\<rparr>]) (length xs) CloseTunnel = xs @ [\<lparr>tn_closed = True, tn_forwards = []\<rparr>]"
    for xs :: "Tunnel list" by (simp add: update_at_def CloseTunnel_def)
  from q show ?thesis
  proof (cases rule: dial_checked_cases)
    case (1 e ts)
    with q stale d(1) show ?thesis by (auto simp: ec_finish_def Let_def)
  next
    case (2 c)
    with q stale d(1) show ?thesis by (auto simp: ec_finish_def Let_def closeConn_def up)
  qed
qed

theorem overtaken_dial_dropped_witness:
  "fst (ec_start sample_target new_world) = Started sample_dialing \<and>
   fst (ec_finish sample_dialing sample_dial (tunnel_run [Cut ''h1''] (tunnel_run [Enter sample_target] new_world)))
     \<in> {Returned (Inl ManagerClosed), Returned (Inl AttemptInvalidated)}"
  using sample_started(1) overtaken_dial_dropped [OF sample_started(1), of "[Cut ''h1'']" sample_dial]
  by (simp add: cuts_def sample_target_def)

end

