(* ===== verification/MirrorClaims.thy ===== *)
theory MirrorClaims
  imports MirrorRounds TunnelClaims
begin

text \<open>
  The mirror over the tunnels of the program: the tunnel manager provides the interface of \<open>MirrorRounds\<close>, and what
  the mirror promises in any run, whatever the other users of the tunnels do.
\<close>

section \<open>The tunnels of the program are such a controller\<close>

record MirrorEnv =
  en_Hosts :: "MirrorHost list"
  en_Target :: "string \<Rightarrow> TunnelTarget option"
  en_dial :: "TunnelTarget \<Rightarrow> dial_result"
  en_others :: "tunnel_event list list"
  en_listen :: "int \<Rightarrow> listen_result"
  en_Occupier :: "int \<Rightarrow> Occupier option"
  en_Known :: "string list option"

definition tunnel_deps :: "MirrorEnv \<Rightarrow> TunnelWorld Deps" where
  "tunnel_deps env =
     \<lparr>dp_Hosts = en_Hosts env, dp_Target = en_Target env,
      dp_EnsureConnected = EnsureConnected (en_others env) (en_dial env),
      dp_EnsureForward = (\<lambda>h p. EnsureForward (en_listen env p) h p), dp_DropForward = DropForward,
      dp_Occupier = en_Occupier env, dp_KnownDeployments = en_Known env\<rparr>"

definition forwards_up :: "TunnelWorld \<Rightarrow> fwdKey set" where
  "forwards_up w = {x. fk_port x \<in> set (ForwardPorts (fk_hostID x) w)}"

lemma forwards_up_iff:
  "x \<in> forwards_up w \<longleftrightarrow> (\<exists>i. tunnel_of w (fk_hostID x) = Some i \<and> fk_port x \<in> set (tn_forwards (tw_tunnels w ! i)))"
  by (cases "tunnel_of w (fk_hostID x)") (auto simp: forwards_up_def ForwardPorts_def TunnelForwardPorts_def)

text \<open>No step but a new forward makes a forward.\<close>

definition shrinks :: "TunnelWorld \<Rightarrow> TunnelWorld \<Rightarrow> bool" where
  "shrinks w w' \<longleftrightarrow> (\<forall>h i. tunnel_of w' h = Some i \<longrightarrow> tn_forwards (tw_tunnels w' ! i) = [] \<or>
     tunnel_of w h = Some i \<and> set (tn_forwards (tw_tunnels w' ! i)) \<subseteq> set (tn_forwards (tw_tunnels w ! i)))"

lemma shrinks_refl: "shrinks w w"
  by (simp add: shrinks_def)

lemma shrinks_trans:
  assumes "shrinks w w'" "shrinks w' w''"
  shows "shrinks w w''"
  unfolding shrinks_def
proof (intro allI impI)
  fix h i assume "tunnel_of w'' h = Some i"
  with assms(2) consider "tn_forwards (tw_tunnels w'' ! i) = []"
    | "tunnel_of w' h = Some i" "set (tn_forwards (tw_tunnels w'' ! i)) \<subseteq> set (tn_forwards (tw_tunnels w' ! i))"
    unfolding shrinks_def by blast
  then show "tn_forwards (tw_tunnels w'' ! i) = [] \<or>
      tunnel_of w h = Some i \<and> set (tn_forwards (tw_tunnels w'' ! i)) \<subseteq> set (tn_forwards (tw_tunnels w ! i))"
  proof cases
    case 2
    from 2(1) assms(1) consider "tn_forwards (tw_tunnels w' ! i) = []"
      | "tunnel_of w h = Some i" "set (tn_forwards (tw_tunnels w' ! i)) \<subseteq> set (tn_forwards (tw_tunnels w ! i))"
      unfolding shrinks_def by blast
    then show ?thesis by cases (use 2(2) in auto)
  qed simp
qed

lemma shrinks_up: "shrinks w w' \<Longrightarrow> forwards_up w' \<subseteq> forwards_up w"
proof
  fix x assume s: "shrinks w w'" and "x \<in> forwards_up w'"
  then obtain i where "tunnel_of w' (fk_hostID x) = Some i" "fk_port x \<in> set (tn_forwards (tw_tunnels w' ! i))"
    by (auto simp: forwards_up_iff)
  moreover from this have "tn_forwards (tw_tunnels w' ! i) \<noteq> []" by auto
  ultimately show "x \<in> forwards_up w" using s unfolding shrinks_def forwards_up_iff by blast
qed

lemma shrinks_same: "tm_conns (tw_m w') = tm_conns (tw_m w) \<Longrightarrow> tw_tunnels w' = tw_tunnels w \<Longrightarrow> shrinks w w'"
  by (simp add: shrinks_def tunnel_of_def)

lemma shrinks_unpublished:
  assumes "unpublished h s w w'" "world_ok w"
  shows "shrinks w w'"
  unfolding shrinks_def
proof (intro allI impI)
  fix h' i assume t': "tunnel_of w' h' = Some i"
  note t = unpublished_tunnels [OF assms(1)]
  from t' t(3) have t1: "tunnel_of w h' = Some i" by (auto split: if_splits)
  have "tunnels_ok w" using assms(2) by (simp add: world_ok_def)
  from tunnel_of_open(1) [OF this t1] have "tw_tunnels w' ! i \<in> {tw_tunnels w ! i, CloseTunnel (tw_tunnels w ! i)}" using t(2) by simp
  moreover have "tn_forwards (CloseTunnel x) = [] \<or> CloseTunnel x = x" for x by (simp add: CloseTunnel_def)
  ultimately show "tn_forwards (tw_tunnels w' ! i) = [] \<or> tunnel_of w h' = Some i \<and> set (tn_forwards (tw_tunnels w' ! i)) \<subseteq> set (tn_forwards (tw_tunnels w ! i))"
    using t1 by (metis insertE order_refl singletonD)
qed

lemma shrinks_MarkFailed: "world_ok w \<Longrightarrow> shrinks w (MarkFailed h e w)"
  using shrinks_unpublished [OF MarkFailed_unpublishes] by (cases "tm_closed (tw_m w)") (simp_all add: MarkFailed_def shrinks_refl)

lemma shrinks_Disconnect: "world_ok w \<Longrightarrow> shrinks w (Disconnect h w)"
  using shrinks_unpublished [OF Disconnect_unpublishes] by (cases "tm_closed (tw_m w)") (simp_all add: Disconnect_def shrinks_refl)

lemma shrinks_start:
  assumes "world_ok w"
  shows "shrinks w (snd (ec_start t w))"
proof (cases "HostKeyIdentitySHA256 (tt_SSHHostKeyFingerprint t)")
  case (Inl e)
  then show ?thesis using shrinks_MarkFailed [OF assms] by (simp add: ec_start_def)
next
  case (Inr d)
  let ?h = "tt_HostID t" and ?m = "tw_m w"
  have claim: "shrinks v (snd (ec_claim t d v))" for v
    by (rule shrinks_same) (simp_all add: ec_claim_def Let_def split: option.splits)
  consider "tm_closed ?m" | "\<not> tm_closed ?m" "conn_of w ?h = None"
    | c where "\<not> tm_closed ?m" "conn_of w ?h = Some c" "hk_Verified (cn_hostKey c) \<and> hk_IdentitySHA256 (cn_hostKey c) = d"
    | c where "\<not> tm_closed ?m" "conn_of w ?h = Some c" "\<not> (hk_Verified (cn_hostKey c) \<and> hk_IdentitySHA256 (cn_hostKey c) = d)"
    by (cases "conn_of w ?h") blast+
  then show ?thesis
  proof cases
    case 4
    let ?w = "closeConn c (w\<lparr>tw_m := bump ?h (?m\<lparr>tm_conns := AList.delete ?h (tm_conns ?m),
                 tm_hostKeys := (tm_hostKeys ?m)(?h := None), tm_errors := (tm_errors ?m)(?h := None)\<rparr>)\<rparr>)"
    let ?v = "?w\<lparr>tw_m := (tw_m ?w)\<lparr>tm_status := (tm_status ?m)(?h \<mapsto> StatusConnecting)\<rparr>\<rparr>"
    have "unpublished ?h StatusConnecting w ?v"
      using 4(2) by (auto simp: unpublished_def closeConn_def tunnel_of_def split: option.splits)
    then have "shrinks w ?v" by (rule shrinks_unpublished [OF _ assms])
    moreover have "shrinks ?v ?w" by (rule shrinks_same) simp_all
    ultimately have "shrinks w ?w" by (rule shrinks_trans)
    moreover have "ec_start t w = ec_claim t d ?w" using 4 Inr by (auto simp: ec_start_def ec_enter_def Let_def)
    ultimately show ?thesis using shrinks_trans [OF _ claim [of ?w]] by simp
  qed (use Inr claim in \<open>simp_all add: ec_start_def ec_enter_def Let_def shrinks_refl\<close>)
qed

lemma shrinks_finish:
  assumes "world_ok w"
  shows "shrinks w (snd (ec_finish d r w))"
proof -
  let ?h = "tt_HostID (dl_target d)" and ?v = "snd (ec_finish d r w)"
  have t: "tunnels_ok w" using assms by (simp add: world_ok_def)
  obtain q w1 where q: "dial_checked (dl_desired d) r w = (q, w1)" by fastforce
  have up: "update_at (xs @ [\<lparr>tn_closed = False, tn_forwards = []\<rparr>]) (length xs) CloseTunnel = xs @ [\<lparr>tn_closed = True, tn_forwards = []\<rparr>]"
    for xs :: "Tunnel list" by (simp add: update_at_def CloseTunnel_def)
  have "\<exists>ts. tw_tunnels ?v = tw_tunnels w @ ts \<and> (\<forall>x \<in> set ts. tn_forwards x = []) \<and>
    (\<forall>h. tunnel_of ?v h = tunnel_of w h \<or> tunnel_of ?v h = Some (length (tw_tunnels w)) \<and> ts \<noteq> [])"
    using q
  proof (cases rule: dial_checked_cases)
    case (1 e ts)
    with q show ?thesis by (intro exI [of _ ts]) (auto simp: ec_finish_def Let_def tunnel_of_def ec_publish_def)
  next
    case (2 c)
    show ?thesis
    proof (cases "tm_closed (tw_m w) \<or> tm_generation (tw_m w) ?h \<noteq> at_generation (dl_attempt d)")
      case True
      with 2 q show ?thesis
        by (intro exI [of _ "[\<lparr>tn_closed = True, tn_forwards = []\<rparr>]"]) (auto simp: ec_finish_def Let_def tunnel_of_def closeConn_def up)
    next
      case False
      with 2 q show ?thesis
        by (intro exI [of _ "[\<lparr>tn_closed = False, tn_forwards = []\<rparr>]"]) (auto simp: ec_finish_def Let_def tunnel_of_def ec_publish_def update_conv')
    qed
  qed
  then obtain ts where ts: "tw_tunnels ?v = tw_tunnels w @ ts" "\<forall>x \<in> set ts. tn_forwards x = []"
    "\<forall>h. tunnel_of ?v h = tunnel_of w h \<or> tunnel_of ?v h = Some (length (tw_tunnels w)) \<and> ts \<noteq> []" by blast
  show ?thesis
    unfolding shrinks_def
  proof (intro allI impI)
    fix h i assume i: "tunnel_of ?v h = Some i"
    show "tn_forwards (tw_tunnels ?v ! i) = [] \<or> tunnel_of w h = Some i \<and> set (tn_forwards (tw_tunnels ?v ! i)) \<subseteq> set (tn_forwards (tw_tunnels w ! i))"
    proof (cases "tunnel_of w h = Some i")
      case True
      with tunnel_of_open(1) [OF t True] ts(1) show ?thesis by (simp add: nth_append)
    next
      case False
      with i ts(3) have "i = length (tw_tunnels w)" "ts \<noteq> []" by (metis option.inject)+
      then show ?thesis using ts(1,2) by (cases ts) (auto simp: nth_append)
    qed
  qed
qed

lemma shrinks_step:
  assumes "world_ok w" "case e of Mirror lr h p \<Rightarrow> False | Unmirror h p \<Rightarrow> False | _ \<Rightarrow> True"
  shows "shrinks w (snd (tunnel_step e w))"
proof (cases e)
  case Shut
  have "tm_conns (tw_m (CloseManager w)) = [] \<or> CloseManager w = w" by (simp add: CloseManager_def Let_def close_all)
  then show ?thesis using Shut by (auto simp: shrinks_def tunnel_of_def)
qed (use assms in \<open>auto simp: shrinks_start shrinks_finish shrinks_MarkFailed shrinks_Disconnect TunnelSubscribe_def TunnelUnsubscribe_def
      intro!: shrinks_same split: sum.splits\<close>)

lemma others_only_shrinks: "world_ok w \<Longrightarrow> shrinks w (tunnel_run (others_only es) w)"
proof (induction es arbitrary: w)
  case Nil
  show ?case by (simp add: others_only_def tunnel_run_def shrinks_refl)
next
  case (Cons e es)
  show ?case
  proof (cases "case e of Mirror lr h p \<Rightarrow> False | Unmirror h p \<Rightarrow> False | _ \<Rightarrow> True")
    case True
    then have "tunnel_run (others_only (e # es)) w = tunnel_run (others_only es) (snd (tunnel_step e w))"
      by (simp add: others_only_def tunnel_run_def)
    with shrinks_trans [OF shrinks_step [OF Cons.prems True] Cons.IH [OF tunnel_step_ok [OF Cons.prems]]] show ?thesis by simp
  next
    case False
    then have "others_only (e # es) = others_only es" by (simp add: others_only_def)
    with Cons show ?thesis by simp
  qed
qed

lemma ec_dial_shrinks:
  "world_ok w \<Longrightarrow> ec_dial d r w = Some (q, w') \<Longrightarrow> world_ok w' \<and> shrinks w w'"
  using ec_finish_ok [of w d r] shrinks_finish [of w d r]
  by (auto simp: ec_dial_def split: if_splits prod.splits answer.splits)

lemma EnsureConnected_shrinks:
  "world_ok w \<Longrightarrow> EnsureConnected others dial t w = Some (r, w') \<Longrightarrow> world_ok w' \<and> shrinks w w'"
proof (induction others arbitrary: w)
  case Nil
  obtain a w1 where s: "ec_start t w = (a, w1)" by fastforce
  have ok1: "world_ok w1" "shrinks w w1" using ec_start_ok [OF Nil(1), of t] shrinks_start [OF Nil(1), of t] s by simp_all
  show ?case
  proof (cases a)
    case (Started d)
    show ?thesis
    proof (cases "tm_closed (tw_m w)")
      case False
      with Nil(2) s Started have "ec_dial d (dial t) w1 = Some (r, w')" by simp
      from ec_dial_shrinks [OF ok1(1) this] ok1(2) shrinks_trans show ?thesis by blast
    qed (use Nil shrinks_refl in auto)
  qed (use Nil s ok1 shrinks_refl in \<open>auto split: if_splits\<close>)
next
  case (Cons es others)
  obtain a w1 where s: "ec_start t w = (a, w1)" by fastforce
  have ok1: "world_ok w1" "shrinks w w1" using ec_start_ok [OF Cons(2), of t] shrinks_start [OF Cons(2), of t] s by simp_all
  let ?w2 = "tunnel_run (others_only es) w1"
  have ok2: "world_ok ?w2" "shrinks w ?w2"
    using tunnel_run_ok [OF ok1(1)] shrinks_trans [OF ok1(2) others_only_shrinks [OF ok1(1)]] by blast+
  show ?case
  proof (cases "tm_closed (tw_m w)")
    case True
    with Cons(2,3) shrinks_refl show ?thesis by auto
  next
    case False
    show ?thesis
    proof (cases a)
      case (Started d)
      with False Cons(3) s have "ec_dial d (dial t) ?w2 = Some (r, w')" by simp
      from ec_dial_shrinks [OF ok2(1) this] ok2(2) shrinks_trans show ?thesis by blast
    next
      case (Waiting at)
      obtain b w3 where st: "tunnel_step (Wake at t) ?w2 = (b, w3)" by fastforce
      then have w3: "w3 = ?w2" by (auto split: sum.splits)
      show ?thesis
      proof (cases b)
        case Again
        with False Waiting s st w3 Cons(3) have "EnsureConnected others dial t ?w2 = Some (r, w')" by (simp del: tunnel_step.simps)
        from Cons.IH [OF ok2(1) this] ok2(2) shrinks_trans show ?thesis by blast
      qed (use False Waiting s st w3 Cons(3) ok2 in \<open>simp_all del: tunnel_step.simps\<close>)
    qed (use False Cons(3) s ok1 in auto)
  qed
qed

lemma forward_set:
  assumes "world_ok w" "tunnel_of w h = Some i" "tw_tunnels w' = (tw_tunnels w)[i := t]" "tm_conns (tw_m w') = tm_conns (tw_m w)"
  shows "x \<in> forwards_up w' \<longleftrightarrow> (if fk_hostID x = h then fk_port x \<in> set (tn_forwards t) else x \<in> forwards_up w)"
proof -
  have t: "tunnels_ok w" using assms(1) by (simp add: world_ok_def)
  have same: "tunnel_of w' = tunnel_of w" using assms(4) by (intro ext) (simp add: tunnel_of_def)
  note i = tunnel_of_open(1) [OF t assms(2)]
  show ?thesis
  proof (cases "fk_hostID x = h")
    case True
    with assms(2,3) i show ?thesis by (auto simp: forwards_up_iff same)
  next
    case False
    have "tw_tunnels w' ! j = tw_tunnels w ! j" if "tunnel_of w (fk_hostID x) = Some j" for j
    proof -
      have "j \<noteq> i" using tunnels_okD(3) [OF t that] assms(2) False by metis
      with assms(3) show ?thesis by simp
    qed
    with False show ?thesis by (auto simp: forwards_up_iff same)
  qed
qed

lemma EnsureForward_up:
  assumes "world_ok w" "EnsureForward lr h p w = (r, w')"
  shows "world_ok w'" "r = None \<Longrightarrow> forwards_up w' = insert (FwdKey h p) (forwards_up w)"
    "r = Some e \<Longrightarrow> forwards_up w' = forwards_up w \<and> FwdKey h p \<notin> forwards_up w"
proof -
  have t: "tunnels_ok w" using assms(1) by (simp add: world_ok_def)
  show "world_ok w'" using EnsureForward_ok [OF assms(1), of lr h p] assms(2) by simp
  show "forwards_up w' = insert (FwdKey h p) (forwards_up w)" if "r = None"
  proof -
    from that assms(2) obtain i where i: "tunnel_of w h = Some i" by (auto simp: EnsureForward_def split: option.splits)
    note o = tunnel_of_open [OF t i]
    let ?t = "tw_tunnels w ! i"
    have "fst (AddForward lr p ?t) = None" "tw_tunnels w' = (tw_tunnels w)[i := snd (AddForward lr p ?t)]" "tm_conns (tw_m w') = tm_conns (tw_m w)"
      using that assms(2) i by (auto simp: EnsureForward_def split: prod.splits)
    moreover from this(1) o(2) have "set (tn_forwards (snd (AddForward lr p ?t))) = insert p (set (tn_forwards ?t))"
      by (auto simp: AddForward_def split: if_splits listen_result.splits)
    ultimately have "x \<in> forwards_up w' \<longleftrightarrow> x = FwdKey h p \<or> x \<in> forwards_up w" for x
      using forward_set [OF assms(1) i, of w' "snd (AddForward lr p ?t)" x] i by (cases x) (auto simp: forwards_up_iff)
    then show ?thesis by blast
  qed
  show "forwards_up w' = forwards_up w \<and> FwdKey h p \<notin> forwards_up w" if "r = Some e"
  proof (cases "tunnel_of w h")
    case None
    with assms(2) show ?thesis by (auto simp: EnsureForward_def forwards_up_iff)
  next
    case (Some i)
    let ?t = "tw_tunnels w ! i"
    have "AddForward lr p ?t = (Some e, ?t) \<and> p \<notin> set (tn_forwards ?t)"
      using that assms(2) Some tunnel_of_open(2) [OF t Some]
      by (auto simp: EnsureForward_def AddForward_def split: if_splits listen_result.splits prod.splits)
    with assms(2) Some show ?thesis by (auto simp: EnsureForward_def forwards_up_iff)
  qed
qed

lemma DropForward_up:
  assumes "world_ok w"
  shows "forwards_up (DropForward h p w) = forwards_up w - {FwdKey h p}"
proof (cases "tunnel_of w h")
  case None
  then have "FwdKey h p \<notin> forwards_up w" by (simp add: forwards_up_iff)
  with None show ?thesis by (simp add: DropForward_def)
next
  case (Some i)
  let ?t = "snd (RemoveForward p (tw_tunnels w ! i))"
  have r: "set (tn_forwards ?t) = set (tn_forwards (tw_tunnels w ! i)) - {p}" by (auto simp: RemoveForward_def)
  have w: "tw_tunnels (DropForward h p w) = (tw_tunnels w)[i := ?t]" "tm_conns (tw_m (DropForward h p w)) = tm_conns (tw_m w)"
    using Some by (simp_all add: DropForward_def)
  have "x \<in> forwards_up (DropForward h p w) \<longleftrightarrow> x \<in> forwards_up w \<and> x \<noteq> FwdKey h p" for x
    using forward_set [OF assms Some w, of x] r Some by (cases x) (auto simp: forwards_up_iff)
  then show ?thesis by blast
qed

interpretation tunnels: tunnel_controller world_ok forwards_up "tunnel_deps env" for env
proof
  fix w w' :: TunnelWorld and t r h p e
  show "world_ok w \<Longrightarrow> dp_EnsureConnected (tunnel_deps env) t w = Some (r, w') \<Longrightarrow> world_ok w' \<and> forwards_up w' \<subseteq> forwards_up w"
    using EnsureConnected_shrinks [of w "en_others env" "en_dial env" t r w'] shrinks_up [of w w'] by (simp add: tunnel_deps_def)
  show "world_ok w \<Longrightarrow> dp_EnsureForward (tunnel_deps env) h p w = (None, w') \<Longrightarrow>
      world_ok w' \<and> forwards_up w' = insert (FwdKey h p) (forwards_up w)"
    using EnsureForward_up(1,2) [of w "en_listen env p" h p None w'] by (simp add: tunnel_deps_def)
  show "world_ok w \<Longrightarrow> dp_EnsureForward (tunnel_deps env) h p w = (Some e, w') \<Longrightarrow>
      world_ok w' \<and> forwards_up w' = forwards_up w \<and> FwdKey h p \<notin> forwards_up w"
    using EnsureForward_up(1,3) [of w "en_listen env p" h p "Some e" w'] by (simp add: tunnel_deps_def)
  show "world_ok w \<Longrightarrow> world_ok (dp_DropForward (tunnel_deps env) h p w) \<and>
      forwards_up (dp_DropForward (tunnel_deps env) h p w) = forwards_up w - {FwdKey h p}"
    by (simp add: tunnel_deps_def DropForward_ok DropForward_up)
qed

section \<open>Runs of the mirror over the tunnels\<close>

text \<open>\<open>Elsewhere\<close> are the steps of the other users of the tunnels, \<open>Turn\<close> is a turn of the loop.\<close>

datatype mirror_event =
    NodesArrive "NodeStatus list" | Poke | RetryPort string int | Watch | Unwatch nat
  | Elsewhere "tunnel_event list" | Turn MirrorEnv time | Stop MirrorEnv

fun mirror_step :: "mirror_event \<Rightarrow> MirrorManager \<times> TunnelWorld \<Rightarrow> (MirrorManager \<times> TunnelWorld) option" where
  "mirror_step (NodesArrive ns) (m, w) = Some (ApplyNodes ns m, w)"
| "mirror_step Poke (m, w) = Some (ReconcileNow m, w)"
| "mirror_step (RetryPort h p) (m, w) = Some (Retry h p m, w)"
| "mirror_step Watch (m, w) = Some (snd (SubscribeMirror m), w)"
| "mirror_step (Unwatch i) (m, w) = Some (UnsubscribeMirror i m, w)"
| "mirror_step (Elsewhere es) (m, w) = Some (m, tunnel_run (others_only es) w)"
| "mirror_step (Turn env now) (m, w) = loop_turn (tunnel_deps env) now (m, w)"
| "mirror_step (Stop env) (m, w) = Some (CloseMirror (tunnel_deps env) (m, w))"

fun mirror_run :: "mirror_event list \<Rightarrow> MirrorManager \<times> TunnelWorld \<Rightarrow> (MirrorManager \<times> TunnelWorld) option" where
  "mirror_run [] s = Some s"
| "mirror_run (e # es) s = (case mirror_step e s of None \<Rightarrow> None | Some s' \<Rightarrow> mirror_run es s')"

definition mirror_start :: "MirrorManager \<times> TunnelWorld" where
  "mirror_start = (NewMirror, new_world)"

definition mirror_ok :: "MirrorManager \<times> TunnelWorld \<Rightarrow> bool" where
  "mirror_ok s \<longleftrightarrow> world_ok (snd s) \<and> mirror_entries_ok (mm_entries (fst s)) \<and> forwards_up (snd s) \<subseteq> held (mm_entries (fst s)) \<and>
     mm_snapshot (fst s) = mm_lastBroadcast (fst s) \<and>
     (if mm_closed (fst s) then mm_entries (fst s) = [] else mm_lastBroadcast (fst s) = buildSnapshot (mm_entries (fst s)))"

lemma mirror_start_ok: "mirror_ok mirror_start"
proof -
  have "forwards_up new_world = {}" by (auto simp: forwards_up_iff tunnel_of_def new_world_def NewManager_def)
  then show ?thesis
    by (simp add: mirror_ok_def mirror_start_def fresh_ok NewMirror_def mirror_entries_ok_def buildSnapshot_def)
qed

lemma publish_ok:
  "mm_entries (publishIfChanged m) = mm_entries m" "mm_closed (publishIfChanged m) = mm_closed m"
  "mm_snapshot m = mm_lastBroadcast m \<Longrightarrow> mm_snapshot (publishIfChanged m) = mm_lastBroadcast (publishIfChanged m)"
  "mm_lastBroadcast (publishIfChanged m) = buildSnapshot (mm_entries m)"
  "mm_latestFrame (publishIfChanged m) = mm_latestFrame m"
  by (simp_all add: publishIfChanged_def Let_def)

lemma reconcile_fields:
  assumes "reconcile deps now (m, w) = Some (m', w')"
  shows "mm_closed m' = mm_closed m" "mm_latestFrame m' = mm_latestFrame m"
    "mm_snapshot m = mm_lastBroadcast m \<Longrightarrow> mm_snapshot m' = mm_lastBroadcast m'" "mm_lastBroadcast m' = buildSnapshot (mm_entries m')"
  using assms by (auto simp: reconcile_def Let_def case_prod_beta publish_ok)

lemma mirror_step_ok:
  assumes "mirror_ok (m, w)" "mirror_step e (m, w) = Some s"
  shows "mirror_ok s"
proof (cases e)
  case (Elsewhere es)
  have w: "world_ok w" "forwards_up w \<subseteq> held (mm_entries m)" using assms(1) by (simp_all add: mirror_ok_def)
  have "s = (m, tunnel_run (others_only es) w)" using Elsewhere assms(2) by simp
  moreover have "forwards_up (tunnel_run (others_only es) w) \<subseteq> held (mm_entries m)"
    using shrinks_up [OF others_only_shrinks [OF w(1)]] w(2) by (rule subset_trans)
  ultimately show ?thesis using assms(1) tunnel_run_ok [OF w(1)] by (simp add: mirror_ok_def split: if_splits)
next
  case (Turn env now)
  let ?m = "m\<lparr>mm_wake := False\<rparr>"
  show ?thesis
  proof (cases "mm_closed m \<or> \<not> mm_wake m")
    case True
    with Turn assms show ?thesis by (simp add: loop_turn_def)
  next
    case False
    obtain m' w' where s: "s = (m', w')" by fastforce
    with False Turn assms(2) have r: "reconcile (tunnel_deps env) now (?m, w) = Some (m', w')" by (simp add: loop_turn_def)
    have pre: "world_ok w" "mirror_entries_ok (mm_entries ?m)" "forwards_up w \<subseteq> held (mm_entries ?m)" using assms(1) by (simp_all add: mirror_ok_def)
    have "mm_snapshot ?m = mm_lastBroadcast ?m" using assms(1) by (simp add: mirror_ok_def)
    then show ?thesis using tunnels.reconcile_covers(1-3) [OF pre r] reconcile_fields [OF r] False by (simp add: mirror_ok_def s)
  qed
next
  case (Stop env)
  show ?thesis
  proof (cases "mm_closed m")
    case True
    with Stop assms show ?thesis by (simp add: CloseMirror_def)
  next
    case False
    obtain m' w' where c: "CloseMirror (tunnel_deps env) (m, w) = (m', w')" by fastforce
    have pre: "world_ok w" "mirror_entries_ok (mm_entries m)" "forwards_up w \<subseteq> held (mm_entries m)" using assms(1) by (simp_all add: mirror_ok_def)
    have "mm_snapshot m' = mm_lastBroadcast m'" using c assms(1) False by (auto simp: CloseMirror_def teardownAll_def mirror_ok_def)
    moreover have "s = (m', w')" using assms(2) Stop c by simp
    ultimately show ?thesis using tunnels.closing_clears [OF pre c False] by (simp add: mirror_ok_def mirror_entries_ok_def)
  qed
qed (use assms in \<open>auto simp: mirror_ok_def ApplyNodes_def ReconcileNow_def Retry_def signalWake_def SubscribeMirror_def UnsubscribeMirror_def split: if_splits\<close>)

lemma mirror_run_ok: "mirror_ok s \<Longrightarrow> mirror_run es s = Some s' \<Longrightarrow> mirror_ok s'"
proof (induction es arbitrary: s)
  case (Cons e es)
  then show ?case using mirror_step_ok [of "fst s" "snd s" e] by (auto split: option.splits)
qed simp

text \<open>The forwards that should exist for a frame, and those the published statuses show as active.\<close>

definition declared_forwards :: "MirrorEnv \<Rightarrow> NodeStatus list \<Rightarrow> fwdKey set" where
  "declared_forwards env frame = {fwd k | k. declared frame (host_map (en_Hosts env)) (en_Known env) k}"

definition shown_active :: "MirrorManager \<Rightarrow> fwdKey set" where
  "shown_active m = {FwdKey (ms_HostID s) (ms_Port s) | s. s \<in> set (Statuses m) \<and> ms_State s = MirrorStateActive}"

lemma shown_held:
  assumes "mirror_entries_ok (mm_entries m)" "Statuses m = buildSnapshot (mm_entries m)"
  shows "shown_active m = held (mm_entries m)"
proof (intro equalityI subsetI)
  fix x assume "x \<in> shown_active m"
  then obtain k e where k: "(k, e) \<in> set (mm_entries m)" "me_state e = MirrorStateActive" "x = FwdKey (me_hostID e) (me_port e)"
    using assms(2) unfolding shown_active_def buildSnapshot_def by auto
  with assms(1) have "map_of (mm_entries m) k = Some e" "entry_ok k e" by (auto simp: mirror_entries_ok_def)
  with k show "x \<in> held (mm_entries m)" using heldI [of "mm_entries m" k e] by (simp add: entry_ok_def fwd_def)
next
  fix x assume "x \<in> held (mm_entries m)"
  then obtain k e where k: "map_of (mm_entries m) k = Some e" "me_forwardUp e" "x = fwd k" by (rule heldE)
  with mirror_entries_okD [OF assms(1) k(1)] have "me_state e = MirrorStateActive" "x = FwdKey (me_hostID e) (me_port e)" "(k, e) \<in> set (mm_entries m)"
    by (auto simp: entry_ok_def fwd_def dest: map_of_SomeD)
  then show "x \<in> shown_active m" using assms(2) unfolding shown_active_def buildSnapshot_def by force
qed

lemma expected_declared:
  "winner_of (fst (expected_now (tunnel_deps env) m)) \<subseteq> declared_forwards env (mm_latestFrame m)"
proof
  fix x assume "x \<in> winner_of (fst (expected_now (tunnel_deps env) m))"
  then obtain k i where k: "map_of (fst (expected_now (tunnel_deps env) m)) k = Some i" "x = fwd k" unfolding winner_of_def by blast
  obtain claimed ks where i: "set ks = Collect (declared (mm_latestFrame m) (host_map (en_Hosts env)) (en_Known env))"
    "expect_inv ks (fst (expected_now (tunnel_deps env) m)) claimed"
    using expected_inv unfolding expected_now_def tunnel_deps_def by force
  have "k \<in> set (map fst (fst (expected_now (tunnel_deps env) m)))" using k(1) by (force dest: map_of_SomeD)
  then have "k \<in> set ks" by (simp only: expect_invD(2) [OF i(2)])
  with i(1) k(2) show "x \<in> declared_forwards env (mm_latestFrame m)" unfolding declared_forwards_def by blast
qed

text \<open>
  C11: Whatever frames, retries, disconnections and failures came before, after a round the only forwards open on the
  local machine are for ports that a running, known instance of the latest frame declares on a development machine.
\<close>

theorem mirror_no_stray_forward:
  assumes "mirror_run es mirror_start = Some (m, w)" "\<not> mm_closed m" "mm_wake m"
    and "mirror_step (Turn env now) (m, w) = Some (m', w')"
  shows "forwards_up w' \<subseteq> declared_forwards env (mm_latestFrame m)"
proof -
  let ?m = "m\<lparr>mm_wake := False\<rparr>" and ?x = "fst (expected_now (tunnel_deps env) (m\<lparr>mm_wake := False\<rparr>))"
  have "mirror_ok (m, w)" by (rule mirror_run_ok [OF mirror_start_ok assms(1)])
  then have pre: "world_ok w" "mirror_entries_ok (mm_entries ?m)" "forwards_up w \<subseteq> held (mm_entries ?m)" by (simp_all add: mirror_ok_def)
  from assms(2-4) have r: "reconcile (tunnel_deps env) now (?m, w) = Some (m', w')" by (simp add: loop_turn_def)
  note c = tunnels.reconcile_covers [OF pre r]
  have "held (mm_entries m') \<subseteq> winner_of ?x" by (rule tunnels.winners_only [OF c(4,5)])
  moreover have "winner_of ?x \<subseteq> declared_forwards env (mm_latestFrame m)" using expected_declared [of env ?m] by simp
  ultimately show ?thesis using c(3) by blast
qed

text \<open>
  Closing the mirror leaves no forward behind, also when it is closed in the middle of failures, and none comes
  back afterwards.
\<close>

theorem mirror_close_clean:
  assumes "mirror_run es mirror_start = Some (m, w)" "mm_closed m"
  shows "forwards_up w = {} \<and> mm_entries m = []"
proof -
  have "mirror_ok (m, w)" by (rule mirror_run_ok [OF mirror_start_ok assms(1)])
  then have "forwards_up w \<subseteq> held (mm_entries m)" "mm_closed m \<longrightarrow> mm_entries m = []" unfolding mirror_ok_def by auto
  with assms(2) show ?thesis by (simp add: held_def)
qed


section \<open>A port changes hands\<close>

definition mirror_env :: MirrorEnv where
  "mirror_env = \<lparr>en_Hosts = [\<lparr>ho_ID = ''h1'', ho_Name = ''dev'', ho_DevMachineMode = True\<rparr>], en_Target = (\<lambda>h. Some sample_target),
     en_dial = (\<lambda>t. sample_dial), en_others = [], en_listen = (\<lambda>p. Listening), en_Occupier = (\<lambda>p. None), en_Known = None\<rparr>"

definition sample_instance :: "string \<Rightarrow> InstanceStatus" where
  "sample_instance d = \<lparr>in_DeploymentID = d, in_ServiceName = ''web'', in_Ports = [8080], in_Health = ''running''\<rparr>"

definition sample_frame :: "string list \<Rightarrow> NodeStatus list" where
  "sample_frame ds = [\<lparr>nd_HostID = ''h1'', nd_Name = ''n'', nd_Deployments = map sample_instance ds\<rparr>]"

definition sample_conn :: Conn where
  "sample_conn = \<lparr>cn_port = 4000, cn_hostKey = \<lparr>hk_Verified = True, hk_IdentitySHA256 = sample_identity\<rparr>, cn_tunnel = Some 0\<rparr>"

lemma connect_new:
  "\<exists>w. EnsureConnected [] (\<lambda>t. sample_dial) sample_target new_world = Some (Inr 4000, w) \<and>
     tm_conns (tw_m w) = [(''h1'', sample_conn)] \<and> tm_closed (tw_m w) = False \<and> tw_tunnels w = [\<lparr>tn_closed = False, tn_forwards = []\<rparr>]"
  by (simp add: new_world_def NewManager_def ec_start_def sample_target_def sample_pin_identity ec_enter_def ec_claim_def Let_def
      ec_dial_def ec_finish_def dial_checked_def sample_dial_def open_conn_def ec_publish_def sample_conn_def)

lemma connect_again:
  assumes "tm_conns (tw_m w) = [(''h1'', sample_conn)]" "tm_closed (tw_m w) = False"
  shows "EnsureConnected [] dial sample_target w = Some (Inr 4000, w)"
  using assms by (simp add: ec_start_def sample_target_def sample_pin_identity ec_enter_def Let_def sample_conn_def)

definition sample_entry :: "string \<Rightarrow> time \<Rightarrow> mirrorEntry" where
  "sample_entry d now = \<lparr>me_hostID = ''h1'', me_hostName = ''dev'', me_deploymentID = d, me_serviceName = ''web'', me_port = 8080,
     me_state = MirrorStateActive, me_errCode = [], me_occupier = None, me_lastAttempt = now, me_forwardUp = True, me_updatedAt = now\<rparr>"

lemmas sample_eval = loop_turn_def reconcile_def expected_now_def computeExpected_def node_cands_def instance_cands_def left_out_def
  is_known_def isRunningHealth_def HealthRunning_def hostDisplayName_def host_map_def expect_def teardownUnexpected_def converge_def hostDue_def
  retried_def isDue_def converge_key_def converge_entry_def ensureEntry_def attemptForward_def tunnel_deps_def mirror_env_def sample_frame_def
  sample_instance_def fwd_def less_eq_mirrorKey_def lessKey_def applyRetries_def

lemma sample_first_round:
  "\<exists>m w. mirror_run [NodesArrive (sample_frame [''b'']), Turn mirror_env 1] mirror_start = Some (m, w) \<and>
     mm_entries m = [(MirrorKey ''h1'' ''b'' 8080, sample_entry ''b'' 1)] \<and> mm_closed m = False \<and> mm_wake m = False \<and> mm_retryReqs m = [] \<and>
     mm_snapshot m = mm_lastBroadcast m \<and> mm_latestFrame m = sample_frame [''b''] \<and> tm_conns (tw_m w) = [(''h1'', sample_conn)] \<and> tm_closed (tw_m w) = False \<and> tw_tunnels w = [\<lparr>tn_closed = False, tn_forwards = [8080]\<rparr>]"
proof -
  obtain w where w: "EnsureConnected [] (\<lambda>t. sample_dial) sample_target new_world = Some (Inr 4000, w)"
    "tm_conns (tw_m w) = [(''h1'', sample_conn)]" "tm_closed (tw_m w) = False" "tw_tunnels w = [\<lparr>tn_closed = False, tn_forwards = []\<rparr>]"
    using connect_new by blast
  show ?thesis
    using w by (simp add: mirror_start_def ApplyNodes_def signalWake_def NewMirror_def sample_eval
        EnsureForward_def tunnel_of_def AddForward_def sample_conn_def publishIfChanged_def buildSnapshot_def sample_entry_def Let_def)
qed

lemma mirror_run_append:
  "mirror_run (es @ es') s = (case mirror_run es s of None \<Rightarrow> None | Some s' \<Rightarrow> mirror_run es' s')"
  by (induction es arbitrary: s) (simp_all split: option.splits)

lemma sample_second_round:
  assumes "mm_entries m = [(MirrorKey ''h1'' ''b'' 8080, sample_entry ''b'' 1)]" "mm_closed m = False" "mm_wake m = False"
    "mm_retryReqs m = []" "mm_snapshot m = mm_lastBroadcast m"
    "tm_conns (tw_m w) = [(''h1'', sample_conn)]" "tm_closed (tw_m w) = False" "tw_tunnels w = [\<lparr>tn_closed = False, tn_forwards = [8080]\<rparr>]"
  shows "\<exists>m' w'. mirror_run [NodesArrive (sample_frame [''b'', ''a'']), Turn mirror_env 2] (m, w) = Some (m', w') \<and>
     map (\<lambda>s. (ms_DeploymentID s, ms_State s)) (Statuses m') = [(''a'', MirrorStateActive), (''b'', MirrorStateFailed)] \<and> ForwardPorts ''h1'' w' = []"
  using assms connect_again [OF assms(6,7), of "\<lambda>t. sample_dial"]
  by (simp add: ApplyNodes_def signalWake_def sample_eval Statuses_def errCodeDuplicate_def
      EnsureForward_def tunnel_of_def AddForward_def sample_conn_def publishIfChanged_def buildSnapshot_def sample_entry_def Let_def
      markDuplicate_def drop_up_def DropForward_def RemoveForward_def ForwardPorts_def TunnelForwardPorts_def del: EnsureConnected.simps)
    (intro impI, drule sym, simp)


theorem mirror_no_stray_forward_witness:
  "\<exists>m w m' w'. mirror_run [NodesArrive (sample_frame [''b''])] mirror_start = Some (m, w) \<and>
     mirror_step (Turn mirror_env 1) (m, w) = Some (m', w') \<and> ForwardPorts ''h1'' w' = [8080] \<and>
     forwards_up w' \<subseteq> declared_forwards mirror_env (sample_frame [''b''])"
proof -
  obtain m w where f: "mirror_run [NodesArrive (sample_frame [''b''])] mirror_start = Some (m, w)" "\<not> mm_closed m" "mm_wake m" "mm_latestFrame m = sample_frame [''b'']"
    by (simp add: mirror_start_def ApplyNodes_def signalWake_def NewMirror_def)
  obtain m' w' where g: "mirror_run [NodesArrive (sample_frame [''b'']), Turn mirror_env 1] mirror_start = Some (m', w')"
    "tm_conns (tw_m w') = [(''h1'', sample_conn)]" "tw_tunnels w' = [\<lparr>tn_closed = False, tn_forwards = [8080]\<rparr>]"
    using sample_first_round by blast
  have s: "mirror_step (Turn mirror_env 1) (m, w) = Some (m', w')"
    using g(1) f(1) mirror_run_append [of "[NodesArrive (sample_frame [''b''])]" "[Turn mirror_env 1]" mirror_start]
    by (simp del: mirror_step.simps split: option.splits)
  have "ForwardPorts ''h1'' w' = [8080]"
    using g(2,3) by (simp add: ForwardPorts_def tunnel_of_def sample_conn_def TunnelForwardPorts_def)
  with mirror_no_stray_forward [OF f(1-3) s] f(1,4) s show ?thesis by metis
qed

theorem mirror_close_clean_witness:
  "\<exists>m w. mirror_run [NodesArrive (sample_frame [''b'']), Turn mirror_env 1, Stop mirror_env] mirror_start = Some (m, w) \<and>
     mm_closed m \<and> forwards_up w = {}"
proof -
  obtain m w where g: "mirror_run [NodesArrive (sample_frame [''b'']), Turn mirror_env 1] mirror_start = Some (m, w)" "mm_closed m = False"
    using sample_first_round by blast
  obtain m' w' where c: "CloseMirror (tunnel_deps mirror_env) (m, w) = (m', w')" by fastforce
  have "mirror_run ([NodesArrive (sample_frame [''b'']), Turn mirror_env 1] @ [Stop mirror_env]) mirror_start = Some (m', w')"
    unfolding mirror_run_append g(1) using c by simp
  then have r: "mirror_run [NodesArrive (sample_frame [''b'']), Turn mirror_env 1, Stop mirror_env] mirror_start = Some (m', w')" by simp
  have "mm_closed m'" using c g(2) by (auto simp: CloseMirror_def teardownAll_def)
  with mirror_close_clean [OF r this] r show ?thesis by blast
qed


end
