(* ===== verification/DebugCredentials.thy ===== *)
theory DebugCredentials
  imports GoJson "HOL-Library.AList" "HOL-Library.Product_Lexorder" "HOL-Library.List_Lexorder" "HOL-Library.Char_ord"
begin

text \<open>
  Leases of debugging credentials (\<^verbatim>\<open>agent/debugcredential/store.go\<close>) and the merging of the layers they are
  read in (\<^verbatim>\<open>agent/model/model.go\<close>). Leases live in memory only and are purged when an operation meets them after
  their time; the clock and the identifiers drawn are arguments. The refinement says that the purging cannot be observed:
  the store behaves like one that never purges and looks at the time of each lease.
\<close>

section \<open>Data\<close>

definition DefaultTTL :: duration where "DefaultTTL = 30 * minute"
definition MaxTTL :: duration where "MaxTTL = 2 * hour"
definition maxCredentialsPerLease :: nat where "maxCredentialsPerLease = 16"

datatype credential_error = InvalidLease string | LeaseConflict | NoSuchLease

record DebugCredential =
  dc_Name :: string
  dc_Value :: string
  dc_Desc :: string

record DebugCredentialHint =
  dh_Name :: string
  dh_Desc :: string
  dh_Source :: string

record CreateRequest =
  cq_ProjectID :: string
  cq_ServiceID :: string
  cq_Owner :: string
  cq_TTLSeconds :: int
  cq_Credentials :: "DebugCredential list"

record LeaseMetadata =
  lm_ID :: string
  lm_ProjectID :: string
  lm_ServiceID :: string
  lm_Owner :: string
  lm_ExpiresAtUTC :: time
  lm_Count :: nat
  lm_Hints :: "DebugCredentialHint list"

record ActiveCredentials =
  ac_Project :: "DebugCredential list"
  ac_Service :: "DebugCredential list"

record credential_lease =
  cl_metadata :: LeaseMetadata
  cl_credentials :: "DebugCredential list"
  cl_createdAt :: time

text \<open>The map of the store; nothing depends on the order in which Go ranges over it.\<close>

type_synonym lease_store = "(string \<times> credential_lease) list"

definition NewLeaseStore :: lease_store where
  "NewLeaseStore = []"

section \<open>Checks\<close>

text \<open>\<^verbatim>\<open>unicode.IsControl\<close>: the ASCII controls and the block from U+0080 to U+009F.\<close>

definition is_control :: "string \<Rightarrow> bool" where
  "is_control u \<longleftrightarrow>
     (case u of
        [c] \<Rightarrow> code c < 0x20 \<or> code c = 0x7f
      | [c, d] \<Rightarrow> c = CHR 0xC2 \<and> 0x80 \<le> code d \<and> code d \<le> 0x9F
      | _ \<Rightarrow> False)"

definition invalidIdentity :: "string \<Rightarrow> nat \<Rightarrow> bool" where
  "invalidIdentity value maxLength \<longleftrightarrow> length value > maxLength \<or> list_ex is_control (runes value)"

fun check_credentials :: "string list \<Rightarrow> DebugCredential list \<Rightarrow> credential_error option" where
  "check_credentials seen [] = None"
| "check_credentials seen (c # cs) =
     (let name = TrimSpace (dc_Name c) in
      if name = [] \<or> length name > 128 \<or> TrimSpace (dc_Value c) = [] \<or> length (dc_Value c) > 64 * 1024 \<or> length (dc_Desc c) > 1024
      then Some (InvalidLease ''credential fields are invalid'')
      else if name \<in> set seen then Some (InvalidLease ''duplicate credential name'')
      else check_credentials (name # seen) cs)"

definition validateCreateRequest :: "CreateRequest \<Rightarrow> credential_error option" where
  "validateCreateRequest req =
     (if TrimSpace (cq_ProjectID req) = [] \<or> TrimSpace (cq_Owner req) = [] then Some (InvalidLease ''project_id and owner are required'')
      else if invalidIdentity (cq_ProjectID req) 256 \<or> invalidIdentity (cq_ServiceID req) 256 \<or> invalidIdentity (cq_Owner req) 200
      then Some (InvalidLease ''project_id, service_id, or owner is invalid'')
      else if cq_TTLSeconds req < 0 \<or> cq_TTLSeconds req > MaxTTL div second then Some (InvalidLease ''ttl_seconds must be between 0 and 7200'')
      else if cq_Credentials req = [] \<or> length (cq_Credentials req) > maxCredentialsPerLease then Some (InvalidLease ''credentials count is invalid'')
      else check_credentials [] (cq_Credentials req))"

section \<open>Operations\<close>

definition unexpired :: "time \<Rightarrow> string \<times> credential_lease \<Rightarrow> bool" where
  "unexpired now il \<longleftrightarrow> now < lm_ExpiresAtUTC (cl_metadata (snd il))"

definition purgeExpiredLocked :: "time \<Rightarrow> lease_store \<Rightarrow> lease_store" where
  "purgeExpiredLocked now s = filter (unexpired now) s"

definition put_lease :: "string \<Rightarrow> credential_lease \<Rightarrow> lease_store \<Rightarrow> lease_store" where
  "put_lease i l s = filter (\<lambda>(j, _). j \<noteq> i) s @ [(i, l)]"

definition trimmed_request :: "CreateRequest \<Rightarrow> CreateRequest" where
  "trimmed_request req =
     req\<lparr>cq_ProjectID := TrimSpace (cq_ProjectID req), cq_ServiceID := TrimSpace (cq_ServiceID req), cq_Owner := TrimSpace (cq_Owner req),
         cq_Credentials := map (\<lambda>c. c\<lparr>dc_Name := TrimSpace (dc_Name c)\<rparr>) (cq_Credentials req)\<rparr>"

definition same_owner_scope :: "CreateRequest \<Rightarrow> string \<times> credential_lease \<Rightarrow> bool" where
  "same_owner_scope req il \<longleftrightarrow>
     (let md = cl_metadata (snd il) in lm_ProjectID md = cq_ProjectID req \<and> lm_ServiceID md = cq_ServiceID req \<and> lm_Owner md = cq_Owner req)"

definition new_lease :: "string \<Rightarrow> time \<Rightarrow> CreateRequest \<Rightarrow> credential_lease" where
  "new_lease uuid now req =
     (let ttl = (if cq_TTLSeconds req * second = 0 then DefaultTTL else cq_TTLSeconds req * second);
          source = (if cq_ServiceID req \<noteq> [] then ''ephemeral_service'' else ''ephemeral_project'')
      in \<lparr>cl_metadata = \<lparr>lm_ID = uuid, lm_ProjectID = cq_ProjectID req, lm_ServiceID = cq_ServiceID req, lm_Owner = cq_Owner req,
             lm_ExpiresAtUTC = now + ttl, lm_Count = length (cq_Credentials req),
             lm_Hints = map (\<lambda>c. \<lparr>dh_Name = dc_Name c, dh_Desc = dc_Desc c, dh_Source = source\<rparr>) (cq_Credentials req)\<rparr>,
          cl_credentials = cq_Credentials req, cl_createdAt = now\<rparr>)"

definition CreateLease :: "string \<Rightarrow> time \<Rightarrow> CreateRequest \<Rightarrow> lease_store \<Rightarrow> (credential_error + LeaseMetadata) \<times> lease_store" where
  "CreateLease uuid now req0 s0 =
     (let req = trimmed_request req0 in
      case validateCreateRequest req of
        Some e \<Rightarrow> (Inl e, s0)
      | None \<Rightarrow>
          let s = purgeExpiredLocked now s0 in
          if list_ex (same_owner_scope req) s then (Inl LeaseConflict, s)
          else (Inr (cl_metadata (new_lease uuid now req)), put_lease uuid (new_lease uuid now req) s))"

definition in_scope :: "string \<Rightarrow> string \<Rightarrow> credential_lease \<Rightarrow> bool" where
  "in_scope p sv l \<longleftrightarrow> lm_ProjectID (cl_metadata l) = p \<and> (lm_ServiceID (cl_metadata l) = [] \<or> lm_ServiceID (cl_metadata l) = sv)"

definition read_scope :: "string \<Rightarrow> string \<Rightarrow> lease_store \<Rightarrow> ActiveCredentials" where
  "read_scope p sv s =
     (let ordered = sort_key (\<lambda>l. (cl_createdAt l, lm_ID (cl_metadata l))) (filter (in_scope p sv) (map snd s))
      in \<lparr>ac_Project = concat (map cl_credentials (filter (\<lambda>l. lm_ServiceID (cl_metadata l) = []) ordered)),
          ac_Service = concat (map cl_credentials (filter (\<lambda>l. lm_ServiceID (cl_metadata l) \<noteq> []) ordered))\<rparr>)"

definition ActiveLeases :: "time \<Rightarrow> string \<Rightarrow> string \<Rightarrow> lease_store \<Rightarrow> ActiveCredentials \<times> lease_store" where
  "ActiveLeases now p sv s0 = (let s = purgeExpiredLocked now s0 in (read_scope p sv s, s))"

definition DeleteLease :: "time \<Rightarrow> string \<Rightarrow> string \<Rightarrow> lease_store \<Rightarrow> (credential_error + LeaseMetadata) \<times> lease_store" where
  "DeleteLease now i owner s0 =
     (let s = purgeExpiredLocked now s0 in
      case map_of s (TrimSpace i) of
        None \<Rightarrow> (Inl NoSuchLease, s)
      | Some l \<Rightarrow>
          if lm_Owner (cl_metadata l) \<noteq> TrimSpace owner then (Inl NoSuchLease, s)
          else (Inr (cl_metadata l), filter (\<lambda>(j, _). j \<noteq> TrimSpace i) s))"

definition revokeScopeLocked :: "string \<Rightarrow> string \<Rightarrow> bool \<Rightarrow> lease_store \<Rightarrow> nat \<times> lease_store" where
  "revokeScopeLocked p sv whole s =
     (let hit = (\<lambda>(_, l). lm_ProjectID (cl_metadata l) = p \<and> (whole \<or> lm_ServiceID (cl_metadata l) = sv))
      in (length (filter hit s), filter (\<lambda>il. \<not> hit il) s))"

definition RevokeProject :: "time \<Rightarrow> string \<Rightarrow> lease_store \<Rightarrow> nat \<times> lease_store" where
  "RevokeProject now p0 s =
     (let p = TrimSpace p0 in
      if p = [] \<or> invalidIdentity p 256 then (0, s) else revokeScopeLocked p [] True (purgeExpiredLocked now s))"

definition RevokeService :: "time \<Rightarrow> string \<Rightarrow> string \<Rightarrow> lease_store \<Rightarrow> nat \<times> lease_store" where
  "RevokeService now p0 sv0 s =
     (let p = TrimSpace p0; sv = TrimSpace sv0 in
      if p = [] \<or> sv = [] \<or> invalidIdentity p 256 \<or> invalidIdentity sv 256 then (0, s)
      else revokeScopeLocked p sv False (purgeExpiredLocked now s))"

definition ClearLeases :: "lease_store \<Rightarrow> nat \<times> lease_store" where
  "ClearLeases s = (length s, [])"

section \<open>Merging layers\<close>

record DebugCredentialLayer =
  ly_Credentials :: "DebugCredential list"
  ly_Source :: string

record MergedDebugCredential =
  md_DebugCredential :: DebugCredential
  md_Source :: string
  md_ValuePresent :: bool

definition merge_one ::
  "string \<times> DebugCredential \<Rightarrow> MergedDebugCredential list \<times> (string \<rightharpoonup> nat) \<Rightarrow> MergedDebugCredential list \<times> (string \<rightharpoonup> nat)" where
  "merge_one sc = (\<lambda>(out, index).
     let (source, c) = sc; m = \<lparr>md_DebugCredential = c, md_Source = source, md_ValuePresent = dc_Value c \<noteq> []\<rparr> in
     case index (dc_Name c) of
       Some idx \<Rightarrow> (out[idx := m], index)
     | None \<Rightarrow> (out @ [m], index(dc_Name c \<mapsto> length out)))"

definition MergeDebugCredentialLayers :: "DebugCredentialLayer list \<Rightarrow> MergedDebugCredential list" where
  "MergeDebugCredentialLayers layers =
     fst (fold merge_one (concat (map (\<lambda>l. map (Pair (ly_Source l)) (ly_Credentials l)) layers)) ([], Map.empty))"

definition MergeDebugCredentials :: "DebugCredential list \<Rightarrow> DebugCredential list \<Rightarrow> MergedDebugCredential list" where
  "MergeDebugCredentials project service =
     MergeDebugCredentialLayers [\<lparr>ly_Credentials = project, ly_Source = ''project''\<rparr>, \<lparr>ly_Credentials = service, ly_Source = ''service''\<rparr>]"

section \<open>The store without purging\<close>

text \<open>
  The specification: every lease stays until it is removed by name or by scope, and an operation looks only at the
  leases that are unexpired at its time. (Only the count that \<^verbatim>\<open>Clear\<close> returns tells the two apart: it counts expired
  leases that no operation has met.)
\<close>

datatype lease_event =
    LeaseCreate string time CreateRequest | LeaseRead time string string | LeaseDelete time string string
  | LeaseRevokeProject time string | LeaseRevokeService time string string | LeaseClear time

datatype lease_answer = CreateAnswer "credential_error + LeaseMetadata" | ReadAnswer ActiveCredentials | DeleteAnswer "credential_error + LeaseMetadata"
  | RevokeAnswer nat | ClearAnswer

fun time_of :: "lease_event \<Rightarrow> time" where
  "time_of (LeaseCreate u now req) = now" | "time_of (LeaseRead now p sv) = now" | "time_of (LeaseDelete now i owner) = now"
| "time_of (LeaseRevokeProject now p) = now" | "time_of (LeaseRevokeService now p sv) = now" | "time_of (LeaseClear now) = now"

fun lease_step :: "lease_event \<Rightarrow> lease_store \<Rightarrow> lease_answer \<times> lease_store" where
  "lease_step (LeaseCreate u now req) s = map_prod CreateAnswer id (CreateLease u now req s)"
| "lease_step (LeaseRead now p sv) s = map_prod ReadAnswer id (ActiveLeases now p sv s)"
| "lease_step (LeaseDelete now i owner) s = map_prod DeleteAnswer id (DeleteLease now i owner s)"
| "lease_step (LeaseRevokeProject now p) s = map_prod RevokeAnswer id (RevokeProject now p s)"
| "lease_step (LeaseRevokeService now p sv) s = map_prod RevokeAnswer id (RevokeService now p sv s)"
| "lease_step (LeaseClear now) s = (ClearAnswer, snd (ClearLeases s))"

definition spec_revoke :: "time \<Rightarrow> (string \<times> credential_lease \<Rightarrow> bool) \<Rightarrow> lease_store \<Rightarrow> lease_answer \<times> lease_store" where
  "spec_revoke now hit s = (RevokeAnswer (length (filter hit (filter (unexpired now) s))), filter (\<lambda>il. \<not> hit il) s)"

fun spec_step :: "lease_event \<Rightarrow> lease_store \<Rightarrow> lease_answer \<times> lease_store" where
  "spec_step (LeaseCreate u now req0) s =
     (let req = trimmed_request req0 in
      case validateCreateRequest req of
        Some e \<Rightarrow> (CreateAnswer (Inl e), s)
      | None \<Rightarrow> if \<exists>il \<in> set s. unexpired now il \<and> same_owner_scope req il then (CreateAnswer (Inl LeaseConflict), s)
                else (CreateAnswer (Inr (cl_metadata (new_lease u now req))), put_lease u (new_lease u now req) s))"
| "spec_step (LeaseRead now p sv) s = (ReadAnswer (read_scope p sv (filter (unexpired now) s)), s)"
| "spec_step (LeaseDelete now i owner) s =
     (case map_of (filter (unexpired now) s) (TrimSpace i) of
        None \<Rightarrow> (DeleteAnswer (Inl NoSuchLease), s)
      | Some l \<Rightarrow> if lm_Owner (cl_metadata l) = TrimSpace owner then (DeleteAnswer (Inr (cl_metadata l)), filter (\<lambda>(j, _). j \<noteq> TrimSpace i) s)
                  else (DeleteAnswer (Inl NoSuchLease), s))"
| "spec_step (LeaseRevokeProject now p) s =
     (if TrimSpace p = [] \<or> invalidIdentity (TrimSpace p) 256 then (RevokeAnswer 0, s)
      else spec_revoke now (\<lambda>(_, l). lm_ProjectID (cl_metadata l) = TrimSpace p) s)"
| "spec_step (LeaseRevokeService now p sv) s =
     (if TrimSpace p = [] \<or> TrimSpace sv = [] \<or> invalidIdentity (TrimSpace p) 256 \<or> invalidIdentity (TrimSpace sv) 256 then (RevokeAnswer 0, s)
      else spec_revoke now (\<lambda>(_, l). lm_ProjectID (cl_metadata l) = TrimSpace p \<and> lm_ServiceID (cl_metadata l) = TrimSpace sv) s)"
| "spec_step (LeaseClear now) s = (ClearAnswer, [])"

fun lease_answers :: "(lease_event \<Rightarrow> lease_store \<Rightarrow> lease_answer \<times> lease_store) \<Rightarrow> lease_event list \<Rightarrow> lease_store \<Rightarrow> lease_answer list" where
  "lease_answers step [] s = []"
| "lease_answers step (e # es) s = (let (a, s') = step e s in a # lease_answers step es s')"


section \<open>Purging cannot be observed\<close>

definition agree_from :: "time \<Rightarrow> lease_store \<Rightarrow> lease_store \<Rightarrow> bool" where
  "agree_from t s s' \<longleftrightarrow> (\<forall>t'\<ge>t. filter (unexpired t') s = filter (unexpired t') s')"

fun nondecreasing_from :: "time \<Rightarrow> lease_event list \<Rightarrow> bool" where
  "nondecreasing_from t [] \<longleftrightarrow> True"
| "nondecreasing_from t (e # es) \<longleftrightarrow> t \<le> time_of e \<and> nondecreasing_from (time_of e) es"

lemma unexpired_mono: "unexpired t' il \<Longrightarrow> t \<le> t' \<Longrightarrow> unexpired t il"
  by (simp add: unexpired_def)

lemma agree_later: "agree_from t s s' \<Longrightarrow> t \<le> t' \<Longrightarrow> agree_from t' s s'"
  by (auto simp: agree_from_def)

lemma agree_now: "agree_from t s s' \<Longrightarrow> filter (unexpired t) s = filter (unexpired t) s'"
  by (simp add: agree_from_def)

lemma agree_purge: "agree_from t s s' \<Longrightarrow> agree_from t (purgeExpiredLocked t s) s'"
proof -
  assume a: "agree_from t s s'"
  have "filter (unexpired t') (purgeExpiredLocked t s) = filter (unexpired t') s" if "t \<le> t'" for t'
    using that by (auto simp: purgeExpiredLocked_def intro!: filter_cong intro: unexpired_mono)
  then show ?thesis using a by (simp add: agree_from_def)
qed

lemma agree_filter: "agree_from t s s' \<Longrightarrow> agree_from t (filter P s) (filter P s')"
proof -
  assume a: "agree_from t s s'"
  have c: "filter (unexpired t') (filter P q) = filter P (filter (unexpired t') q)" for t' q
    by (simp add: conj_commute)
  show ?thesis
    unfolding agree_from_def c using a by (simp add: agree_from_def del: filter_filter)
qed

lemma agree_refl: "agree_from t s s"
  by (simp add: agree_from_def)

lemma agree_append: "agree_from t s s' \<Longrightarrow> agree_from t (s @ q) (s' @ q)"
  by (simp add: agree_from_def)

lemma agree_put: "agree_from t s s' \<Longrightarrow> agree_from t (put_lease i l s) (put_lease i l s')"
  by (auto simp: put_lease_def intro: agree_append agree_filter)

lemma list_ex_live: "list_ex P (filter (unexpired t) s) \<longleftrightarrow> (\<exists>il \<in> set s. unexpired t il \<and> P il)"
  by (auto simp: list_ex_iff)

lemmas purging = agree_now agree_purge agree_filter agree_put agree_later

lemma lease_step_agrees:
  assumes "agree_from t s s'" and "t \<le> time_of e"
  shows "fst (lease_step e s) = fst (spec_step e s') \<and> agree_from (time_of e) (snd (lease_step e s)) (snd (spec_step e s'))"
proof -
  have a: "agree_from (time_of e) s s'" using assms by (rule agree_later)
  have p: "purgeExpiredLocked (time_of e) s = filter (unexpired (time_of e)) s'"
    using agree_now [OF a] by (simp add: purgeExpiredLocked_def)
  have q: "agree_from (time_of e) (filter (unexpired (time_of e)) s') s'"
    using agree_purge [OF a] p by simp
  show ?thesis
    using a p q
    by (cases e)
      (auto simp: CreateLease_def ActiveLeases_def DeleteLease_def RevokeProject_def RevokeService_def ClearLeases_def
          revokeScopeLocked_def spec_revoke_def Let_def list_ex_live case_prod_unfold agree_refl
          intro: agree_put agree_filter simp del: filter_filter split: option.splits)
qed

text \<open>
  C16: For events at nondecreasing times, a store that purges the expired leases it meets gives the same answers as one
  that keeps every lease and looks at its time: nobody can tell when a lease was purged, and an expired lease is as
  good as gone at once, for reading, conflicts, deletion and the counts of a revocation.
\<close>

theorem purging_unobservable:
  assumes "nondecreasing_from t es"
  shows "lease_answers lease_step es NewLeaseStore = lease_answers spec_step es NewLeaseStore"
proof -
  have "lease_answers lease_step es s = lease_answers spec_step es s'" if "nondecreasing_from t es" "agree_from t s s'" for t s s'
    using that
  proof (induction es arbitrary: t s s')
    case (Cons e es)
    then have "fst (lease_step e s) = fst (spec_step e s')" and "agree_from (time_of e) (snd (lease_step e s)) (snd (spec_step e s'))"
      using lease_step_agrees [of t s s' e] by auto
    moreover have "nondecreasing_from (time_of e) es" using Cons.prems by simp
    ultimately show ?case using Cons.IH by (simp add: case_prod_unfold Let_def)
  qed simp
  with assms agree_refl show ?thesis by blast
qed

definition pin_request :: CreateRequest where
  "pin_request = \<lparr>cq_ProjectID = ''p'', cq_ServiceID = [], cq_Owner = ''ann'', cq_TTLSeconds = 60,
     cq_Credentials = [\<lparr>dc_Name = ''pin'', dc_Value = ''1234'', dc_Desc = []\<rparr>]\<rparr>"

definition pin_events :: "lease_event list" where
  "pin_events = [LeaseCreate ''u1'' 0 pin_request, LeaseRead second ''p'' [], LeaseRead (60 * second) ''p'' [],
     LeaseDelete (61 * second) ''u1'' ''ann'']"

lemma pin_events_nondecreasing: "nondecreasing_from 0 pin_events"
  by code_simp

theorem purging_unobservable_witness:
  "lease_answers lease_step pin_events NewLeaseStore = lease_answers spec_step pin_events NewLeaseStore \<and>
   drop 1 (lease_answers spec_step pin_events NewLeaseStore) =
     [ReadAnswer \<lparr>ac_Project = [\<lparr>dc_Name = ''pin'', dc_Value = ''1234'', dc_Desc = []\<rparr>], ac_Service = []\<rparr>,
      ReadAnswer \<lparr>ac_Project = [], ac_Service = []\<rparr>, DeleteAnswer (Inl NoSuchLease)]"
proof
  show "lease_answers lease_step pin_events NewLeaseStore = lease_answers spec_step pin_events NewLeaseStore"
    by (rule purging_unobservable [OF pin_events_nondecreasing])
  show "drop 1 (lease_answers spec_step pin_events NewLeaseStore) =
     [ReadAnswer \<lparr>ac_Project = [\<lparr>dc_Name = ''pin'', dc_Value = ''1234'', dc_Desc = []\<rparr>], ac_Service = []\<rparr>,
      ReadAnswer \<lparr>ac_Project = [], ac_Service = []\<rparr>, DeleteAnswer (Inl NoSuchLease)]"
    by code_simp
qed

section \<open>Merging is updating by name\<close>

definition merged_from :: "string \<times> DebugCredential \<Rightarrow> MergedDebugCredential" where
  "merged_from sc = \<lparr>md_DebugCredential = snd sc, md_Source = fst sc, md_ValuePresent = dc_Value (snd sc) \<noteq> []\<rparr>"

definition layered :: "DebugCredentialLayer list \<Rightarrow> (string \<times> DebugCredential) list" where
  "layered layers = concat (map (\<lambda>l. map (Pair (ly_Source l)) (ly_Credentials l)) layers)"

definition indexes_names :: "(string \<rightharpoonup> nat) \<Rightarrow> (string \<times> 'a) list \<Rightarrow> bool" where
  "indexes_names ix al \<longleftrightarrow> distinct (map fst al) \<and> (\<forall>k i. ix k = Some i \<longleftrightarrow> i < length al \<and> fst (al ! i) = k)"

lemma update_absent: "k \<notin> fst ` set al \<Longrightarrow> AList.update k v al = al @ [(k, v)]"
  by (induction al) auto

lemma update_present: "distinct (map fst al) \<Longrightarrow> i < length al \<Longrightarrow> AList.update (fst (al ! i)) v al = al[i := (fst (al ! i), v)]"
proof (induction al arbitrary: i)
  case (Cons kv al)
  then show ?case by (cases i) (auto simp: nth_mem)
qed simp

lemma indexes_hit:
  assumes "indexes_names ix al" "ix k = Some i"
  shows "AList.update k v al = al[i := (k, v)]" and "indexes_names ix (al[i := (k, v)])"
proof -
  have i: "i < length al" "fst (al ! i) = k" "distinct (map fst al)" using assms by (auto simp: indexes_names_def)
  then show "AList.update k v al = al[i := (k, v)]" using update_present [of al i v] by simp
  have keys: "map fst (al[i := (k, v)]) = map fst al"
    using i by (metis fst_conv list_update_id map_update nth_map)
  then have "fst (al[i := (k, v)] ! j) = fst (al ! j)" if "j < length al" for j
    using that by (metis length_list_update nth_map)
  with keys assms(1) show "indexes_names ix (al[i := (k, v)])" by (auto simp: indexes_names_def)
qed

lemma indexes_miss:
  assumes "indexes_names ix al" "ix k = None"
  shows "AList.update k v al = al @ [(k, v)]" and "indexes_names (ix(k \<mapsto> length al)) (al @ [(k, v)])"
proof -
  have n: "k \<notin> fst ` set al"
  proof
    assume "k \<in> fst ` set al"
    then obtain i where "i < length al" "fst (al ! i) = k" by (auto simp: in_set_conv_nth)
    then have "ix k = Some i" using assms(1) by (auto simp: indexes_names_def)
    with assms(2) show False by simp
  qed
  then show "AList.update k v al = al @ [(k, v)]" by (rule update_absent)
  have m: "fst (al ! i) \<noteq> k" if "i < length al" for i using n that by auto
  show "indexes_names (ix(k \<mapsto> length al)) (al @ [(k, v)])"
    using assms(1) n m by (auto simp: indexes_names_def nth_append less_Suc_eq)
qed

lemma merge_one_updates:
  assumes "indexes_names ix al"
  obtains ix' where "merge_one sc (map snd al, ix) = (map snd (AList.update (dc_Name (snd sc)) (merged_from sc) al), ix')"
    and "indexes_names ix' (AList.update (dc_Name (snd sc)) (merged_from sc) al)"
proof (cases "ix (dc_Name (snd sc))")
  case None
  show thesis
    by (rule that [of "ix(dc_Name (snd sc) \<mapsto> length al)"])
      (use None indexes_miss [OF assms None] in \<open>simp_all add: merge_one_def merged_from_def case_prod_unfold\<close>)
next
  case (Some i)
  show thesis
    by (rule that [of ix])
      (use Some indexes_hit [OF assms Some] in \<open>simp_all add: merge_one_def merged_from_def case_prod_unfold map_update\<close>)
qed

lemma merge_fold_updates:
  "indexes_names ix al \<Longrightarrow>
   fst (fold merge_one scs (map snd al, ix)) = map snd (fold (\<lambda>sc. AList.update (dc_Name (snd sc)) (merged_from sc)) scs al)"
proof (induction scs arbitrary: al ix)
  case (Cons sc scs)
  obtain ix' where "merge_one sc (map snd al, ix) = (map snd (AList.update (dc_Name (snd sc)) (merged_from sc) al), ix')"
    and "indexes_names ix' (AList.update (dc_Name (snd sc)) (merged_from sc) al)"
    using merge_one_updates [OF Cons.prems] by blast
  then show ?case using Cons.IH by simp
qed simp

lemma update_subset: "set (AList.update k v al) \<subseteq> insert (k, v) (set al)"
  by (induction al) auto

lemma fold_update_subset:
  "snd ` set (fold (\<lambda>sc. AList.update (dc_Name (snd sc)) (merged_from sc)) scs al) \<subseteq> merged_from ` set scs \<union> snd ` set al"
proof (induction scs arbitrary: al)
  case (Cons sc scs)
  have "snd ` set (AList.update (dc_Name (snd sc)) (merged_from sc) al) \<subseteq> insert (merged_from sc) (snd ` set al)"
    using update_subset [of "dc_Name (snd sc)" "merged_from sc" al] by fastforce
  with Cons.IH [of "AList.update (dc_Name (snd sc)) (merged_from sc) al"] show ?case by auto
qed simp

lemma merged_from_layer:
  assumes "m \<in> set (MergeDebugCredentialLayers layers)"
  shows "\<exists>l \<in> set layers. md_Source m = ly_Source l \<and> md_DebugCredential m \<in> set (ly_Credentials l)"
proof -
  have "m \<in> snd ` set (fold (\<lambda>sc. AList.update (dc_Name (snd sc)) (merged_from sc)) (layered layers) [])"
    using assms merge_fold_updates [of Map.empty "[]" "layered layers"]
    by (simp add: MergeDebugCredentialLayers_def layered_def indexes_names_def)
  then have "m \<in> merged_from ` set (layered layers)" using fold_update_subset [of "layered layers" "[]"] by auto
  then show ?thesis by (auto simp: layered_def merged_from_def)
qed

text \<open>
  Merging the layers is updating an association list by name, layer after layer: of each name the last layer that
  has it wins, and the order is that of the first occurrences.
\<close>

theorem merge_is_update_by_name:
  "MergeDebugCredentialLayers layers = map snd (fold (\<lambda>sc. AList.update (dc_Name (snd sc)) (merged_from sc)) (layered layers) [])"
  using merge_fold_updates [of Map.empty "[]" "layered layers"]
  by (simp add: MergeDebugCredentialLayers_def layered_def indexes_names_def)

end
