(* ===== verification/DebugScopes.thy ===== *)
theory DebugScopes
  imports DebugCredentials
begin

text \<open>
  The endpoints of debugging credentials (\<^verbatim>\<open>agent/api/handler_debug_credentials.go\<close>) and the revocation of leases when
  a project or service leaves the view of the agent (\<^verbatim>\<open>agent/api/debug_credential_scope_lifecycle.go\<close> and the five places
  that replace projects). The invariant says that no lease outlives its scope; a migration that races another replacement
  breaks it.
\<close>

section \<open>The view of the projects\<close>

text \<open>Of projects and services only what scopes and credentials depend on.\<close>

record ServiceView =
  sw_ID :: string
  sw_Name :: string
  sw_ProjectID :: string
  sw_DebugCredentials :: "DebugCredential list"

record ProjectView =
  pw_ID :: string
  pw_Name :: string
  pw_DebugCredentials :: "DebugCredential list"
  pw_Services :: "ServiceView list"

record credential_app =
  ca_projects :: "ProjectView list"
  ca_managed :: "string list"
  ca_leases :: lease_store

definition findProject :: "ProjectView list \<Rightarrow> string \<Rightarrow> ProjectView option" where
  "findProject ps i = find (\<lambda>p. pw_ID p = i) ps"

definition findServiceInProject :: "ProjectView \<Rightarrow> string \<Rightarrow> string \<Rightarrow> ServiceView option" where
  "findServiceInProject p i n = find (\<lambda>s. (i = [] \<or> sw_ID s = i) \<and> (n = [] \<or> sw_Name s = n)) (pw_Services p)"

section \<open>The endpoints\<close>

record debugCredentialTarget =
  ct_ProjectID :: string
  ct_ServiceID :: string
  ct_Project :: "DebugCredential list"
  ct_Service :: "DebugCredential list"

type_synonym refusal = "nat \<times> string"

definition selected_projects :: "string \<Rightarrow> string \<Rightarrow> ProjectView list \<Rightarrow> ProjectView list" where
  "selected_projects i n ps = filter (\<lambda>p. (i = [] \<or> pw_ID p = i) \<and> (n = [] \<or> pw_Name p = n)) ps"

definition resolveDebugCredentialTarget ::
  "string \<Rightarrow> string \<Rightarrow> string \<Rightarrow> string \<Rightarrow> ProjectView list \<Rightarrow> refusal + debugCredentialTarget" where
  "resolveDebugCredentialTarget pid pname sid sname ps =
     (case selected_projects pid pname ps of
        [] \<Rightarrow> Inl (404, ''project not found'')
      | [p] \<Rightarrow>
          let target = \<lparr>ct_ProjectID = pw_ID p, ct_ServiceID = [], ct_Project = pw_DebugCredentials p, ct_Service = []\<rparr> in
          if sid = [] \<and> sname = [] then Inr target
          else (case findServiceInProject p sid sname of
                  None \<Rightarrow> Inl (404, ''service not found in project'')
                | Some s \<Rightarrow> Inr (target\<lparr>ct_ServiceID := sw_ID s, ct_Service := sw_DebugCredentials s\<rparr>))
      | _ \<Rightarrow> Inl (400, ''project selector is ambiguous; use project_id''))"

text \<open>
  The lock of the projects is released before the leases are read: \<^verbatim>\<open>ps\<close> is the view that resolved the target,
  \<^verbatim>\<open>leases0\<close> the store when it is read.
\<close>

definition debugCredentials ::
  "time \<Rightarrow> string \<Rightarrow> string \<Rightarrow> string \<Rightarrow> string \<Rightarrow> ProjectView list \<Rightarrow> lease_store \<Rightarrow> (refusal + MergedDebugCredential list) \<times> lease_store" where
  "debugCredentials now pid pname sid sname ps leases0 =
     (if pid = [] \<and> pname = [] then (Inl (400, ''project_id or project_name required''), leases0)
      else case resolveDebugCredentialTarget pid pname sid sname ps of
        Inl r \<Rightarrow> (Inl r, leases0)
      | Inr target \<Rightarrow>
          let (active, leases) = ActiveLeases now (ct_ProjectID target) (ct_ServiceID target) leases0
          in (Inr (MergeDebugCredentialLayers
                [\<lparr>ly_Credentials = ct_Project target, ly_Source = ''project''\<rparr>,
                 \<lparr>ly_Credentials = ac_Project active, ly_Source = ''ephemeral_project''\<rparr>,
                 \<lparr>ly_Credentials = ct_Service target, ly_Source = ''service''\<rparr>,
                 \<lparr>ly_Credentials = ac_Service active, ly_Source = ''ephemeral_service''\<rparr>]),
              leases))"

definition validateScopeLocked :: "string \<Rightarrow> string \<Rightarrow> ProjectView list \<Rightarrow> refusal option" where
  "validateScopeLocked pid sid ps =
     (if pid = [] then Some (400, ''project_id is required'')
      else case findProject ps pid of
        None \<Rightarrow> Some (404, ''project not found'')
      | Some p \<Rightarrow>
          if sid = [] then None
          else (case findServiceInProject p sid [] of
                  None \<Rightarrow> Some (400, ''service does not belong to project'')
                | Some s \<Rightarrow> if sw_ProjectID s \<noteq> [] \<and> sw_ProjectID s \<noteq> pw_ID p then Some (400, ''service does not belong to project'') else None))"

fun lease_error_text :: "credential_error \<Rightarrow> string" where
  "lease_error_text (InvalidLease m) = ''invalid debug credential lease: '' @ m"
| "lease_error_text LeaseConflict = ''active debug credential lease already exists for owner and scope''"
| "lease_error_text NoSuchLease = ''debug credential lease not found''"

text \<open>The request is the decoded body; a body that does not decode is refused before.\<close>

definition createDebugCredentialLease ::
  "string \<Rightarrow> time \<Rightarrow> CreateRequest \<Rightarrow> credential_app \<Rightarrow> (refusal + LeaseMetadata) \<times> credential_app" where
  "createDebugCredentialLease uuid now req0 st =
     (let req = req0\<lparr>cq_ProjectID := TrimSpace (cq_ProjectID req0), cq_ServiceID := TrimSpace (cq_ServiceID req0),
                     cq_Owner := TrimSpace (cq_Owner req0)\<rparr>
      in case validateScopeLocked (cq_ProjectID req) (cq_ServiceID req) (ca_projects st) of
           Some r \<Rightarrow> (Inl r, st)
         | None \<Rightarrow>
             (case CreateLease uuid now req (ca_leases st) of
                (Inl e, leases) \<Rightarrow> (Inl (if e = LeaseConflict then 409 else 400, lease_error_text e), st\<lparr>ca_leases := leases\<rparr>)
              | (Inr m, leases) \<Rightarrow> (Inr m, st\<lparr>ca_leases := leases\<rparr>)))"

definition deleteDebugCredentialLease ::
  "time \<Rightarrow> string \<Rightarrow> string \<Rightarrow> credential_app \<Rightarrow> (refusal + LeaseMetadata) \<times> credential_app" where
  "deleteDebugCredentialLease now i owner st =
     (case DeleteLease now (TrimSpace i) (TrimSpace owner) (ca_leases st) of
        (Inl e, leases) \<Rightarrow> (Inl (404, lease_error_text NoSuchLease), st\<lparr>ca_leases := leases\<rparr>)
      | (Inr m, leases) \<Rightarrow> (Inr m, st\<lparr>ca_leases := leases\<rparr>))"

section \<open>Scopes that disappear\<close>

text \<open>\<^verbatim>\<open>clk p s\<close> is what the clock reads when the leases of this scope are revoked.\<close>

type_synonym scope_clock = "string \<Rightarrow> string \<Rightarrow> time"

definition revoke_gone_service :: "scope_clock \<Rightarrow> string \<Rightarrow> string list \<Rightarrow> ServiceView \<Rightarrow> lease_store \<Rightarrow> lease_store" where
  "revoke_gone_service clk p current s leases =
     (if sw_ID s = [] \<or> sw_ID s \<in> set current then leases else snd (RevokeService (clk p (sw_ID s)) p (sw_ID s) leases))"

text \<open>The map of the projects after: of those with one identifier, the last.\<close>

definition after_project :: "ProjectView list \<Rightarrow> string \<Rightarrow> ProjectView option" where
  "after_project after i = findProject (rev after) i"

definition revoke_previous :: "scope_clock \<Rightarrow> ProjectView list \<Rightarrow> ProjectView \<Rightarrow> lease_store \<Rightarrow> lease_store" where
  "revoke_previous clk after previous leases =
     (if pw_ID previous = [] then leases
      else case after_project after (pw_ID previous) of
        None \<Rightarrow> snd (RevokeProject (clk (pw_ID previous) []) (pw_ID previous) leases)
      | Some current \<Rightarrow> fold (revoke_gone_service clk (pw_ID previous) (filter (\<lambda>i. i \<noteq> []) (map sw_ID (pw_Services current)))) (pw_Services previous) leases)"

definition revokeDisappearedScopes :: "scope_clock \<Rightarrow> ProjectView list \<Rightarrow> ProjectView list \<Rightarrow> lease_store \<Rightarrow> lease_store" where
  "revokeDisappearedScopes clk before after leases = fold (revoke_previous clk after) before leases"

section \<open>The replacements\<close>

fun replace_first :: "string \<Rightarrow> ProjectView \<Rightarrow> ProjectView list \<Rightarrow> ProjectView list" where
  "replace_first i q [] = []"
| "replace_first i q (p # ps) = (if pw_ID p = i then q # ps else p # replace_first i q ps)"

text \<open>
  Setting a project up replaces its credentials and services (the services are those built from the request); the checks
  of the request are done before and leave the view alone.
\<close>

definition setup_project :: "scope_clock \<Rightarrow> string \<Rightarrow> DebugCredential list \<Rightarrow> ServiceView list \<Rightarrow> credential_app \<Rightarrow> credential_app" where
  "setup_project clk i creds services st =
     (case findProject (ca_projects st) i of
        None \<Rightarrow> st
      | Some before \<Rightarrow>
          let candidate = before\<lparr>pw_DebugCredentials := creds, pw_Services := services\<rparr>
          in st\<lparr>ca_projects := replace_first i candidate (ca_projects st),
                ca_leases := revokeDisappearedScopes clk [before] [candidate] (ca_leases st)\<rparr>)"

definition saveConfigChangeProject :: "scope_clock \<Rightarrow> ProjectView \<Rightarrow> credential_app \<Rightarrow> credential_app" where
  "saveConfigChangeProject clk project st =
     (case findProject (ca_projects st) (pw_ID project) of
        None \<Rightarrow> st\<lparr>ca_projects := ca_projects st @ [project]\<rparr>
      | Some existing \<Rightarrow>
          st\<lparr>ca_projects := replace_first (pw_ID project) project (ca_projects st),
             ca_leases := revokeDisappearedScopes clk [existing] [project] (ca_leases st)\<rparr>)"

definition zero_project :: ProjectView where
  "zero_project = \<lparr>pw_ID = [], pw_Name = [], pw_DebugCredentials = [], pw_Services = []\<rparr>"

definition remove_project :: "scope_clock \<Rightarrow> string \<Rightarrow> credential_app \<Rightarrow> credential_app" where
  "remove_project clk i st =
     (let removed = (case after_project (ca_projects st) i of None \<Rightarrow> zero_project | Some p \<Rightarrow> p)
      in st\<lparr>ca_projects := filter (\<lambda>p. pw_ID p \<noteq> i) (ca_projects st),
            ca_leases := revokeDisappearedScopes clk [removed] [] (ca_leases st)\<rparr>)"

text \<open>
  A migration reads the project, releases the lock while it rewrites and reloads the configuration, and then replaces the
  project: \<^verbatim>\<open>captured\<close> is what it read, \<^verbatim>\<open>loaded\<close> what the loader returned.
\<close>

definition commit_migration :: "scope_clock \<Rightarrow> ProjectView \<Rightarrow> ProjectView \<Rightarrow> credential_app \<Rightarrow> credential_app" where
  "commit_migration clk captured loaded st =
     (let reloaded = loaded\<lparr>pw_ID := pw_ID captured\<rparr> in
      case findProject (ca_projects st) (pw_ID captured) of
        None \<Rightarrow> st
      | Some _ \<Rightarrow>
          st\<lparr>ca_projects := replace_first (pw_ID captured) reloaded (ca_projects st),
             ca_leases := revokeDisappearedScopes clk [captured] [reloaded] (ca_leases st)\<rparr>)"

record ManagedDeployment =
  mg_DeploymentID :: string
  mg_ProjectID :: string
  mg_ServiceID :: string
  mg_ServiceName :: string

fun normalize_from :: "string list \<Rightarrow> ManagedDeployment list \<Rightarrow> ManagedDeployment list" where
  "normalize_from seen [] = []"
| "normalize_from seen (d # ds) =
     (if mg_DeploymentID d = [] \<or> mg_ProjectID d = [] \<or> mg_ServiceID d = [] then normalize_from seen ds
      else if mg_DeploymentID d \<in> set seen then normalize_from seen ds
      else d # normalize_from (mg_DeploymentID d # seen) ds)"

definition normalizeManagedDeployments :: "ManagedDeployment list \<Rightarrow> ManagedDeployment list" where
  "normalizeManagedDeployments ds = normalize_from [] ds"

definition managed_service :: "ManagedDeployment \<Rightarrow> ProjectView \<Rightarrow> ProjectView" where
  "managed_service d p =
     (if \<exists>s \<in> set (pw_Services p). sw_ID s = mg_ServiceID d then p
      else p\<lparr>pw_Services := pw_Services p @
             [\<lparr>sw_ID = mg_ServiceID d, sw_Name = (if mg_ServiceName d = [] then mg_ServiceID d else mg_ServiceName d),
               sw_ProjectID = mg_ProjectID d, sw_DebugCredentials = []\<rparr>]\<rparr>)"

definition managed_project :: "ManagedDeployment \<Rightarrow> ProjectView list \<Rightarrow> ProjectView list" where
  "managed_project d ps =
     (let i = mg_ProjectID d;
          qs = (if i \<in> pw_ID ` set ps then ps else ps @ [\<lparr>pw_ID = i, pw_Name = i, pw_DebugCredentials = [], pw_Services = []\<rparr>])
      in map (\<lambda>p. if pw_ID p = i then managed_service d p else p) qs)"

definition managedProjectsFromDeployments :: "ManagedDeployment list \<Rightarrow> ProjectView list" where
  "managedProjectsFromDeployments ds = fold managed_project ds []"

definition applyManagedDeployments :: "scope_clock \<Rightarrow> ManagedDeployment list \<Rightarrow> credential_app \<Rightarrow> credential_app" where
  "applyManagedDeployments clk ds st =
     (let projects = managedProjectsFromDeployments (normalizeManagedDeployments ds);
          managed = (\<lambda>p. pw_ID p \<in> set (ca_managed st))
      in st\<lparr>ca_projects := filter (\<lambda>p. \<not> managed p) (ca_projects st) @ projects, ca_managed := map pw_ID projects,
            ca_leases := revokeDisappearedScopes clk (filter managed (ca_projects st)) projects (ca_leases st)\<rparr>)"

section \<open>Runs\<close>

datatype scope_event =
    PostLease string time CreateRequest
  | GetCredentials time string string string string "ProjectView list"
  | DropLease time string string
  | Setup scope_clock string "DebugCredential list" "ServiceView list"
  | SaveChange scope_clock ProjectView
  | RemoveProject scope_clock string
  | CommitMigration scope_clock ProjectView ProjectView
  | ApplyManaged scope_clock "ManagedDeployment list"
  | Shutdown

fun scope_step :: "scope_event \<Rightarrow> credential_app \<Rightarrow> credential_app" where
  "scope_step (PostLease u now req) st = snd (createDebugCredentialLease u now req st)"
| "scope_step (GetCredentials now pid pname sid sname ps) st = st\<lparr>ca_leases := snd (debugCredentials now pid pname sid sname ps (ca_leases st))\<rparr>"
| "scope_step (DropLease now i owner) st = snd (deleteDebugCredentialLease now i owner st)"
| "scope_step (Setup clk i creds services) st = setup_project clk i creds services st"
| "scope_step (SaveChange clk p) st = saveConfigChangeProject clk p st"
| "scope_step (RemoveProject clk i) st = remove_project clk i st"
| "scope_step (CommitMigration clk captured loaded) st = commit_migration clk captured loaded st"
| "scope_step (ApplyManaged clk ds) st = applyManagedDeployments clk ds st"
| "scope_step Shutdown st = st\<lparr>ca_leases := snd (ClearLeases (ca_leases st))\<rparr>"

text \<open>No other replacement of a project falls between the reading and the commit of a migration of it.\<close>

fun migration_current :: "scope_event \<Rightarrow> credential_app \<Rightarrow> bool" where
  "migration_current (CommitMigration clk captured loaded) st \<longleftrightarrow>
     (case findProject (ca_projects st) (pw_ID captured) of None \<Rightarrow> True | Some p \<Rightarrow> p = captured)"
| "migration_current _ st \<longleftrightarrow> True"

fun migrations_current :: "scope_event list \<Rightarrow> credential_app \<Rightarrow> bool" where
  "migrations_current [] st \<longleftrightarrow> True"
| "migrations_current (e # es) st \<longleftrightarrow> migration_current e st \<and> migrations_current es (scope_step e st)"

definition scopes_alive :: "credential_app \<Rightarrow> bool" where
  "scopes_alive st \<longleftrightarrow> (\<forall>il \<in> set (ca_leases st). let md = cl_metadata (snd il) in
     (case findProject (ca_projects st) (lm_ProjectID md) of
        None \<Rightarrow> False
      | Some p \<Rightarrow> lm_ServiceID md = [] \<or> lm_ServiceID md \<in> sw_ID ` set (pw_Services p)))"

section \<open>Lemmas\<close>

abbreviation project_of :: "string \<times> credential_lease \<Rightarrow> string" where
  "project_of il \<equiv> lm_ProjectID (cl_metadata (snd il))"

abbreviation service_of :: "string \<times> credential_lease \<Rightarrow> string" where
  "service_of il \<equiv> lm_ServiceID (cl_metadata (snd il))"

definition proper_id :: "string \<Rightarrow> bool" where
  "proper_id i \<longleftrightarrow> TrimSpace i = i \<and> \<not> invalidIdentity i 256"

definition proper_scope :: "string \<times> credential_lease \<Rightarrow> bool" where
  "proper_scope il \<longleftrightarrow> project_of il \<noteq> [] \<and> proper_id (project_of il) \<and> proper_id (service_of il)"

definition scope_in :: "ProjectView list \<Rightarrow> string \<times> credential_lease \<Rightarrow> bool" where
  "scope_in ps il \<longleftrightarrow> (\<exists>p. findProject ps (project_of il) = Some p \<and> (service_of il = [] \<or> service_of il \<in> sw_ID ` set (pw_Services p)))"

definition scopes_kept :: "credential_app \<Rightarrow> bool" where
  "scopes_kept st \<longleftrightarrow> (\<forall>il \<in> set (ca_leases st). proper_scope il \<and> scope_in (ca_projects st) il)"

lemma scopes_kept_alive: "scopes_kept st \<Longrightarrow> scopes_alive st"
  by (fastforce simp: scopes_kept_def scopes_alive_def scope_in_def Let_def)

lemma fold_shrinks: "(\<And>x s. set (f x s) \<subseteq> set s) \<Longrightarrow> set (fold f xs s) \<subseteq> set s"
  by (induction xs arbitrary: s) force+

lemma fold_removes:
  assumes "\<And>x s. set (f x s) \<subseteq> set s" and "x \<in> set xs" and "\<And>s. y \<notin> set (f x s)"
  shows "y \<notin> set (fold f xs s)"
  using assms(2)
proof (induction xs arbitrary: s)
  case (Cons a xs)
  then show ?case
    using fold_shrinks [of f xs "f a s"] assms(1,3) by (cases "x = a") auto
qed simp

lemma RevokeService_shrinks: "set (snd (RevokeService now p sv s)) \<subseteq> set s"
  by (auto simp: RevokeService_def revokeScopeLocked_def purgeExpiredLocked_def Let_def)

lemma RevokeProject_shrinks: "set (snd (RevokeProject now p s)) \<subseteq> set s"
  by (auto simp: RevokeProject_def revokeScopeLocked_def purgeExpiredLocked_def Let_def)

lemma RevokeService_removes:
  "proper_scope il \<Longrightarrow> service_of il \<noteq> [] \<Longrightarrow> il \<notin> set (snd (RevokeService now (project_of il) (service_of il) s))"
  by (auto simp: RevokeService_def revokeScopeLocked_def Let_def proper_scope_def proper_id_def case_prod_unfold)

lemma RevokeProject_removes: "proper_scope il \<Longrightarrow> il \<notin> set (snd (RevokeProject now (project_of il) s))"
  by (auto simp: RevokeProject_def revokeScopeLocked_def Let_def proper_scope_def proper_id_def case_prod_unfold)

lemma revoke_gone_service_shrinks: "set (revoke_gone_service clk p current s leases) \<subseteq> set leases"
  using RevokeService_shrinks by (auto simp: revoke_gone_service_def)

lemma revoke_previous_shrinks: "set (revoke_previous clk after p leases) \<subseteq> set leases"
proof (cases "after_project after (pw_ID p)")
  case None
  then show ?thesis by (simp add: revoke_previous_def RevokeProject_shrinks)
next
  case (Some q)
  then show ?thesis by (simp add: revoke_previous_def fold_shrinks [OF revoke_gone_service_shrinks])
qed

lemma revoke_disappeared_shrinks: "il \<in> set (revokeDisappearedScopes clk before after s) \<Longrightarrow> il \<in> set s"
  unfolding revokeDisappearedScopes_def by (rule subsetD [OF fold_shrinks [OF revoke_previous_shrinks]])

lemma revoke_previous_survivor:
  assumes "il \<in> set (revoke_previous clk after p s)" and "proper_scope il" and "pw_ID p = project_of il"
    and "service_of il \<in> sw_ID ` set (pw_Services p) \<or> service_of il = []"
  shows "\<exists>q. after_project after (project_of il) = Some q \<and> (service_of il = [] \<or> service_of il \<in> sw_ID ` set (pw_Services q))"
proof (cases "after_project after (project_of il)")
  case None
  then show ?thesis using assms RevokeProject_removes [OF assms(2)] by (auto simp: revoke_previous_def proper_scope_def)
next
  case (Some q)
  have "service_of il \<in> sw_ID ` set (pw_Services q)" if n: "service_of il \<noteq> []"
  proof (rule ccontr)
    assume gone: "service_of il \<notin> sw_ID ` set (pw_Services q)"
    obtain sv where sv: "sv \<in> set (pw_Services p)" "sw_ID sv = service_of il" using assms(4) n by auto
    let ?cur = "filter (\<lambda>i. i \<noteq> []) (map sw_ID (pw_Services q))"
    have "il \<notin> set (fold (revoke_gone_service clk (project_of il) ?cur) (pw_Services p) s)"
    proof (rule fold_removes [OF revoke_gone_service_shrinks sv(1)])
      fix leases
      show "il \<notin> set (revoke_gone_service clk (project_of il) ?cur sv leases)"
        using gone n sv(2) RevokeService_removes [OF assms(2) n] by (auto simp: revoke_gone_service_def)
    qed
    with assms Some show False by (simp add: revoke_previous_def proper_scope_def)
  qed
  with Some show ?thesis by blast
qed

lemma revoke_disappeared_survivor:
  assumes "il \<in> set (revokeDisappearedScopes clk before after s)" and "proper_scope il" and "p \<in> set before" "pw_ID p = project_of il"
    and "service_of il \<in> sw_ID ` set (pw_Services p) \<or> service_of il = []"
  shows "\<exists>q. after_project after (project_of il) = Some q \<and> (service_of il = [] \<or> service_of il \<in> sw_ID ` set (pw_Services q))"
proof (rule ccontr)
  assume "\<not> ?thesis"
  then have "il \<notin> set (revoke_previous clk after p s')" for s'
    using revoke_previous_survivor [OF _ assms(2,4,5)] by blast
  then show False
    using fold_removes [OF revoke_previous_shrinks assms(3), of il] assms(1) by (auto simp: revokeDisappearedScopes_def)
qed

lemma findProject_SomeD: "findProject ps i = Some p \<Longrightarrow> p \<in> set ps \<and> pw_ID p = i"
  by (auto simp: findProject_def find_Some_iff)

lemma findProject_append: "findProject (ps @ qs) i = (case findProject ps i of None \<Rightarrow> findProject qs i | r \<Rightarrow> r)"
  by (induction ps) (auto simp: findProject_def)

lemma findProject_None: "findProject ps i = None \<longleftrightarrow> i \<notin> pw_ID ` set ps"
  by (auto simp: findProject_def find_None_iff)

lemma findProject_filter: "P i \<Longrightarrow> findProject (filter (\<lambda>p. P (pw_ID p)) ps) i = findProject ps i"
  by (induction ps) (auto simp: findProject_def)

lemma findProject_replace:
  "pw_ID q = i \<Longrightarrow> findProject (replace_first i q ps) j = (if j = i then map_option (\<lambda>_. q) (findProject ps i) else findProject ps j)"
  by (induction ps) (auto simp: findProject_def)

lemma after_single: "after_project [q] i = (if pw_ID q = i then Some q else None)"
  by (simp add: after_project_def findProject_def)

lemma findProject_distinct: "distinct (map pw_ID ps) \<Longrightarrow> p \<in> set ps \<Longrightarrow> findProject ps (pw_ID p) = Some p"
  by (induction ps) (auto simp: findProject_def image_iff)

lemma after_distinct: "distinct (map pw_ID ps) \<Longrightarrow> after_project ps i = findProject ps i"
proof (cases "findProject ps i")
  case None
  moreover from this have "findProject (rev ps) i = None" by (simp only: findProject_None set_rev not_False_eq_True)
  ultimately show ?thesis by (simp add: after_project_def)
next
  case (Some p)
  assume d: "distinct (map pw_ID ps)"
  have "findProject (rev ps) (pw_ID p) = Some p"
    by (rule findProject_distinct) (use d findProject_SomeD [OF Some] in \<open>auto simp flip: rev_map\<close>)
  with Some show ?thesis using findProject_SomeD [OF Some] by (simp add: after_project_def)
qed

text \<open>One project is replaced, and the leases are revoked against what was there.\<close>

lemma kept_by_replacement:
  assumes kept: "\<forall>il \<in> set leases. proper_scope il \<and> scope_in ps il" and old: "findProject ps i = Some p" and new: "pw_ID q = i"
    and il: "il \<in> set (revokeDisappearedScopes clk [p] [q] leases)"
  shows "proper_scope il \<and> scope_in (replace_first i q ps) il"
proof -
  have k: "proper_scope il" "scope_in ps il" using kept revoke_disappeared_shrinks [OF il] by auto
  show ?thesis
  proof (cases "project_of il = i")
    case True
    have "\<exists>r. after_project [q] (project_of il) = Some r \<and> (service_of il = [] \<or> service_of il \<in> sw_ID ` set (pw_Services r))"
      by (rule revoke_disappeared_survivor [OF il k(1), of p])
        (use True old k findProject_SomeD [OF old] in \<open>auto simp: scope_in_def\<close>)
    then show ?thesis using True new old k by (auto simp: after_single scope_in_def findProject_replace split: if_splits)
  next
    case False
    then show ?thesis using k new by (simp add: scope_in_def findProject_replace)
  qed
qed

lemma kept_subset:
  "\<lbrakk>scopes_kept st; set leases \<subseteq> set (ca_leases st)\<rbrakk> \<Longrightarrow> scopes_kept (st\<lparr>ca_leases := leases\<rparr>)"
  by (auto simp: scopes_kept_def)

lemma kept_replaced:
  assumes "scopes_kept st" "findProject (ca_projects st) i = Some p" "pw_ID q = i"
  shows "scopes_kept (st\<lparr>ca_projects := replace_first i q (ca_projects st), ca_leases := revokeDisappearedScopes clk [p] [q] (ca_leases st)\<rparr>)"
  using kept_by_replacement [of "ca_leases st" "ca_projects st" i p q] assms by (simp add: scopes_kept_def)

lemma kept_setup: "scopes_kept st \<Longrightarrow> scopes_kept (setup_project clk i creds services st)"
proof (cases "findProject (ca_projects st) i")
  case (Some p)
  assume "scopes_kept st"
  with Some kept_replaced [OF _ Some] findProject_SomeD [OF Some] show ?thesis by (simp add: setup_project_def Let_def)
qed (simp add: setup_project_def)

lemma kept_appended: "scopes_kept st \<Longrightarrow> scopes_kept (st\<lparr>ca_projects := ca_projects st @ qs\<rparr>)"
  by (auto simp: scopes_kept_def scope_in_def findProject_append)

lemma kept_save: "scopes_kept st \<Longrightarrow> scopes_kept (saveConfigChangeProject clk q st)"
proof (cases "findProject (ca_projects st) (pw_ID q)")
  case (Some p)
  assume "scopes_kept st"
  with Some kept_replaced [OF _ Some] show ?thesis by (simp add: saveConfigChangeProject_def)
qed (simp add: saveConfigChangeProject_def kept_appended)

lemma kept_migration:
  "scopes_kept st \<Longrightarrow> migration_current (CommitMigration clk captured q) st \<Longrightarrow> scopes_kept (commit_migration clk captured q st)"
proof (cases "findProject (ca_projects st) (pw_ID captured)")
  case (Some p)
  assume "scopes_kept st" "migration_current (CommitMigration clk captured q) st"
  with Some kept_replaced [OF _ Some] show ?thesis by (simp add: commit_migration_def Let_def)
qed (simp add: commit_migration_def)

lemma kept_remove:
  assumes "scopes_kept st"
  shows "scopes_kept (remove_project clk i st)"
  unfolding scopes_kept_def
proof
  let ?st = "remove_project clk i st"
  fix il assume il: "il \<in> set (ca_leases ?st)"
  define r where "r = (case after_project (ca_projects st) i of None \<Rightarrow> zero_project | Some p \<Rightarrow> p)"
  have surv: "il \<in> set (revokeDisappearedScopes clk [r] [] (ca_leases st))" using il by (simp add: remove_project_def Let_def r_def)
  have k: "proper_scope il" "scope_in (ca_projects st) il"
    using assms revoke_disappeared_shrinks [OF surv] by (auto simp: scopes_kept_def)
  have "project_of il \<noteq> i"
  proof
    assume i: "project_of il = i"
    then obtain p0 where "p0 \<in> set (ca_projects st)" "pw_ID p0 = i"
      using k(2) findProject_SomeD unfolding scope_in_def by metis
    then have "i \<in> pw_ID ` set (rev (ca_projects st))" by auto
    then obtain p where p: "after_project (ca_projects st) i = Some p"
      unfolding after_project_def using findProject_None by (metis option.exhaust)
    then have "pw_ID r = project_of il" using i findProject_SomeD by (auto simp: r_def after_project_def)
    then have "il \<notin> set (revoke_previous clk [] r (ca_leases st))"
      using k(1) RevokeProject_removes [OF k(1)] by (simp add: revoke_previous_def after_project_def findProject_def proper_scope_def)
    with surv show False by (simp add: revokeDisappearedScopes_def)
  qed
  then show "proper_scope il \<and> scope_in (ca_projects ?st) il"
    using k findProject_filter [of "\<lambda>j. j \<noteq> i"] by (simp add: remove_project_def Let_def scope_in_def)
qed

lemma managed_service_id [simp]: "pw_ID (managed_service d p) = pw_ID p"
  by (simp add: managed_service_def)

lemma managed_project_distinct: "distinct (map pw_ID ps) \<Longrightarrow> distinct (map pw_ID (managed_project d ps))"
  by (auto simp: managed_project_def Let_def comp_def if_distrib cong: if_cong)

lemma managed_projects_distinct: "distinct (map pw_ID (managedProjectsFromDeployments ds))"
proof -
  have "distinct (map pw_ID ps) \<Longrightarrow> distinct (map pw_ID (fold managed_project ds ps))" for ps
    by (induction ds arbitrary: ps) (auto simp: managed_project_distinct)
  then show ?thesis by (simp add: managedProjectsFromDeployments_def)
qed

lemma kept_managed:
  assumes "scopes_kept st"
  shows "scopes_kept (applyManagedDeployments clk ds st)"
  unfolding scopes_kept_def
proof
  let ?st = "applyManagedDeployments clk ds st"
  let ?new = "managedProjectsFromDeployments (normalizeManagedDeployments ds)"
  let ?old = "\<lambda>p. pw_ID p \<in> set (ca_managed st)"
  fix il assume il: "il \<in> set (ca_leases ?st)"
  then have surv: "il \<in> set (revokeDisappearedScopes clk (filter ?old (ca_projects st)) ?new (ca_leases st))"
    by (simp add: applyManagedDeployments_def Let_def)
  have k: "proper_scope il" "scope_in (ca_projects st) il"
    using assms revoke_disappeared_shrinks [OF surv] by (auto simp: scopes_kept_def)
  obtain p where p: "findProject (ca_projects st) (project_of il) = Some p"
    and sv: "service_of il = [] \<or> service_of il \<in> sw_ID ` set (pw_Services p)"
    using k(2) by (auto simp: scope_in_def)
  have ps: "ca_projects ?st = filter (\<lambda>p. \<not> ?old p) (ca_projects st) @ ?new"
    by (simp add: applyManagedDeployments_def Let_def)
  have "scope_in (ca_projects ?st) il"
  proof (cases "project_of il \<in> set (ca_managed st)")
    case False
    then have "findProject (filter (\<lambda>p. \<not> ?old p) (ca_projects st)) (project_of il) = Some p"
      using p findProject_filter [of "\<lambda>j. j \<notin> set (ca_managed st)"] by simp
    then show ?thesis using sv by (simp add: ps scope_in_def findProject_append)
  next
    case True
    then have none: "findProject (filter (\<lambda>p. \<not> ?old p) (ca_projects st)) (project_of il) = None"
      by (auto simp: findProject_None)
    have "\<exists>q. after_project ?new (project_of il) = Some q \<and> (service_of il = [] \<or> service_of il \<in> sw_ID ` set (pw_Services q))"
      by (rule revoke_disappeared_survivor [OF surv k(1), of p]) (use True p sv findProject_SomeD [OF p] in auto)
    then show ?thesis using none by (simp add: ps scope_in_def findProject_append after_distinct managed_projects_distinct)
  qed
  with k(1) show "proper_scope il \<and> scope_in (ca_projects ?st) il" by blast
qed

lemma CreateLease_adds:
  assumes "il \<in> set (snd (CreateLease uuid now req s))" and "il \<notin> set s"
  shows "proper_scope il \<and> project_of il = TrimSpace (cq_ProjectID req) \<and> service_of il = TrimSpace (cq_ServiceID req)"
proof -
  have v: "validateCreateRequest (trimmed_request req) = None"
    using assms by (auto simp: CreateLease_def Let_def split: option.splits)
  have "il = (uuid, new_lease uuid now (trimmed_request req))"
    using assms by (auto simp: CreateLease_def Let_def put_lease_def purgeExpiredLocked_def split: option.splits if_splits)
  moreover have "TrimSpace (cq_ProjectID req) \<noteq> []" "\<not> invalidIdentity (TrimSpace (cq_ProjectID req)) 256" "\<not> invalidIdentity (TrimSpace (cq_ServiceID req)) 256"
    using v by (auto simp: validateCreateRequest_def trimmed_request_def split: if_splits)
  ultimately show ?thesis
    by (simp add: proper_scope_def proper_id_def new_lease_def trimmed_request_def Let_def)
qed

lemma kept_create:
  assumes "scopes_kept st"
  shows "scopes_kept (snd (createDebugCredentialLease uuid now req0 st))"
proof -
  let ?req = "req0\<lparr>cq_ProjectID := TrimSpace (cq_ProjectID req0), cq_ServiceID := TrimSpace (cq_ServiceID req0), cq_Owner := TrimSpace (cq_Owner req0)\<rparr>"
  show ?thesis
  proof (cases "validateScopeLocked (cq_ProjectID ?req) (cq_ServiceID ?req) (ca_projects st)")
    case None
    have scope: "scope_in (ca_projects st) il" if "project_of il = TrimSpace (cq_ProjectID req0)" "service_of il = TrimSpace (cq_ServiceID req0)" for il
      using None that findProject_SomeD
      by (auto simp: validateScopeLocked_def scope_in_def findServiceInProject_def find_Some_iff image_iff split: if_splits option.splits)
        (metis nth_mem)+
    have "proper_scope il \<and> scope_in (ca_projects st) il" if "il \<in> set (snd (CreateLease uuid now ?req (ca_leases st)))" for il
      using that assms CreateLease_adds [OF that] scope [of il] by (auto simp: scopes_kept_def)
    then have "scopes_kept (st\<lparr>ca_leases := snd (CreateLease uuid now ?req (ca_leases st))\<rparr>)" by (simp add: scopes_kept_def)
    moreover have "snd (createDebugCredentialLease uuid now req0 st) = st\<lparr>ca_leases := snd (CreateLease uuid now ?req (ca_leases st))\<rparr>"
      using None by (simp add: createDebugCredentialLease_def Let_def split: prod.splits sum.splits)
    ultimately show ?thesis by simp
  qed (use assms in \<open>simp add: createDebugCredentialLease_def Let_def\<close>)
qed

lemma kept_step: "scopes_kept st \<Longrightarrow> migration_current e st \<Longrightarrow> scopes_kept (scope_step e st)"
proof (cases e)
  case (DropLease now i owner)
  assume "scopes_kept st"
  moreover have "set (snd (DeleteLease now (TrimSpace i) (TrimSpace owner) (ca_leases st))) \<subseteq> set (ca_leases st)"
    by (auto simp: DeleteLease_def purgeExpiredLocked_def Let_def split: option.splits)
  ultimately show ?thesis
    using DropLease kept_subset by (auto simp: deleteDebugCredentialLease_def split: prod.splits sum.splits)
next
  case (GetCredentials now pid pname sid sname ps)
  assume "scopes_kept st"
  moreover have "set (snd (debugCredentials now pid pname sid sname ps (ca_leases st))) \<subseteq> set (ca_leases st)"
    by (auto simp: debugCredentials_def ActiveLeases_def purgeExpiredLocked_def Let_def split: sum.splits)
  ultimately show ?thesis using GetCredentials kept_subset by simp
next
  case Shutdown
  assume "scopes_kept st"
  with Shutdown show ?thesis using kept_subset by (simp add: ClearLeases_def)
next
  case (CommitMigration clk captured loaded)
  assume "scopes_kept st" "migration_current e st"
  with CommitMigration kept_migration show ?thesis by simp
qed (auto simp: kept_create kept_setup kept_save kept_remove kept_managed)

text \<open>
  C15: However leases are created, read and dropped and projects are set up, saved, removed, migrated or replaced by the
  managed ones, every lease in the store belongs to a project, and to a service of it, that the agent still has:
  a scope takes its leases with it, so one that comes back under the same identifier finds none. Migrations are assumed
  to commit against the project they read.
\<close>

theorem leases_die_with_their_scope:
  assumes "ca_leases st = []" and "migrations_current es st"
  shows "scopes_alive (fold scope_step es st)"
proof -
  have "scopes_kept (fold scope_step es st)" if "scopes_kept st" "migrations_current es st" for st
    using that by (induction es arbitrary: st) (auto simp: kept_step)
  moreover have "scopes_kept st" using assms(1) by (simp add: scopes_kept_def)
  ultimately show ?thesis using assms(2) scopes_kept_alive by blast
qed

definition shop_service :: ServiceView where
  "shop_service = \<lparr>sw_ID = ''api'', sw_Name = ''api'', sw_ProjectID = [], sw_DebugCredentials = []\<rparr>"

definition shop :: "ServiceView list \<Rightarrow> ProjectView" where
  "shop services = \<lparr>pw_ID = ''shop'', pw_Name = ''shop'', pw_DebugCredentials = [], pw_Services = services\<rparr>"

definition shop_app :: credential_app where
  "shop_app = \<lparr>ca_projects = [shop []], ca_managed = [], ca_leases = NewLeaseStore\<rparr>"

definition api_request :: CreateRequest where
  "api_request = \<lparr>cq_ProjectID = ''shop'', cq_ServiceID = ''api'', cq_Owner = ''ann'', cq_TTLSeconds = 60,
     cq_Credentials = [\<lparr>dc_Name = ''pin'', dc_Value = ''1234'', dc_Desc = []\<rparr>]\<rparr>"

definition api_comes_and_goes :: "scope_event list" where
  "api_comes_and_goes = [Setup (\<lambda>_ _. 0) ''shop'' [] [shop_service], PostLease ''u1'' 0 api_request, Setup (\<lambda>_ _. 1) ''shop'' [] []]"

text \<open>A migration read the project before the service was added and commits after a lease for it was created.\<close>

definition api_lost_in_migration :: "scope_event list" where
  "api_lost_in_migration = [Setup (\<lambda>_ _. 0) ''shop'' [] [shop_service], PostLease ''u1'' 0 api_request,
     CommitMigration (\<lambda>_ _. 1) (shop []) (shop [])]"

lemma api_comes_and_goes_current: "migrations_current api_comes_and_goes shop_app"
  by code_simp

theorem leases_die_with_their_scope_witness:
  "scopes_alive (fold scope_step api_comes_and_goes shop_app) \<and>
   map fst (ca_leases (fold scope_step (take 2 api_comes_and_goes) shop_app)) = [''u1'']"
proof
  have "ca_leases shop_app = []" by (simp add: shop_app_def NewLeaseStore_def)
  then show "scopes_alive (fold scope_step api_comes_and_goes shop_app)"
    by (rule leases_die_with_their_scope [OF _ api_comes_and_goes_current])
  show "map fst (ca_leases (fold scope_step (take 2 api_comes_and_goes) shop_app)) = [''u1'']"
    by code_simp
qed


text \<open>A registered project is dropped from the view when the managed deployments of the same identifier are applied twice.\<close>

definition shop_deployments :: "ManagedDeployment list" where
  "shop_deployments = [\<lparr>mg_DeploymentID = ''d1'', mg_ProjectID = ''shop'', mg_ServiceID = ''web'', mg_ServiceName = []\<rparr>]"

theorem second_managed_push_drops_registered_project:
  "findProject (ca_projects (scope_step (ApplyManaged (\<lambda>_ _. 0) shop_deployments) shop_app)) ''shop'' = Some (shop []) \<and>
   shop [] \<notin> set (ca_projects (fold scope_step (replicate 2 (ApplyManaged (\<lambda>_ _. 0) shop_deployments)) shop_app))"
  by code_simp

section \<open>What is served\<close>

definition service_named :: "string \<Rightarrow> string \<Rightarrow> ProjectView \<Rightarrow> ServiceView \<Rightarrow> bool" where
  "service_named sid sname p s \<longleftrightarrow> (sid \<noteq> [] \<or> sname \<noteq> []) \<and> findServiceInProject p sid sname = Some s"

definition leased_to :: "time \<Rightarrow> string \<Rightarrow> string \<Rightarrow> DebugCredential \<Rightarrow> lease_store \<Rightarrow> bool" where
  "leased_to now p sv c s \<longleftrightarrow>
     (\<exists>il \<in> set s. unexpired now il \<and> project_of il = p \<and> service_of il = sv \<and> c \<in> set (cl_credentials (snd il)))"

text \<open>What justifies serving a credential for a project and the selector of a service.\<close>

definition authorised :: "time \<Rightarrow> string \<Rightarrow> string \<Rightarrow> ProjectView \<Rightarrow> lease_store \<Rightarrow> MergedDebugCredential \<Rightarrow> bool" where
  "authorised now sid sname p s m \<longleftrightarrow>
     (let c = md_DebugCredential m in
      md_Source m = ''project'' \<and> c \<in> set (pw_DebugCredentials p) \<or>
      md_Source m = ''ephemeral_project'' \<and> leased_to now (pw_ID p) [] c s \<or>
      (\<exists>sv. service_named sid sname p sv \<and>
         (md_Source m = ''service'' \<and> c \<in> set (sw_DebugCredentials sv) \<or>
          md_Source m = ''ephemeral_service'' \<and> leased_to now (pw_ID p) (sw_ID sv) c s)))"

lemma read_scope_leased:
  "c \<in> set (ac_Project (read_scope p sv (purgeExpiredLocked now s))) \<Longrightarrow> leased_to now p [] c s"
  "c \<in> set (ac_Service (read_scope p sv (purgeExpiredLocked now s))) \<Longrightarrow> sv \<noteq> [] \<and> leased_to now p sv c s"
  by (auto simp: read_scope_def Let_def purgeExpiredLocked_def in_scope_def leased_to_def)

text \<open>
  C9: A credential is served only for a selector that names exactly one project, and only if it is in the configuration
  of this project or of the service asked for, or in an unexpired lease on the project or on this very service: a
  reading of the project alone shows nothing of its services.
\<close>

theorem served_only_in_scope:
  assumes "fst (debugCredentials now pid pname sid sname ps s) = Inr ms" and "m \<in> set ms"
  shows "\<exists>p. \<not> (pid = [] \<and> pname = []) \<and> selected_projects pid pname ps = [p] \<and> authorised now sid sname p s m"
proof -
  obtain target where sel: "pid \<noteq> [] \<or> pname \<noteq> []" and target: "resolveDebugCredentialTarget pid pname sid sname ps = Inr target"
    using assms(1) by (auto simp: debugCredentials_def split: if_splits sum.splits)
  obtain p where p: "selected_projects pid pname ps = [p]"
    using target by (auto simp: resolveDebugCredentialTarget_def split: list.splits)
  let ?active = "read_scope (ct_ProjectID target) (ct_ServiceID target) (purgeExpiredLocked now s)"
  have "ms = MergeDebugCredentialLayers
                [\<lparr>ly_Credentials = ct_Project target, ly_Source = ''project''\<rparr>,
                 \<lparr>ly_Credentials = ac_Project ?active, ly_Source = ''ephemeral_project''\<rparr>,
                 \<lparr>ly_Credentials = ct_Service target, ly_Source = ''service''\<rparr>,
                 \<lparr>ly_Credentials = ac_Service ?active, ly_Source = ''ephemeral_service''\<rparr>]"
    using assms(1) sel target by (auto simp: debugCredentials_def ActiveLeases_def Let_def)
  then have m: "md_Source m = ''project'' \<and> md_DebugCredential m \<in> set (ct_Project target) \<or>
      md_Source m = ''ephemeral_project'' \<and> md_DebugCredential m \<in> set (ac_Project ?active) \<or>
      md_Source m = ''service'' \<and> md_DebugCredential m \<in> set (ct_Service target) \<or>
      md_Source m = ''ephemeral_service'' \<and> md_DebugCredential m \<in> set (ac_Service ?active)"
    using merged_from_layer assms(2) by fastforce
  have t: "ct_ProjectID target = pw_ID p" "ct_Project target = pw_DebugCredentials p"
    using target p by (auto simp: resolveDebugCredentialTarget_def Let_def split: if_splits option.splits)
  have sv: "ct_ServiceID target = [] \<and> ct_Service target = [] \<or>
      (\<exists>sv. service_named sid sname p sv \<and> ct_ServiceID target = sw_ID sv \<and> ct_Service target = sw_DebugCredentials sv)"
    using target p by (auto simp: resolveDebugCredentialTarget_def Let_def service_named_def split: if_splits option.splits)
  have "authorised now sid sname p s m"
    using m sv read_scope_leased unfolding authorised_def Let_def t by (elim disjE conjE exE) auto
  with sel p show ?thesis by blast
qed

theorem served_only_in_scope_witness:
  "\<exists>p. \<not> (''shop'' = [] \<and> ''shop'' = []) \<and> selected_projects ''shop'' ''shop'' [shop [shop_service]] = [p] \<and>
     authorised 0 ''api'' [] p (ca_leases (fold scope_step (take 2 api_comes_and_goes) shop_app))
       \<lparr>md_DebugCredential = \<lparr>dc_Name = ''pin'', dc_Value = ''1234'', dc_Desc = []\<rparr>, md_Source = ''ephemeral_service'', md_ValuePresent = True\<rparr>"
proof (rule served_only_in_scope)
  show "fst (debugCredentials 0 ''shop'' ''shop'' ''api'' [] [shop [shop_service]] (ca_leases (fold scope_step (take 2 api_comes_and_goes) shop_app))) =
    Inr [\<lparr>md_DebugCredential = \<lparr>dc_Name = ''pin'', dc_Value = ''1234'', dc_Desc = []\<rparr>, md_Source = ''ephemeral_service'', md_ValuePresent = True\<rparr>]"
    by code_simp
qed simp

end
