(* ===== verification/NodeRegistry.thy ===== *)
theory NodeRegistry
  imports PortMirror "HOL-Library.AList" "HOL-Library.Product_Lexorder"
begin

text \<open>
  The registry of nodes (\<^verbatim>\<open>agent/noderegistry/registry.go\<close>): what the transports report of each host is merged into
  one picture, which ages when reports stop and which subscribers follow. The readings of the clock are arguments. The
  record of a node extends the fields the mirror of ports reads (\<open>PortMirror\<close>); the facts that are only passed on
  (managed deployments, system, route) are left out. The zero time is 0.
\<close>

section \<open>Data\<close>

definition defaultStaleAfter :: duration where "defaultStaleAfter = 15 * second"

definition AgentHealthUnknown :: string where "AgentHealthUnknown = ''unknown''"
definition AgentHealthUnreachable :: string where "AgentHealthUnreachable = ''unreachable''"

record AgentRuntime =
  ar_Installed :: bool
  ar_Version :: string
  ar_Health :: string
  ar_Reachable :: bool
  ar_LocalPort :: int

record RegisteredNode = NodeStatus +
  rn_Reachable :: bool
  rn_Agent :: AgentRuntime
  rn_DesktopOnline :: bool
  rn_UpdatedAt :: time
  rn_Error :: string

definition zero_node :: RegisteredNode where
  "zero_node = \<lparr>nd_HostID = [], nd_Name = [], nd_Deployments = [], rn_Reachable = False,
     rn_Agent = \<lparr>ar_Installed = False, ar_Version = [], ar_Health = [], ar_Reachable = False, ar_LocalPort = 0\<rparr>,
     rn_DesktopOnline = False, rn_UpdatedAt = 0, rn_Error = []\<rparr>"

record NodeRegistry =
  rg_staleAfter :: duration
  rg_nodes :: "(string \<times> RegisteredNode) list"
  rg_lastSeen :: "(string \<times> time) list"
  rg_covers :: "string list list"
  rg_subs :: "(string \<times> RegisteredNode list list) list"
  rg_started :: bool

definition NewRegistry :: "duration \<Rightarrow> NodeRegistry" where
  "NewRegistry staleAfter =
     \<lparr>rg_staleAfter = (if staleAfter = 0 then defaultStaleAfter else staleAfter), rg_nodes = [], rg_lastSeen = [], rg_covers = [],
      rg_subs = [], rg_started = False\<rparr>"

section \<open>Snapshots and subscribers\<close>

definition shown_name :: "RegisteredNode \<Rightarrow> string" where
  "shown_name n = (if nd_Name n = [] then nd_HostID n else nd_Name n)"

definition sortedSnapshot :: "(string \<times> RegisteredNode) list \<Rightarrow> RegisteredNode list" where
  "sortedSnapshot nodes = sort_key (\<lambda>n. (shown_name n, nd_HostID n)) (map snd nodes)"

definition Snapshot :: "NodeRegistry \<Rightarrow> RegisteredNode list" where
  "Snapshot r = sortedSnapshot (rg_nodes r)"

definition SnapshotOf :: "string \<Rightarrow> NodeRegistry \<Rightarrow> RegisteredNode option" where
  "SnapshotOf h r = map_of (rg_nodes r) h"

text \<open>A channel holds 16 snapshots; a subscriber whose channel is full misses this one.\<close>

definition broadcastLocked :: "NodeRegistry \<Rightarrow> NodeRegistry" where
  "broadcastLocked r = r\<lparr>rg_subs := map (\<lambda>(i, q). (i, if length q < 16 then q @ [Snapshot r] else q)) (rg_subs r)\<rparr>"

text \<open>Subscribing takes the snapshot under the lock and sends it after leaving the lock; \<open>None\<close> is a send that blocks.\<close>

definition subscribe_register :: "string \<Rightarrow> NodeRegistry \<Rightarrow> RegisteredNode list \<times> NodeRegistry" where
  "subscribe_register i r = (Snapshot r, r\<lparr>rg_subs := AList.update i [] (rg_subs r)\<rparr>)"

definition subscribe_send :: "string \<Rightarrow> RegisteredNode list \<Rightarrow> NodeRegistry \<Rightarrow> NodeRegistry option" where
  "subscribe_send i initial r =
     (case map_of (rg_subs r) i of
        None \<Rightarrow> None
      | Some q \<Rightarrow> if length q < 16 then Some (r\<lparr>rg_subs := AList.update i (q @ [initial]) (rg_subs r)\<rparr>) else None)"

definition unsubscribe :: "string \<Rightarrow> NodeRegistry \<Rightarrow> NodeRegistry" where
  "unsubscribe i r = r\<lparr>rg_subs := AList.delete i (rg_subs r)\<rparr>"

definition receive_snapshot :: "string \<Rightarrow> NodeRegistry \<Rightarrow> RegisteredNode list option \<times> NodeRegistry" where
  "receive_snapshot i r =
     (case map_of (rg_subs r) i of
        Some (x # q) \<Rightarrow> (Some x, r\<lparr>rg_subs := AList.update i q (rg_subs r)\<rparr>)
      | _ \<Rightarrow> (None, r))"

section \<open>Starting\<close>

definition idsToSet :: "string list \<Rightarrow> string list" where
  "idsToSet ids = remdups (filter (\<lambda>i. i \<noteq> []) ids)"

definition preseeded :: "time \<Rightarrow> string \<Rightarrow> RegisteredNode" where
  "preseeded now h = zero_node\<lparr>nd_HostID := h, rn_Agent := (rn_Agent zero_node)\<lparr>ar_Health := AgentHealthUnknown\<rparr>, rn_UpdatedAt := now\<rparr>"

definition preseedCoveredNodes :: "time \<Rightarrow> NodeRegistry \<Rightarrow> NodeRegistry \<times> bool" where
  "preseedCoveredNodes now r =
     (let missing = filter (\<lambda>h. h \<noteq> [] \<and> map_of (rg_nodes r) h = None) (remdups (concat (rg_covers r)))
      in (r\<lparr>rg_nodes := rg_nodes r @ map (\<lambda>h. (h, preseeded now h)) missing\<rparr>, missing \<noteq> []))"

text \<open>\<^verbatim>\<open>covered\<close> is what each transport covers when the registry starts.\<close>

definition StartRegistry :: "string list list \<Rightarrow> time \<Rightarrow> NodeRegistry \<Rightarrow> NodeRegistry" where
  "StartRegistry covered now r =
     (if rg_started r then r
      else let (r1, changed) = preseedCoveredNodes now (r\<lparr>rg_started := True, rg_covers := map idsToSet covered\<rparr>)
           in if changed then broadcastLocked r1 else r1)"

section \<open>Reports and their absence\<close>

text \<open>A source below zero is the injection for tests; transports are numbered from 0.\<close>

definition sourceCovers :: "nat option \<Rightarrow> string \<Rightarrow> NodeRegistry \<Rightarrow> bool" where
  "sourceCovers source h r =
     (case source of None \<Rightarrow> True | Some k \<Rightarrow> k < length (rg_covers r) \<and> h \<in> set (rg_covers r ! k))"

text \<open>A frame with fewer deployments than are known, of a node that is reachable, keeps those known.\<close>

definition kept_complete :: "RegisteredNode option \<Rightarrow> RegisteredNode \<Rightarrow> RegisteredNode" where
  "kept_complete prev status =
     (case prev of
        Some p \<Rightarrow> if rn_Reachable status \<and> length (nd_Deployments status) < length (nd_Deployments p)
                  then status\<lparr>nd_Deployments := nd_Deployments p\<rparr> else status
      | None \<Rightarrow> status)"

definition apply_status :: "nat option \<Rightarrow> time \<Rightarrow> RegisteredNode \<Rightarrow> NodeRegistry \<times> bool \<Rightarrow> NodeRegistry \<times> bool" where
  "apply_status source now status0 = (\<lambda>(r, changed).
     let h = nd_HostID status0 in
     if h = [] \<or> \<not> sourceCovers source h r then (r, changed)
     else let status = (if rn_UpdatedAt status0 = 0 then status0\<lparr>rn_UpdatedAt := now\<rparr> else status0)
          in (r\<lparr>rg_nodes := AList.update h (kept_complete (map_of (rg_nodes r) h) status) (rg_nodes r),
                rg_lastSeen := AList.update h now (rg_lastSeen r)\<rparr>, True))"

definition applyBatch :: "nat option \<Rightarrow> RegisteredNode list \<Rightarrow> time \<Rightarrow> NodeRegistry \<Rightarrow> NodeRegistry" where
  "applyBatch source batch now r =
     (let (r1, changed) = fold (apply_status source now) batch (r, False)
      in if changed then broadcastLocked r1 else r1)"

definition unreachableStatus :: "time \<Rightarrow> string \<Rightarrow> RegisteredNode \<Rightarrow> RegisteredNode" where
  "unreachableStatus now err current =
     current\<lparr>rn_Reachable := False, rn_Agent := (rn_Agent current)\<lparr>ar_Reachable := False, ar_Health := AgentHealthUnreachable\<rparr>,
             rn_UpdatedAt := now, rn_Error := err\<rparr>"

definition make_unreachable :: "time \<Rightarrow> string \<Rightarrow> string \<Rightarrow> (string \<times> RegisteredNode) list \<Rightarrow> (string \<times> RegisteredNode) list" where
  "make_unreachable now err h nodes =
     AList.update h (unreachableStatus now err (case map_of nodes h of None \<Rightarrow> zero_node | Some n \<Rightarrow> n)) nodes"

definition markSourceUnreachable :: "nat \<Rightarrow> time \<Rightarrow> NodeRegistry \<Rightarrow> NodeRegistry" where
  "markSourceUnreachable source now r =
     (if source \<ge> length (rg_covers r) \<or> rg_covers r ! source = [] then r
      else broadcastLocked (r\<lparr>rg_nodes := fold (make_unreachable now ''node status stream closed'') (rg_covers r ! source) (rg_nodes r)\<rparr>))"

definition is_stale :: "time \<Rightarrow> NodeRegistry \<Rightarrow> string \<times> time \<Rightarrow> bool" where
  "is_stale now r hs \<longleftrightarrow>
     time_sub now (snd hs) > rg_staleAfter r \<and> (case map_of (rg_nodes r) (fst hs) of None \<Rightarrow> False | Some n \<Rightarrow> rn_Reachable n)"

definition markStale :: "time \<Rightarrow> NodeRegistry \<Rightarrow> NodeRegistry" where
  "markStale now r =
     (let stale = map fst (filter (is_stale now r) (rg_lastSeen r))
      in if stale = [] then r
         else broadcastLocked (r\<lparr>rg_nodes := fold (make_unreachable now ''node status heartbeat timeout'') stale (rg_nodes r)\<rparr>))"

definition Forget :: "string \<Rightarrow> NodeRegistry \<Rightarrow> NodeRegistry" where
  "Forget h r =
     (if map_of (rg_nodes r) h = None then r
      else broadcastLocked (r\<lparr>rg_nodes := AList.delete h (rg_nodes r), rg_lastSeen := AList.delete h (rg_lastSeen r)\<rparr>))"

text \<open>The frame the mirror of ports is given.\<close>

definition mirror_frame :: "RegisteredNode list \<Rightarrow> NodeStatus list" where
  "mirror_frame snapshot = map NodeStatus.truncate snapshot"

section \<open>Runs\<close>

datatype node_event =
    NodeStart "string list list" time | NodeBatch "nat option" "RegisteredNode list" time | NodeClosed nat time | NodeTick time | NodeForget string
  | NodeSubscribe string | NodeUnsubscribe string | NodeReceive string

fun node_step :: "node_event \<Rightarrow> NodeRegistry \<Rightarrow> NodeRegistry" where
  "node_step (NodeStart covered now) r = StartRegistry covered now r"
| "node_step (NodeBatch source batch now) r = applyBatch source batch now r"
| "node_step (NodeClosed source now) r = markSourceUnreachable source now r"
| "node_step (NodeTick now) r = markStale now r"
| "node_step (NodeForget h) r = Forget h r"
| "node_step (NodeSubscribe i) r = (case subscribe_send i (fst (subscribe_register i r)) (snd (subscribe_register i r)) of None \<Rightarrow> r | Some r' \<Rightarrow> r')"
| "node_step (NodeUnsubscribe i) r = unsubscribe i r"
| "node_step (NodeReceive i) r = snd (receive_snapshot i r)"

section \<open>What the steps touch\<close>

lemma broadcast_nodes [simp]: "rg_nodes (broadcastLocked r) = rg_nodes r" "rg_lastSeen (broadcastLocked r) = rg_lastSeen r"
  "rg_staleAfter (broadcastLocked r) = rg_staleAfter r" "rg_covers (broadcastLocked r) = rg_covers r"
  by (simp_all add: broadcastLocked_def)

lemma map_of_update [simp]: "map_of (AList.update k v al) = (map_of al)(k \<mapsto> v)"
  by (rule update_conv')

lemma map_of_delete [simp]: "map_of (AList.delete k al) = (map_of al)(k := None)"
  by (rule delete_conv')

lemma subscribe_nodes [simp]:
  "rg_nodes (node_step (NodeSubscribe i) r) = rg_nodes r" "rg_lastSeen (node_step (NodeSubscribe i) r) = rg_lastSeen r"
  "rg_staleAfter (node_step (NodeSubscribe i) r) = rg_staleAfter r"
  by (simp_all add: subscribe_register_def subscribe_send_def)

lemma receive_nodes [simp]:
  "rg_nodes (snd (receive_snapshot i r)) = rg_nodes r" "rg_lastSeen (snd (receive_snapshot i r)) = rg_lastSeen r"
  "rg_staleAfter (snd (receive_snapshot i r)) = rg_staleAfter r"
  by (auto simp: receive_snapshot_def split: option.splits list.splits)

lemma make_unreachable_none: "h' \<noteq> h \<Longrightarrow> map_of (make_unreachable now err h nodes) h' = map_of nodes h'"
  by (simp add: make_unreachable_def)

lemma fold_unreachable:
  "map_of (fold (make_unreachable now err) hs nodes) h = Some n \<Longrightarrow> rn_Reachable n \<Longrightarrow> h \<notin> set hs \<and> map_of nodes h = Some n"
proof (induction hs arbitrary: nodes)
  case (Cons a hs)
  then have "h \<notin> set hs" "map_of (make_unreachable now err a nodes) h = Some n" by auto
  then show ?case using Cons.prems(2)
    by (cases "h = a") (auto simp: make_unreachable_def unreachableStatus_def)
qed simp

lemma fold_unreachable_deployments:
  "map_of nodes h = Some p \<Longrightarrow>
   \<exists>n. map_of (fold (make_unreachable now err) hs nodes) h = Some n \<and> nd_Deployments n = nd_Deployments p"
proof (induction hs arbitrary: nodes p)
  case (Cons a hs)
  then show ?case
  proof (cases "a = h")
    case True
    have "map_of (make_unreachable now err a nodes) h = Some (unreachableStatus now err p)" using Cons.prems True by (simp add: make_unreachable_def)
    from Cons.IH [OF this] show ?thesis by (simp add: unreachableStatus_def)
  next
    case False
    then have "map_of (make_unreachable now err a nodes) h = Some p" using Cons.prems by (simp add: make_unreachable_def)
    from Cons.IH [OF this] show ?thesis by simp
  qed
qed simp

text \<open>Applying the statuses of a batch: what is untouched, and what \<open>changed\<close> says.\<close>

lemma apply_status_frame:
  "rg_subs (fst (apply_status source now s rc)) = rg_subs (fst rc)"
  "rg_staleAfter (fst (apply_status source now s rc)) = rg_staleAfter (fst rc)"
  "snd rc \<Longrightarrow> snd (apply_status source now s rc)"
  "\<not> snd (apply_status source now s rc) \<Longrightarrow> fst (apply_status source now s rc) = fst rc"
  by (auto simp: apply_status_def Let_def case_prod_unfold split: if_splits)

lemma fold_status_frame:
  "rg_subs (fst (fold (apply_status source now) ss rc)) = rg_subs (fst rc) \<and>
   rg_staleAfter (fst (fold (apply_status source now) ss rc)) = rg_staleAfter (fst rc) \<and>
   (snd rc \<longrightarrow> snd (fold (apply_status source now) ss rc)) \<and>
   (\<not> snd (fold (apply_status source now) ss rc) \<longrightarrow> fst (fold (apply_status source now) ss rc) = fst rc)"
proof (induction ss arbitrary: rc)
  case (Cons s ss)
  let ?rc = "apply_status source now s rc"
  have i: "rg_subs (fst (fold (apply_status source now) ss ?rc)) = rg_subs (fst ?rc) \<and>
   rg_staleAfter (fst (fold (apply_status source now) ss ?rc)) = rg_staleAfter (fst ?rc) \<and>
   (snd ?rc \<longrightarrow> snd (fold (apply_status source now) ss ?rc)) \<and>
   (\<not> snd (fold (apply_status source now) ss ?rc) \<longrightarrow> fst (fold (apply_status source now) ss ?rc) = fst ?rc)"
    by (rule Cons.IH)
  show ?case using i apply_status_frame [where source = source and now = now and s = s and rc = rc] by (metis fold_simps(2))
qed simp

lemma applyBatch_nodes:
  "rg_nodes (applyBatch source ss now r) = rg_nodes (fst (fold (apply_status source now) ss (r, False)))"
  "rg_lastSeen (applyBatch source ss now r) = rg_lastSeen (fst (fold (apply_status source now) ss (r, False)))"
  "rg_staleAfter (applyBatch source ss now r) = rg_staleAfter r"
  using fold_status_frame [of source now ss "(r, False)"] by (auto simp: applyBatch_def case_prod_unfold Let_def)

section \<open>Nodes age\<close>

text \<open>A host was reported at this time.\<close>

definition reported :: "node_event list \<Rightarrow> string \<Rightarrow> time \<Rightarrow> bool" where
  "reported es h t \<longleftrightarrow> (\<exists>source ss. NodeBatch source ss t \<in> set es \<and> h \<in> nd_HostID ` set ss)"

definition ages :: "node_event list \<Rightarrow> NodeRegistry \<Rightarrow> bool" where
  "ages es r \<longleftrightarrow>
     (\<forall>h n. map_of (rg_nodes r) h = Some n \<longrightarrow> rn_Reachable n \<longrightarrow> map_of (rg_lastSeen r) h \<noteq> None) \<and>
     (\<forall>h t. map_of (rg_lastSeen r) h = Some t \<longrightarrow> reported es h t)"

lemma reported_append: "reported es h t \<Longrightarrow> reported (es @ es') h t"
  unfolding reported_def by auto

lemma ages_append: "ages es r \<Longrightarrow> ages (es @ es') r"
  using reported_append unfolding ages_def by blast

lemma ages_same: "ages es r \<Longrightarrow> rg_nodes r' = rg_nodes r \<Longrightarrow> rg_lastSeen r' = rg_lastSeen r \<Longrightarrow> ages (es @ es') r'"
  by (rule ages_append) (simp add: ages_def)

lemma ages_unreachable:
  "ages es r \<Longrightarrow> rg_nodes r' = fold (make_unreachable now err) hs (rg_nodes r) \<Longrightarrow> rg_lastSeen r' = rg_lastSeen r \<Longrightarrow> ages (es @ es') r'"
proof -
  assume a: "ages es r" and n: "rg_nodes r' = fold (make_unreachable now err) hs (rg_nodes r)" and s: "rg_lastSeen r' = rg_lastSeen r"
  have "map_of (rg_nodes r) h = Some m" if "map_of (rg_nodes r') h = Some m" "rn_Reachable m" for h m
    using fold_unreachable that unfolding n by blast
  then have "ages es r'" using a s by (fastforce simp: ages_def)
  then show "ages (es @ es') r'" by (rule ages_append)
qed

lemma ages_status:
  assumes "ages (es @ [NodeBatch source ss now]) (fst rc)" and "s \<in> set ss"
  shows "ages (es @ [NodeBatch source ss now]) (fst (apply_status source now s rc))"
proof (cases "nd_HostID s = [] \<or> \<not> sourceCovers source (nd_HostID s) (fst rc)")
  case False
  have "reported (es @ [NodeBatch source ss now]) (nd_HostID s) now" using assms(2) by (force simp: reported_def)
  with False assms(1) show ?thesis
    by (auto simp: ages_def apply_status_def Let_def case_prod_unfold split: if_splits)
qed (use assms in \<open>simp add: apply_status_def Let_def case_prod_unfold\<close>)

lemma ages_fold:
  "ages (es @ [NodeBatch source ss now]) (fst rc) \<Longrightarrow> set qs \<subseteq> set ss \<Longrightarrow>
   ages (es @ [NodeBatch source ss now]) (fst (fold (apply_status source now) qs rc))"
proof (induction qs arbitrary: rc)
  case (Cons q qs)
  then have "ages (es @ [NodeBatch source ss now]) (fst (apply_status source now q rc))" by (intro ages_status) simp_all
  with Cons show ?case by simp
qed simp

lemma ages_step:
  assumes "ages es r"
  shows "ages (es @ [e]) (node_step e r)"
proof (cases e)
  case (NodeStart covered now)
  let ?r = "StartRegistry covered now r"
  have seen: "rg_lastSeen ?r = rg_lastSeen r" by (simp add: StartRegistry_def preseedCoveredNodes_def Let_def)
  have "map_of (rg_nodes r) h = Some n" if "map_of (rg_nodes ?r) h = Some n" "rn_Reachable n" for h n
    using that by (auto simp: StartRegistry_def preseedCoveredNodes_def preseeded_def zero_node_def Let_def split: if_splits dest!: map_of_SomeD)
  with assms seen have "ages es ?r" by (fastforce simp: ages_def)
  then show ?thesis using NodeStart ages_append by simp
next
  case (NodeBatch source ss now)
  have "ages (es @ [NodeBatch source ss now]) r" using ages_same [OF assms] by simp
  then have "ages (es @ [NodeBatch source ss now]) (fst (fold (apply_status source now) ss (r, False)))" by (intro ages_fold) simp_all
  then show ?thesis using NodeBatch by (simp add: ages_def applyBatch_nodes)
next
  case (NodeClosed source now)
  show ?thesis
  proof (cases "source \<ge> length (rg_covers r) \<or> rg_covers r ! source = []")
    case True
    then show ?thesis using NodeClosed ages_same [OF assms] by (simp add: markSourceUnreachable_def)
  next
    case False
    show ?thesis by (rule ages_unreachable [OF assms]) (use NodeClosed False in \<open>simp_all add: markSourceUnreachable_def\<close>)
  qed
next
  case (NodeTick now)
  show ?thesis
  proof (cases "filter (is_stale now r) (rg_lastSeen r) = []")
    case True
    then show ?thesis using NodeTick ages_same [OF assms] by (simp add: markStale_def)
  next
    case False
    show ?thesis by (rule ages_unreachable [OF assms]) (use NodeTick False in \<open>simp_all add: markStale_def Let_def\<close>)
  qed
next
  case (NodeForget h)
  have "ages es (Forget h r)" using assms by (auto simp: ages_def Forget_def)
  then show ?thesis using NodeForget ages_append by simp
next
  case (NodeSubscribe i)
  then show ?thesis using ages_same [OF assms] subscribe_nodes by (simp del: node_step.simps)
next
  case (NodeUnsubscribe i)
  then show ?thesis using ages_same [OF assms] by (simp add: unsubscribe_def)
next
  case (NodeReceive i)
  then show ?thesis using ages_same [OF assms] by simp
qed

lemma ages_run: "ages es (fold node_step es (NewRegistry d))"
proof (induction es rule: rev_induct)
  case (snoc e es)
  then show ?case using ages_step by simp
qed (simp add: ages_def NewRegistry_def)

lemma stale_time_kept: "rg_staleAfter (node_step e r) = rg_staleAfter r"
proof (cases e)
  case (NodeSubscribe i)
  then show ?thesis using subscribe_nodes by (simp del: node_step.simps)
qed (simp_all add: StartRegistry_def preseedCoveredNodes_def applyBatch_nodes markSourceUnreachable_def markStale_def Forget_def unsubscribe_def Let_def)

lemma stale_time_run: "rg_staleAfter (fold node_step es (NewRegistry d)) = (if d = 0 then defaultStaleAfter else d)"
  by (induction es rule: rev_induct) (simp_all add: stale_time_kept NewRegistry_def)

definition stale_hosts :: "time \<Rightarrow> NodeRegistry \<Rightarrow> string list" where
  "stale_hosts now r = map fst (filter (is_stale now r) (rg_lastSeen r))"

lemma markStale_nodes: "rg_nodes (markStale now r) = fold (make_unreachable now ''node status heartbeat timeout'') (stale_hosts now r) (rg_nodes r)"
  by (simp add: markStale_def stale_hosts_def Let_def)

lemma markStale_reachable:
  assumes "SnapshotOf h (markStale now r) = Some n" "rn_Reachable n"
  shows "map_of (rg_nodes r) h = Some n" and "map_of (rg_lastSeen r) h = Some t \<Longrightarrow> time_sub now t \<le> rg_staleAfter r"
proof -
  have n: "h \<notin> set (stale_hosts now r) \<and> map_of (rg_nodes r) h = Some n"
    by (rule fold_unreachable [OF _ assms(2)]) (use assms(1) in \<open>simp add: SnapshotOf_def markStale_nodes\<close>)
  then show "map_of (rg_nodes r) h = Some n" by simp
  assume "map_of (rg_lastSeen r) h = Some t"
  then have "(h, t) \<in> set (rg_lastSeen r)" by (rule map_of_SomeD)
  then have "\<not> is_stale now r (h, t)" using n by (force simp: stale_hosts_def)
  then show "time_sub now t \<le> rg_staleAfter r" using n assms(2) by (simp add: is_stale_def)
qed

text \<open>
  C19: In any run a check of the heartbeats leaves no node reachable that was not reported within the time allowed: the
  registry of a node shown as reachable received a status of it at most this long ago.
\<close>

theorem reachable_means_recent:
  assumes "SnapshotOf h (markStale now (fold node_step es (NewRegistry d))) = Some n" and "rn_Reachable n"
  shows "\<exists>t. reported es h t \<and> time_sub now t \<le> (if d = 0 then defaultStaleAfter else d)"
proof -
  let ?r = "fold node_step es (NewRegistry d)"
  obtain t where t: "map_of (rg_lastSeen ?r) h = Some t" "reported es h t"
    using ages_run [of es d] markStale_reachable(1) [OF assms] assms(2) unfolding ages_def by blast
  with markStale_reachable(2) [OF assms t(1)] show ?thesis by (auto simp: stale_time_run)
qed

definition box_up :: RegisteredNode where
  "box_up = zero_node\<lparr>nd_HostID := ''box'', rn_Reachable := True, rn_UpdatedAt := 1\<rparr>"

definition box_reports :: "node_event list" where
  "box_reports = [NodeStart [[''box'']] 0, NodeBatch (Some 0) [box_up] second]"

theorem reachable_means_recent_witness:
  "(\<exists>t. reported box_reports ''box'' t \<and> time_sub (16 * second) t \<le> (if (0 :: duration) = 0 then defaultStaleAfter else 0)) \<and>
   map_option rn_Reachable (SnapshotOf ''box'' (markStale (17 * second) (fold node_step box_reports (NewRegistry 0)))) = Some False"
proof
  show "\<exists>t. reported box_reports ''box'' t \<and> time_sub (16 * second) t \<le> (if (0 :: duration) = 0 then defaultStaleAfter else 0)"
  proof (rule reachable_means_recent)
    show "SnapshotOf ''box'' (markStale (16 * second) (fold node_step box_reports (NewRegistry 0))) = Some box_up" by code_simp
    show "rn_Reachable box_up" by code_simp
  qed
  show "map_option rn_Reachable (SnapshotOf ''box'' (markStale (17 * second) (fold node_step box_reports (NewRegistry 0)))) = Some False"
    by code_simp
qed

section \<open>What subscribers see\<close>

definition queue_of :: "string \<Rightarrow> NodeRegistry \<Rightarrow> RegisteredNode list list option" where
  "queue_of i r = map_of (rg_subs r) i"

text \<open>The last snapshot a subscriber has been given, \<open>got\<close> being those it has received.\<close>

definition sees_present :: "string \<Rightarrow> RegisteredNode list list \<Rightarrow> NodeRegistry \<Rightarrow> bool" where
  "sees_present i got r \<longleftrightarrow> (case queue_of i r of None \<Rightarrow> False | Some q \<Rightarrow> got @ q \<noteq> [] \<and> last (got @ q) = Snapshot r)"

fun received_in :: "string \<Rightarrow> node_event \<Rightarrow> NodeRegistry \<Rightarrow> RegisteredNode list list" where
  "received_in i (NodeReceive j) r = (if j = i then (case fst (receive_snapshot i r) of None \<Rightarrow> [] | Some x \<Rightarrow> [x]) else [])"
| "received_in i _ r = []"

fun received :: "string \<Rightarrow> node_event list \<Rightarrow> NodeRegistry \<Rightarrow> RegisteredNode list list" where
  "received i [] r = []"
| "received i (e # es) r = received_in i e r @ received i es (node_step e r)"

text \<open>The channel is never full and the subscription stays.\<close>

fun keeps_up :: "string \<Rightarrow> node_event list \<Rightarrow> NodeRegistry \<Rightarrow> bool" where
  "keeps_up i [] r \<longleftrightarrow> True"
| "keeps_up i (e # es) r \<longleftrightarrow>
     (case queue_of i r of None \<Rightarrow> False | Some q \<Rightarrow> length q < 16) \<and> e \<noteq> NodeSubscribe i \<and> e \<noteq> NodeUnsubscribe i \<and> keeps_up i es (node_step e r)"

lemma queue_broadcast:
  "queue_of i (broadcastLocked r) = map_option (\<lambda>q. if length q < 16 then q @ [Snapshot r] else q) (queue_of i r)"
  unfolding queue_of_def broadcastLocked_def by (induction "rg_subs r") (auto simp: map_of_map split: if_splits)

lemma sees_broadcast: "queue_of i r = Some q \<Longrightarrow> length q < 16 \<Longrightarrow> sees_present i got (broadcastLocked r)"
  by (simp add: sees_present_def queue_broadcast Snapshot_def)

lemma sees_same: "sees_present i got r \<Longrightarrow> queue_of i r' = queue_of i r \<Longrightarrow> rg_nodes r' = rg_nodes r \<Longrightarrow> sees_present i got r'"
  by (simp add: sees_present_def Snapshot_def split: option.splits)

lemma queue_nodes [simp]: "queue_of i (r\<lparr>rg_nodes := ns\<rparr>) = queue_of i r" "queue_of i (r\<lparr>rg_nodes := ns, rg_lastSeen := ls\<rparr>) = queue_of i r"
  by (simp_all add: queue_of_def)

lemma queue_applyBatch_or:
  "applyBatch source ss now r = r \<or> (\<exists>r1. rg_subs r1 = rg_subs r \<and> applyBatch source ss now r = broadcastLocked r1)"
  using fold_status_frame [of source now ss "(r, False)"] by (auto simp: applyBatch_def case_prod_unfold Let_def)

lemma broadcastI: "rg_subs r1 = rg_subs r \<Longrightarrow> \<exists>r2. rg_subs r2 = rg_subs r \<and> broadcastLocked r1 = broadcastLocked r2"
  by blast

text \<open>A step that is not about subscriptions changes nothing or ends in a broadcast.\<close>

lemma node_step_broadcasts:
  assumes "\<And>j. e \<noteq> NodeSubscribe j \<and> e \<noteq> NodeUnsubscribe j \<and> e \<noteq> NodeReceive j"
  shows "rg_nodes (node_step e r) = rg_nodes r \<and> rg_subs (node_step e r) = rg_subs r \<or>
         (\<exists>r1. rg_subs r1 = rg_subs r \<and> node_step e r = broadcastLocked r1)"
proof (cases e)
  case (NodeStart covered now)
  then show ?thesis by (auto simp: StartRegistry_def preseedCoveredNodes_def Let_def intro!: broadcastI)
next
  case (NodeBatch source ss now)
  then show ?thesis using queue_applyBatch_or [of source ss now r] by auto
next
  case (NodeClosed source now)
  then show ?thesis by (auto simp: markSourceUnreachable_def intro!: broadcastI)
next
  case (NodeTick now)
  then show ?thesis by (auto simp: markStale_def Let_def intro!: broadcastI)
next
  case (NodeForget h)
  then show ?thesis by (auto simp: Forget_def intro!: broadcastI)
qed (use assms in auto)

lemma sees_step:
  assumes "sees_present i got r" and "queue_of i r = Some q" "length q < 16" and "e \<noteq> NodeSubscribe i" "e \<noteq> NodeUnsubscribe i"
  shows "sees_present i (got @ received_in i e r) (node_step e r)"
proof (cases "\<exists>j. e = NodeSubscribe j \<or> e = NodeUnsubscribe j \<or> e = NodeReceive j")
  case True
  then consider (sub) j where "e = NodeSubscribe j" "j \<noteq> i" | (unsub) j where "e = NodeUnsubscribe j" "j \<noteq> i"
    | (other) j where "e = NodeReceive j" "j \<noteq> i" | (own) "e = NodeReceive i" using assms(4,5) by blast
  then show ?thesis
  proof cases
    case sub
    then show ?thesis using sees_same [OF assms(1)] by (simp add: queue_of_def subscribe_register_def subscribe_send_def Snapshot_def)
  next
    case unsub
    then show ?thesis using sees_same [OF assms(1)] by (simp add: queue_of_def unsubscribe_def)
  next
    case other
    then have "queue_of i (node_step e r) = queue_of i r"
      by (auto simp: queue_of_def receive_snapshot_def split: option.splits list.splits)
    then show ?thesis using other sees_same [OF assms(1)] by simp
  next
    case own
    then show ?thesis using assms(1,2)
      by (auto simp: sees_present_def queue_of_def receive_snapshot_def Snapshot_def split: option.splits list.splits)
  qed
next
  case False
  then have n: "received_in i e r = []" by (cases e) auto
  have "rg_nodes (node_step e r) = rg_nodes r \<and> rg_subs (node_step e r) = rg_subs r \<or>
        (\<exists>r1. rg_subs r1 = rg_subs r \<and> node_step e r = broadcastLocked r1)"
    by (rule node_step_broadcasts) (use False in blast)
  then show ?thesis
  proof (elim disjE exE conjE)
    assume "rg_nodes (node_step e r) = rg_nodes r" "rg_subs (node_step e r) = rg_subs r"
    then show ?thesis using sees_same [OF assms(1)] n by (simp add: queue_of_def)
  next
    fix r1 assume "rg_subs r1 = rg_subs r" "node_step e r = broadcastLocked r1"
    then show ?thesis
      using sees_broadcast [of i r1 q] assms(2,3) by (simp add: queue_of_def)
  qed
qed


lemma box_watched: "keeps_up ''w'' (box_reports @ [NodeReceive ''w'']) (node_step (NodeSubscribe ''w'') (NewRegistry 0))"
  by code_simp


section \<open>Shortened frames\<close>

text \<open>The step forgets no node, and what it reports of this host is reachable and shows fewer deployments than these.\<close>

fun shortened :: "string \<Rightarrow> nat \<Rightarrow> node_event \<Rightarrow> bool" where
  "shortened h k (NodeBatch source ss now) \<longleftrightarrow>
     (\<forall>s \<in> set ss. nd_HostID s = h \<longrightarrow> rn_Reachable s \<and> length (nd_Deployments s) < k)"
| "shortened h k (NodeForget h') \<longleftrightarrow> h' \<noteq> h"
| "shortened h k _ \<longleftrightarrow> True"

definition knows :: "string \<Rightarrow> InstanceStatus list \<Rightarrow> NodeRegistry \<Rightarrow> bool" where
  "knows h ds r \<longleftrightarrow> (case SnapshotOf h r of None \<Rightarrow> False | Some n \<Rightarrow> nd_Deployments n = ds)"

lemma knows_iff: "knows h ds r \<longleftrightarrow> (\<exists>n. map_of (rg_nodes r) h = Some n \<and> nd_Deployments n = ds)"
  by (simp add: knows_def SnapshotOf_def split: option.splits)

lemma knows_same: "knows h ds r \<Longrightarrow> rg_nodes r' = rg_nodes r \<Longrightarrow> knows h ds r'"
  by (simp add: knows_iff)

lemma knows_unreachable: "knows h ds r \<Longrightarrow> rg_nodes r' = fold (make_unreachable now err) hs (rg_nodes r) \<Longrightarrow> knows h ds r'"
  unfolding knows_iff using fold_unreachable_deployments by fastforce

lemma knows_status:
  "knows h ds (fst rc) \<Longrightarrow> nd_HostID s = h \<longrightarrow> rn_Reachable s \<and> length (nd_Deployments s) < length ds \<Longrightarrow>
   knows h ds (fst (apply_status source now s rc))"
  by (auto simp: knows_iff apply_status_def Let_def case_prod_unfold kept_complete_def)

lemma knows_batch:
  "knows h ds (fst rc) \<Longrightarrow> shortened h (length ds) (NodeBatch source ss now) \<Longrightarrow> knows h ds (fst (fold (apply_status source now) ss rc))"
proof (induction ss arbitrary: rc)
  case (Cons s ss)
  have "knows h ds (fst (apply_status source now s rc))" by (rule knows_status) (use Cons.prems in auto)
  with Cons show ?case by simp
qed simp

lemma knows_step:
  assumes "knows h ds r" and "shortened h (length ds) e"
  shows "knows h ds (node_step e r)"
proof (cases e)
  case (NodeStart covered now)
  then show ?thesis using assms(1) by (auto simp: knows_iff StartRegistry_def preseedCoveredNodes_def Let_def)
next
  case (NodeBatch source ss now)
  then have "knows h ds (fst (fold (apply_status source now) ss (r, False)))" using knows_batch assms by simp
  then show ?thesis using NodeBatch by (simp add: knows_iff applyBatch_nodes)
next
  case (NodeClosed source now)
  show ?thesis
  proof (cases "source \<ge> length (rg_covers r) \<or> rg_covers r ! source = []")
    case True
    then show ?thesis using NodeClosed assms(1) by (simp add: markSourceUnreachable_def)
  next
    case False
    show ?thesis by (rule knows_unreachable [OF assms(1)]) (use NodeClosed False in \<open>simp add: markSourceUnreachable_def\<close>)
  qed
next
  case (NodeTick now)
  show ?thesis by (rule knows_unreachable [OF assms(1)]) (simp add: NodeTick markStale_nodes)
next
  case (NodeForget h')
  then show ?thesis using assms by (auto simp: knows_iff Forget_def)
next
  case (NodeSubscribe i)
  then show ?thesis using knows_same [OF assms(1)] subscribe_nodes by (simp del: node_step.simps)
qed (use knows_same [OF assms(1)] in \<open>simp_all add: unsubscribe_def\<close>)

text \<open>
  While a node stays reachable and reports fewer deployments than are known of it, the registry goes on showing all it
  knew: frames cut short do not make services flicker, and a deployment that was really removed is shown for as long.
\<close>

theorem shortened_frames_keep_deployments:
  assumes "knows h ds r" and "list_all (shortened h (length ds)) es"
  shows "knows h ds (fold node_step es r)"
  using assms by (induction es arbitrary: r) (auto intro: knows_step)

definition web_instance :: InstanceStatus where
  "web_instance = \<lparr>in_DeploymentID = ''d1'', in_ServiceName = ''web'', in_Ports = [8080], in_Health = HealthRunning\<rparr>"

definition web_up :: NodeRegistry where
  "web_up = fold node_step [NodeStart [[''box'']] 0, NodeBatch (Some 0) [box_up\<lparr>nd_Deployments := [web_instance]\<rparr>] second] (NewRegistry 0)"

lemma web_known: "knows ''box'' [web_instance] web_up"
  by code_simp

lemma web_removed: "list_all (shortened ''box'' (length [web_instance])) (replicate 3 (NodeBatch (Some 0) [box_up] (2 * second)))"
  by code_simp

theorem shortened_frames_keep_deployments_witness:
  "knows ''box'' [web_instance] (fold node_step (replicate 3 (NodeBatch (Some 0) [box_up] (2 * second))) web_up)"
  by (rule shortened_frames_keep_deployments [OF web_known web_removed])

text \<open>So a port that no deployment declares any more is expected by the mirror for as long.\<close>

lemma removed_port_still_expected:
  "map fst (fst (computeExpected (mirror_frame (Snapshot (fold node_step (replicate 3 (NodeBatch (Some 0) [box_up] (2 * second))) web_up)))
     [''box'' \<mapsto> \<lparr>ho_ID = ''box'', ho_Name = ''box'', ho_DevMachineMode = True\<rparr>] None [])) = [MirrorKey ''box'' ''d1'' 8080]"
  by code_simp

section \<open>Where the registry goes wrong\<close>

text \<open>
  When the stream of a transport ends, a host it covers that was forgotten before comes back as a node without
  identifier or name.
\<close>

theorem forgotten_host_returns_nameless:
  "map nd_HostID (Snapshot (fold node_step (box_reports @ [NodeForget ''box'']) (NewRegistry 0))) = [] \<and>
   map (\<lambda>n. (nd_HostID n, rn_Error n)) (Snapshot (fold node_step (box_reports @ [NodeForget ''box'', NodeClosed 0 (2 * second)]) (NewRegistry 0))) =
     [([], ''node status stream closed'')]"
  by code_simp

text \<open>A report between the two halves of a subscription: the older snapshot is the last in the channel.\<close>

definition overtaken_subscription :: "NodeRegistry \<Rightarrow> node_event \<Rightarrow> NodeRegistry option" where
  "overtaken_subscription r e = (let (initial, r1) = subscribe_register ''w'' r in subscribe_send ''w'' initial (node_step e r1))"

theorem overtaken_subscription_shows_past:
  "map_option (\<lambda>r. (map (map rn_Reachable) (the (queue_of ''w'' r)), map rn_Reachable (Snapshot r)))
     (overtaken_subscription (node_step (NodeStart [[''box'']] 0) (NewRegistry 0)) (NodeBatch (Some 0) [box_up] second)) =
   Some ([[True], [False]], [True])"
  by code_simp

end
