(* ===== verification/DebugSessions.thy ===== *)
theory DebugSessions
  imports GoJson
begin

text \<open>
  Debugging sessions (\<^verbatim>\<open>agent/debugsession/store.go\<close>): a question about a project and the events of looking into
  it, in one JSON file that is replaced by renaming. The clock, the identifiers drawn and the success of the write are
  arguments. The invariant says that the status of a session agrees with its trail of events, whatever fails.
\<close>

section \<open>Data\<close>

definition maxEventDataBytes :: nat where "maxEventDataBytes = 32 * 1024"

definition StatusOpen :: string where "StatusOpen = ''open''"
definition StatusClosed :: string where "StatusClosed = ''closed''"
definition EventNote :: string where "EventNote = ''note''"
definition EventToolCall :: string where "EventToolCall = ''tool_call''"
definition EventObservation :: string where "EventObservation = ''observation''"
definition EventLogAnalysis :: string where "EventLogAnalysis = ''log_analysis''"
definition EventStatusChange :: string where "EventStatusChange = ''status_change''"
definition ActorUser :: string where "ActorUser = ''user''"
definition ActorAssistant :: string where "ActorAssistant = ''assistant''"
definition ActorSystem :: string where "ActorSystem = ''system''"

lemmas session_words = StatusOpen_def StatusClosed_def EventNote_def EventToolCall_def EventObservation_def EventLogAnalysis_def
  EventStatusChange_def ActorUser_def ActorAssistant_def ActorSystem_def

datatype session_error = SessionNotFound | SessionIsClosed | EventTooLarge | InvalidEvent | LoadSessions | SaveSessions

record DebugSession =
  ss_ID :: string
  ss_ProjectID :: string
  ss_ProjectName :: string
  ss_EnvName :: string
  ss_ServiceID :: string
  ss_ServiceName :: string
  ss_DeploymentID :: string
  ss_Title :: string
  ss_Question :: string
  ss_Status :: string
  ss_CreatedAt :: time
  ss_UpdatedAt :: time
  ss_ClosedAt :: "time option"

type_synonym event_data = "(string \<times> json) list option"

record SessionEvent =
  sv_ID :: string
  sv_SessionID :: string
  sv_Type :: string
  sv_Actor :: string
  sv_Summary :: string
  sv_Data :: event_data
  sv_CreatedAt :: time

record SessionRequest =
  sr_ProjectID :: string
  sr_ProjectName :: string
  sr_EnvName :: string
  sr_ServiceID :: string
  sr_ServiceName :: string
  sr_DeploymentID :: string
  sr_Title :: string
  sr_Question :: string

record AppendEventRequest =
  er_Type :: string
  er_Actor :: string
  er_Summary :: string
  er_Data :: event_data

record SessionFilter =
  sf_ProjectID :: string
  sf_Status :: string
  sf_Limit :: int

record session_state =
  st_Sessions :: "DebugSession list"
  st_Events :: "SessionEvent list"

section \<open>The file\<close>

datatype session_file = NoSessions | UnreadableSessions | BlankSessions | GarbledSessions | SessionsFile session_state

definition empty_sessions :: session_state where
  "empty_sessions = \<lparr>st_Sessions = [], st_Events = []\<rparr>"

fun sessions_load :: "session_file \<Rightarrow> session_error + session_state" where
  "sessions_load NoSessions = Inr empty_sessions"
| "sessions_load UnreadableSessions = Inl LoadSessions"
| "sessions_load BlankSessions = Inr empty_sessions"
| "sessions_load GarbledSessions = Inl LoadSessions"
| "sessions_load (SessionsFile st) = Inr st"

definition sessions_save :: "bool \<Rightarrow> session_state \<Rightarrow> session_file \<Rightarrow> session_error option \<times> session_file" where
  "sessions_save ok st f = (if ok then (None, SessionsFile st) else (Some SaveSessions, f))"

section \<open>Operations\<close>

definition normalizeCreateRequest :: "SessionRequest \<Rightarrow> SessionRequest" where
  "normalizeCreateRequest q =
     \<lparr>sr_ProjectID = TrimSpace (sr_ProjectID q), sr_ProjectName = TrimSpace (sr_ProjectName q), sr_EnvName = TrimSpace (sr_EnvName q),
      sr_ServiceID = TrimSpace (sr_ServiceID q), sr_ServiceName = TrimSpace (sr_ServiceName q), sr_DeploymentID = TrimSpace (sr_DeploymentID q),
      sr_Title = TrimSpace (sr_Title q), sr_Question = TrimSpace (sr_Question q)\<rparr>"

definition new_session :: "string \<Rightarrow> time \<Rightarrow> SessionRequest \<Rightarrow> DebugSession" where
  "new_session i now q =
     \<lparr>ss_ID = i, ss_ProjectID = sr_ProjectID q, ss_ProjectName = sr_ProjectName q, ss_EnvName = sr_EnvName q, ss_ServiceID = sr_ServiceID q,
      ss_ServiceName = sr_ServiceName q, ss_DeploymentID = sr_DeploymentID q, ss_Title = sr_Title q, ss_Question = sr_Question q,
      ss_Status = StatusOpen, ss_CreatedAt = now, ss_UpdatedAt = now, ss_ClosedAt = None\<rparr>"

definition status_event :: "string \<Rightarrow> string \<Rightarrow> string \<Rightarrow> string \<Rightarrow> time \<Rightarrow> SessionEvent" where
  "status_event eid i summary status now =
     \<lparr>sv_ID = eid, sv_SessionID = i, sv_Type = EventStatusChange, sv_Actor = ActorSystem, sv_Summary = summary,
      sv_Data = Some [(''status'', JString status)], sv_CreatedAt = now\<rparr>"

definition CreateSession ::
  "bool \<Rightarrow> time \<Rightarrow> string \<Rightarrow> string \<Rightarrow> SessionRequest \<Rightarrow> session_file \<Rightarrow> (session_error + DebugSession \<times> SessionEvent) \<times> session_file" where
  "CreateSession ok now i eid q0 f =
     (let q = normalizeCreateRequest q0 in
      if sr_ProjectID q = [] \<or> sr_ProjectName q = [] \<or> sr_Title q = [] \<or> sr_Question q = [] then (Inl InvalidEvent, f)
      else case sessions_load f of
        Inl e \<Rightarrow> (Inl e, f)
      | Inr st \<Rightarrow>
          let session = new_session i now q; event = status_event eid i ''debug session opened'' StatusOpen now in
          case sessions_save ok \<lparr>st_Sessions = st_Sessions st @ [session], st_Events = st_Events st @ [event]\<rparr> f of
            (Some e, f') \<Rightarrow> (Inl e, f')
          | (None, f') \<Rightarrow> (Inr (session, event), f'))"

text \<open>A stable sort by the latest update first, then the limit.\<close>

definition ListSessions :: "SessionFilter \<Rightarrow> session_file \<Rightarrow> session_error + DebugSession list" where
  "ListSessions flt f =
     (case sessions_load f of
        Inl e \<Rightarrow> Inl e
      | Inr st \<Rightarrow>
          let p = TrimSpace (sf_ProjectID flt); status = TrimSpace (sf_Status flt);
              out = sort_key (\<lambda>s. - ss_UpdatedAt s) (filter (\<lambda>s. (p = [] \<or> ss_ProjectID s = p) \<and> (status = [] \<or> ss_Status s = status)) (st_Sessions st))
          in Inr (if sf_Limit flt > 0 then take (nat (sf_Limit flt)) out else out))"

definition findSession :: "DebugSession list \<Rightarrow> string \<Rightarrow> DebugSession option" where
  "findSession ss i = find (\<lambda>s. ss_ID s = i) ss"

definition findSessionIndex :: "DebugSession list \<Rightarrow> string \<Rightarrow> nat option" where
  "findSessionIndex ss i = find_index (\<lambda>s. ss_ID s = i) ss"

definition GetSession :: "string \<Rightarrow> int \<Rightarrow> session_file \<Rightarrow> session_error + DebugSession \<times> SessionEvent list" where
  "GetSession i limit f =
     (case sessions_load f of
        Inl e \<Rightarrow> Inl e
      | Inr st \<Rightarrow>
          (case findSession (st_Sessions st) (TrimSpace i) of
             None \<Rightarrow> Inl SessionNotFound
           | Some s \<Rightarrow>
               let events = sort_key sv_CreatedAt (filter (\<lambda>e. sv_SessionID e = ss_ID s) (st_Events st))
               in Inr (s, if limit > 0 then take (nat limit) events else events)))"

definition normalizeAppendEventRequest :: "AppendEventRequest \<Rightarrow> AppendEventRequest" where
  "normalizeAppendEventRequest q = q\<lparr>er_Type := TrimSpace (er_Type q), er_Actor := TrimSpace (er_Actor q), er_Summary := TrimSpace (er_Summary q)\<rparr>"

definition validateAppendEvent :: "AppendEventRequest \<Rightarrow> session_error option" where
  "validateAppendEvent q =
     (if er_Summary q = [] then Some InvalidEvent
      else if er_Type q \<notin> {EventNote, EventToolCall, EventObservation, EventLogAnalysis} then Some InvalidEvent
      else if er_Actor q \<notin> {ActorUser, ActorAssistant, ActorSystem} then Some InvalidEvent
      else None)"

definition ensureEventDataSize :: "event_data \<Rightarrow> session_error option" where
  "ensureEventDataSize d =
     (case d of None \<Rightarrow> None | Some kvs \<Rightarrow> if length (encode (json_map kvs)) > maxEventDataBytes then Some EventTooLarge else None)"

definition AppendSessionEvent ::
  "bool \<Rightarrow> time \<Rightarrow> string \<Rightarrow> string \<Rightarrow> AppendEventRequest \<Rightarrow> session_file \<Rightarrow> (session_error + SessionEvent) \<times> session_file" where
  "AppendSessionEvent ok now eid i q0 f =
     (let q = normalizeAppendEventRequest q0 in
      case validateAppendEvent q of Some e \<Rightarrow> (Inl e, f) | None \<Rightarrow>
      case ensureEventDataSize (er_Data q) of Some e \<Rightarrow> (Inl e, f) | None \<Rightarrow>
      case sessions_load f of Inl e \<Rightarrow> (Inl e, f) | Inr st \<Rightarrow>
      case findSessionIndex (st_Sessions st) (TrimSpace i) of None \<Rightarrow> (Inl SessionNotFound, f) | Some k \<Rightarrow>
        let s = st_Sessions st ! k in
        if ss_Status s = StatusClosed then (Inl SessionIsClosed, f)
        else let event = \<lparr>sv_ID = eid, sv_SessionID = ss_ID s, sv_Type = er_Type q, sv_Actor = er_Actor q, sv_Summary = er_Summary q,
                          sv_Data = er_Data q, sv_CreatedAt = now\<rparr>
             in case sessions_save ok \<lparr>st_Sessions = (st_Sessions st)[k := s\<lparr>ss_UpdatedAt := now\<rparr>], st_Events = st_Events st @ [event]\<rparr> f of
                  (Some e, f') \<Rightarrow> (Inl e, f')
                | (None, f') \<Rightarrow> (Inr event, f'))"

definition CloseSession ::
  "bool \<Rightarrow> time \<Rightarrow> string \<Rightarrow> string \<Rightarrow> string \<Rightarrow> session_file \<Rightarrow> (session_error + DebugSession \<times> SessionEvent option) \<times> session_file" where
  "CloseSession ok now eid i summary f =
     (case sessions_load f of Inl e \<Rightarrow> (Inl e, f) | Inr st \<Rightarrow>
      case findSessionIndex (st_Sessions st) (TrimSpace i) of None \<Rightarrow> (Inl SessionNotFound, f) | Some k \<Rightarrow>
        let s = st_Sessions st ! k in
        if ss_Status s = StatusClosed then (Inr (s, None), f)
        else let s' = s\<lparr>ss_Status := StatusClosed, ss_UpdatedAt := now, ss_ClosedAt := Some now\<rparr>;
                 closeSummary = (if TrimSpace summary = [] then ''debug session closed'' else TrimSpace summary);
                 event = status_event eid (ss_ID s) closeSummary StatusClosed now
             in case sessions_save ok \<lparr>st_Sessions = (st_Sessions st)[k := s'], st_Events = st_Events st @ [event]\<rparr> f of
                  (Some e, f') \<Rightarrow> (Inl e, f')
                | (None, f') \<Rightarrow> (Inr (s', Some event), f'))"

section \<open>Runs\<close>

datatype session_op =
    OpenSession bool time string string SessionRequest | AppendTo bool time string string AppendEventRequest | CloseIt bool time string string string

fun session_run :: "session_op list \<Rightarrow> session_file \<Rightarrow> session_file" where
  "session_run [] f = f"
| "session_run (OpenSession ok now i eid q # ops) f = session_run ops (snd (CreateSession ok now i eid q f))"
| "session_run (AppendTo ok now eid i q # ops) f = session_run ops (snd (AppendSessionEvent ok now eid i q f))"
| "session_run (CloseIt ok now eid i summary # ops) f = session_run ops (snd (CloseSession ok now eid i summary f))"

text \<open>The identifiers drawn for new sessions.\<close>

fun ids_drawn :: "session_op list \<Rightarrow> string list" where
  "ids_drawn [] = []"
| "ids_drawn (OpenSession ok now i eid q # ops) = i # ids_drawn ops"
| "ids_drawn (op # ops) = ids_drawn ops"

section \<open>The trail of a session\<close>

definition opened_by :: "DebugSession \<Rightarrow> SessionEvent \<Rightarrow> bool" where
  "opened_by s e \<longleftrightarrow> e = status_event (sv_ID e) (ss_ID s) ''debug session opened'' StatusOpen (ss_CreatedAt s)"

definition closed_by :: "DebugSession \<Rightarrow> SessionEvent \<Rightarrow> bool" where
  "closed_by s e \<longleftrightarrow> (\<exists>summary. summary \<noteq> [] \<and> ss_ClosedAt s = Some (sv_CreatedAt e) \<and> e = status_event (sv_ID e) (ss_ID s) summary StatusClosed (sv_CreatedAt e))"

text \<open>The opening, then what users and assistants noted, then, when it is closed, the closing and nothing after it.\<close>

definition trail :: "DebugSession \<Rightarrow> SessionEvent list \<Rightarrow> bool" where
  "trail s es \<longleftrightarrow>
     (\<exists>e mid. opened_by s e \<and> list_all (\<lambda>m. sv_Type m \<noteq> EventStatusChange) mid \<and>
        (ss_Status s = StatusOpen \<and> ss_ClosedAt s = None \<and> es = e # mid \<or>
         ss_Status s = StatusClosed \<and> (\<exists>c. closed_by s c \<and> es = e # mid @ [c])))"

definition events_of :: "string \<Rightarrow> session_state \<Rightarrow> SessionEvent list" where
  "events_of i st = filter (\<lambda>e. sv_SessionID e = i) (st_Events st)"

definition trails_ok :: "session_state \<Rightarrow> bool" where
  "trails_ok st \<longleftrightarrow>
     distinct (map ss_ID (st_Sessions st)) \<and> (\<forall>s \<in> set (st_Sessions st). trail s (events_of (ss_ID s) st)) \<and>
     (\<forall>e \<in> set (st_Events st). sv_SessionID e \<in> ss_ID ` set (st_Sessions st))"

lemma open_not_closed [simp]: "StatusOpen \<noteq> StatusClosed"
  by (simp add: session_words)

lemma trail_note: "trail s es \<Longrightarrow> ss_Status s \<noteq> StatusClosed \<Longrightarrow> sv_Type e \<noteq> EventStatusChange \<Longrightarrow> trail (s\<lparr>ss_UpdatedAt := now\<rparr>) (es @ [e])"
  unfolding trail_def opened_by_def by (fastforce simp: list_all_append)

lemma trail_close:
  "trail s es \<Longrightarrow> ss_Status s \<noteq> StatusClosed \<Longrightarrow> summary \<noteq> [] \<Longrightarrow>
   trail (s\<lparr>ss_Status := StatusClosed, ss_UpdatedAt := now, ss_ClosedAt := Some now\<rparr>) (es @ [status_event eid (ss_ID s) summary StatusClosed now])"
  unfolding trail_def opened_by_def closed_by_def by (fastforce simp: status_event_def)

lemma status_event_session [simp]: "sv_SessionID (status_event eid i summary status now) = i"
  by (simp add: status_event_def)

lemma trails_update:
  assumes ok: "trails_ok st" and k: "k < length (st_Sessions st)" and i: "ss_ID s' = ss_ID (st_Sessions st ! k)"
    and e: "sv_SessionID e = ss_ID s'" and t: "trail s' (events_of (ss_ID s') st @ [e])"
  shows "trails_ok \<lparr>st_Sessions = (st_Sessions st)[k := s'], st_Events = st_Events st @ [e]\<rparr>"
proof -
  let ?st = "\<lparr>st_Sessions = (st_Sessions st)[k := s'], st_Events = st_Events st @ [e]\<rparr>"
  have ids: "map ss_ID ((st_Sessions st)[k := s']) = map ss_ID (st_Sessions st)"
    using k i by (simp add: map_update list_update_same_conv)
  have "trail x (events_of (ss_ID x) ?st)" if mem: "x \<in> set ((st_Sessions st)[k := s'])" for x
  proof -
    obtain j where "j < length ((st_Sessions st)[k := s'])" and x': "(st_Sessions st)[k := s'] ! j = x"
      using mem unfolding in_set_conv_nth by blast
    then have j: "j < length (st_Sessions st)" "x = (st_Sessions st)[k := s'] ! j" by simp_all
    show ?thesis
    proof (cases "j = k")
      case True
      then show ?thesis using j k e t by (simp add: events_of_def)
    next
      case False
      then have x: "x = st_Sessions st ! j" using j by simp
      have "ss_ID x \<noteq> ss_ID s'"
        using ok False j(1) k i x by (simp add: trails_ok_def distinct_conv_nth)
      then have "events_of (ss_ID x) ?st = events_of (ss_ID x) st" using e by (simp add: events_of_def)
      then show ?thesis using ok j(1) x by (simp add: trails_ok_def)
    qed
  qed
  moreover have "ss_ID ` set ((st_Sessions st)[k := s']) = ss_ID ` set (st_Sessions st)" using ids by (metis set_map)
  ultimately show ?thesis
    using ok ids e k i by (auto simp: trails_ok_def)
qed

lemma trails_open:
  assumes ok: "trails_ok st" and new: "i \<notin> ss_ID ` set (st_Sessions st)"
  shows "trails_ok \<lparr>st_Sessions = st_Sessions st @ [new_session i now q], st_Events = st_Events st @ [status_event eid i ''debug session opened'' StatusOpen now]\<rparr>"
    (is "trails_ok ?st")
proof -
  have none: "events_of i st = []" using ok new by (force simp: trails_ok_def events_of_def filter_empty_conv)
  have "trail (new_session i now q) (events_of i ?st)"
    using none by (simp add: trail_def events_of_def opened_by_def new_session_def status_event_def)
  moreover have "events_of (ss_ID s) ?st = events_of (ss_ID s) st" if "s \<in> set (st_Sessions st)" for s
    using that new by (auto simp: events_of_def status_event_def)
  ultimately show ?thesis
    using ok new by (auto simp: trails_ok_def new_session_def status_event_def)
qed

text \<open>What a file holds: it can be read, its trails are right, and its sessions have these identifiers at most.\<close>

definition file_ok :: "string set \<Rightarrow> session_file \<Rightarrow> bool" where
  "file_ok ids f \<longleftrightarrow> (\<exists>st. sessions_load f = Inr st \<and> trails_ok st \<and> ss_ID ` set (st_Sessions st) \<subseteq> ids)"

lemma file_ok_saved:
  "file_ok ids f \<Longrightarrow> trails_ok st \<Longrightarrow> ss_ID ` set (st_Sessions st) \<subseteq> ids \<Longrightarrow> file_ok ids (snd (sessions_save ok st f))"
  by (auto simp: file_ok_def sessions_save_def)

lemma save_result [simp]:
  "snd (case p of (None, f') \<Rightarrow> (Inr x, f') | (Some e, f') \<Rightarrow> (Inl e, f')) = snd p"
  by (auto split: prod.splits option.splits)

lemma file_ok_more: "file_ok ids f \<Longrightarrow> ids \<subseteq> ids' \<Longrightarrow> file_ok ids' f"
  by (fastforce simp: file_ok_def)

lemma update_ids: "k < length ss \<Longrightarrow> ss_ID s' = ss_ID (ss ! k) \<Longrightarrow> ss_ID ` set (ss[k := s']) = ss_ID ` set ss"
  by (metis list_update_id map_update set_map)

lemma create_ok:
  assumes "file_ok ids f" and "i \<notin> ids"
  shows "file_ok (insert i ids) (snd (CreateSession ok now i eid q f))"
proof -
  obtain st where st: "sessions_load f = Inr st" "trails_ok st" "ss_ID ` set (st_Sessions st) \<subseteq> ids"
    using assms(1) by (auto simp: file_ok_def)
  let ?q = "normalizeCreateRequest q"
  let ?st = "\<lparr>st_Sessions = st_Sessions st @ [new_session i now ?q], st_Events = st_Events st @ [status_event eid i ''debug session opened'' StatusOpen now]\<rparr>"
  have "trails_ok ?st" by (rule trails_open [OF st(2)]) (use st(3) assms(2) in auto)
  moreover have "ss_ID ` set (st_Sessions ?st) \<subseteq> insert i ids" using st(3) by (auto simp: new_session_def)
  ultimately have "file_ok (insert i ids) (snd (sessions_save ok ?st f))"
    by (intro file_ok_saved file_ok_more [OF assms(1)]) auto
  then show ?thesis
    using file_ok_more [OF assms(1) subset_insertI [of ids i]] st(1) by (simp add: CreateSession_def Let_def)
qed

lemma append_ok:
  assumes "file_ok ids f"
  shows "file_ok ids (snd (AppendSessionEvent ok now eid i q f))"
proof -
  obtain st where st: "sessions_load f = Inr st" "trails_ok st" "ss_ID ` set (st_Sessions st) \<subseteq> ids"
    using assms by (auto simp: file_ok_def)
  let ?q = "normalizeAppendEventRequest q"
  have "file_ok ids (snd (sessions_save ok \<lparr>st_Sessions = (st_Sessions st)[k := (st_Sessions st ! k)\<lparr>ss_UpdatedAt := now\<rparr>], st_Events = st_Events st @
        [\<lparr>sv_ID = eid, sv_SessionID = ss_ID (st_Sessions st ! k), sv_Type = er_Type ?q, sv_Actor = er_Actor ?q, sv_Summary = er_Summary ?q,
          sv_Data = er_Data ?q, sv_CreatedAt = now\<rparr>]\<rparr> f))"
    if k: "findSessionIndex (st_Sessions st) (TrimSpace i) = Some k" and o: "ss_Status (st_Sessions st ! k) \<noteq> StatusClosed"
      and v: "validateAppendEvent ?q = None" for k
  proof -
    have l: "k < length (st_Sessions st)" using find_index_SomeD k by (auto simp: findSessionIndex_def)
    have "er_Type ?q \<noteq> EventStatusChange" using v by (auto simp: validateAppendEvent_def session_words split: if_splits)
    moreover have "trail (st_Sessions st ! k) (events_of (ss_ID (st_Sessions st ! k)) st)" using st(2) l by (simp add: trails_ok_def)
    ultimately show ?thesis
      by (intro file_ok_saved [OF assms] trails_update [OF st(2) l])
        (use o l st(3) in \<open>auto intro!: trail_note simp: update_ids\<close>)
  qed
  then show ?thesis
    using assms st(1) by (simp add: AppendSessionEvent_def Let_def split: option.splits)
qed

lemma close_ok:
  assumes "file_ok ids f"
  shows "file_ok ids (snd (CloseSession ok now eid i summary f))"
proof -
  obtain st where st: "sessions_load f = Inr st" "trails_ok st" "ss_ID ` set (st_Sessions st) \<subseteq> ids"
    using assms by (auto simp: file_ok_def)
  have "file_ok ids (snd (sessions_save ok \<lparr>st_Sessions = (st_Sessions st)[k := (st_Sessions st ! k)\<lparr>ss_Status := StatusClosed, ss_UpdatedAt := now, ss_ClosedAt := Some now\<rparr>],
        st_Events = st_Events st @ [status_event eid (ss_ID (st_Sessions st ! k)) c StatusClosed now]\<rparr> f))"
    if k: "findSessionIndex (st_Sessions st) (TrimSpace i) = Some k" and o: "ss_Status (st_Sessions st ! k) \<noteq> StatusClosed" and c: "c \<noteq> []" for k c
  proof -
    have l: "k < length (st_Sessions st)" using find_index_SomeD k by (auto simp: findSessionIndex_def)
    have "trail (st_Sessions st ! k) (events_of (ss_ID (st_Sessions st ! k)) st)" using st(2) l by (simp add: trails_ok_def)
    then show ?thesis
      by (intro file_ok_saved [OF assms] trails_update [OF st(2) l])
        (use o c l st(3) in \<open>auto intro!: trail_close simp: update_ids\<close>)
  qed
  then show ?thesis
    using assms st(1) by (simp add: CloseSession_def Let_def split: option.splits)
qed

lemma sessions_run_ok: "file_ok ids f \<Longrightarrow> distinct (ids_drawn ops) \<Longrightarrow> ids \<inter> set (ids_drawn ops) = {} \<Longrightarrow> \<exists>ids'. file_ok ids' (session_run ops f)"
proof (induction ops f arbitrary: ids rule: session_run.induct)
  case (2 ok now i eid q ops f)
  have "file_ok (insert i ids) (snd (CreateSession ok now i eid q f))" by (rule create_ok) (use "2.prems" in auto)
  then show ?case using "2.IH" "2.prems" by auto
next
  case (3 ok now eid i q ops f)
  then show ?case using append_ok by fastforce
next
  case (4 ok now eid i summary ops f)
  then show ?case using close_ok by fastforce
qed auto

text \<open>
  C25: Whatever is opened, noted and closed and whichever writes fail, the file can be read, identifiers are unique and the
  status of each session agrees with its trail: an opening at its creation, then notes of users and assistants, and
  exactly when it is closed one closing event, at the time of closing and with nothing after it.
\<close>

theorem sessions_agree_with_trails:
  assumes "distinct (ids_drawn ops)"
  shows "\<exists>st. sessions_load (session_run ops NoSessions) = Inr st \<and> trails_ok st"
proof -
  have "file_ok {} NoSessions" by (simp add: file_ok_def empty_sessions_def trails_ok_def)
  then show ?thesis using sessions_run_ok [of "{}" NoSessions ops] assms by (auto simp: file_ok_def)
qed

section \<open>Closed sessions\<close>

definition history :: "string \<Rightarrow> session_state \<Rightarrow> DebugSession option \<times> SessionEvent list" where
  "history i st = (findSession (st_Sessions st) i, events_of i st)"

lemma find_update_other: "\<not> P (xs ! k) \<Longrightarrow> \<not> P y \<Longrightarrow> find P (xs[k := y]) = find P xs"
proof (induction xs arbitrary: k)
  case (Cons x xs)
  then show ?case by (cases k) auto
qed simp

lemma history_update:
  assumes "ss_ID (st_Sessions st ! k) \<noteq> i" "ss_ID s' \<noteq> i" "sv_SessionID e \<noteq> i"
  shows "history i \<lparr>st_Sessions = (st_Sessions st)[k := s'], st_Events = st_Events st @ [e]\<rparr> = history i st"
  using assms by (simp add: history_def findSession_def events_of_def find_update_other)

lemma history_open:
  assumes "history i st = (Some s, es)" "j \<noteq> i"
  shows "history i \<lparr>st_Sessions = st_Sessions st @ [new_session j now q], st_Events = st_Events st @ [status_event eid j m v now']\<rparr> = (Some s, es)"
  using assms by (auto simp: history_def findSession_def events_of_def find_Some_iff nth_append new_session_def)

definition shows_closed :: "string \<Rightarrow> DebugSession \<Rightarrow> SessionEvent list \<Rightarrow> session_file \<Rightarrow> bool" where
  "shows_closed i s es f \<longleftrightarrow> ss_Status s = StatusClosed \<and> (\<exists>st. sessions_load f = Inr st \<and> history i st = (Some s, es))"

lemma shows_closed_saved:
  "shows_closed i s es f \<Longrightarrow> history i st = (Some s, es) \<Longrightarrow> shows_closed i s es (snd (sessions_save ok st f))"
  by (auto simp: shows_closed_def sessions_save_def)

lemma open_at_other:
  assumes "history i st = (Some s, es)" "ss_Status s = StatusClosed" "findSessionIndex (st_Sessions st) j = Some k"
    and "ss_Status (st_Sessions st ! k) \<noteq> StatusClosed"
  shows "ss_ID (st_Sessions st ! k) \<noteq> i"
proof
  assume i: "ss_ID (st_Sessions st ! k) = i"
  obtain m where m: "m < length (st_Sessions st)" "ss_ID (st_Sessions st ! m) = i" "s = st_Sessions st ! m" "\<forall>n<m. ss_ID (st_Sessions st ! n) \<noteq> i"
    using assms(1) by (auto simp: history_def findSession_def find_Some_iff)
  have k: "k < length (st_Sessions st)" "ss_ID (st_Sessions st ! k) = j" "\<forall>n<k. ss_ID (st_Sessions st ! n) \<noteq> j"
    using find_index_SomeD assms(3) unfolding findSessionIndex_def by blast+
  have "k = m" using m k i by (metis linorder_neqE_nat)
  with m(3) assms(2,4) show False by simp
qed

lemma closed_append: "shows_closed i s es f \<Longrightarrow> shows_closed i s es (snd (AppendSessionEvent ok now eid j q f))"
proof -
  assume a: "shows_closed i s es f"
  then obtain st where st: "sessions_load f = Inr st" "history i st = (Some s, es)" "ss_Status s = StatusClosed" by (auto simp: shows_closed_def)
  show ?thesis
    using a st open_at_other [OF st(2,3)]
    by (auto simp: AppendSessionEvent_def Let_def history_update split: option.splits intro!: shows_closed_saved)
qed

lemma closed_close: "shows_closed i s es f \<Longrightarrow> shows_closed i s es (snd (CloseSession ok now eid j summary f))"
proof -
  assume a: "shows_closed i s es f"
  then obtain st where st: "sessions_load f = Inr st" "history i st = (Some s, es)" "ss_Status s = StatusClosed" by (auto simp: shows_closed_def)
  show ?thesis
    using a st open_at_other [OF st(2,3)]
    by (auto simp: CloseSession_def Let_def history_update split: option.splits intro!: shows_closed_saved)
qed

lemma closed_create: "shows_closed i s es f \<Longrightarrow> j \<noteq> i \<Longrightarrow> shows_closed i s es (snd (CreateSession ok now j eid q f))"
proof -
  assume a: "shows_closed i s es f" "j \<noteq> i"
  then obtain st where st: "sessions_load f = Inr st" "history i st = (Some s, es)" by (auto simp: shows_closed_def)
  show ?thesis
    using a st by (auto simp: CreateSession_def Let_def history_open intro!: shows_closed_saved)
qed

lemma shows_closed_read:
  assumes "shows_closed (TrimSpace i) s es f"
  shows "GetSession i limit f = Inr (s, if limit > 0 then take (nat limit) (sort_key sv_CreatedAt es) else sort_key sv_CreatedAt es)"
proof -
  obtain st where st: "sessions_load f = Inr st" "findSession (st_Sessions st) (TrimSpace i) = Some s" "events_of (TrimSpace i) st = es"
    using assms by (auto simp: shows_closed_def history_def)
  then have "ss_ID s = TrimSpace i" by (auto simp: findSession_def find_Some_iff)
  with st show ?thesis by (simp add: GetSession_def events_of_def)
qed

text \<open>
  A closed session is final: whatever is opened, noted and closed afterwards, reading it returns the same record and
  the same events.
\<close>

theorem closed_session_final:
  assumes "GetSession i limit f = Inr (s, es)" and "ss_Status s = StatusClosed" and "TrimSpace i \<notin> set (ids_drawn ops)"
  shows "GetSession i limit (session_run ops f) = Inr (s, es)"
proof -
  obtain all where c: "shows_closed (TrimSpace i) s all f"
    using assms(1,2) by (auto simp: GetSession_def shows_closed_def history_def Let_def split: sum.splits option.splits)
  have "shows_closed (TrimSpace i) s all (session_run ops f)"
    using c assms(3)
  proof (induction ops f rule: session_run.induct)
    case (2 ok now j eid q ops f)
    then have "shows_closed (TrimSpace i) s all (snd (CreateSession ok now j eid q f))" by (intro closed_create) auto
    with 2 show ?case by simp
  qed (auto intro: closed_append closed_close)
  then have "GetSession i limit (session_run ops f) = GetSession i limit f"
    using c shows_closed_read by simp
  with assms(1) show ?thesis by simp
qed

definition why :: SessionRequest where
  "why = \<lparr>sr_ProjectID = ''p'', sr_ProjectName = ''shop'', sr_EnvName = [], sr_ServiceID = [], sr_ServiceName = [], sr_DeploymentID = [],
     sr_Title = ''slow'', sr_Question = ''why''\<rparr>"

definition a_note :: AppendEventRequest where
  "a_note = \<lparr>er_Type = EventNote, er_Actor = ActorUser, er_Summary = ''cache'', er_Data = None\<rparr>"

definition opened_and_closed :: "session_op list" where
  "opened_and_closed = [OpenSession True 1 ''ds_1'' ''dse_1'' why, AppendTo True 2 ''dse_2'' ''ds_1'' a_note, AppendTo False 3 ''dse_3'' ''ds_1'' a_note,
     CloseIt True 4 ''dse_4'' ''ds_1'' []]"

lemma opened_and_closed_drawn: "distinct (ids_drawn opened_and_closed)"
  by code_simp

theorem sessions_agree_with_trails_witness:
  "\<exists>st. sessions_load (session_run opened_and_closed NoSessions) = Inr st \<and> trails_ok st"
  by (rule sessions_agree_with_trails [OF opened_and_closed_drawn])

theorem closed_session_final_witness:
  "map_sum id (\<lambda>(s, es). (ss_ClosedAt s, map sv_Summary es))
     (GetSession ''ds_1'' 0 (session_run [AppendTo True 5 ''dse_5'' ''ds_1'' a_note, CloseIt True 6 ''dse_6'' ''ds_1'' []] (session_run opened_and_closed NoSessions))) =
   Inr (Some 4, [''debug session opened'', ''cache'', ''debug session closed''])"
proof -
  let ?f = "session_run opened_and_closed NoSessions"
  have shown: "map_sum id (\<lambda>(s, es). (ss_Status s, ss_ClosedAt s, map sv_Summary es)) (GetSession ''ds_1'' 0 ?f) =
      Inr (StatusClosed, Some 4, [''debug session opened'', ''cache'', ''debug session closed''])"
    by code_simp
  then obtain s es where s: "GetSession ''ds_1'' 0 ?f = Inr (s, es)" "ss_Status s = StatusClosed"
    "ss_ClosedAt s = Some 4" "map sv_Summary es = [''debug session opened'', ''cache'', ''debug session closed'']"
    by (cases "GetSession ''ds_1'' 0 ?f") auto
  have "GetSession ''ds_1'' 0 (session_run [AppendTo True 5 ''dse_5'' ''ds_1'' a_note, CloseIt True 6 ''dse_6'' ''ds_1'' []] ?f) = Inr (s, es)"
    by (rule closed_session_final [OF s(1,2)]) simp
  with s(3,4) show ?thesis by simp
qed

end
