(* ===== verification/Spec2Isabelle.thy ===== *)
theory Spec2Isabelle
  imports ApprovalRefinement AuditStore GraceStore OperationSafety PipelineTasks LeaseClaims DryRun RedisSlots LogClaims SourceRegistry AdoptionClaims MirrorClaims DebugScopes NodeRegistry DebugSessions
begin

text \<open>
  A verification library of the super-dev agent, the Go program under \<^verbatim>\<open>src/agent\<close>: a daemon beside the
  services of a developer, which starts and observes them, runs their pipelines, lends them databases and lets
  control planes (the desktop, the cloud, an assistant) operate them under approval.

  What is modelled, by the part of the program it belongs to.

  \<^item> Operations under approval (\<^verbatim>\<open>operation/\<close>). \<open>OperationTypes\<close> holds the data of
    \<^verbatim>\<open>types.go\<close>. \<open>Policy\<close> holds the planners of \<^verbatim>\<open>policy.go\<close>: what an operation would do, its
    risk, whether it needs an approval, and the fingerprint over its JSON (\<open>GoJson\<close>, \<open>Sha256\<close>).
    \<open>ApprovalStore\<close>, \<open>AuditStore\<close> and \<open>GraceStore\<close> hold the three file stores
    (\<^verbatim>\<open>store.go\<close>, \<^verbatim>\<open>grace.go\<close>). A gateway plans an operation, files an approval for the fingerprint,
    a control plane decides it, a token is issued and redeemed, and the audit trail records both ends.
    \<open>ApprovalLifecycle\<close>, \<open>ApprovalRuns\<close> and \<open>ApprovalSafety\<close> prove the life of a record, of all
    records of a run, and the invariant of the reachable stores; \<open>ApprovalRefinement\<close> states the life cycle
    abstractly, five phases and five moves, and refines it; \<open>PolicyClaims\<close> has the decision tables and the
    fingerprints; \<open>OperationSafety\<close> joins planners and store: a token executes what was approved.
  \<^item> Pipelines (\<^verbatim>\<open>pipeline/\<close>, \<^verbatim>\<open>template/vars.go\<close>, \<^verbatim>\<open>model/pipeline.go\<close>).
    \<open>PipelineDag\<close> orders the steps of a phase, \<open>PipelinePlan\<close> builds and checks a plan,
    \<open>PipelineEngine\<close> runs it: phases, dependencies, run conditions, targets, batches of tasks, retries.
    \<open>PipelineRuns\<close>, \<open>PipelineClaims\<close>, \<open>PipelineSafety\<close> and \<open>PipelineTasks\<close> prove that a run
    settles every step, executes none whose needs did not succeed, skips the deployment of a failed build, and that
    neither the schedule of the goroutines nor the mode of concurrency changes its result.
  \<^item> Leases of databases (\<^verbatim>\<open>dbprovision/\<close>, \<^verbatim>\<open>store/provision.go\<close>). \<open>ProvisionStore\<close> holds the
    two tables and their indexes, \<open>LeaseManager\<close> the manager over them and over the provisioners, \<open>DryRun\<close> its rehearsal,
    \<open>RedisSlots\<close> the Redis provisioner, \<open>ResourceNames\<close> the names, \<open>SourceRegistry\<close> the registered
    servers. \<open>LeaseSafety\<close> and \<open>LeaseClaims\<close> prove that slots are not shared, that a failed request leaves
    nothing, quotas, and the rounds of the reaper; \<open>SourceRegistry\<close> that the registry finds what it holds.
  \<^item> Logs (\<^verbatim>\<open>logparse/\<close>, \<^verbatim>\<open>logbuf/\<close>, the log table of \<^verbatim>\<open>store/store.go\<close>). \<open>LogText\<close> has
    the signature and the level of a line, on the regular expressions of \<open>GoRegexp\<close>; \<open>LogFold\<close> the folding of
    repeated lines, \<open>LogBuffer\<close> the ring with its subscribers and batches, \<open>LogStore\<close> the table.
    \<open>LogRing\<close> specifies the ring by the unbounded log it shows the end of, \<open>LogBooks\<close> counts the lines up
    to the table, \<open>LogClaims\<close> states what follows.
  \<^item> Credentials (\<^verbatim>\<open>security/\<close>, \<^verbatim>\<open>api/security_handler.go\<close>). \<open>CredentialStore\<close> holds the bootstrap and
    the long-term tokens, the file they are kept in, and the gate in front of the API; \<open>Adoption\<close> the requests
    of control planes without a credential. \<open>CredentialClaims\<close> and \<open>AdoptionClaims\<close> prove where a credential
    can come from, what a restart, a reinstallation and a revocation do to it, and that every step of an adoption
    happens once.
  \<^item> Tunnels and mirrored ports (\<^verbatim>\<open>tunnel/\<close>, \<^verbatim>\<open>portmirror/\<close>). \<open>HostKeys\<close> has the pins of host keys (with the
    base64 they are written in), the verifier of the handshake and the production dialer; \<open>Tunnels\<close> the manager of
    connections, its calls cut where they leave the lock, and the forwards of a tunnel. \<open>TunnelClaims\<close> proves that
    ports are handed out only for pinned hosts, that overtaken dials are dropped and that no tunnel is leaked.
    \<open>PortMirror\<close> holds the reconciler that forwards declared ports; \<open>MirrorRounds\<close> analyses a round over
    any tunnel controller (a locale), \<open>MirrorClaims\<close> interprets it on the tunnels and proves what runs of both
    promise, with the one exception found: a port that changes hands is lost for a round.
  \<^item> Debugging credentials (\<^verbatim>\<open>debugcredential/\<close>, \<^verbatim>\<open>api/handler_debug_credentials.go\<close>,
    \<^verbatim>\<open>api/debug_credential_scope_lifecycle.go\<close>). \<open>DebugCredentials\<close> has the leases of secrets that live
    in memory and the merging of layers, with the store that never purges as its specification; \<open>DebugScopes\<close> the
    endpoints, the replacements of projects that revoke leases, and the proofs that only what a selector may see is
    served and that no lease outlives its project or service, except after a migration that races a replacement.
  \<^item> Nodes and debugging sessions (\<^verbatim>\<open>noderegistry/\<close>, \<^verbatim>\<open>debugsession/\<close>). \<open>NodeRegistry\<close> merges
    the reports of the transports into one picture, which the mirror of ports reads: nodes that stop reporting are shown
    as unreachable, and subscribers that keep up see the present. \<open>DebugSessions\<close> keeps sessions and their events in
    one file: the status of a session agrees with its trail, and a closed one is final.

  How state and effects are rendered. A struct is a record, an operation a function of it that returns the
  result and the new record; code under a mutex is one step, and where the code leaves the lock (probing a data source,
  sending to subscribers) it is two. What is outside is an argument: clocks, random bytes and identifiers, the outcome
  of a write and what a failed one leaves, the answers of databases and plugins, the order in which a range visits a map.
  A Go string is its bytes; time is an integer of nanoseconds and a difference of times saturates as Go's does.
  Runs are lists of events or step relations over them, so that interleavings are their orders. Interfaces are locales:
  a JSON file (\<open>Prelude\<close>), a property of single approvals lifted to runs (\<open>ApprovalRuns\<close>), the ledger a
  granting path appends to (\<open>CredentialClaims\<close>), occurrences that pay for one another (\<open>AdoptionClaims\<close>),
  and others beside the components they belong to, each interpreted on the model.

  Bounds and fuel. The worklist of \<^verbatim>\<open>ValidateDAG\<close> has one unit of fuel for each step and one more, which is proved
  never to be used up; batches and retries are recursions over what is left of them, with their measures; a slot
  reservation is tried three times, as in the code. Counters of lines, sequence numbers and writes are natural numbers:
  they are 64 bits wide in the code and grow by one. The generation of a host is a 64-bit word, and what depends on it
  says so. A call of \<^verbatim>\<open>EnsureConnected\<close> that does not return is the value \<open>None\<close>.

  Not modelled. Of these parts: progress events and callbacks, which only report; the resolution of templates and roles
  of a project; the tickers that call the reaper and the flush loop; schema migrations and the search of logs; TLS
  certificates. Of the rest of the agent: its HTTP routes and the MCP tools, which decode requests and call these parts
  and others; the supervision of processes, SSH, debuggers and browsers, whose behaviour is that of the operating system
  and of other programs; ingress providers, which call remote services; the validation and smoke commands, which are
  tests. Copying bytes through a forward, scanning host keys and looking up the process on a port are outside too.
\<close>

end
